(* ===== verification/Go_Prelude.thy ===== *)
theory Go_Prelude
  imports Main "HOL-Library.AList" "HOL-Library.Signed_Division" "HOL-Library.Char_ord"
    "HOL-Library.List_Lexorder" "HOL-Library.Multiset" "HOL-Library.Sublist"
begin

text \<open>
  The shared prelude: the parts of the Go language the modelled packages use, with the
  lemmas the component theories share.
  \<^item> results: an operation that returns \<open>(T, error)\<close> is a value of \<open>'e + 'a\<close>, written with the
    abbreviations \<open>Err\<close> and \<open>Ok\<close>;
  \<^item> \<open>int64\<close> arithmetic: integers with the two's complement wrap-around written out (\<open>i64\<close>);
    Go's remainder truncates towards zero (\<open>smod\<close> of the library);
  \<^item> maps: a Go map is an association list with distinct keys; its order stands for the
    unspecified iteration order, so no property depends on it;
  \<^item> \<open>sort.Slice\<close>, \<open>sort.Search\<close> and the functions of package \<open>strings\<close> that the code calls.
\<close>

named_theorems go_simps \<open>unfolding rules of the Go prelude\<close>
named_theorems go_intros \<open>introduction rules for the invariants of the components\<close>

section \<open>Results\<close>

abbreviation Ok :: "'a \<Rightarrow> 'e + 'a" where "Ok \<equiv> Inr"
abbreviation Err :: "'e \<Rightarrow> 'e + 'a" where "Err \<equiv> Inl"

text \<open>A loop that calls a fallible step on each element and stops at the first error.\<close>

fun map_res :: "('a \<Rightarrow> 'e + 'b) \<Rightarrow> 'a list \<Rightarrow> 'e + 'b list" where
  "map_res f [] = Ok []"
| "map_res f (x # xs) =
     (case f x of Err e \<Rightarrow> Err e
      | Ok y \<Rightarrow> (case map_res f xs of Err e \<Rightarrow> Err e | Ok ys \<Rightarrow> Ok (y # ys)))"

lemma map_res_total: "(\<And>x. x \<in> set xs \<Longrightarrow> f x = Ok (g x)) \<Longrightarrow> map_res f xs = Ok (map g xs)"
  by (induction xs) auto

lemma map_res_Ok_length: "map_res f xs = Ok ys \<Longrightarrow> length ys = length xs"
  by (induction xs arbitrary: ys) (auto split: sum.splits)

lemma map_res_Ok_iff: "map_res f xs = Ok ys \<longleftrightarrow> list_all2 (\<lambda>x y. f x = Ok y) xs ys"
proof (induction xs arbitrary: ys)
  case (Cons x xs)
  show ?case
    by (cases "f x"; cases "map_res f xs") (auto simp: list_all2_Cons1 Cons.IH [symmetric])
qed auto

section \<open>Signed 64-bit arithmetic\<close>

definition i64 :: "int \<Rightarrow> int" where
  "i64 x = (x + 2 ^ 63) mod 2 ^ 64 - 2 ^ 63"

definition is_i64 :: "int \<Rightarrow> bool" where
  "is_i64 x \<longleftrightarrow> - (2 ^ 63) \<le> x \<and> x < 2 ^ 63"

lemma i64_id [simp]: "is_i64 x \<Longrightarrow> i64 x = x"
  by (simp add: i64_def is_i64_def)

lemma is_i64_i64 [simp, intro]: "is_i64 (i64 x)"
  by (simp add: i64_def is_i64_def)

lemma i64_range: "- (2 ^ 63) \<le> i64 x" "i64 x < 2 ^ 63"
  using is_i64_i64 [of x] by (auto simp: is_i64_def)

lemma is_i64_between: "is_i64 a \<Longrightarrow> is_i64 b \<Longrightarrow> a \<le> x \<Longrightarrow> x \<le> b \<Longrightarrow> is_i64 x"
  by (simp add: is_i64_def)

lemma smod_nonneg: "0 \<le> (a::int) \<Longrightarrow> 0 < b \<Longrightarrow> a smod b = a mod b"
  by (simp add: signed_modulo_int_def signed_divide_int_def sgn_if minus_mult_div_eq_mod)

lemma smod_nonneg_bounds:
  assumes "0 \<le> (a::int)" and "0 < b"
  shows "0 \<le> a smod b" "a smod b < b" "a smod b \<le> a"
  using assms by (simp_all add: smod_nonneg zmod_le_nonneg_dividend)

lemma dvd_minus_smod: "0 \<le> (a::int) \<Longrightarrow> 0 < b \<Longrightarrow> b dvd a - a smod b"
  by (simp add: smod_nonneg)

section \<open>Maps\<close>

text \<open>Assignment \<open>m[k] = v\<close>, \<open>delete(m, k)\<close> and lookup of a Go map.\<close>

abbreviation gm_put :: "'k \<Rightarrow> 'v \<Rightarrow> ('k \<times> 'v) list \<Rightarrow> ('k \<times> 'v) list" where
  "gm_put \<equiv> AList.update"

abbreviation gm_del :: "'k \<Rightarrow> ('k \<times> 'v) list \<Rightarrow> ('k \<times> 'v) list" where
  "gm_del \<equiv> AList.delete"

abbreviation gm_keys :: "('k \<times> 'v) list \<Rightarrow> 'k list" where
  "gm_keys m \<equiv> map fst m"

abbreviation gm_vals :: "('k \<times> 'v) list \<Rightarrow> 'v list" where
  "gm_vals m \<equiv> map snd m"

abbreviation gm_ok :: "('k \<times> 'v) list \<Rightarrow> bool" where
  "gm_ok m \<equiv> distinct (map fst m)"

lemma gm_get_put [simp]: "map_of (gm_put k v m) = (map_of m)(k \<mapsto> v)"
  by (simp add: update_conv')

lemma gm_get_del [simp]: "map_of (gm_del k m) = (map_of m)(k := None)"
  by (simp add: delete_conv')

lemma gm_ok_put [simp, intro]: "gm_ok m \<Longrightarrow> gm_ok (gm_put k v m)"
  by (rule distinct_update)

lemma gm_ok_del [simp, intro]: "gm_ok m \<Longrightarrow> gm_ok (gm_del k m)"
  by (rule distinct_delete)

lemma gm_get_iff: "gm_ok m \<Longrightarrow> map_of m k = Some v \<longleftrightarrow> (k, v) \<in> set m"
  by simp

lemma gm_put_same: "map_of m k = Some v \<Longrightarrow> gm_put k v m = m"
  by (induction m) auto

lemma gm_put_put [simp]: "gm_put k v (gm_put k w m) = gm_put k v m"
  by (induction m) auto

lemma gm_put_absent: "map_of m k = None \<Longrightarrow> gm_put k v m = m @ [(k, v)]"
  by (induction m) auto

lemma gm_del_absent: "map_of m k = None \<Longrightarrow> gm_del k m = m"
  by (induction m) auto

lemma map_of_rev_snoc: "map_of (rev (xs @ [(k, v)])) = (map_of (rev xs))(k \<mapsto> v)"
  by simp

text \<open>Two maps with the same lookups have the same entries, whatever their order.\<close>

lemma gm_ext_set: "gm_ok m \<Longrightarrow> gm_ok n \<Longrightarrow> map_of m = map_of n \<Longrightarrow> set m = set n"
  by (simp add: map_of_inject_set)

lemma gm_ext_mset: "gm_ok m \<Longrightarrow> gm_ok n \<Longrightarrow> map_of m = map_of n \<Longrightarrow> mset m = mset n"
  using gm_ext_set [of m n] by (metis distinct_map set_eq_iff_mset_eq_distinct)

section \<open>Sorting and searching\<close>

text \<open>
  \<open>sort.Slice(xs, less)\<close>: its result is determined (up to the order of elements that compare
  equal) by the comparison alone; insertion keeps equal elements in their order.
\<close>

fun insert_by :: "('a \<Rightarrow> 'a \<Rightarrow> bool) \<Rightarrow> 'a \<Rightarrow> 'a list \<Rightarrow> 'a list" where
  "insert_by lt x [] = [x]"
| "insert_by lt x (y # ys) = (if lt y x then y # insert_by lt x ys else x # y # ys)"

fun sort_slice :: "('a \<Rightarrow> 'a \<Rightarrow> bool) \<Rightarrow> 'a list \<Rightarrow> 'a list" where
  "sort_slice lt [] = []"
| "sort_slice lt (x # xs) = insert_by lt x (sort_slice lt xs)"

lemma mset_insert_by [simp]: "mset (insert_by lt x xs) = add_mset x (mset xs)"
  by (induction xs) auto

lemma mset_sort_slice [simp]: "mset (sort_slice lt xs) = mset xs"
  by (induction xs) auto

lemma set_insert_by [simp]: "set (insert_by lt x xs) = insert x (set xs)"
  by (metis mset_insert_by set_mset_add_mset_insert set_mset_mset)

lemma set_sort_slice [simp]: "set (sort_slice lt xs) = set xs"
  by (metis mset_sort_slice set_mset_mset)

lemma distinct_sort_slice [simp]: "distinct (sort_slice lt xs) = distinct xs"
  by (metis mset_sort_slice mset_eq_imp_distinct_iff)

lemma length_sort_slice [simp]: "length (sort_slice lt xs) = length xs"
  by (metis mset_sort_slice size_mset)

text \<open>
  The interface of every comparison the code sorts or searches with: a strict linear order.
  The clients are the change tracker, the subject-sorted iterator and the changelog.
\<close>

locale strict_order =
  fixes lt :: "'a \<Rightarrow> 'a \<Rightarrow> bool"
  assumes lt_irrefl: "\<not> lt a a"
    and lt_trans: "lt a b \<Longrightarrow> lt b c \<Longrightarrow> lt a c"
    and lt_total: "a \<noteq> b \<Longrightarrow> lt a b \<or> lt b a"
begin

lemma lt_asym: "lt a b \<Longrightarrow> \<not> lt b a"
  using lt_irrefl lt_trans by blast

lemma transp_lt: "transp lt"
  using lt_trans by (auto intro: transpI)

lemma sorted_insert_by:
  "x \<notin> set xs \<Longrightarrow> sorted_wrt lt xs \<Longrightarrow> sorted_wrt lt (insert_by lt x xs)"
proof (induction xs)
  case (Cons y ys)
  then show ?case
    using lt_total [of x y] lt_trans by auto
qed simp

lemma sorted_sort_slice: "distinct xs \<Longrightarrow> sorted_wrt lt (sort_slice lt xs)"
  by (induction xs) (auto intro: sorted_insert_by)

text \<open>A strictly sorted list is determined by its elements: any sorting algorithm agrees.\<close>

lemma sorted_unique:
  assumes "sorted_wrt lt xs" and "sorted_wrt lt ys" and "set xs = set ys"
  shows "xs = ys"
  using assms
proof (induction xs arbitrary: ys)
  case Nil
  then show ?case by simp
next
  case (Cons x xs)
  then obtain y zs where ys: "ys = y # zs" by (cases ys) auto
  have xy: "x = y"
  proof (rule ccontr)
    assume "x \<noteq> y"
    with Cons.prems ys have "lt y x" and "lt x y" by auto
    then show False using lt_asym by blast
  qed
  have "x \<notin> set xs" and "y \<notin> set zs"
    using Cons.prems ys lt_irrefl by auto
  with Cons.prems ys xy have "set xs = set zs" by auto
  with Cons ys xy show ?case by simp
qed

lemma sorted_distinct: "sorted_wrt lt xs \<Longrightarrow> distinct xs"
  by (induction xs) (auto simp: lt_irrefl)

lemma sort_slice_sorted: "sorted_wrt lt xs \<Longrightarrow> sort_slice lt xs = xs"
  by (rule sorted_unique) (auto intro: sorted_sort_slice sorted_distinct)

lemma sort_slice_filter:
  "distinct xs \<Longrightarrow> sort_slice lt (filter P xs) = filter P (sort_slice lt xs)"
  by (rule sorted_unique) (auto intro: sorted_sort_slice sorted_wrt_filter)

lemma sort_slice_perm:
  assumes "distinct xs" and "mset xs = mset ys"
  shows "sort_slice lt xs = sort_slice lt ys"
proof (rule sorted_unique)
  have "distinct ys" using assms mset_eq_imp_distinct_iff by blast
  then show "sorted_wrt lt (sort_slice lt ys)" by (rule sorted_sort_slice)
  show "sorted_wrt lt (sort_slice lt xs)" using assms(1) by (rule sorted_sort_slice)
  show "set (sort_slice lt xs) = set (sort_slice lt ys)"
    using mset_eq_setD [OF assms(2)] by simp
qed

end

text \<open>
  \<open>sort.Search(n, f)\<close>: the least index at which \<open>f\<close> holds when \<open>f\<close> is monotone, found by
  bisection of \<open>[i, j)\<close>; \<open>n\<close> when there is none.
\<close>

function sort_search_loop :: "(nat \<Rightarrow> bool) \<Rightarrow> nat \<Rightarrow> nat \<Rightarrow> nat" where
  "sort_search_loop f i j =
     (if i < j
      then let h = (i + j) div 2
           in if \<not> f h then sort_search_loop f (h + 1) j else sort_search_loop f i h
      else i)"
  by pat_completeness auto
termination
  by (relation "measure (\<lambda>(f, i, j). j - i)") auto

declare sort_search_loop.simps [simp del]

definition sort_search :: "nat \<Rightarrow> (nat \<Rightarrow> bool) \<Rightarrow> nat" where
  "sort_search n f = sort_search_loop f 0 n"

lemma sort_search_loop_spec:
  assumes "\<forall>a b. a \<le> b \<and> b < n \<and> f a \<longrightarrow> f b"
    and "i \<le> j" "j \<le> n" "\<forall>k<i. \<not> f k" "\<forall>k. j \<le> k \<and> k < n \<longrightarrow> f k"
  shows "sort_search_loop f i j \<le> j \<and> (\<forall>k < sort_search_loop f i j. \<not> f k) \<and>
    (\<forall>k. sort_search_loop f i j \<le> k \<and> k < n \<longrightarrow> f k)"
  using assms
proof (induction f i j rule: sort_search_loop.induct)
  case (1 f i j)
  let ?h = "(i + j) div 2"
  show ?case
  proof (cases "i < j")
    case False
    then have "sort_search_loop f i j = i" by (simp add: sort_search_loop.simps [of f i j])
    moreover have "i = j" using False "1.prems"(2) by linarith
    ultimately show ?thesis using "1.prems"(4,5) by simp
  next
    case True
    then have h: "i \<le> ?h" "?h < j" by auto
    show ?thesis
    proof (cases "f ?h")
      case False
      have low: "\<forall>k < ?h + 1. \<not> f k"
      proof (intro allI impI notI)
        fix k assume "k < ?h + 1" and "f k"
        moreover have "?h < n" using h "1.prems"(3) by simp
        ultimately show False using False "1.prems"(1) by (metis Suc_eq_plus1 less_Suc_eq_le)
      qed
      have "sort_search_loop f i j = sort_search_loop f (?h + 1) j"
        using True False by (simp add: sort_search_loop.simps [of f i j] Let_def)
      moreover have "?h + 1 \<le> j" using h by simp
      ultimately show ?thesis
        using "1.IH"(1) [OF True refl False "1.prems"(1) _ "1.prems"(3) low "1.prems"(5)] by simp
    next
      case fh: True
      have high: "\<forall>k. ?h \<le> k \<and> k < n \<longrightarrow> f k"
        using "1.prems"(1) fh by blast
      have eq: "sort_search_loop f i j = sort_search_loop f i ?h"
        using True fh by (simp add: sort_search_loop.simps [of f i j] Let_def)
      have "?h \<le> n" using h "1.prems"(3) by simp
      with "1.IH"(2) [OF True refl _ "1.prems"(1) h(1) _ "1.prems"(4) high] fh h(2)
      show ?thesis unfolding eq by simp
    qed
  qed
qed

text \<open>The specification of \<open>sort.Search\<close> for a monotone predicate.\<close>

lemma sort_search_spec:
  assumes "\<forall>a b. a \<le> b \<and> b < n \<and> f a \<longrightarrow> f b"
  shows "sort_search n f \<le> n" "k < sort_search n f \<Longrightarrow> \<not> f k"
    "sort_search n f \<le> k \<Longrightarrow> k < n \<Longrightarrow> f k"
proof -
  have "sort_search n f \<le> n \<and> (\<forall>k < sort_search n f. \<not> f k) \<and>
      (\<forall>k. sort_search n f \<le> k \<and> k < n \<longrightarrow> f k)"
    unfolding sort_search_def by (rule sort_search_loop_spec [OF assms]) auto
  then show "sort_search n f \<le> n" "k < sort_search n f \<Longrightarrow> \<not> f k"
    "sort_search n f \<le> k \<Longrightarrow> k < n \<Longrightarrow> f k" by blast+
qed

lemma sort_search_holds:
  assumes "\<forall>a b. a \<le> b \<and> b < n \<and> f a \<longrightarrow> f b" and "sort_search n f < n"
  shows "f (sort_search n f)"
  using sort_search_spec(3) [OF assms(1) order.refl assms(2)] .

section \<open>Strings\<close>

text \<open>\<open>strings.HasPrefix\<close>, \<open>strings.Repeat\<close>, \<open>strings.Split\<close> on a one-character separator.\<close>

abbreviation has_prefix :: "string \<Rightarrow> string \<Rightarrow> bool" where
  "has_prefix s p \<equiv> prefix p s"

abbreviation repeat_char :: "char \<Rightarrow> nat \<Rightarrow> string" where
  "repeat_char c n \<equiv> replicate n c"

fun split_char :: "char \<Rightarrow> string \<Rightarrow> string list" where
  "split_char c [] = [[]]"
| "split_char c (x # xs) =
     (if x = c then [] # split_char c xs
      else (case split_char c xs of [] \<Rightarrow> [[x]] | p # ps \<Rightarrow> (x # p) # ps))"

lemma split_char_no_sep: "c \<notin> set s \<Longrightarrow> split_char c s = [s]"
  by (induction s) auto

lemma split_char_one_sep:
  "c \<notin> set a \<Longrightarrow> c \<notin> set b \<Longrightarrow> split_char c (a @ c # b) = [a, b]"
  by (induction a) (auto simp: split_char_no_sep)

end
