(* ===== verification/Go_Strconv.thy ===== *)
theory Go_Strconv
  imports Go_Prelude
begin

text \<open>
  The functions of Go's package \<open>strconv\<close> that the revision types use, for base 10 and
  64 bits: \<open>FormatUint\<close>, \<open>FormatInt\<close>, \<open>ParseUint\<close>, \<open>ParseInt\<close>, with their syntax and range
  errors, and the round trips between them.
\<close>

datatype num_error = ErrSyntax | ErrRange

section \<open>Formatting\<close>

definition digit_char :: "nat \<Rightarrow> char" where
  "digit_char d = char_of (48 + d)"

fun format_nat :: "nat \<Rightarrow> string" where
  "format_nat n = (if n < 10 then [digit_char n] else format_nat (n div 10) @ [digit_char (n mod 10)])"

declare format_nat.simps [simp del]

definition format_int :: "int \<Rightarrow> string" where
  "format_int x = (if x < 0 then CHR ''-'' # format_nat (nat (- x)) else format_nat (nat x))"

section \<open>Parsing\<close>

definition digit_val :: "char \<Rightarrow> nat option" where
  "digit_val c = (let n = of_char c :: nat in if 48 \<le> n \<and> n \<le> 57 then Some (n - 48) else None)"

text \<open>The loop of \<open>ParseUint\<close>: \<open>n\<close> is the value read so far, \<open>mx\<close> the largest value allowed.\<close>

fun parse_digits :: "nat \<Rightarrow> nat \<Rightarrow> string \<Rightarrow> num_error + nat" where
  "parse_digits mx n [] = Ok n"
| "parse_digits mx n (c # cs) =
     (case digit_val c of
        None \<Rightarrow> Err ErrSyntax
      | Some d \<Rightarrow> if mx < 10 * n + d then Err ErrRange else parse_digits mx (10 * n + d) cs)"

definition parse_uint :: "string \<Rightarrow> num_error + nat" where
  "parse_uint s = (if s = [] then Err ErrSyntax else parse_digits (2 ^ 64 - 1) 0 s)"

definition parse_int :: "string \<Rightarrow> num_error + int" where
  "parse_int s =
     (if s = [] then Err ErrSyntax
      else let neg = (hd s = CHR ''-'');
               body = (if hd s = CHR ''-'' \<or> hd s = CHR ''+'' then tl s else s);
               check = (\<lambda>un. if \<not> neg \<and> 2 ^ 63 \<le> un then Err ErrRange
                              else if neg \<and> 2 ^ 63 < un then Err ErrRange
                              else Ok (if neg then - int un else int un))
           in case parse_uint body of
                Err ErrSyntax \<Rightarrow> Err ErrSyntax
              | Err ErrRange \<Rightarrow> check (2 ^ 64 - 1)
              | Ok un \<Rightarrow> check un)"

section \<open>Round trips\<close>

lemma of_char_digit_char: "d < 10 \<Longrightarrow> of_char (digit_char d) = 48 + d"
  by (simp add: digit_char_def)

lemma digit_val_digit_char [simp]: "d < 10 \<Longrightarrow> digit_val (digit_char d) = Some d"
  by (simp add: digit_val_def of_char_digit_char)

lemma format_nat_not_Nil [simp]: "format_nat n \<noteq> []"
  by (subst format_nat.simps) simp

lemma format_nat_digits: "c \<in> set (format_nat n) \<Longrightarrow> \<exists>d<10. c = digit_char d"
proof (induction n rule: format_nat.induct)
  case (1 n)
  show ?case
  proof (cases "n < 10")
    case True
    with 1 show ?thesis by (auto simp: format_nat.simps [of n])
  next
    case False
    with 1 have "c \<in> set (format_nat (n div 10)) \<or> c = digit_char (n mod 10)"
      by (auto simp: format_nat.simps [of n])
    moreover have "n mod 10 < 10" by simp
    ultimately show ?thesis using 1 False by blast
  qed
qed

lemma digit_char_neq: "d < 10 \<Longrightarrow> digit_char d \<noteq> CHR ''-''" "d < 10 \<Longrightarrow> digit_char d \<noteq> CHR ''+''"
  "d < 10 \<Longrightarrow> digit_char d \<noteq> CHR ''.''"
  using of_char_digit_char [of d] by auto

lemma format_nat_chars: "CHR ''-'' \<notin> set (format_nat n)" "CHR ''+'' \<notin> set (format_nat n)"
  "CHR ''.'' \<notin> set (format_nat n)"
  by (metis digit_char_neq format_nat_digits)+

lemma format_int_no_dot [simp]: "CHR ''.'' \<notin> set (format_int x)"
  by (simp add: format_int_def format_nat_chars)

lemma parse_digits_append:
  "parse_digits mx n (xs @ ys) =
     (case parse_digits mx n xs of Err e \<Rightarrow> Err e | Ok m \<Rightarrow> parse_digits mx m ys)"
  by (induction xs arbitrary: n) (auto split: option.splits)

lemma parse_format_nat: "n \<le> mx \<Longrightarrow> parse_digits mx 0 (format_nat n) = Ok n"
proof (induction n rule: format_nat.induct)
  case (1 n)
  show ?case
  proof (cases "n < 10")
    case True
    with 1 show ?thesis by (simp add: format_nat.simps [of n])
  next
    case False
    then have "parse_digits mx 0 (format_nat (n div 10)) = Ok (n div 10)"
      using 1 by simp
    with False 1 show ?thesis
      by (simp add: format_nat.simps [of n] parse_digits_append)
  qed
qed

lemma parse_uint_format: "n < 2 ^ 64 \<Longrightarrow> parse_uint (format_nat n) = Ok n"
  by (simp add: parse_uint_def parse_format_nat)

lemma hd_format_nat: "hd (format_nat n) \<noteq> CHR ''-''" "hd (format_nat n) \<noteq> CHR ''+''"
  by (metis format_nat_chars format_nat_not_Nil hd_in_set)+

lemma format_int_not_Nil [simp]: "format_int x \<noteq> []"
  by (simp add: format_int_def)

lemma parse_int_format: "is_i64 x \<Longrightarrow> parse_int (format_int x) = Ok x"
  by (auto simp: parse_int_def format_int_def is_i64_def hd_format_nat Let_def nat_less_iff
      parse_uint_format nat_le_iff le_nat_iff)

text \<open>A result of the parsers is in range.\<close>

lemma parse_digits_bound: "parse_digits mx n s = Ok m \<Longrightarrow> n \<le> mx \<Longrightarrow> m \<le> mx"
  by (induction s arbitrary: n) (auto split: option.splits if_splits)

lemma parse_uint_bound: "parse_uint s = Ok m \<Longrightarrow> m < 2 ^ 64"
  using parse_digits_bound [of "2 ^ 64 - 1" 0 s m] by (auto simp: parse_uint_def split: if_splits)

lemma parse_int_bound: "parse_int s = Ok x \<Longrightarrow> is_i64 x"
  by (auto simp: parse_int_def is_i64_def Let_def split: if_splits sum.splits num_error.splits)

text \<open>The number of digits.\<close>

lemma length_format_nat: "n < 10 ^ k \<Longrightarrow> 0 < k \<Longrightarrow> length (format_nat n) \<le> k"
proof (induction k arbitrary: n)
  case (Suc k)
  show ?case
  proof (cases "n < 10")
    case True
    then show ?thesis by (simp add: format_nat.simps [of n])
  next
    case False
    with Suc.prems have "n div 10 < 10 ^ k" and "0 < k"
      by (auto intro: Nat.gr0I simp: less_mult_imp_div_less mult.commute)
    with Suc.IH [of "n div 10"] False show ?thesis by (simp add: format_nat.simps [of n])
  qed
qed simp

text \<open>Zeros in front of a number do not change its value.\<close>

lemma digit_char_0: "digit_char 0 = CHR ''0''"
  using of_char_digit_char [of 0] of_char_eq_iff [where 'a = nat, of "digit_char 0" "CHR ''0''"] by simp

lemma parse_digits_zeros: "parse_digits mx 0 (replicate k (CHR ''0'') @ s) = parse_digits mx 0 s"
proof (induction k)
  case (Suc k)
  have "digit_val (CHR ''0'') = Some 0"
    using digit_val_digit_char [of 0] by (simp add: digit_char_0)
  with Suc show ?case by simp
qed simp

end
