(* ===== verification/Spice_Types.thy ===== *)
theory Spice_Types
  imports Go_Strconv "HOL-Library.Word"
begin

text \<open>
  The data that crosses the boundary of the modelled packages. The types come from SpiceDB's
  own packages (\<open>pkg/tuple\<close>, \<open>pkg/datastore\<close>, the protobuf messages): only the fields the code
  reads or writes are kept. Values the code passes on without looking inside (the body of a
  schema definition, a protobuf \<open>Struct\<close>, a hash) are opaque strings. The functions of those
  packages are not under \<open>src/\<close>; they are the fields of the record \<open>spice_lib\<close>, a parameter of
  every definition that calls one, and what the code relies on is stated by \<open>lib_laws\<close>.
\<close>

type_synonym opaque = string
type_synonym bytes = string
type_synonym nanotime = int \<comment> \<open>a \<open>time.Time\<close>, as nanoseconds since the epoch\<close>
type_synonym any_map = "(string \<times> opaque) list" \<comment> \<open>a \<open>map[string]any\<close>\<close>

section \<open>Revisions\<close>

text \<open>
  The values of the interface \<open>datastore.Revision\<close>: the three kinds of \<open>internal/datastore/revisions\<close>
  and the distinguished \<open>datastore.NoRevision\<close>.
\<close>

datatype revision =
    NoRevision
  | TimestampRev int
  | TransactionIDRev "64 word"
  | HLCRev int "32 word"

datatype invalid_reason = RevisionStale | CouldNotDetermineRevision

section \<open>Relationships\<close>

record obj_and_rel =
  objectType :: string
  objectID :: string
  objRelation :: string

record ctx_caveat =
  caveatName :: string
  caveatContext :: opaque

record rel_integrity =
  keyId :: string
  hashBytes :: bytes
  hashedAt :: nanotime

record tuple_relationship =
  resource :: obj_and_rel
  subject :: obj_and_rel
  optionalCaveat :: "ctx_caveat option"
  optionalIntegrity :: "rel_integrity option"
  optionalExpiration :: "nanotime option"

datatype update_operation =
    UpdateOperationTouch
  | UpdateOperationCreate
  | UpdateOperationDelete
  | UpdateOperationUnknown nat

record relationship_update =
  operation :: update_operation
  updRelationship :: tuple_relationship

section \<open>Schema definitions and the changes of a revision\<close>

record ns_definition =
  nsDefName :: string
  nsDefBody :: opaque

record caveat_definition =
  cavDefName :: string
  cavDefBody :: opaque

datatype schema_definition =
    NamespaceDefinition ns_definition
  | CaveatDefinition caveat_definition
  | UnknownDefinition opaque

record revision_changes =
  chRevision :: revision
  relationshipChanges :: "(update_operation \<times> tuple_relationship) list"
  changedDefinitions :: "schema_definition list"
  deletedNamespaces :: "string list"
  deletedCaveats :: "string list"
  isCheckpoint :: bool
  chMetadatas :: "opaque list"

text \<open>The flag set \<open>datastore.WatchContent\<close>, one field for each of its bits.\<close>

record watch_content =
  watchRelationships :: bool
  watchSchema :: bool
  watchCheckpoints :: bool

section \<open>Filters and query options\<close>

record subject_relation_filter =
  nonEllipsisRelation :: string
  includeEllipsisRelation :: bool
  onlyNonEllipsisRelations :: bool

record subjects_selector =
  optionalSubjectType :: string
  optionalSubjectIds :: "string list"
  relationFilter :: subject_relation_filter

datatype caveat_filter_option =
  CaveatFilterOptionNone | CaveatFilterOptionHasMatchingCaveat | CaveatFilterOptionNoCaveat

datatype expiration_filter_option =
  ExpirationFilterOptionNone | ExpirationFilterOptionHasExpiration | ExpirationFilterOptionNoExpiration

record caveat_name_filter =
  cavFilterOption :: caveat_filter_option
  cavFilterName :: string

record relationships_filter =
  optionalResourceType :: string
  optionalResourceIds :: "string list"
  optionalResourceIDPrefix :: string
  optionalResourceRelation :: string
  optionalSubjectsSelectors :: "subjects_selector list"
  optionalCaveatNameFilter :: caveat_name_filter
  optionalExpirationOption :: expiration_filter_option

record subjects_filter =
  sfSubjectType :: string
  sfSubjectIds :: "string list"
  sfRelationFilter :: subject_relation_filter

text \<open>The public (API) filter \<open>v1.RelationshipFilter\<close>.\<close>

record subject_filter_v1 =
  subjectTypeV1 :: string
  optionalSubjectIdV1 :: string
  optionalRelationV1 :: "string option"

record relationship_filter_v1 =
  resourceTypeV1 :: string
  optionalResourceIdV1 :: string
  optionalResourceIdPrefixV1 :: string
  optionalRelV1 :: string
  optionalSubjectFilterV1 :: "subject_filter_v1 option"

datatype sort_order = Unsorted | ChooseEfficient | ByResource | BySubject | SortOther nat

record query_options =
  qLimit :: "nat option"
  qSort :: sort_order
  qAfter :: "tuple_relationship option"
  qSkipCaveats :: bool
  qSkipExpiration :: bool

record reverse_query_options =
  resRelation :: "(string \<times> string) option"
  revOptions :: query_options

section \<open>Errors\<close>

text \<open>
  Error values. \<open>Wrap\<close> is \<open>fmt.Errorf\<close> with the verb for wrapping; \<open>MustBug\<close> is
  \<open>spiceerrors.MustBugf\<close>; \<open>Panic\<close> stands for a Go panic, which ends the call as an error does;
  \<open>Blocks\<close> for a call that waits for a lock nobody releases.
\<close>

datatype go_error =
    ErrorString string
  | Wrap string go_error
  | MustBug string
  | Panic string
  | Blocks string
  | LibError string
  | ErrNotFound
  | ErrMemDBIsClosed
  | ErrSerialization
  | SerializationMaxRetriesReached go_error
  | CreateRelationshipExists tuple_relationship
  | InvalidRevision revision invalid_reason
  | CounterAlreadyRegistered string opaque
  | CounterNotRegistered string
  | NamespaceNotFound string
  | CaveatNameNotFound string
  | CursorsWithoutSorting
  | MaximumChangesSizeExceeded nat
  | WatchDisconnected
  | WatchCanceled

type_synonym 'a result = "go_error + 'a"

text \<open>\<open>errors.Is(err, ErrSerialization)\<close> follows the chain of wrapped errors.\<close>

fun is_serialization :: "go_error \<Rightarrow> bool" where
  "is_serialization ErrSerialization = True"
| "is_serialization (Wrap _ e) = is_serialization e"
| "is_serialization _ = False"

text \<open>What no caller gets to see as a returned error.\<close>

fun aborts :: "go_error \<Rightarrow> bool" where
  "aborts (Panic _) = True"
| "aborts (Blocks _) = True"
| "aborts _ = False"

section \<open>The library\<close>

record spice_lib =
  new_struct :: "any_map \<Rightarrow> opaque result"         \<comment> \<open>\<open>structpb.NewStruct\<close>\<close>
  as_map :: "opaque \<Rightarrow> any_map"                     \<comment> \<open>\<open>Struct.AsMap\<close>\<close>
  timestamp_new :: "nanotime \<Rightarrow> nanotime"          \<comment> \<open>\<open>timestamppb.New\<close>\<close>
  as_time :: "nanotime \<Rightarrow> nanotime"                \<comment> \<open>\<open>Timestamp.AsTime\<close>\<close>
  string_without :: "tuple_relationship \<Rightarrow> string"  \<comment> \<open>\<open>tuple.StringWithoutCaveatOrExpiration\<close>\<close>
  must_string :: "tuple_relationship \<Rightarrow> string"     \<comment> \<open>\<open>tuple.MustString\<close>\<close>
  rel_size :: "tuple_relationship \<Rightarrow> int"           \<comment> \<open>\<open>Relationship.SizeVT\<close>\<close>
  def_size :: "schema_definition \<Rightarrow> int"            \<comment> \<open>\<open>SizeVT\<close> of a definition\<close>
  marshal_ns :: "ns_definition \<Rightarrow> bytes result"
  unmarshal_ns :: "bytes \<Rightarrow> ns_definition result"
  marshal_caveat :: "caveat_definition \<Rightarrow> bytes result"
  unmarshal_caveat :: "bytes \<Rightarrow> caveat_definition result"
  marshal_filter :: "opaque \<Rightarrow> bytes result"        \<comment> \<open>\<open>core.RelationshipFilter.MarshalVT\<close>\<close>
  unmarshal_filter :: "bytes \<Rightarrow> opaque result"
  filter_from_core :: "opaque \<Rightarrow> relationships_filter result"
  filter_from_public :: "relationship_filter_v1 \<Rightarrow> relationships_filter result"
  as_selector :: "subjects_filter \<Rightarrow> subjects_selector"
  ellipsis :: string                                \<comment> \<open>\<open>datastore.Ellipsis\<close>\<close>

text \<open>
  The identity of a relationship: its resource and subject, without caveat, integrity and
  expiration.
\<close>

definition rel_ref :: "tuple_relationship \<Rightarrow> obj_and_rel \<times> obj_and_rel" where
  "rel_ref r = (resource r, subject r)"

text \<open>
  What the code relies on: the serialisations invert each other, a \<open>Struct\<close> reads back as
  itself, sizes are not negative, and the filter conversion keeps the resource type and relation
  it is given.
\<close>

locale lib_laws =
  fixes L :: spice_lib
  assumes struct_map: "new_struct L (as_map L s) = Ok s"
    and time_roundtrip: "timestamp_new L (as_time L t) = t"
    and rel_size_nonneg: "0 \<le> rel_size L r"
    and def_size_nonneg: "0 \<le> def_size L sd"
    and ns_roundtrip: "\<exists>b. marshal_ns L d = Ok b \<and> unmarshal_ns L b = Ok d"
    and caveat_roundtrip: "\<exists>b. marshal_caveat L c = Ok b \<and> unmarshal_caveat L b = Ok c"
    and filter_roundtrip: "\<exists>b. marshal_filter L f = Ok b \<and> unmarshal_filter L b = Ok f"
    and public_filter: "filter_from_public L p = Ok q \<Longrightarrow>
      optionalResourceType q = resourceTypeV1 p \<and> optionalResourceRelation q = optionalRelV1 p"

section \<open>A reference library\<close>

text \<open>
  A library that satisfies the laws, for the concrete instances of the properties: a pair of
  strings is encoded with the length of the first in unary.
\<close>

definition enc2 :: "string \<Rightarrow> string \<Rightarrow> bytes" where
  "enc2 a b = replicate (length a) (CHR ''1'') @ CHR ''0'' # a @ b"

definition dec2 :: "bytes \<Rightarrow> string \<times> string" where
  "dec2 s = (let n = length (takeWhile (\<lambda>c. c = CHR ''1'') s); r = drop (n + 1) s
             in (take n r, drop n r))"

lemma dec2_enc2 [simp]: "dec2 (enc2 a b) = (a, b)"
  by (simp add: dec2_def enc2_def takeWhile_append)

definition no_subject_filter :: subject_relation_filter where
  "no_subject_filter = \<lparr>nonEllipsisRelation = [], includeEllipsisRelation = False,
     onlyNonEllipsisRelations = False\<rparr>"

definition any_filter :: relationships_filter where
  "any_filter = \<lparr>optionalResourceType = [], optionalResourceIds = [],
     optionalResourceIDPrefix = [], optionalResourceRelation = [], optionalSubjectsSelectors = [],
     optionalCaveatNameFilter = \<lparr>cavFilterOption = CaveatFilterOptionNone, cavFilterName = []\<rparr>,
     optionalExpirationOption = ExpirationFilterOptionNone\<rparr>"

definition show_rel :: "tuple_relationship \<Rightarrow> string" where
  "show_rel r = objectType (resource r) @ '':'' @ objectID (resource r) @ ''#'' @
     objRelation (resource r) @ ''@'' @ objectType (subject r) @ '':'' @ objectID (subject r) @
     ''#'' @ objRelation (subject r)"

definition ref_lib :: spice_lib where
  "ref_lib = \<lparr>
     new_struct = (\<lambda>m. case m of [(k, s)] \<Rightarrow> Ok s | _ \<Rightarrow> Err (LibError ''struct'')),
     as_map = (\<lambda>s. [(''value'', s)]),
     timestamp_new = (\<lambda>t. t),
     as_time = (\<lambda>t. t),
     string_without = show_rel,
     must_string = (\<lambda>r. show_rel r @
       (case optionalCaveat r of None \<Rightarrow> [] | Some c \<Rightarrow> ''['' @ caveatName c @ caveatContext c @ '']'') @
       (case optionalExpiration r of None \<Rightarrow> [] | Some t \<Rightarrow> ''[expiration:'' @ format_int t @ '']'')),
     rel_size = (\<lambda>r. int (length (show_rel r))),
     def_size = (\<lambda>d. case d of NamespaceDefinition n \<Rightarrow> int (length (nsDefName n) + length (nsDefBody n))
       | CaveatDefinition c \<Rightarrow> int (length (cavDefName c) + length (cavDefBody c))
       | UnknownDefinition s \<Rightarrow> int (length s)),
     marshal_ns = (\<lambda>d. Ok (enc2 (nsDefName d) (nsDefBody d))),
     unmarshal_ns = (\<lambda>b. Ok \<lparr>nsDefName = fst (dec2 b), nsDefBody = snd (dec2 b)\<rparr>),
     marshal_caveat = (\<lambda>c. Ok (enc2 (cavDefName c) (cavDefBody c))),
     unmarshal_caveat = (\<lambda>b. Ok \<lparr>cavDefName = fst (dec2 b), cavDefBody = snd (dec2 b)\<rparr>),
     marshal_filter = Ok,
     unmarshal_filter = Ok,
     filter_from_core = (\<lambda>f. Ok (any_filter\<lparr>optionalResourceType := f\<rparr>)),
     filter_from_public = (\<lambda>p. if resourceTypeV1 p = [] \<and> optionalSubjectFilterV1 p = None
       then Err (LibError ''empty filter'')
       else Ok (any_filter\<lparr>optionalResourceType := resourceTypeV1 p,
         optionalResourceRelation := optionalRelV1 p\<rparr>)),
     as_selector = (\<lambda>f. \<lparr>optionalSubjectType = sfSubjectType f,
       optionalSubjectIds = sfSubjectIds f, relationFilter = sfRelationFilter f\<rparr>),
     ellipsis = ''...''\<rparr>"

interpretation ref_lib: lib_laws ref_lib
  by unfold_locales
    (auto simp: ref_lib_def any_filter_def split: if_splits schema_definition.splits)

text \<open>The relationship \<open>document:<id>#viewer@user:<uid>\<close>, for the instances.\<close>

definition sample_rel :: "string \<Rightarrow> string \<Rightarrow> tuple_relationship" where
  "sample_rel i u = \<lparr>
     resource = \<lparr>objectType = ''document'', objectID = i, objRelation = ''viewer''\<rparr>,
     subject = \<lparr>objectType = ''user'', objectID = u, objRelation = ''...''\<rparr>,
     optionalCaveat = None, optionalIntegrity = None, optionalExpiration = None\<rparr>"

definition watch_all :: watch_content where
  "watch_all = \<lparr>watchRelationships = True, watchSchema = True, watchCheckpoints = False\<rparr>"

end
