(* ===== verification/Revisions.thy ===== *)
theory Revisions
  imports Spice_Types
begin

text \<open>
  \<open>internal/datastore/revisions\<close>: the three kinds of revision, their comparisons, their string
  forms, the decoder that picks a kind, and the key functions the change tracker uses. A method
  whose argument has another kind than its receiver panics (a failed type assertion); its model
  returns \<open>Panic\<close>. The interface \<open>revision_ops\<close> states what a kind of revision promises its
  clients and is interpreted for all three.
\<close>

definition num_err :: "num_error \<Rightarrow> go_error" where
  "num_err e = LibError (case e of ErrSyntax \<Rightarrow> ''invalid syntax'' | ErrRange \<Rightarrow> ''value out of range'')"

section \<open>Timestamp revisions\<close>

text \<open>\<open>type TimestampRevision int64\<close>: an integer in the range of \<open>int64\<close>.\<close>

definition zeroTimestampRevision :: int where
  "zeroTimestampRevision = 0"

definition newForTime :: "nanotime \<Rightarrow> int" where
  "newForTime t = i64 t"

definition newForTimestamp :: "int \<Rightarrow> int" where
  "newForTimestamp timestampNanosec = timestampNanosec"

definition parseTimestampRevisionString :: "string \<Rightarrow> revision result" where
  "parseTimestampRevisionString revisionStr =
     (case parse_int revisionStr of
        Err e \<Rightarrow> Err (Wrap ''invalid integer revision'' (num_err e))
      | Ok parsed \<Rightarrow> Ok (TimestampRev parsed))"

definition asTimestamp :: "revision \<Rightarrow> int result" where
  "asTimestamp rhs = (case rhs of
     NoRevision \<Rightarrow> Ok zeroTimestampRevision
   | TimestampRev r \<Rightarrow> Ok r
   | _ \<Rightarrow> Err (Panic ''interface conversion: not TimestampRevision''))"

definition ts_Equal :: "int \<Rightarrow> revision \<Rightarrow> bool result" where
  "ts_Equal ir rhs = (case asTimestamp rhs of Err e \<Rightarrow> Err e | Ok r \<Rightarrow> Ok (ir = r))"

definition ts_GreaterThan :: "int \<Rightarrow> revision \<Rightarrow> bool result" where
  "ts_GreaterThan ir rhs = (case asTimestamp rhs of Err e \<Rightarrow> Err e | Ok r \<Rightarrow> Ok (ir > r))"

definition ts_LessThan :: "int \<Rightarrow> revision \<Rightarrow> bool result" where
  "ts_LessThan ir rhs = (case asTimestamp rhs of Err e \<Rightarrow> Err e | Ok r \<Rightarrow> Ok (ir < r))"

definition ts_TimestampNanoSec :: "int \<Rightarrow> int" where
  "ts_TimestampNanoSec ir = ir"

definition ts_String :: "int \<Rightarrow> string" where
  "ts_String ir = format_int ir"

definition ts_ConstructForTimestamp :: "int \<Rightarrow> revision" where
  "ts_ConstructForTimestamp timestamp = TimestampRev timestamp"

definition timestampIDKeyFunc :: "int \<Rightarrow> int" where
  "timestampIDKeyFunc r = r"

definition timestampIDKeyLessThanFunc :: "int \<Rightarrow> int \<Rightarrow> bool" where
  "timestampIDKeyLessThanFunc l r \<longleftrightarrow> l < r"

section \<open>Transaction ID revisions\<close>

definition zeroTransactionIDRevision :: "64 word" where
  "zeroTransactionIDRevision = 0"

definition newForTransactionID :: "64 word \<Rightarrow> 64 word" where
  "newForTransactionID transactionID = transactionID"

definition parseTransactionIDRevisionString :: "string \<Rightarrow> revision result" where
  "parseTransactionIDRevisionString revisionStr =
     (case parse_uint revisionStr of
        Err e \<Rightarrow> Err (Wrap ''invalid integer revision'' (num_err e))
      | Ok parsed \<Rightarrow> Ok (TransactionIDRev (of_nat parsed)))"

definition asTransactionID :: "revision \<Rightarrow> 64 word result" where
  "asTransactionID rhs = (case rhs of
     NoRevision \<Rightarrow> Ok zeroTransactionIDRevision
   | TransactionIDRev r \<Rightarrow> Ok r
   | _ \<Rightarrow> Err (Panic ''interface conversion: not TransactionIDRevision''))"

definition tx_Equal :: "64 word \<Rightarrow> revision \<Rightarrow> bool result" where
  "tx_Equal ir rhs = (case asTransactionID rhs of Err e \<Rightarrow> Err e | Ok r \<Rightarrow> Ok (ir = r))"

definition tx_GreaterThan :: "64 word \<Rightarrow> revision \<Rightarrow> bool result" where
  "tx_GreaterThan ir rhs = (case asTransactionID rhs of Err e \<Rightarrow> Err e | Ok r \<Rightarrow> Ok (ir > r))"

definition tx_LessThan :: "64 word \<Rightarrow> revision \<Rightarrow> bool result" where
  "tx_LessThan ir rhs = (case asTransactionID rhs of Err e \<Rightarrow> Err e | Ok r \<Rightarrow> Ok (ir < r))"

definition tx_TransactionID :: "64 word \<Rightarrow> 64 word" where
  "tx_TransactionID ir = ir"

definition tx_String :: "64 word \<Rightarrow> string" where
  "tx_String ir = format_nat (unat ir)"

definition transactionIDKeyFunc :: "64 word \<Rightarrow> 64 word" where
  "transactionIDKeyFunc r = r"

definition transactionIDKeyLessThanFunc :: "64 word \<Rightarrow> 64 word \<Rightarrow> bool" where
  "transactionIDKeyLessThanFunc l r \<longleftrightarrow> l < r"

section \<open>Hybrid logical clock revisions\<close>

record hlc_revision =
  hlcTime :: int
  logicalclock :: "32 word"

definition zeroHLC :: hlc_revision where
  "zeroHLC = \<lparr>hlcTime = 0, logicalclock = 0\<rparr>"

definition hlc_rev :: "hlc_revision \<Rightarrow> revision" where
  "hlc_rev h = HLCRev (hlcTime h) (logicalclock h)"

definition logicalClockLength :: nat where
  "logicalClockLength = 10"

text \<open>
  \<open>logicalClockOffset = uint32(math.Pow10(11))\<close> converts \<open>1e11\<close>, which does not fit in 32 bits:
  the Go specification leaves the result to the implementation, so the offset is a parameter
  \<open>off\<close> of the definitions that use it.
\<close>

definition parseHLCRevisionString :: "32 word \<Rightarrow> string \<Rightarrow> revision result" where
  "parseHLCRevisionString off revisionStr =
     (let pieces = split_char (CHR ''.'') revisionStr;
          invalid = Err (ErrorString ''invalid revision string'')
      in case pieces of
           [p] \<Rightarrow> (case parse_int p of Err _ \<Rightarrow> invalid | Ok timestamp \<Rightarrow> Ok (HLCRev timestamp off))
         | [p, q] \<Rightarrow>
             (case parse_int p of
                Err _ \<Rightarrow> invalid
              | Ok timestamp \<Rightarrow>
                  if length q > logicalClockLength
                  then Err (MustBug ''unexpected logical clock size'')
                  else (case parse_uint (q @ repeat_char (CHR ''0'') (logicalClockLength - length q)) of
                         Err _ \<Rightarrow> invalid
                       | Ok lc \<Rightarrow>
                           if lc > 2 ^ 32 - 1 then Err (MustBug ''logical clock exceeds MaxUint32'')
                           else Ok (HLCRev timestamp (of_nat lc + off))))
         | _ \<Rightarrow> invalid)"

definition hlcRevisionFromString :: "32 word \<Rightarrow> string \<Rightarrow> hlc_revision result" where
  "hlcRevisionFromString off revisionStr =
     (case parseHLCRevisionString off revisionStr of
        Err e \<Rightarrow> Err e
      | Ok (HLCRev t l) \<Rightarrow> Ok \<lparr>hlcTime = t, logicalclock = l\<rparr>
      | Ok _ \<Rightarrow> Err (Panic ''interface conversion: not HLCRevision''))"

text \<open>\<open>NewForHLC\<close> is given the string form of its decimal argument.\<close>

definition newForHLC :: "32 word \<Rightarrow> string \<Rightarrow> hlc_revision result" where
  "newForHLC off decimalString =
     (case hlcRevisionFromString off decimalString of
        Err e \<Rightarrow> Err (Wrap ''invalid HLC decimal'' e) | Ok r \<Rightarrow> Ok r)"

definition newHLCForTime :: "32 word \<Rightarrow> nanotime \<Rightarrow> hlc_revision" where
  "newHLCForTime off t = \<lparr>hlcTime = i64 t, logicalclock = off\<rparr>"

definition asHLC :: "revision \<Rightarrow> hlc_revision result" where
  "asHLC rhs = (case rhs of
     NoRevision \<Rightarrow> Ok zeroHLC
   | HLCRev t l \<Rightarrow> Ok \<lparr>hlcTime = t, logicalclock = l\<rparr>
   | _ \<Rightarrow> Err (Panic ''interface conversion: not HLCRevision''))"

definition hlc_Equal :: "hlc_revision \<Rightarrow> revision \<Rightarrow> bool result" where
  "hlc_Equal hlc rhs = (case asHLC rhs of
     Err e \<Rightarrow> Err e
   | Ok r \<Rightarrow> Ok (hlcTime hlc = hlcTime r \<and> logicalclock hlc = logicalclock r))"

definition hlc_GreaterThan :: "hlc_revision \<Rightarrow> revision \<Rightarrow> bool result" where
  "hlc_GreaterThan hlc rhs = (case asHLC rhs of
     Err e \<Rightarrow> Err e
   | Ok r \<Rightarrow> Ok (hlcTime hlc > hlcTime r \<or>
                (hlcTime hlc = hlcTime r \<and> logicalclock hlc > logicalclock r)))"

definition hlc_LessThan :: "hlc_revision \<Rightarrow> revision \<Rightarrow> bool result" where
  "hlc_LessThan hlc rhs = (case asHLC rhs of
     Err e \<Rightarrow> Err e
   | Ok r \<Rightarrow> Ok (hlcTime hlc < hlcTime r \<or>
                (hlcTime hlc = hlcTime r \<and> logicalclock hlc < logicalclock r)))"

text \<open>\<open>strings.Repeat\<close> panics on a negative count.\<close>

definition hlc_String :: "32 word \<Rightarrow> hlc_revision \<Rightarrow> string result" where
  "hlc_String off hlc =
     (let logicalClockString = format_int (uint (logicalclock hlc) - uint off)
      in if length logicalClockString > logicalClockLength
         then Err (Panic ''strings: negative Repeat count'')
         else Ok (format_int (hlcTime hlc) @ ''.'' @
                repeat_char (CHR ''0'') (logicalClockLength - length logicalClockString) @
                logicalClockString))"

definition hlc_TimestampNanoSec :: "hlc_revision \<Rightarrow> int" where
  "hlc_TimestampNanoSec hlc = hlcTime hlc"

definition hlc_ConstructForTimestamp :: "32 word \<Rightarrow> int \<Rightarrow> revision" where
  "hlc_ConstructForTimestamp off timestamp = HLCRev timestamp off"

definition hlcKeyFunc :: "hlc_revision \<Rightarrow> hlc_revision" where
  "hlcKeyFunc r = r"

definition hlcKeyLessThanFunc :: "hlc_revision \<Rightarrow> hlc_revision \<Rightarrow> bool" where
  "hlcKeyLessThanFunc lhs rhs \<longleftrightarrow> hlcTime lhs < hlcTime rhs \<or>
     (hlcTime lhs = hlcTime rhs \<and> logicalclock lhs < logicalclock rhs)"

section \<open>Kinds and the decoder\<close>

datatype revision_kind = Timestamp | TransactionID | HybridLogicalClock | OtherKind string

definition revisionParser :: "32 word \<Rightarrow> revision_kind \<Rightarrow> string \<Rightarrow> revision result" where
  "revisionParser off kind = (case kind of
     TransactionID \<Rightarrow> parseTransactionIDRevisionString
   | Timestamp \<Rightarrow> parseTimestampRevisionString
   | HybridLogicalClock \<Rightarrow> parseHLCRevisionString off
   | OtherKind k \<Rightarrow> (\<lambda>s. Err (MustBug ''unknown revision kind'')))"

record common_decoder =
  cdKind :: revision_kind
  datastoreUniqueID :: string

definition cd_UniqueID :: "common_decoder \<Rightarrow> string result" where
  "cd_UniqueID cd = Ok (datastoreUniqueID cd)"

definition revisionFromString :: "32 word \<Rightarrow> common_decoder \<Rightarrow> string \<Rightarrow> revision result" where
  "revisionFromString off cd s = (case cdKind cd of
     TransactionID \<Rightarrow> parseTransactionIDRevisionString s
   | Timestamp \<Rightarrow> parseTimestampRevisionString s
   | HybridLogicalClock \<Rightarrow> parseHLCRevisionString off s
   | OtherKind k \<Rightarrow> Err (MustBug ''unknown revision kind in decoder''))"

text \<open>\<open>Revision.String\<close>, dispatched on the kind of the receiver.\<close>

definition revision_String :: "32 word \<Rightarrow> revision \<Rightarrow> string result" where
  "revision_String off r = (case r of
     TimestampRev t \<Rightarrow> Ok (ts_String t)
   | TransactionIDRev x \<Rightarrow> Ok (tx_String x)
   | HLCRev t l \<Rightarrow> hlc_String off \<lparr>hlcTime = t, logicalclock = l\<rparr>
   | NoRevision \<Rightarrow> Err (Panic ''not a revision of this package''))"

lemmas ts_compare_defs = ts_Equal_def ts_GreaterThan_def ts_LessThan_def asTimestamp_def
lemmas tx_compare_defs = tx_Equal_def tx_GreaterThan_def tx_LessThan_def asTransactionID_def
lemmas hlc_compare_defs = hlc_Equal_def hlc_GreaterThan_def hlc_LessThan_def asHLC_def hlc_rev_def

section \<open>The interface of a revision kind\<close>

text \<open>
  A kind of revision is a strict linear order whose three comparison methods agree, with keys
  that are ordered the same way. This is what the change tracker and the datastore rely on.
\<close>

locale revision_ops = strict_order klt for klt :: "'k \<Rightarrow> 'k \<Rightarrow> bool" +
  fixes eq gt lt :: "'r \<Rightarrow> 'r \<Rightarrow> bool" and key :: "'r \<Rightarrow> 'k"
  assumes eq_iff: "eq a b \<longleftrightarrow> a = b"
    and gt_iff: "gt a b \<longleftrightarrow> lt b a"
    and key_inj: "key a = key b \<longleftrightarrow> a = b"
    and klt_iff: "klt (key a) (key b) \<longleftrightarrow> lt a b"
begin

lemma rev_irrefl: "\<not> lt a a"
  using klt_iff lt_irrefl by blast

lemma rev_trans: "lt a b \<Longrightarrow> lt b c \<Longrightarrow> lt a c"
  using klt_iff lt_trans by blast

lemma rev_total: "lt a b \<or> eq a b \<or> gt a b"
  using klt_iff key_inj eq_iff gt_iff lt_total by blast

lemma exactly_one:
  "(lt a b \<and> \<not> eq a b \<and> \<not> gt a b) \<or> (\<not> lt a b \<and> eq a b \<and> \<not> gt a b) \<or>
   (\<not> lt a b \<and> \<not> eq a b \<and> gt a b)"
proof -
  have "\<not> (lt a b \<and> lt b a)" using rev_irrefl rev_trans by blast
  then show ?thesis
    using rev_total [of a b] rev_irrefl unfolding eq_iff gt_iff by auto
qed

text \<open>
  Bisection in a strictly ascending list of revisions finds the first one that is not below the
  wanted one.
\<close>

lemma search_ge:
  assumes "sorted_wrt lt rs"
  shows "sort_search (length rs) (\<lambda>i. gt (rs ! i) r \<or> eq (rs ! i) r) =
    length (takeWhile (\<lambda>x. lt x r) rs)"
proof -
  let ?f = "\<lambda>i. gt (rs ! i) r \<or> eq (rs ! i) r" and ?n = "length (takeWhile (\<lambda>x. lt x r) rs)"
  have f_iff: "?f i \<longleftrightarrow> \<not> lt (rs ! i) r" for i
    using exactly_one [of "rs ! i" r] by blast
  have mono: "\<forall>a b. a \<le> b \<and> b < length rs \<and> ?f a \<longrightarrow> ?f b"
  proof (intro allI impI)
    fix a b
    assume ab: "a \<le> b \<and> b < length rs \<and> ?f a"
    show "?f b"
    proof (cases "a = b")
      case False
      with ab have "lt (rs ! a) (rs ! b)"
        by (intro sorted_wrt_nth_less [OF assms]) auto
      with ab rev_trans show ?thesis unfolding f_iff by blast
    qed (use ab in simp)
  qed
  have below: "k < ?n \<Longrightarrow> lt (rs ! k) r" for k
    by (metis nth_mem set_takeWhileD takeWhile_nth)
  have n_le: "?n \<le> length rs" by (rule length_takeWhile_le)
  have at: "?n < length rs \<Longrightarrow> \<not> lt (rs ! ?n) r"
    by (rule nth_length_takeWhile)
  let ?s = "sort_search (length rs) ?f"
  note spec = sort_search_spec [OF mono]
  show ?thesis
  proof (rule linorder_cases [of ?s ?n])
    assume "?s < ?n"
    with n_le have "?f ?s" by (intro spec(3)) auto
    with below [OF \<open>?s < ?n\<close>] f_iff [of ?s] show ?thesis by blast
  next
    assume less: "?n < ?s"
    with spec(1) have "?n < length rs" by simp
    with at spec(2) [OF less] f_iff [of ?n] show ?thesis by blast
  qed
qed

end

interpretation tsr: revision_ops timestampIDKeyLessThanFunc
  "\<lambda>a b. ts_Equal a (TimestampRev b) = Ok True" "\<lambda>a b. ts_GreaterThan a (TimestampRev b) = Ok True"
  "\<lambda>a b. ts_LessThan a (TimestampRev b) = Ok True" timestampIDKeyFunc
  by unfold_locales
    (auto simp: ts_compare_defs timestampIDKeyLessThanFunc_def timestampIDKeyFunc_def)

interpretation txr: revision_ops transactionIDKeyLessThanFunc
  "\<lambda>a b. tx_Equal a (TransactionIDRev b) = Ok True" "\<lambda>a b. tx_GreaterThan a (TransactionIDRev b) = Ok True"
  "\<lambda>a b. tx_LessThan a (TransactionIDRev b) = Ok True" transactionIDKeyFunc
  by unfold_locales
    (auto simp: tx_compare_defs transactionIDKeyLessThanFunc_def transactionIDKeyFunc_def)

lemma hlc_eq_iff:
  "(a :: hlc_revision) = b \<longleftrightarrow> hlcTime a = hlcTime b \<and> logicalclock a = logicalclock b"
  by (cases a; cases b) auto

interpretation hlcr: revision_ops hlcKeyLessThanFunc
  "\<lambda>a b. hlc_Equal a (hlc_rev b) = Ok True" "\<lambda>a b. hlc_GreaterThan a (hlc_rev b) = Ok True"
  "\<lambda>a b. hlc_LessThan a (hlc_rev b) = Ok True" hlcKeyFunc
  by unfold_locales
    (auto simp: hlc_compare_defs hlcKeyLessThanFunc_def hlcKeyFunc_def
      hlc_eq_iff neq_iff)

section \<open>Comparisons\<close>


section \<open>String forms\<close>

lemma ts_roundtrip: "is_i64 t \<Longrightarrow> parseTimestampRevisionString (ts_String t) = Ok (TimestampRev t)"
  by (simp add: parseTimestampRevisionString_def ts_String_def parse_int_format)

lemma tx_roundtrip: "parseTransactionIDRevisionString (tx_String x) = Ok (TransactionIDRev x)"
  using unsigned_less [where 'a = nat, of x]
  by (simp add: parseTransactionIDRevisionString_def tx_String_def parse_uint_format)

text \<open>The canonical string of a hybrid logical clock with timestamp \<open>t\<close> and counter \<open>L\<close>.\<close>

definition hlc_canonical :: "int \<Rightarrow> nat \<Rightarrow> string" where
  "hlc_canonical t L = format_int t @ ''.'' @
     repeat_char (CHR ''0'') (logicalClockLength - length (format_nat L)) @ format_nat L"

lemma length_format_nat_u32: "L < 2 ^ 32 \<Longrightarrow> length (format_nat L) \<le> logicalClockLength"
  using length_format_nat [of L 10] by (simp add: logicalClockLength_def)

lemma parse_canonical:
  assumes t: "is_i64 t" and L: "L < 2 ^ 32"
  shows "parseHLCRevisionString off (hlc_canonical t L) = Ok (HLCRev t (of_nat L + off))"
proof -
  let ?q = "repeat_char (CHR ''0'') (logicalClockLength - length (format_nat L)) @ format_nat L"
  have "split_char (CHR ''.'') (hlc_canonical t L) = [format_int t, ?q]"
    using split_char_one_sep [of "CHR ''.''" "format_int t" ?q]
    by (simp add: hlc_canonical_def format_nat_chars)
  moreover have "length ?q = logicalClockLength"
    using length_format_nat_u32 [OF L] by simp
  moreover have "parse_uint ?q = Ok L"
    using L by (simp add: parse_uint_def parse_digits_zeros parse_format_nat)
  ultimately show ?thesis
    using t L by (simp add: parseHLCRevisionString_def parse_int_format)
qed

lemma hlc_String_no_wrap:
  assumes "off \<le> logicalclock h"
  shows "hlc_String off h = Ok (hlc_canonical (hlcTime h) (unat (logicalclock h) - unat off))"
proof -
  let ?L = "unat (logicalclock h) - unat off"
  have le: "unat off \<le> unat (logicalclock h)"
    using assms by (simp add: word_le_nat_alt)
  then have "uint (logicalclock h) - uint off = int ?L"
    by (simp flip: uint_nat add: of_nat_diff)
  moreover have "?L < 2 ^ 32"
    using unsigned_less [where 'a = nat, of "logicalclock h"] by simp
  ultimately show ?thesis
    using length_format_nat_u32 [of ?L]
    by (simp add: hlc_String_def format_int_def hlc_canonical_def Let_def)
qed

text \<open>
  C40. The string form of a timestamp, a transaction ID and a hybrid logical clock whose counter
  is at least the offset parses back to the same revision.
\<close>

theorem revision_string_roundtrip:
  fixes t :: int and x :: "64 word" and h :: hlc_revision and off :: "32 word"
  assumes "is_i64 t" and "is_i64 (hlcTime h)" and "off \<le> logicalclock h"
  shows "revisionFromString off \<lparr>cdKind = Timestamp, datastoreUniqueID = u\<rparr> (ts_String t) = Ok (TimestampRev t) \<and>
    revisionFromString off \<lparr>cdKind = TransactionID, datastoreUniqueID = u\<rparr> (tx_String x) = Ok (TransactionIDRev x) \<and>
    (\<exists>s. hlc_String off h = Ok s \<and>
       revisionFromString off \<lparr>cdKind = HybridLogicalClock, datastoreUniqueID = u\<rparr> s = Ok (hlc_rev h))"
proof -
  let ?L = "unat (logicalclock h) - unat off"
  have "unat off \<le> unat (logicalclock h)" using assms(3) by (simp add: word_le_nat_alt)
  then have "of_nat ?L + off = logicalclock h"
    by (simp add: of_nat_diff)
  moreover have "?L < 2 ^ 32"
    using unsigned_less [where 'a = nat, of "logicalclock h"] by simp
  ultimately show ?thesis
    using assms by (simp add: revisionFromString_def ts_roundtrip tx_roundtrip hlc_String_no_wrap
        parse_canonical hlc_rev_def)
qed

theorem revision_string_roundtrip_witness:
  "hlc_String 1215752192 \<lparr>hlcTime = 5, logicalclock = 1215752195\<rparr> = Ok ''5.0000000003'' \<and>
   revisionFromString 1215752192 \<lparr>cdKind = Timestamp, datastoreUniqueID = []\<rparr> (ts_String (- 7)) = Ok (TimestampRev (- 7)) \<and>
   (\<exists>s. hlc_String 1215752192 \<lparr>hlcTime = 5, logicalclock = 1215752195\<rparr> = Ok s \<and>
       revisionFromString 1215752192 \<lparr>cdKind = HybridLogicalClock, datastoreUniqueID = []\<rparr> s =
         Ok (HLCRev 5 1215752195))"
proof -
  let ?h = "\<lparr>hlcTime = 5, logicalclock = 1215752195\<rparr>"
  have "is_i64 (- 7)" "is_i64 (hlcTime ?h)" "(1215752192 :: 32 word) \<le> logicalclock ?h"
    by (simp_all add: is_i64_def)
  from revision_string_roundtrip [OF this, of "[]" 0]
  have "revisionFromString 1215752192 \<lparr>cdKind = Timestamp, datastoreUniqueID = []\<rparr> (ts_String (- 7)) = Ok (TimestampRev (- 7)) \<and>
   (\<exists>s. hlc_String 1215752192 ?h = Ok s \<and>
       revisionFromString 1215752192 \<lparr>cdKind = HybridLogicalClock, datastoreUniqueID = []\<rparr> s =
         Ok (HLCRev 5 1215752195))" by (simp add: hlc_rev_def)
  moreover have "hlc_String 1215752192 ?h = Ok ''5.0000000003''"
    by code_simp
  ultimately show ?thesis by simp
qed

text \<open>
  A canonical string with any 32-bit counter \<open>L\<close> is accepted, but it is printed back as
  itself only when adding the offset does not wrap around: larger counters come back as another
  string or make \<open>String\<close> panic.
\<close>

theorem hlc_reprint_iff:
  assumes "is_i64 t" and "L < 2 ^ 32"
  shows "\<exists>r. parseHLCRevisionString off (hlc_canonical t L) = Ok r \<and>
    (revision_String off r = Ok (hlc_canonical t L) \<longleftrightarrow> L + unat off < 2 ^ 32)"
proof -
  let ?l = "of_nat L + off :: 32 word" and ?s = "hlc_canonical t L"
  have sum: "unat ?l = (L + unat off) mod 2 ^ 32"
    using assms(2) by (simp add: unat_word_ariths unat_of_nat)
  have "revision_String off (HLCRev t ?l) = Ok ?s \<longleftrightarrow> L + unat off < 2 ^ 32"
  proof
    assume small: "L + unat off < 2 ^ 32"
    with sum have "unat ?l = L + unat off" by simp
    then have "off \<le> ?l" and "unat ?l - unat off = L" by (auto simp: word_le_nat_alt)
    then show "revision_String off (HLCRev t ?l) = Ok ?s"
      using hlc_String_no_wrap [of off "\<lparr>hlcTime = t, logicalclock = ?l\<rparr>"]
      by (simp add: revision_String_def)
  next
    assume eq: "revision_String off (HLCRev t ?l) = Ok ?s"
    show "L + unat off < 2 ^ 32"
    proof (rule ccontr)
      assume "\<not> L + unat off < 2 ^ 32"
      with sum assms(2) have "unat ?l = L + unat off - 2 ^ 32"
        using unsigned_less [where 'a = nat, of off] by (simp add: mod_if le_mod_geq)
      with assms(2) have "unat ?l < unat off"
        using \<open>\<not> L + unat off < 2 ^ 32\<close> by linarith
      then have neg: "uint ?l - uint off < 0" by (simp add: word_less_nat_alt [symmetric] word_less_def)
      have tail: False
        if eq: "repeat_char (CHR ''0'') n @ format_int (uint ?l - uint off) =
          repeat_char (CHR ''0'') m @ format_nat L" for n m
      proof -
        have "CHR ''-'' \<in> set (repeat_char (CHR ''0'') n @ format_int (uint ?l - uint off))"
          using neg by (simp add: format_int_def)
        then show False
          unfolding eq by (auto simp: format_nat_chars set_replicate_conv_if split: if_splits)
      qed
      from eq tail show False
        by (auto simp: revision_String_def hlc_String_def hlc_canonical_def Let_def split: if_splits)
    qed
  qed
  then show ?thesis using parse_canonical [OF assms] by blast
qed

theorem hlc_reprint_iff_witness:
  "parseHLCRevisionString 1215752192 (hlc_canonical 7 3100000000) = Ok (HLCRev 7 20784896) \<and>
   revision_String 1215752192 (HLCRev 7 20784896) = Err (Panic ''strings: negative Repeat count'') \<and>
   (\<exists>r. parseHLCRevisionString 1215752192 (hlc_canonical 7 3100000000) = Ok r \<and>
     revision_String 1215752192 r \<noteq> Ok (hlc_canonical 7 3100000000))"
proof -
  have a: "is_i64 7" and b: "(3100000000 :: nat) < 2 ^ 32" by (simp_all add: is_i64_def)
  have "parseHLCRevisionString 1215752192 (hlc_canonical 7 3100000000) = Ok (HLCRev 7 20784896)"
    using parse_canonical [OF a b, of 1215752192] by simp
  moreover have "revision_String 1215752192 (HLCRev 7 20784896) = Err (Panic ''strings: negative Repeat count'')"
    by (simp add: revision_String_def hlc_String_def format_int_def logicalClockLength_def
        format_nat.simps)
  ultimately show ?thesis
    using hlc_reprint_iff [OF a b, of 1215752192] by simp
qed

end
