(* ===== verification/Revision_Clock.thy ===== *)
theory Revision_Clock
  imports Revisions
begin

text \<open>
  \<open>revisions/optimized.go\<close> and \<open>revisions/remoteclock.go\<close>: the cache of optimized revisions and
  the quantization and garbage-collection checks of datastores with their own clock. The clocks,
  the random draw and the results of the datastore's functions are arguments of each call; a
  \<open>time.Time\<close> is an unbounded integer, a \<open>time.Duration\<close> or a nanosecond count an \<open>int64\<close>.
\<close>

section \<open>The cache\<close>

record valid_revision =
  vrRevision :: revision
  validThrough :: nanotime

record cached_optimized_revisions =
  maxRevisionStaleness :: int
  candidates :: "valid_revision list"

definition newCachedOptimizedRevisions :: "int \<Rightarrow> cached_optimized_revisions" where
  "newCachedOptimizedRevisions staleness = \<lparr>maxRevisionStaleness = staleness, candidates = []\<rparr>"

text \<open>
  One call of \<open>OptimizedRevision\<close>: \<open>localNow\<close> is the reading of the clock, \<open>draw\<close> the value of
  \<open>rand.Int63n(maxRevisionStaleness)\<close>, \<open>optimized\<close> what the datastore's function returns if it is
  called.
\<close>

definition adjusted_now :: "cached_optimized_revisions \<Rightarrow> nanotime \<Rightarrow> int \<Rightarrow> nanotime" where
  "adjusted_now cor localNow draw =
     (if maxRevisionStaleness cor > 0 then localNow - draw else localNow)"

definition prune :: "cached_optimized_revisions \<Rightarrow> nanotime \<Rightarrow> valid_revision list" where
  "prune cor localNow =
     dropWhile (\<lambda>c. validThrough c + maxRevisionStaleness cor < localNow) (candidates cor)"

definition optimizedRevision ::
    "cached_optimized_revisions \<Rightarrow> nanotime \<Rightarrow> int \<Rightarrow> (revision \<times> int) result \<Rightarrow>
     cached_optimized_revisions \<times> revision result" where
  "optimizedRevision cor localNow draw optimized =
     (case find (\<lambda>c. validThrough c > adjusted_now cor localNow draw) (candidates cor) of
        Some c \<Rightarrow> (cor, Ok (vrRevision c))
      | None \<Rightarrow>
          (case optimized of
             Err e \<Rightarrow> (cor, Err (Wrap ''unable to compute optimized revision'' e))
           | Ok (r, validFor) \<Rightarrow>
               (cor\<lparr>candidates := prune cor localNow @
                  [\<lparr>vrRevision = r, validThrough = localNow + validFor\<rparr>]\<rparr>, Ok r)))"

text \<open>The contract of \<open>rand.Int63n\<close>, called only with a positive argument.\<close>

definition draw_ok :: "cached_optimized_revisions \<Rightarrow> int \<Rightarrow> bool" where
  "draw_ok cor draw \<longleftrightarrow> maxRevisionStaleness cor > 0 \<longrightarrow> 0 \<le> draw \<and> draw < maxRevisionStaleness cor"

section \<open>The remote clock\<close>

record remote_clock =
  gcWindowNanos :: int
  followerReadDelayNanos :: int
  quantizationNanos :: int

definition newRemoteClockRevisions ::
    "int \<Rightarrow> int \<Rightarrow> int \<Rightarrow> int \<Rightarrow> remote_clock \<times> cached_optimized_revisions" where
  "newRemoteClockRevisions gcWindow staleness followerReadDelay quantization =
     (let staleness' = (if staleness > gcWindow then i64 (gcWindow - 1) else staleness)
      in (\<lparr>gcWindowNanos = gcWindow, followerReadDelayNanos = followerReadDelay,
           quantizationNanos = quantization\<rparr>, newCachedOptimizedRevisions staleness'))"

text \<open>The interface \<open>WithTimestampRevision\<close>: timestamps and hybrid logical clocks implement it.\<close>

definition timestampNanoSec :: "revision \<Rightarrow> int option" where
  "timestampNanoSec r = (case r of
     TimestampRev t \<Rightarrow> Some (ts_TimestampNanoSec t)
   | HLCRev t l \<Rightarrow> Some (hlc_TimestampNanoSec \<lparr>hlcTime = t, logicalclock = l\<rparr>)
   | _ \<Rightarrow> None)"

definition constructForTimestamp :: "32 word \<Rightarrow> revision \<Rightarrow> int \<Rightarrow> revision" where
  "constructForTimestamp off r ts = (case r of
     HLCRev _ _ \<Rightarrow> hlc_ConstructForTimestamp off ts
   | _ \<Rightarrow> ts_ConstructForTimestamp ts)"

definition optimizedRevisionFunc ::
    "32 word \<Rightarrow> remote_clock \<Rightarrow> revision result \<Rightarrow> (revision \<times> int) result" where
  "optimizedRevisionFunc off rcr now =
     (case now of
        Err e \<Rightarrow> Err e
      | Ok nowRev \<Rightarrow>
          if nowRev = NoRevision then Err (InvalidRevision nowRev CouldNotDetermineRevision)
          else (case timestampNanoSec nowRev of
             None \<Rightarrow> Err (MustBug ''expected with-timestamp revision'')
           | Some nowTS \<Rightarrow>
               (let delayedNow = i64 (nowTS - followerReadDelayNanos rcr);
                    q = quantizationNanos rcr
                in if q > 0
                   then let afterLastQuantization = delayedNow smod q
                        in Ok (constructForTimestamp off nowRev (i64 (delayedNow - afterLastQuantization)),
                               i64 (q - afterLastQuantization))
                   else Ok (constructForTimestamp off nowRev delayedNow, 0))))"

definition checkRevision :: "remote_clock \<Rightarrow> revision result \<Rightarrow> revision \<Rightarrow> unit result" where
  "checkRevision rcr nowRes dsRevision =
     (if dsRevision = NoRevision then Err (InvalidRevision dsRevision CouldNotDetermineRevision)
      else (case timestampNanoSec dsRevision of
         None \<Rightarrow> Err (Panic ''interface conversion: not WithTimestampRevision'')
       | Some revisionNanos \<Rightarrow>
           (case nowRes of
              Err e \<Rightarrow> Err e
            | Ok now \<Rightarrow>
                (case timestampNanoSec now of
                   None \<Rightarrow> Err (MustBug ''expected HLC revision'')
                 | Some nowNanos \<Rightarrow>
                     if revisionNanos < i64 (nowNanos - gcWindowNanos rcr)
                     then Err (InvalidRevision dsRevision RevisionStale)
                     else if revisionNanos > nowNanos
                     then Err (InvalidRevision dsRevision CouldNotDetermineRevision)
                     else Ok ()))))"

section \<open>Quantization\<close>

definition clock_ok :: "remote_clock \<Rightarrow> bool" where
  "clock_ok rcr \<longleftrightarrow> 0 \<le> followerReadDelayNanos rcr \<and> followerReadDelayNanos rcr < 2 ^ 62 \<and>
     0 < quantizationNanos rcr \<and> quantizationNanos rcr < 2 ^ 62 \<and>
     0 \<le> gcWindowNanos rcr \<and> gcWindowNanos rcr < 2 ^ 62"

text \<open>Instants the clock can show: not before the follower delay has passed once.\<close>

definition instant_ok :: "remote_clock \<Rightarrow> int \<Rightarrow> bool" where
  "instant_ok rcr now \<longleftrightarrow> followerReadDelayNanos rcr \<le> now \<and> now < 2 ^ 62"

lemma timestampNanoSec_construct [simp]:
  "timestampNanoSec r = Some t \<Longrightarrow> timestampNanoSec (constructForTimestamp off r ts) = Some ts"
  by (cases r) (auto simp: timestampNanoSec_def constructForTimestamp_def
      hlc_ConstructForTimestamp_def ts_ConstructForTimestamp_def ts_TimestampNanoSec_def
      hlc_TimestampNanoSec_def)

lemma timestampNanoSec_NoRevision [simp]: "timestampNanoSec NoRevision = None"
  by (simp add: timestampNanoSec_def)

lemma construct_not_NoRevision [simp]: "constructForTimestamp off r ts \<noteq> NoRevision"
  by (cases r) (auto simp: constructForTimestamp_def hlc_ConstructForTimestamp_def
      ts_ConstructForTimestamp_def)

lemma optimizedRevisionFunc_quantizes:
  assumes "clock_ok rcr" and "instant_ok rcr now" and "timestampNanoSec nowRev = Some now"
  shows "optimizedRevisionFunc off rcr (Ok nowRev) =
    (let d = now - followerReadDelayNanos rcr; q = quantizationNanos rcr
     in Ok (constructForTimestamp off nowRev (d div q * q), q - d mod q))"
proof -
  let ?d = "now - followerReadDelayNanos rcr" and ?q = "quantizationNanos rcr"
  have d: "0 \<le> ?d" and q: "0 < ?q" "?q < 2 ^ 62" and "?d < 2 ^ 62"
    using assms(1,2) by (auto simp: clock_ok_def instant_ok_def)
  have m: "?d smod ?q = ?d mod ?q" "0 \<le> ?d mod ?q" "?d mod ?q < ?q" "?d mod ?q \<le> ?d"
    using d q smod_nonneg [of ?d ?q] by (simp_all add: zmod_le_nonneg_dividend)
  have i: "i64 ?d = ?d" "i64 (?d - ?d mod ?q) = ?d - ?d mod ?q" "i64 (?q - ?d mod ?q) = ?q - ?d mod ?q"
    using d q m \<open>?d < 2 ^ 62\<close> by (auto intro!: i64_id simp: is_i64_def)
  moreover have "?d - ?d mod ?q = ?d div ?q * ?q" by (rule minus_mod_eq_div_mult)
  moreover have "nowRev \<noteq> NoRevision" using assms(3) by auto
  ultimately show ?thesis
    using assms(3) q(1) by (simp only: optimizedRevisionFunc_def Let_def i m(1) sum.case if_False
        option.case if_True)
qed

text \<open>
  With a positive quantization interval, the optimized revision is the last multiple of the
  interval that is not after the delayed clock, and it is reported valid for exactly as long as a
  new computation would give it again.
\<close>

theorem quantized_revision_stable:
  assumes "clock_ok rcr" and "instant_ok rcr now" and "timestampNanoSec nowRev = Some now"
  shows "\<exists>ts validFor.
    optimizedRevisionFunc off rcr (Ok nowRev) = Ok (constructForTimestamp off nowRev ts, validFor) \<and>
    quantizationNanos rcr dvd ts \<and> ts \<le> now - followerReadDelayNanos rcr \<and>
    0 < validFor \<and> validFor \<le> quantizationNanos rcr \<and>
    (\<forall>now' nowRev'. now \<le> now' \<and> instant_ok rcr now' \<and> timestampNanoSec nowRev' = Some now' \<longrightarrow>
       ((\<exists>v. optimizedRevisionFunc off rcr (Ok nowRev') = Ok (constructForTimestamp off nowRev' ts, v))
        \<longleftrightarrow> now' < now + validFor))"
proof -
  let ?delay = "followerReadDelayNanos rcr" and ?q = "quantizationNanos rcr"
  let ?d = "now - ?delay"
  let ?ts = "?d div ?q * ?q" and ?v = "?q - ?d mod ?q"
  have q: "0 < ?q" using assms(1) by (simp add: clock_ok_def)
  have bound: "?ts + ?d mod ?q = ?d" "?d mod ?q < ?q" "0 \<le> ?d mod ?q"
    using q by simp_all
  have same: "(\<exists>v. optimizedRevisionFunc off rcr (Ok nowRev') = Ok (constructForTimestamp off nowRev' ?ts, v))
        \<longleftrightarrow> now' < now + ?v"
    if later: "now \<le> now'" "instant_ok rcr now'" "timestampNanoSec nowRev' = Some now'" for now' nowRev'
  proof -
    let ?d' = "now' - ?delay"
    have "constructForTimestamp off nowRev' a = constructForTimestamp off nowRev' b \<longleftrightarrow> a = b" for a b
      using timestampNanoSec_construct [OF later(3), of off] by (metis option.inject)
    then have "(\<exists>v. optimizedRevisionFunc off rcr (Ok nowRev') = Ok (constructForTimestamp off nowRev' ?ts, v))
        \<longleftrightarrow> ?d' div ?q = ?d div ?q"
      using optimizedRevisionFunc_quantizes [OF assms(1) later(2,3), of off] q by (auto simp: Let_def)
    also have "\<dots> \<longleftrightarrow> ?d' < ?ts + ?q"
    proof
      assume "?d' div ?q = ?d div ?q"
      then have "?d' = ?ts + ?d' mod ?q" by (metis div_mult_mod_eq)
      with q show "?d' < ?ts + ?q" by (metis add_less_cancel_left pos_mod_bound)
    next
      assume "?d' < ?ts + ?q"
      moreover have "?ts \<le> ?d'" using bound later(1) by linarith
      ultimately show "?d' div ?q = ?d div ?q"
        using q by (intro div_pos_pos_trivial [THEN trans] int_div_pos_eq [of _ _ _ "?d' - ?ts"]) auto
    qed
    also have "\<dots> \<longleftrightarrow> now' < now + ?v" using bound by linarith
    finally show ?thesis .
  qed
  show ?thesis
  proof (rule exI [of _ ?ts], rule exI [of _ ?v], intro conjI)
    show "optimizedRevisionFunc off rcr (Ok nowRev) = Ok (constructForTimestamp off nowRev ?ts, ?v)"
      using optimizedRevisionFunc_quantizes [OF assms, of off] by (simp add: Let_def)
    show "?ts \<le> ?d" "0 < ?v" "?v \<le> ?q" using bound by linarith+
  qed (use same in auto)
qed

theorem quantized_revision_stable_witness:
  "\<exists>ts validFor.
    optimizedRevisionFunc 0 \<lparr>gcWindowNanos = 1000, followerReadDelayNanos = 10, quantizationNanos = 50\<rparr>
      (Ok (TimestampRev 137)) = Ok (TimestampRev ts, validFor) \<and> ts = 100 \<and> validFor = 23"
proof -
  let ?rcr = "\<lparr>gcWindowNanos = 1000, followerReadDelayNanos = 10, quantizationNanos = 50\<rparr>"
  have "clock_ok ?rcr" "instant_ok ?rcr 137" "timestampNanoSec (TimestampRev 137) = Some 137"
    by (simp_all add: clock_ok_def instant_ok_def timestampNanoSec_def ts_TimestampNanoSec_def)
  from quantized_revision_stable [OF this, of 0]
  obtain ts v where r: "optimizedRevisionFunc 0 ?rcr (Ok (TimestampRev 137)) =
      Ok (constructForTimestamp 0 (TimestampRev 137) ts, v)" by blast
  moreover have "optimizedRevisionFunc 0 ?rcr (Ok (TimestampRev 137)) = Ok (TimestampRev 100, 23)"
    by code_simp
  ultimately show ?thesis
    by (simp add: constructForTimestamp_def ts_ConstructForTimestamp_def)
qed

section \<open>The revisions the cache serves\<close>

text \<open>
  The states of the cache of one remote clock, reached by calls at instants that do not go
  backwards. The local clock and the datastore's clock agree; the datastore's function may fail.
\<close>

definition now_answer :: "int \<Rightarrow> revision result \<Rightarrow> bool" where
  "now_answer now nowRes \<longleftrightarrow> (case nowRes of Err e \<Rightarrow> True | Ok r \<Rightarrow> timestampNanoSec r = Some now)"

inductive cache_reach :: "32 word \<Rightarrow> remote_clock \<Rightarrow> cached_optimized_revisions \<Rightarrow> int \<Rightarrow> bool"
  for off :: "32 word" and rcr :: remote_clock where
  start: "newRemoteClockRevisions gc staleness delay q = (rcr, cor) \<Longrightarrow> cache_reach off rcr cor now"
| call: "cache_reach off rcr cor now \<Longrightarrow> now \<le> now' \<Longrightarrow> instant_ok rcr now' \<Longrightarrow> draw_ok cor draw \<Longrightarrow>
    now_answer now' nowRes \<Longrightarrow>
    optimizedRevision cor now' draw (optimizedRevisionFunc off rcr nowRes) = (cor', res) \<Longrightarrow>
    cache_reach off rcr cor' now'"

text \<open>A cached revision lies at most the interval and the delay before the end of its validity.\<close>

definition cand_ok :: "remote_clock \<Rightarrow> int \<Rightarrow> valid_revision \<Rightarrow> bool" where
  "cand_ok rcr now c \<longleftrightarrow> (\<exists>ts. timestampNanoSec (vrRevision c) = Some ts \<and>
     ts + followerReadDelayNanos rcr \<le> now \<and>
     validThrough c \<le> ts + followerReadDelayNanos rcr + quantizationNanos rcr)"

lemma cand_ok_mono [go_intros]: "cand_ok rcr now c \<Longrightarrow> now \<le> now' \<Longrightarrow> cand_ok rcr now' c"
  unfolding cand_ok_def by (auto intro: order_trans)

lemma optimizedRevisionFunc_Ok:
  assumes "clock_ok rcr" and "instant_ok rcr now" and "now_answer now nowRes"
    and "optimizedRevisionFunc off rcr nowRes = Ok (r, validFor)"
  shows "\<exists>ts. timestampNanoSec r = Some ts \<and> ts + followerReadDelayNanos rcr \<le> now \<and>
    now + validFor = ts + followerReadDelayNanos rcr + quantizationNanos rcr \<and> 0 < validFor"
proof -
  let ?d = "now - followerReadDelayNanos rcr" and ?q = "quantizationNanos rcr"
  obtain nowRev where n: "nowRes = Ok nowRev" "timestampNanoSec nowRev = Some now"
    using assms(3,4) by (cases nowRes) (auto simp: now_answer_def optimizedRevisionFunc_def)
  obtain ts md where d: "ts = ?d div ?q * ?q" "md = ?d mod ?q" by blast
  have "0 < ?q" using assms(1) by (simp add: clock_ok_def)
  then have "ts + md = ?d" "0 \<le> md" "md < ?q" unfolding d by simp_all
  moreover have "r = constructForTimestamp off nowRev ts" "validFor = ?q - md"
    using optimizedRevisionFunc_quantizes [OF assms(1,2) n(2), of off] assms(4) n(1)
    unfolding d by (auto simp: Let_def)
  ultimately show ?thesis
    using n(2) by (intro exI [of _ ts]) auto
qed

lemma computed_cand_ok:
  assumes "clock_ok rcr" and "instant_ok rcr now" and "now_answer now nowRes"
    and "optimizedRevisionFunc off rcr nowRes = Ok (r, validFor)"
  shows "cand_ok rcr now \<lparr>vrRevision = r, validThrough = now + validFor\<rparr>"
  using optimizedRevisionFunc_Ok [OF assms] by (auto simp: cand_ok_def)

lemma find_SomeD: "find P xs = Some x \<Longrightarrow> x \<in> set xs" "find P xs = Some x \<Longrightarrow> P x"
  by (auto simp: find_Some_iff)

lemma set_prune: "set (prune cor now) \<subseteq> set (candidates cor)"
  by (auto simp: prune_def dest: set_dropWhileD)

lemma optimizedRevision_candidates:
  assumes "clock_ok rcr" and "instant_ok rcr now'" and "now_answer now' nowRes" and "now \<le> now'"
    and "\<forall>c \<in> set (candidates cor). cand_ok rcr now c"
    and "optimizedRevision cor now' draw (optimizedRevisionFunc off rcr nowRes) = (cor', res)"
  shows "(\<forall>c \<in> set (candidates cor'). cand_ok rcr now' c) \<and>
    maxRevisionStaleness cor' = maxRevisionStaleness cor"
  using assms(4-6) computed_cand_ok [OF assms(1-3), of off] set_prune
  by (auto simp: optimizedRevision_def split: option.splits sum.splits dest!: set_prune [THEN subsetD]
      intro: cand_ok_mono)

lemma cache_reach_cand_ok:
  assumes "cache_reach off rcr cor now" and "clock_ok rcr"
  shows "\<forall>c \<in> set (candidates cor). cand_ok rcr now c"
  using assms
proof (induction rule: cache_reach.induct)
  case (start gc staleness delay q cor now)
  then show ?case
    by (auto simp: newRemoteClockRevisions_def newCachedOptimizedRevisions_def Let_def)
next
  case (call cor now now' draw nowRes cor' res)
  with optimizedRevision_candidates show ?case by blast
qed

lemma served_within:
  assumes "\<forall>c \<in> set (candidates cor). cand_ok rcr now c" and "clock_ok rcr" and "instant_ok rcr now"
    and "draw_ok cor draw" and "now_answer now nowRes"
    and "optimizedRevision cor now draw (optimizedRevisionFunc off rcr nowRes) = (cor', Ok r)"
  shows "\<exists>ts. timestampNanoSec r = Some ts \<and> ts \<le> now \<and>
    now \<le> ts + followerReadDelayNanos rcr + quantizationNanos rcr + max 0 (maxRevisionStaleness cor)"
proof (cases "find (\<lambda>c. validThrough c > adjusted_now cor now draw) (candidates cor)")
  case None
  with assms(6) obtain v where "optimizedRevisionFunc off rcr nowRes = Ok (r, v)"
    by (auto simp: optimizedRevision_def split: sum.splits)
  from optimizedRevisionFunc_Ok [OF assms(2,3,5) this] assms(2) show ?thesis
    by (fastforce simp: clock_ok_def)
next
  case (Some c)
  then have c: "c \<in> set (candidates cor)" "validThrough c > adjusted_now cor now draw" "r = vrRevision c"
    using assms(6) find_SomeD [OF Some] by (simp_all add: optimizedRevision_def Some)
  moreover have "adjusted_now cor now draw \<ge> now - max 0 (maxRevisionStaleness cor)"
    using assms(4) by (auto simp: adjusted_now_def draw_ok_def)
  ultimately show ?thesis
    using assms(1-3) by (fastforce simp: cand_ok_def clock_ok_def)
qed



section \<open>Pruning\<close>

lemma pruned_not_servable:
  assumes "0 \<le> maxRevisionStaleness cor" and "draw_ok cor draw" and "now \<le> now'"
    and "validThrough c + maxRevisionStaleness cor < now"
  shows "\<not> validThrough c > adjusted_now cor now' draw"
  using assms by (auto simp: adjusted_now_def draw_ok_def split: if_splits)

lemma find_dropWhile:
  "(\<And>x. P x \<Longrightarrow> \<not> Q x) \<Longrightarrow> find Q (dropWhile P xs) = find Q xs"
  by (induction xs) auto

text \<open>
  Pruning is invisible: once a call has dropped the leading expired candidates, every later
  call answers exactly as it would have with the whole list of candidates, for every reading of
  the clock that does not go backwards and every random draw.
\<close>

theorem prune_invisible:
  assumes "0 \<le> maxRevisionStaleness cor" and "draw_ok cor draw" and "now \<le> now'"
  shows "snd (optimizedRevision (cor\<lparr>candidates := prune cor now @ new\<rparr>) now' draw optimized) =
    snd (optimizedRevision (cor\<lparr>candidates := candidates cor @ new\<rparr>) now' draw optimized)"
proof -
  let ?Q = "\<lambda>c. validThrough c > adjusted_now cor now' draw"
  have find_append: "find ?Q (xs @ ys) = (case find ?Q xs of None \<Rightarrow> find ?Q ys | Some c \<Rightarrow> Some c)"
    for xs ys by (induction xs) auto
  have "find ?Q (prune cor now) = find ?Q (candidates cor)"
    unfolding prune_def by (rule find_dropWhile) (use pruned_not_servable assms in blast)
  then have "find ?Q (prune cor now @ new) = find ?Q (candidates cor @ new)"
    by (simp add: find_append)
  moreover have "adjusted_now (cor\<lparr>candidates := xs\<rparr>) now' draw = adjusted_now cor now' draw" for xs
    by (simp add: adjusted_now_def)
  ultimately show ?thesis
    by (simp add: optimizedRevision_def split: option.split sum.split)
qed

theorem prune_invisible_witness:
  "snd (optimizedRevision \<lparr>maxRevisionStaleness = 5, candidates =
      prune \<lparr>maxRevisionStaleness = 5, candidates =
        [\<lparr>vrRevision = TimestampRev 1, validThrough = 10\<rparr>, \<lparr>vrRevision = TimestampRev 2, validThrough = 40\<rparr>]\<rparr> 20\<rparr>
      30 4 (Err ErrNotFound)) = Ok (TimestampRev 2)"
proof -
  let ?cor = "\<lparr>maxRevisionStaleness = 5, candidates =
        [\<lparr>vrRevision = TimestampRev 1, validThrough = 10\<rparr>, \<lparr>vrRevision = TimestampRev 2, validThrough = 40\<rparr>]\<rparr>"
  have "snd (optimizedRevision (?cor\<lparr>candidates := prune ?cor 20 @ []\<rparr>) 30 4 (Err ErrNotFound)) =
    snd (optimizedRevision (?cor\<lparr>candidates := candidates ?cor @ []\<rparr>) 30 4 (Err ErrNotFound))"
    by (rule prune_invisible) (simp_all add: draw_ok_def)
  moreover have "snd (optimizedRevision ?cor 30 4 (Err ErrNotFound)) = Ok (TimestampRev 2)"
    by (simp add: optimizedRevision_def adjusted_now_def)
  ultimately show ?thesis by simp
qed

end
