(* ===== verification/Memdb_Iface.thy ===== *)
theory Memdb_Iface
  imports Spice_Types "HOL-Library.Option_ord"
begin

text \<open>
  \<open>memdb/schema.go\<close>: the rows of the in-memory datastore, their conversions, and the interface to
  the embedded database \<open>go-memdb\<close>. That package is not under \<open>src/\<close>: its transactions are an
  arbitrary type \<open>'t\<close> with the operations of the record \<open>txn_ops\<close>, and the locale \<open>memdb_txn\<close> states
  what its documentation promises about them. Stored objects are pointers; the code changes a stored
  object in place only for counters, so a counter row holds a reference into a heap of counters
  and every other row is its value.
\<close>

section \<open>Rows\<close>

record contextualized_caveat =
  ccName :: string
  ccContext :: any_map

record relationship_integrity =
  riKeyID :: string
  riHash :: bytes
  riTimestamp :: nanotime

record relationship_row =
  rNamespace :: string
  rResourceID :: string
  rRelation :: string
  rSubjectNamespace :: string
  rSubjectObjectID :: string
  rSubjectRelation :: string
  rCaveat :: "contextualized_caveat option"
  rIntegrity :: "relationship_integrity option"
  rExpiration :: "nanotime option"

record namespace_row =
  nsName :: string
  nsConfigBytes :: bytes
  nsUpdated :: revision

record counter_row =
  ctName :: string
  ctFilterBytes :: bytes
  ctCount :: int
  ctUpdated :: revision

record caveat_row =
  cvName :: string
  cvDefinition :: bytes
  cvRevision :: revision

record changelog_row =
  clRevisionNanos :: int
  clChanges :: revision_changes

datatype table = TableNamespace | TableRelationship | TableCaveats | TableCounters | TableChangelog

datatype row =
    RelationshipRow relationship_row
  | NamespaceRow namespace_row
  | CaveatRow caveat_row
  | CounterRow string nat            \<comment> \<open>the name and the reference of the counter object\<close>
  | ChangelogRow changelog_row

text \<open>The value of a row under its \<open>id\<close> index.\<close>

datatype key = StrKey "string list" | IntKey int

definition rel_key :: "relationship_row \<Rightarrow> string list" where
  "rel_key r = [rNamespace r, rResourceID r, rRelation r, rSubjectNamespace r, rSubjectObjectID r,
     rSubjectRelation r]"

fun row_key :: "row \<Rightarrow> key" where
  "row_key (RelationshipRow r) = StrKey (rel_key r)"
| "row_key (NamespaceRow n) = StrKey [nsName n]"
| "row_key (CaveatRow c) = StrKey [cvName c]"
| "row_key (CounterRow n _) = StrKey [n]"
| "row_key (ChangelogRow c) = IntKey (clRevisionNanos c)"

fun row_table :: "row \<Rightarrow> table" where
  "row_table (RelationshipRow _) = TableRelationship"
| "row_table (NamespaceRow _) = TableNamespace"
| "row_table (CaveatRow _) = TableCaveats"
| "row_table (CounterRow _ _) = TableCounters"
| "row_table (ChangelogRow _) = TableChangelog"

text \<open>
  An index stores strings with a terminating zero byte and refuses empty ones: for strings that are
  not empty and have no zero byte the encoding keeps the lexicographic order.
\<close>

definition field_ok :: "string \<Rightarrow> bool" where
  "field_ok s \<longleftrightarrow> s \<noteq> [] \<and> CHR 0x00 \<notin> set s"

fun key_ok :: "key \<Rightarrow> bool" where
  "key_ok (StrKey ss) = list_all field_ok ss"
| "key_ok (IntKey _) = True"

instantiation key :: linorder
begin

fun less_eq_key :: "key \<Rightarrow> key \<Rightarrow> bool" where
  "less_eq_key (StrKey a) (StrKey b) = (a \<le> b)"
| "less_eq_key (StrKey _) (IntKey _) = True"
| "less_eq_key (IntKey _) (StrKey _) = False"
| "less_eq_key (IntKey a) (IntKey b) = (a \<le> b)"

definition less_key :: "key \<Rightarrow> key \<Rightarrow> bool" where
  "less_key a b \<longleftrightarrow> a \<le> b \<and> \<not> b \<le> a"

instance
proof
  fix a b c :: key
  show "(a < b) = (a \<le> b \<and> \<not> b \<le> a)" by (rule less_key_def)
  show "a \<le> a" by (cases a) auto
  show "a \<le> b \<Longrightarrow> b \<le> c \<Longrightarrow> a \<le> c" by (cases a; cases b; cases c) auto
  show "a \<le> b \<Longrightarrow> b \<le> a \<Longrightarrow> a = b" by (cases a; cases b) auto
  show "a \<le> b \<or> b \<le> a" by (cases a; cases b) auto
qed

end

lemma less_key_simps [simp]:
  "StrKey a < StrKey b \<longleftrightarrow> a < b" "StrKey a < IntKey i" "\<not> IntKey i < StrKey a" "IntKey i < IntKey j \<longleftrightarrow> i < j"
  by (auto simp: less_key_def)

section \<open>Conversions\<close>

definition contextualizedCaveat ::
    "spice_lib \<Rightarrow> contextualized_caveat option \<Rightarrow> ctx_caveat option result" where
  "contextualizedCaveat L cr = (case cr of
     None \<Rightarrow> Ok None
   | Some c \<Rightarrow> (case new_struct L (ccContext c) of
       Err e \<Rightarrow> Err e
     | Ok v \<Rightarrow> Ok (Some \<lparr>caveatName = ccName c, caveatContext = v\<rparr>)))"

definition relationshipIntegrity :: "spice_lib \<Rightarrow> relationship_integrity \<Rightarrow> rel_integrity" where
  "relationshipIntegrity L ri = \<lparr>keyId = riKeyID ri, hashBytes = riHash ri,
     hashedAt = timestamp_new L (riTimestamp ri)\<rparr>"

definition row_Relationship :: "spice_lib \<Rightarrow> relationship_row \<Rightarrow> tuple_relationship result" where
  "row_Relationship L r = (case contextualizedCaveat L (rCaveat r) of
     Err e \<Rightarrow> Err e
   | Ok cr \<Rightarrow> Ok \<lparr>
       resource = \<lparr>objectType = rNamespace r, objectID = rResourceID r, objRelation = rRelation r\<rparr>,
       subject = \<lparr>objectType = rSubjectNamespace r, objectID = rSubjectObjectID r,
         objRelation = rSubjectRelation r\<rparr>,
       optionalCaveat = cr,
       optionalIntegrity = map_option (relationshipIntegrity L) (rIntegrity r),
       optionalExpiration = rExpiration r\<rparr>)"

text \<open>The printed form; \<open>format_time\<close> is the format \<open>time.RFC3339Nano\<close>.\<close>

definition row_String :: "(nanotime \<Rightarrow> string) \<Rightarrow> relationship_row \<Rightarrow> string" where
  "row_String format_time r =
     (let cav = (case rCaveat r of None \<Rightarrow> [] | Some c \<Rightarrow> ''['' @ ccName c @ '']'');
          expn = (case rExpiration r of None \<Rightarrow> [] | Some t \<Rightarrow> ''[expiration:'' @ format_time t @ '']'')
      in rNamespace r @ '':'' @ rResourceID r @ ''#'' @ rRelation r @ ''@'' @ rSubjectNamespace r @
         '':'' @ rSubjectObjectID r @ ''#'' @ rSubjectRelation r @ cav @ expn)"

section \<open>Transactions\<close>

text \<open>The secondary indexes of the relationship table, as \<open>Get\<close> names them.\<close>

datatype index = IndexNamespacePrefix | IndexNamespace | IndexNamespaceAndRelation | IndexSubjectNamespace

fun index_match :: "index \<Rightarrow> string list \<Rightarrow> row \<Rightarrow> bool" where
  "index_match IndexNamespacePrefix [p] (RelationshipRow r) = has_prefix (rNamespace r) p"
| "index_match IndexNamespace [n] (RelationshipRow r) = (rNamespace r = n)"
| "index_match IndexNamespaceAndRelation [n, e] (RelationshipRow r) = (rNamespace r = n \<and> rRelation r = e)"
| "index_match IndexSubjectNamespace [n] (RelationshipRow r) = (rSubjectNamespace r = n)"
| "index_match _ _ _ = False"

text \<open>
  \<open>Txn.Insert\<close> and \<open>Txn.Delete\<close> return the transaction they leave behind, also with an error;
  \<open>Get\<close> and \<open>LowerBound\<close> return the rows their iterator will yield: go-memdb iterates over an
  immutable tree. \<open>LowerBound\<close> is used on the \<open>id\<close> index, with no argument or with a revision.
\<close>

record 't txn_ops =
  txFirst :: "'t \<Rightarrow> table \<Rightarrow> key \<Rightarrow> row option result"
  txGet :: "'t \<Rightarrow> index \<Rightarrow> string list \<Rightarrow> row list result"
  txLowerBound :: "'t \<Rightarrow> table \<Rightarrow> int option \<Rightarrow> row list result"
  txInsert :: "'t \<Rightarrow> table \<Rightarrow> row \<Rightarrow> 't \<times> unit result"
  txDelete :: "'t \<Rightarrow> table \<Rightarrow> row \<Rightarrow> 't \<times> unit result"
  txChanges :: "'t \<Rightarrow> (table \<times> row option \<times> row option) list"

type_synonym contents = "table \<Rightarrow> key \<Rightarrow> row option"

definition sorted_rows :: "(key \<Rightarrow> row option) \<Rightarrow> row list" where
  "sorted_rows m = map (the \<circ> m) (sorted_list_of_set (dom m))"

definition key_from :: "int option \<Rightarrow> key \<Rightarrow> bool" where
  "key_from from k = (case from of None \<Rightarrow> True | Some i \<Rightarrow> IntKey i \<le> k)"

definition put_row :: "table \<Rightarrow> row \<Rightarrow> contents \<Rightarrow> contents" where
  "put_row tb r c = c(tb := (c tb)(row_key r \<mapsto> r))"

definition del_row :: "table \<Rightarrow> key \<Rightarrow> contents \<Rightarrow> contents" where
  "del_row tb k c = c(tb := (c tb)(k := None))"

definition contents_ok :: "contents \<Rightarrow> bool" where
  "contents_ok c \<longleftrightarrow> (\<forall>tb. finite (dom (c tb))) \<and>
     (\<forall>tb k r. c tb k = Some r \<longrightarrow> row_table r = tb \<and> row_key r = k \<and> key_ok k)"

text \<open>
  What the documentation of go-memdb promises: \<open>view\<close> are the rows the transaction sees, \<open>base\<close> the
  rows of the database it started from. Rows come in the order of their keys, \<open>Delete\<close> of a
  missing row fails, and \<open>Changes\<close> lists each written key once with its first and last value.
\<close>

locale memdb_txn =
  fixes T :: "'t txn_ops" and view base :: "'t \<Rightarrow> contents" and valid :: "'t \<Rightarrow> bool"
  assumes view_ok: "valid t \<Longrightarrow> contents_ok (view t) \<and> contents_ok (base t)"
    and first: "valid t \<Longrightarrow> txFirst T t tb k = Ok (view t tb k)"
    and get: "valid t \<Longrightarrow> txGet T t idx args = Ok (filter (index_match idx args) (sorted_rows (view t TableRelationship)))"
    and lower_bound: "valid t \<Longrightarrow>
      txLowerBound T t tb from = Ok (filter (\<lambda>r. key_from from (row_key r)) (sorted_rows (view t tb)))"
    and insert: "valid t \<Longrightarrow> row_table r = tb \<Longrightarrow> key_ok (row_key r) \<Longrightarrow>
      \<exists>t'. txInsert T t tb r = (t', Ok ()) \<and> valid t' \<and> view t' = put_row tb r (view t) \<and> base t' = base t"
    and insert_missing: "valid t \<Longrightarrow> row_key r = StrKey ks \<Longrightarrow> [] \<in> set ks \<Longrightarrow>
      \<exists>e. txInsert T t tb r = (t, Err e)"
    and delete_found: "valid t \<Longrightarrow> view t tb (row_key r) \<noteq> None \<Longrightarrow>
      \<exists>t'. txDelete T t tb r = (t', Ok ()) \<and> valid t' \<and> view t' = del_row tb (row_key r) (view t) \<and> base t' = base t"
    and delete_missing: "valid t \<Longrightarrow> view t tb (row_key r) = None \<Longrightarrow> txDelete T t tb r = (t, Err ErrNotFound)"
    and changes: "valid t \<Longrightarrow> \<exists>ks. txChanges T t = map (\<lambda>(tb, k). (tb, base t tb k, view t tb k)) ks \<and>
      distinct ks \<and> (\<forall>(tb, k) \<in> set ks. base t tb k \<noteq> None \<or> view t tb k \<noteq> None) \<and>
      (\<forall>tb k. view t tb k \<noteq> base t tb k \<longrightarrow> (tb, k) \<in> set ks)"
begin

lemma view_row: "valid t \<Longrightarrow> view t tb k = Some r \<Longrightarrow> row_table r = tb \<and> row_key r = k \<and> key_ok k"
  using view_ok unfolding contents_ok_def by blast

lemma rel_row:
  assumes "valid t" and "view t TableRelationship k = Some r"
  obtains x where "r = RelationshipRow x" "k = StrKey (rel_key x)"
  using view_row [OF assms] by (cases r) auto

end

lemma set_sorted_rows: "finite (dom m) \<Longrightarrow> set (sorted_rows m) = ran m"
  by (force simp: sorted_rows_def ran_def dom_def)

lemma in_sorted_rows:
  "contents_ok c \<Longrightarrow> r \<in> set (sorted_rows (c tb)) \<longleftrightarrow> row_table r = tb \<and> c tb (row_key r) = Some r"
  by (auto simp: set_sorted_rows contents_ok_def ran_def)

lemma sorted_rows_sorted:
  assumes "contents_ok c"
  shows "sorted_wrt (\<lambda>a b. row_key a < row_key b) (sorted_rows (c tb))"
proof -
  let ?ks = "sorted_list_of_set (dom (c tb))"
  have k: "row_key (the (c tb k)) = k" if "k \<in> set ?ks" for k
    using that assms by (auto simp: contents_ok_def)
  have "sorted_wrt (<) ?ks" by (rule strict_sorted_list_of_set)
  then show ?thesis
    unfolding sorted_rows_def sorted_wrt_map
    by (rule sorted_wrt_mono_rel [rotated]) (simp add: k)
qed

lemma contents_ok_put:
  "contents_ok c \<Longrightarrow> row_table r = tb \<Longrightarrow> key_ok (row_key r) \<Longrightarrow> contents_ok (put_row tb r c)"
  by (auto simp: contents_ok_def put_row_def split: if_splits)

lemma contents_ok_del: "contents_ok c \<Longrightarrow> contents_ok (del_row tb k c)"
  by (auto simp: contents_ok_def del_row_def split: if_splits)

section \<open>A reference database\<close>

text \<open>
  An implementation of the interface that satisfies its laws, on association lists: it is the
  database of the concrete instances.
\<close>

type_synonym ref_contents = "((table \<times> key) \<times> row) list"

record ref_txn =
  rtBase :: ref_contents
  rtView :: ref_contents
  rtWritten :: "(table \<times> key) list"

definition ref_view :: "ref_contents \<Rightarrow> contents" where
  "ref_view m tb k = map_of m (tb, k)"

definition ref_sorted :: "ref_contents \<Rightarrow> table \<Rightarrow> row list" where
  "ref_sorted m tb = map snd (sort_key fst (map (\<lambda>((tb', k), r). (k, r)) (filter (\<lambda>((tb', k), r). tb' = tb) m)))"

definition note_write :: "(table \<times> key) \<Rightarrow> (table \<times> key) list \<Rightarrow> (table \<times> key) list" where
  "note_write k ks = removeAll k ks @ [k]"

definition ref_ops :: "ref_txn txn_ops" where
  "ref_ops = \<lparr>
     txFirst = (\<lambda>t tb k. Ok (ref_view (rtView t) tb k)),
     txGet = (\<lambda>t idx args. Ok (filter (index_match idx args) (ref_sorted (rtView t) TableRelationship))),
     txLowerBound = (\<lambda>t tb from. Ok (filter (\<lambda>r. key_from from (row_key r)) (ref_sorted (rtView t) tb))),
     txInsert = (\<lambda>t tb r. if row_table r = tb \<and> key_ok (row_key r)
       then (t\<lparr>rtView := gm_put (tb, row_key r) r (rtView t), rtWritten := note_write (tb, row_key r) (rtWritten t)\<rparr>, Ok ())
       else (t, Err (LibError ''missing value for index''))),
     txDelete = (\<lambda>t tb r. if ref_view (rtView t) tb (row_key r) = None then (t, Err ErrNotFound)
       else (t\<lparr>rtView := gm_del (tb, row_key r) (rtView t), rtWritten := note_write (tb, row_key r) (rtWritten t)\<rparr>, Ok ())),
     txChanges = (\<lambda>t. map (\<lambda>(tb, k). (tb, ref_view (rtBase t) tb k, ref_view (rtView t) tb k))
       (filter (\<lambda>(tb, k). ref_view (rtBase t) tb k \<noteq> None \<or> ref_view (rtView t) tb k \<noteq> None) (rtWritten t)))\<rparr>"

definition ref_valid :: "ref_txn \<Rightarrow> bool" where
  "ref_valid t \<longleftrightarrow> gm_ok (rtBase t) \<and> gm_ok (rtView t) \<and> contents_ok (ref_view (rtBase t)) \<and>
     contents_ok (ref_view (rtView t)) \<and> distinct (rtWritten t) \<and>
     (\<forall>tb k. ref_view (rtView t) tb k \<noteq> ref_view (rtBase t) tb k \<longrightarrow> (tb, k) \<in> set (rtWritten t))"

lemma ref_view_put [simp]: "ref_view (gm_put (tb, row_key r) r m) = put_row tb r (ref_view m)"
  by (auto simp: ref_view_def put_row_def fun_eq_iff)

lemma ref_view_del [simp]: "ref_view (gm_del (tb, k) m) = del_row tb k (ref_view m)"
  by (auto simp: ref_view_def del_row_def fun_eq_iff)

lemma note_write_simps [simp]: "set (note_write k ks) = insert k (set ks)"
  "distinct ks \<Longrightarrow> distinct (note_write k ks)"
  by (auto simp: note_write_def distinct_removeAll)

lemma map_fst_sort_key:
  "distinct (map fst kvs) \<Longrightarrow> map fst (sort_key fst kvs) = sorted_list_of_set (fst ` set kvs)"
  by (rule sorted_distinct_set_unique) (auto simp: distinct_map)

lemma ref_sorted_rows:
  assumes "gm_ok m"
  shows "ref_sorted m tb = sorted_rows (ref_view m tb)"
proof -
  let ?kv = "map (\<lambda>((tb', k), r). (k, r)) (filter (\<lambda>((tb', k), r). tb' = tb) m)"
  have mem: "(k, r) \<in> set ?kv \<longleftrightarrow> ref_view m tb k = Some r" for k r
    using assms by (force simp: ref_view_def)
  have d: "distinct (map fst ?kv)"
    using assms by (induction m) (auto simp: image_iff)
  have dom: "fst ` set ?kv = dom (ref_view m tb)"
    using mem by (force simp: dom_def)
  have ks: "map fst (sort_key fst ?kv) = sorted_list_of_set (dom (ref_view m tb))"
    using map_fst_sort_key [OF d] dom by metis
  have "snd e = the (ref_view m tb (fst e))" if "e \<in> set (sort_key fst ?kv)" for e
    using that mem [of "fst e" "snd e"] by simp
  then have "ref_sorted m tb = map (\<lambda>e. the (ref_view m tb (fst e))) (sort_key fst ?kv)"
    unfolding ref_sorted_def by (intro map_cong refl)
  also have "\<dots> = map (the \<circ> ref_view m tb) (map fst (sort_key fst ?kv))" by simp
  finally show ?thesis unfolding ks sorted_rows_def .
qed

interpretation ref_db: memdb_txn ref_ops "\<lambda>t. ref_view (rtView t)" "\<lambda>t. ref_view (rtBase t)" ref_valid
proof unfold_locales
  fix t tb r
  assume v: "ref_valid t"
  { assume "row_table r = tb" "key_ok (row_key r)"
    with v show "\<exists>t'. txInsert ref_ops t tb r = (t', Ok ()) \<and> ref_valid t' \<and>
        ref_view (rtView t') = put_row tb r (ref_view (rtView t)) \<and> ref_view (rtBase t') = ref_view (rtBase t)"
      by (auto simp: ref_ops_def ref_valid_def contents_ok_put) (auto simp: put_row_def split: if_splits) }
  { assume "ref_view (rtView t) tb (row_key r) \<noteq> None"
    with v show "\<exists>t'. txDelete ref_ops t tb r = (t', Ok ()) \<and> ref_valid t' \<and>
        ref_view (rtView t') = del_row tb (row_key r) (ref_view (rtView t)) \<and> ref_view (rtBase t') = ref_view (rtBase t)"
      by (auto simp: ref_ops_def ref_valid_def contents_ok_del) (auto simp: del_row_def split: if_splits) }
  show "\<exists>ks. txChanges ref_ops t =
        map (\<lambda>(tb, k). (tb, ref_view (rtBase t) tb k, ref_view (rtView t) tb k)) ks \<and> distinct ks \<and>
      (\<forall>(tb, k) \<in> set ks. ref_view (rtBase t) tb k \<noteq> None \<or> ref_view (rtView t) tb k \<noteq> None) \<and>
      (\<forall>tb k. ref_view (rtView t) tb k \<noteq> ref_view (rtBase t) tb k \<longrightarrow> (tb, k) \<in> set ks)"
    using v by (intro exI [of _ "filter (\<lambda>(tb, k). ref_view (rtBase t) tb k \<noteq> None \<or>
        ref_view (rtView t) tb k \<noteq> None) (rtWritten t)"]) (auto simp: ref_ops_def ref_valid_def; metis option.exhaust)
qed (auto simp: ref_ops_def ref_valid_def ref_sorted_rows field_ok_def list_all_iff)

definition ref_begin :: "ref_contents \<Rightarrow> ref_txn" where
  "ref_begin m = \<lparr>rtBase = m, rtView = m, rtWritten = []\<rparr>"

end
