(* ===== verification/Memdb_Read.thy ===== *)
theory Memdb_Read
  imports Memdb_Iface
begin

text \<open>
  \<open>memdb/readonly.go\<close> and the reading half of \<open>memdb/caveat.go\<close>: the reader over one transaction,
  its filters, cursors and iterators. An iterator is the list of what it yields; an item is an
  error value when the code yields an error. A reader holds what its \<open>txSource\<close> returns.
\<close>

section \<open>The reader\<close>

datatype locker = NilLocker | NoopLocker | MutexLocker bool \<comment> \<open>whether it is held\<close>

record 't reader =
  rdLocker :: locker
  rdTxSource :: "'t result"
  rdInitErr :: "go_error option"
  rdNow :: nanotime

fun mustLock :: "locker \<Rightarrow> unit result" where
  "mustLock NilLocker = Err (Panic ''nil pointer dereference'')"
| "mustLock NoopLocker = Ok ()"
| "mustLock (MutexLocker held) =
     (if held then Err (Panic ''detected concurrent use of ReadWriteTransaction'') else Ok ())"

definition with_tx :: "'t reader \<Rightarrow> ('t \<Rightarrow> 'a result) \<Rightarrow> 'a result" where
  "with_tx r f = (case mustLock (rdLocker r) of
     Err e \<Rightarrow> Err e
   | Ok _ \<Rightarrow> (case rdTxSource r of Err e \<Rightarrow> Err e | Ok tx \<Rightarrow> f tx))"

definition with_init :: "'t reader \<Rightarrow> 'a result \<Rightarrow> 'a result" where
  "with_init r res = (case rdInitErr r of Some e \<Rightarrow> Err e | None \<Rightarrow> res)"

fun as_relationship :: "row \<Rightarrow> relationship_row result" where
  "as_relationship (RelationshipRow x) = Ok x"
| "as_relationship _ = Err (Panic ''interface conversion'')"

section \<open>Filters\<close>

definition lessRef :: "string \<Rightarrow> string \<Rightarrow> string \<Rightarrow> obj_and_rel \<Rightarrow> bool" where
  "lessRef lhsNamespace lhsObjectID lhsRelation rhs \<longleftrightarrow>
     lhsNamespace < objectType rhs \<or>
     (lhsNamespace = objectType rhs \<and> lhsObjectID < objectID rhs) \<or>
     (lhsNamespace = objectType rhs \<and> lhsObjectID = objectID rhs \<and> lhsRelation < objRelation rhs)"

definition eqRef :: "string \<Rightarrow> string \<Rightarrow> string \<Rightarrow> obj_and_rel \<Rightarrow> bool" where
  "eqRef lhsNamespace lhsObjectID lhsRelation rhs \<longleftrightarrow>
     lhsNamespace = objectType rhs \<and> lhsObjectID = objectID rhs \<and> lhsRelation = objRelation rhs"

definition noopCursorFilter :: "relationship_row \<Rightarrow> bool" where
  "noopCursorFilter _ = False"

text \<open>The cursor filter answers whether a row is dropped.\<close>

definition mustMakeCursorFilterFn ::
    "tuple_relationship option \<Rightarrow> sort_order \<Rightarrow> (relationship_row \<Rightarrow> bool) result" where
  "mustMakeCursorFilterFn after order = (case after of
     None \<Rightarrow> Ok noopCursorFilter
   | Some aft \<Rightarrow>
       (let byResource = (\<lambda>tpl.
              lessRef (rNamespace tpl) (rResourceID tpl) (rRelation tpl) (resource aft) \<or>
              (eqRef (rNamespace tpl) (rResourceID tpl) (rRelation tpl) (resource aft) \<and>
               (lessRef (rSubjectNamespace tpl) (rSubjectObjectID tpl) (rSubjectRelation tpl) (subject aft) \<or>
                eqRef (rSubjectNamespace tpl) (rSubjectObjectID tpl) (rSubjectRelation tpl) (subject aft))));
            bySubject = (\<lambda>tpl.
              lessRef (rSubjectNamespace tpl) (rSubjectObjectID tpl) (rSubjectRelation tpl) (subject aft) \<or>
              (eqRef (rSubjectNamespace tpl) (rSubjectObjectID tpl) (rSubjectRelation tpl) (subject aft) \<and>
               (lessRef (rNamespace tpl) (rResourceID tpl) (rRelation tpl) (resource aft) \<or>
                eqRef (rNamespace tpl) (rResourceID tpl) (rRelation tpl) (resource aft))))
        in case order of
             Unsorted \<Rightarrow> Ok noopCursorFilter
           | ChooseEfficient \<Rightarrow> Ok byResource
           | ByResource \<Rightarrow> Ok byResource
           | BySubject \<Rightarrow> Ok bySubject
           | SortOther _ \<Rightarrow> Err (Panic ''unhandled cursor filter case'')))"

definition applySubjectSelector :: "spice_lib \<Rightarrow> relationship_row \<Rightarrow> subjects_selector \<Rightarrow> bool" where
  "applySubjectSelector L tpl selector =
     (if optionalSubjectType selector \<noteq> [] \<and> optionalSubjectType selector \<noteq> rSubjectNamespace tpl then False
      else if optionalSubjectIds selector \<noteq> [] \<and> \<not> (rSubjectObjectID tpl) \<in> set (optionalSubjectIds selector)
      then False
      else if onlyNonEllipsisRelations (relationFilter selector)
      then rSubjectRelation tpl \<noteq> ellipsis L
      else (let relations =
                  (if includeEllipsisRelation (relationFilter selector) then [ellipsis L] else []) @
                  (if nonEllipsisRelation (relationFilter selector) \<noteq> []
                   then [nonEllipsisRelation (relationFilter selector)] else [])
            in relations = [] \<or> (rSubjectRelation tpl) \<in> set relations))"

text \<open>True when the row is filtered out.\<close>

definition filterFuncForFilters ::
    "spice_lib \<Rightarrow> string \<Rightarrow> string list \<Rightarrow> string \<Rightarrow> string \<Rightarrow> subjects_selector list \<Rightarrow> caveat_name_filter \<Rightarrow>
     expiration_filter_option \<Rightarrow> (relationship_row \<Rightarrow> bool) \<Rightarrow> relationship_row \<Rightarrow> bool" where
  "filterFuncForFilters L optResourceType optResourceIds optResourceIDPrefix optRelation
       optSubjectsSelectors optCaveatFilter optExpirationFilter cursorFilter tpl =
     (if optResourceType \<noteq> [] \<and> optResourceType \<noteq> rNamespace tpl then True
      else if optResourceIds \<noteq> [] \<and> \<not> (rResourceID tpl) \<in> set optResourceIds then True
      else if optResourceIDPrefix \<noteq> [] \<and> \<not> has_prefix (rResourceID tpl) optResourceIDPrefix then True
      else if optRelation \<noteq> [] \<and> optRelation \<noteq> rRelation tpl then True
      else if cavFilterOption optCaveatFilter = CaveatFilterOptionHasMatchingCaveat \<and>
              (case rCaveat tpl of None \<Rightarrow> True | Some c \<Rightarrow> ccName c \<noteq> cavFilterName optCaveatFilter) then True
      else if cavFilterOption optCaveatFilter = CaveatFilterOptionNoCaveat \<and>
              (case rCaveat tpl of None \<Rightarrow> False | Some c \<Rightarrow> ccName c \<noteq> []) then True
      else if optExpirationFilter = ExpirationFilterOptionHasExpiration \<and> rExpiration tpl = None then True
      else if optExpirationFilter = ExpirationFilterOptionNoExpiration \<and> rExpiration tpl \<noteq> None then True
      else if optSubjectsSelectors \<noteq> [] \<and> \<not> list_ex (applySubjectSelector L tpl) optSubjectsSelectors then True
      else cursorFilter tpl)"

definition iteratorForFilter :: "'t txn_ops \<Rightarrow> 't \<Rightarrow> relationships_filter \<Rightarrow> row list result" where
  "iteratorForFilter T tx fltr =
     (let (idx, args) =
        (if optionalResourceType fltr \<noteq> []
         then if optionalResourceRelation fltr \<noteq> []
              then (IndexNamespaceAndRelation, [optionalResourceType fltr, optionalResourceRelation fltr])
              else (IndexNamespace, [optionalResourceType fltr])
         else (IndexNamespacePrefix, [[]]))
      in case txGet T tx idx args of
           Err e \<Rightarrow> Err (Wrap ''unable to get iterator for filter'' e)
         | Ok rows \<Rightarrow> Ok rows)"

section \<open>Iterators\<close>

text \<open>\<open>common.NewSliceRelationshipIterator\<close>.\<close>

definition newSliceRelationshipIterator :: "tuple_relationship list \<Rightarrow> tuple_relationship result list" where
  "newSliceRelationshipIterator rels = map Ok rels"

definition expired :: "nanotime \<Rightarrow> tuple_relationship \<Rightarrow> bool" where
  "expired now rt = (case optionalExpiration rt of None \<Rightarrow> False | Some t \<Rightarrow> t < now)"

definition skipped :: "nanotime \<Rightarrow> bool \<Rightarrow> bool \<Rightarrow> tuple_relationship \<Rightarrow> bool" where
  "skipped now skipCaveats skipExpiration rt \<longleftrightarrow>
     (skipCaveats \<and> optionalCaveat rt \<noteq> None) \<or> (skipExpiration \<and> optionalExpiration rt \<noteq> None) \<or>
     expired now rt"

fun newMemdbTupleIterator ::
    "spice_lib \<Rightarrow> nanotime \<Rightarrow> nat option \<Rightarrow> bool \<Rightarrow> bool \<Rightarrow> nat \<Rightarrow> relationship_row list \<Rightarrow>
     tuple_relationship result list" where
  "newMemdbTupleIterator L now lim skipCaveats skipExpiration cnt [] = []"
| "newMemdbTupleIterator L now lim skipCaveats skipExpiration cnt (r # rs) =
     (if (case lim of None \<Rightarrow> False | Some n \<Rightarrow> n \<le> cnt) then []
      else case row_Relationship L r of
        Err e \<Rightarrow> Err e # newMemdbTupleIterator L now lim skipCaveats skipExpiration cnt rs
      | Ok rt \<Rightarrow>
          if skipped now skipCaveats skipExpiration rt
          then newMemdbTupleIterator L now lim skipCaveats skipExpiration cnt rs
          else Ok rt # newMemdbTupleIterator L now lim skipCaveats skipExpiration (cnt + 1) rs)"

definition subject_less :: "tuple_relationship \<Rightarrow> tuple_relationship \<Rightarrow> bool" where
  "subject_less a b \<longleftrightarrow>
     lessRef (objectType (subject a)) (objectID (subject a)) (objRelation (subject a)) (subject b) \<or>
     (eqRef (objectType (subject a)) (objectID (subject a)) (objRelation (subject a)) (subject b) \<and>
      lessRef (objectType (resource a)) (objectID (resource a)) (objRelation (resource a)) (resource b))"

definition newSubjectSortedIterator ::
    "spice_lib \<Rightarrow> nanotime \<Rightarrow> relationship_row list \<Rightarrow> nat option \<Rightarrow> bool \<Rightarrow> bool \<Rightarrow>
     tuple_relationship result list result" where
  "newSubjectSortedIterator L now rs lim skipCaveats skipExpiration =
     (case map_res (row_Relationship L) rs of
        Err e \<Rightarrow> Err e
      | Ok rts \<Rightarrow>
          (let results = sort_slice subject_less (filter (\<lambda>rt. \<not> skipped now skipCaveats skipExpiration rt) rts);
               results' = (case lim of None \<Rightarrow> results
                 | Some n \<Rightarrow> if length results > n then take n results else results)
           in Ok (newSliceRelationshipIterator results')))"

text \<open>The common end of both queries: the filtered iterator in the requested order.\<close>

definition sorted_iterator ::
    "spice_lib \<Rightarrow> nanotime \<Rightarrow> query_options \<Rightarrow> relationship_row list \<Rightarrow>
     tuple_relationship result list result" where
  "sorted_iterator L now opts rs = (case qSort opts of
     BySubject \<Rightarrow> newSubjectSortedIterator L now rs (qLimit opts) (qSkipCaveats opts) (qSkipExpiration opts)
   | SortOther _ \<Rightarrow> Err (MustBug ''unsupported sort order'')
   | _ \<Rightarrow> Ok (newMemdbTupleIterator L now (qLimit opts) (qSkipCaveats opts) (qSkipExpiration opts) 0 rs))"

section \<open>Queries\<close>

definition queryRelationships ::
    "spice_lib \<Rightarrow> 't txn_ops \<Rightarrow> 't reader \<Rightarrow> relationships_filter \<Rightarrow> query_options \<Rightarrow>
     tuple_relationship result list result" where
  "queryRelationships L T r fltr opts = with_init r (with_tx r (\<lambda>tx.
     case iteratorForFilter T tx fltr of
       Err e \<Rightarrow> Err e
     | Ok rows \<Rightarrow>
         if qAfter opts \<noteq> None \<and> qSort opts = Unsorted then Err CursorsWithoutSorting
         else case mustMakeCursorFilterFn (qAfter opts) (qSort opts) of
           Err e \<Rightarrow> Err e
         | Ok cursorFilter \<Rightarrow>
             (case map_res as_relationship rows of
                Err e \<Rightarrow> Err e
              | Ok rels \<Rightarrow> sorted_iterator L (rdNow r) opts
                  (filter (\<lambda>tpl. \<not> filterFuncForFilters L (optionalResourceType fltr) (optionalResourceIds fltr)
                      (optionalResourceIDPrefix fltr) (optionalResourceRelation fltr)
                      (optionalSubjectsSelectors fltr) (optionalCaveatNameFilter fltr)
                      (optionalExpirationOption fltr) cursorFilter tpl) rels))))"

definition no_caveat_filter :: caveat_name_filter where
  "no_caveat_filter = \<lparr>cavFilterOption = CaveatFilterOptionNone, cavFilterName = []\<rparr>"

definition reverseQueryRelationships ::
    "spice_lib \<Rightarrow> 't txn_ops \<Rightarrow> 't reader \<Rightarrow> subjects_filter \<Rightarrow> reverse_query_options \<Rightarrow>
     tuple_relationship result list result" where
  "reverseQueryRelationships L T r subjectsFilter opts = with_init r (with_tx r (\<lambda>tx.
     case txGet T tx IndexSubjectNamespace [sfSubjectType subjectsFilter] of
       Err e \<Rightarrow> Err e
     | Ok rows \<Rightarrow>
         (let (filterObjectType, filterRelation) =
                (case resRelation opts of None \<Rightarrow> ([], []) | Some nr \<Rightarrow> nr);
              qo = revOptions opts
          in case mustMakeCursorFilterFn (qAfter qo) (qSort qo) of
               Err e \<Rightarrow> Err e
             | Ok cursorFilter \<Rightarrow>
                 (case map_res as_relationship rows of
                    Err e \<Rightarrow> Err e
                  | Ok rels \<Rightarrow> sorted_iterator L (rdNow r) qo
                      (filter (\<lambda>tpl. \<not> filterFuncForFilters L filterObjectType [] [] filterRelation
                          [as_selector L subjectsFilter] no_caveat_filter ExpirationFilterOptionNone
                          cursorFilter tpl) rels)))))"

section \<open>Counters\<close>

type_synonym counter_heap = "(nat \<times> counter_row) list"

record relationship_counter =
  rcName :: string
  rcFilter :: opaque
  rcCount :: int
  rcComputedAtRevision :: revision

definition load_counter :: "spice_lib \<Rightarrow> counter_heap \<Rightarrow> row \<Rightarrow> relationship_counter result" where
  "load_counter L h raw = (case raw of
     CounterRow n p \<Rightarrow>
       (case map_of h p of
          None \<Rightarrow> Err (Panic ''dangling counter'')
        | Some found \<Rightarrow>
            (case unmarshal_filter L (ctFilterBytes found) of
               Err e \<Rightarrow> Err e
             | Ok loaded \<Rightarrow> Ok \<lparr>rcName = ctName found, rcFilter = loaded, rcCount = ctCount found,
                 rcComputedAtRevision = ctUpdated found\<rparr>))
   | _ \<Rightarrow> Err (Panic ''interface conversion''))"

definition lookupCounters ::
    "spice_lib \<Rightarrow> 't txn_ops \<Rightarrow> counter_heap \<Rightarrow> 't reader \<Rightarrow> relationship_counter list result" where
  "lookupCounters L T h r = with_init r (with_tx r (\<lambda>tx.
     case txLowerBound T tx TableCounters None of
       Err e \<Rightarrow> Err e
     | Ok rows \<Rightarrow> map_res (load_counter L h) rows))"

text \<open>The loop over the iterator: the first error ends it.\<close>

fun count_items :: "nat \<Rightarrow> tuple_relationship result list \<Rightarrow> nat result" where
  "count_items n [] = Ok n"
| "count_items n (Err e # xs) = Err e"
| "count_items n (Ok _ # xs) = count_items (n + 1) xs"

definition default_query :: query_options where
  "default_query = \<lparr>qLimit = None, qSort = Unsorted, qAfter = None, qSkipCaveats = False,
     qSkipExpiration = False\<rparr>"

definition countRelationships ::
    "spice_lib \<Rightarrow> 't txn_ops \<Rightarrow> counter_heap \<Rightarrow> 't reader \<Rightarrow> string \<Rightarrow> nat result" where
  "countRelationships L T h r name = (case lookupCounters L T h r of
     Err e \<Rightarrow> Err e
   | Ok counters \<Rightarrow>
       (case find (\<lambda>c. rcName c = name) counters of
          None \<Rightarrow> Err (CounterNotRegistered name)
        | Some c \<Rightarrow>
            (case filter_from_core L (rcFilter c) of
               Err e \<Rightarrow> Err e
             | Ok coreFilter \<Rightarrow>
                 (case queryRelationships L T r coreFilter default_query of
                    Err e \<Rightarrow> Err e
                  | Ok items \<Rightarrow> count_items 0 items))))"

section \<open>Namespaces\<close>

definition load_namespace :: "spice_lib \<Rightarrow> row \<Rightarrow> (ns_definition \<times> revision) result" where
  "load_namespace L raw = (case raw of
     NamespaceRow found \<Rightarrow>
       (case unmarshal_ns L (nsConfigBytes found) of
          Err e \<Rightarrow> Err e | Ok loaded \<Rightarrow> Ok (loaded, nsUpdated found))
   | _ \<Rightarrow> Err (Panic ''interface conversion''))"

definition readNamespaceByName ::
    "spice_lib \<Rightarrow> 't txn_ops \<Rightarrow> 't reader \<Rightarrow> string \<Rightarrow> (ns_definition \<times> revision) result" where
  "readNamespaceByName L T r name = with_init r (with_tx r (\<lambda>tx.
     case txFirst T tx TableNamespace (StrKey [name]) of
       Err e \<Rightarrow> Err e
     | Ok None \<Rightarrow> Err (NamespaceNotFound name)
     | Ok (Some raw) \<Rightarrow> load_namespace L raw))"

definition listAllNamespaces ::
    "spice_lib \<Rightarrow> 't txn_ops \<Rightarrow> 't reader \<Rightarrow> (ns_definition \<times> revision) list result" where
  "listAllNamespaces L T r = with_init r (with_tx r (\<lambda>tx.
     case txLowerBound T tx TableNamespace None of
       Err e \<Rightarrow> Err e
     | Ok rows \<Rightarrow> map_res (load_namespace L) rows))"

definition lookupNamespacesWithNames ::
    "spice_lib \<Rightarrow> 't txn_ops \<Rightarrow> 't reader \<Rightarrow> string list \<Rightarrow> (ns_definition \<times> revision) list result" where
  "lookupNamespacesWithNames L T r nsNames = with_init r
     (if nsNames = [] then Ok []
      else with_tx r (\<lambda>tx.
        case txLowerBound T tx TableNamespace None of
          Err e \<Rightarrow> Err e
        | Ok rows \<Rightarrow>
            (case map_res (load_namespace L) rows of
               Err e \<Rightarrow> Err e
             | Ok defs \<Rightarrow> Ok (filter (\<lambda>(d, _). (nsDefName d) \<in> set nsNames) defs))))"

section \<open>Caveats\<close>

text \<open>These two operations do not look at \<open>initErr\<close>.\<close>

definition caveat_Unwrap :: "spice_lib \<Rightarrow> caveat_row \<Rightarrow> caveat_definition result" where
  "caveat_Unwrap L c = unmarshal_caveat L (cvDefinition c)"

definition readCaveat ::
    "'t txn_ops \<Rightarrow> 't \<Rightarrow> string \<Rightarrow> (caveat_row \<times> revision) result" where
  "readCaveat T tx name = (case txFirst T tx TableCaveats (StrKey [name]) of
     Err e \<Rightarrow> Err e
   | Ok None \<Rightarrow> Err (CaveatNameNotFound name)
   | Ok (Some raw) \<Rightarrow> (case raw of CaveatRow cvt \<Rightarrow> Ok (cvt, cvRevision cvt)
       | _ \<Rightarrow> Err (Panic ''interface conversion'')))"

definition readUnwrappedCaveatByName ::
    "spice_lib \<Rightarrow> 't txn_ops \<Rightarrow> 't \<Rightarrow> string \<Rightarrow> (caveat_definition \<times> revision) result" where
  "readUnwrappedCaveatByName L T tx name = (case readCaveat T tx name of
     Err e \<Rightarrow> Err e
   | Ok (c, rv) \<Rightarrow> (case caveat_Unwrap L c of Err e \<Rightarrow> Err e | Ok unwrapped \<Rightarrow> Ok (unwrapped, rv)))"

definition readCaveatByName ::
    "spice_lib \<Rightarrow> 't txn_ops \<Rightarrow> 't reader \<Rightarrow> string \<Rightarrow> (caveat_definition \<times> revision) result" where
  "readCaveatByName L T r name = with_tx r (\<lambda>tx. readUnwrappedCaveatByName L T tx name)"

definition load_caveat :: "spice_lib \<Rightarrow> row \<Rightarrow> (caveat_definition \<times> revision) result" where
  "load_caveat L raw = (case raw of
     CaveatRow rawCaveat \<Rightarrow>
       (case caveat_Unwrap L rawCaveat of Err e \<Rightarrow> Err e | Ok d \<Rightarrow> Ok (d, cvRevision rawCaveat))
   | _ \<Rightarrow> Err (Panic ''interface conversion''))"

definition listAllCaveats ::
    "spice_lib \<Rightarrow> 't txn_ops \<Rightarrow> 't reader \<Rightarrow> (caveat_definition \<times> revision) list result" where
  "listAllCaveats L T r = with_tx r (\<lambda>tx.
     case txLowerBound T tx TableCaveats None of
       Err e \<Rightarrow> Err e
     | Ok rows \<Rightarrow> map_res (load_caveat L) rows)"

definition lookupCaveatsWithNames ::
    "spice_lib \<Rightarrow> 't txn_ops \<Rightarrow> 't reader \<Rightarrow> string list \<Rightarrow> (caveat_definition \<times> revision) list result" where
  "lookupCaveatsWithNames L T r caveatNames = (case listAllCaveats L T r of
     Err e \<Rightarrow> Err e
   | Ok allCaveats \<Rightarrow> Ok (filter (\<lambda>(d, _). (cavDefName d) \<in> set caveatNames) allCaveats))"

end
