(* ===== verification/Memdb_Write.thy ===== *)
theory Memdb_Write
  imports Memdb_Read
begin

text \<open>
  \<open>memdb/readwrite.go\<close> and the writing half of \<open>memdb/caveat.go\<close>: the operations of a read-write
  transaction. An operation returns the transaction it leaves behind together with its error, as
  the code keeps the writes made before an error until the transaction is aborted.
\<close>

section \<open>The read-write transaction\<close>

record 't rwt =
  rwLocker :: locker
  rwTxSource :: "'t result"
  rwNewRevision :: revision
  rwNow :: nanotime
  rwHeap :: counter_heap

text \<open>The embedded \<open>memdbReader\<close>, whose \<open>initErr\<close> is nil.\<close>

definition rwt_reader :: "'t rwt \<Rightarrow> 't reader" where
  "rwt_reader w = \<lparr>rdLocker = rwLocker w, rdTxSource = rwTxSource w, rdInitErr = None, rdNow = rwNow w\<rparr>"

definition with_wtx :: "'t rwt \<Rightarrow> ('t \<Rightarrow> 't \<times> 'a result) \<Rightarrow> 't rwt \<times> 'a result" where
  "with_wtx w f = (case mustLock (rwLocker w) of
     Err e \<Rightarrow> (w, Err e)
   | Ok _ \<Rightarrow> (case rwTxSource w of
       Err e \<Rightarrow> (w, Err e)
     | Ok tx \<Rightarrow> (let (tx', res) = f tx in (w\<lparr>rwTxSource := Ok tx'\<rparr>, res))))"

section \<open>Relationships\<close>

definition toIntegrity :: "spice_lib \<Rightarrow> tuple_relationship \<Rightarrow> relationship_integrity option" where
  "toIntegrity L rel = map_option (\<lambda>i. \<lparr>riKeyID = keyId i, riHash = hashBytes i,
     riTimestamp = as_time L (hashedAt i)\<rparr>) (optionalIntegrity rel)"

definition toCaveatReference :: "spice_lib \<Rightarrow> tuple_relationship \<Rightarrow> contextualized_caveat option" where
  "toCaveatReference L rel = map_option (\<lambda>c. \<lparr>ccName = caveatName c,
     ccContext = as_map L (caveatContext c)\<rparr>) (optionalCaveat rel)"

definition row_of_relationship :: "spice_lib \<Rightarrow> tuple_relationship \<Rightarrow> relationship_row" where
  "row_of_relationship L rel = \<lparr>
     rNamespace = objectType (resource rel),
     rResourceID = objectID (resource rel),
     rRelation = objRelation (resource rel),
     rSubjectNamespace = objectType (subject rel),
     rSubjectObjectID = objectID (subject rel),
     rSubjectRelation = objRelation (subject rel),
     rCaveat = toCaveatReference L rel,
     rIntegrity = toIntegrity L rel,
     rExpiration = optionalExpiration rel\<rparr>"

definition insert_relationship ::
    "'t txn_ops \<Rightarrow> 't \<Rightarrow> relationship_row \<Rightarrow> 't \<times> unit result" where
  "insert_relationship T tx rel = (case txInsert T tx TableRelationship (RelationshipRow rel) of
     (tx', Err e) \<Rightarrow> (tx', Err (Wrap ''error inserting relationship'' e))
   | (tx', Ok _) \<Rightarrow> (tx', Ok ()))"

text \<open>The body of the loop of \<open>write\<close>, and the loop.\<close>

definition write_one ::
    "spice_lib \<Rightarrow> 't txn_ops \<Rightarrow> 't \<Rightarrow> relationship_update \<Rightarrow> 't \<times> unit result" where
  "write_one L T tx mutation =
     (let rel = row_of_relationship L (updRelationship mutation) in
      case txFirst T tx TableRelationship (StrKey (rel_key rel)) of
        Err e \<Rightarrow> (tx, Err (Wrap ''error loading existing relationship'' e))
      | Ok found \<Rightarrow>
          (case (case found of None \<Rightarrow> Ok None | Some raw \<Rightarrow> map_sum id Some (as_relationship raw)) of
             Err e \<Rightarrow> (tx, Err e)
           | Ok existing \<Rightarrow>
               (case operation mutation of
                  UpdateOperationCreate \<Rightarrow>
                    (case existing of
                       Some ex \<Rightarrow> (case row_Relationship L ex of
                           Err e \<Rightarrow> (tx, Err e) | Ok rt \<Rightarrow> (tx, Err (CreateRelationshipExists rt)))
                     | None \<Rightarrow> insert_relationship T tx rel)
                | UpdateOperationTouch \<Rightarrow>
                    (case existing of
                       Some ex \<Rightarrow> (case row_Relationship L ex of
                           Err e \<Rightarrow> (tx, Err e)
                         | Ok rt \<Rightarrow>
                             if must_string L rt = must_string L (updRelationship mutation) then (tx, Ok ())
                             else insert_relationship T tx rel)
                     | None \<Rightarrow> insert_relationship T tx rel)
                | UpdateOperationDelete \<Rightarrow>
                    (case existing of
                       Some ex \<Rightarrow> (case txDelete T tx TableRelationship (RelationshipRow ex) of
                           (tx', Err e) \<Rightarrow> (tx', Err (Wrap ''error deleting relationship'' e))
                         | (tx', Ok _) \<Rightarrow> (tx', Ok ()))
                     | None \<Rightarrow> (tx, Ok ()))
                | UpdateOperationUnknown _ \<Rightarrow> (tx, Err (MustBug ''unknown tuple mutation operation type'')))))"

fun write_rels ::
    "spice_lib \<Rightarrow> 't txn_ops \<Rightarrow> 't \<Rightarrow> relationship_update list \<Rightarrow> 't \<times> unit result" where
  "write_rels L T tx [] = (tx, Ok ())"
| "write_rels L T tx (m # ms) =
     (case write_one L T tx m of
        (tx', Err e) \<Rightarrow> (tx', Err e)
      | (tx', Ok _) \<Rightarrow> write_rels L T tx' ms)"

definition writeRelationships ::
    "spice_lib \<Rightarrow> 't txn_ops \<Rightarrow> 't rwt \<Rightarrow> relationship_update list \<Rightarrow> 't rwt \<times> unit result" where
  "writeRelationships L T w mutations = with_wtx w (\<lambda>tx. write_rels L T tx mutations)"

text \<open>True when the row is filtered out.\<close>

definition relationshipFilterFilterFunc ::
    "spice_lib \<Rightarrow> relationship_filter_v1 \<Rightarrow> relationship_row \<Rightarrow> bool" where
  "relationshipFilterFilterFunc L fltr tpl =
     (if resourceTypeV1 fltr \<noteq> [] \<and> resourceTypeV1 fltr \<noteq> rNamespace tpl then True
      else if optionalResourceIdV1 fltr \<noteq> [] \<and> optionalResourceIdV1 fltr \<noteq> rResourceID tpl then True
      else if optionalResourceIdPrefixV1 fltr \<noteq> [] \<and>
              \<not> has_prefix (rResourceID tpl) (optionalResourceIdPrefixV1 fltr) then True
      else if optionalRelV1 fltr \<noteq> [] \<and> optionalRelV1 fltr \<noteq> rRelation tpl then True
      else (case optionalSubjectFilterV1 fltr of
              None \<Rightarrow> False
            | Some sf \<Rightarrow>
                if subjectTypeV1 sf \<noteq> rSubjectNamespace tpl then True
                else if optionalSubjectIdV1 sf \<noteq> [] \<and> optionalSubjectIdV1 sf \<noteq> rSubjectObjectID tpl then True
                else (case optionalRelationV1 sf of
                        None \<Rightarrow> False
                      | Some e \<Rightarrow> (if e = [] then ellipsis L else e) \<noteq> rSubjectRelation tpl)))"

definition delete_update :: "tuple_relationship \<Rightarrow> relationship_update" where
  "delete_update rt = \<lparr>operation = UpdateOperationDelete, updRelationship = rt\<rparr>"

text \<open>The loop that collects the mutations, up to the limit when it is not zero.\<close>

fun collect_deletes ::
    "spice_lib \<Rightarrow> nat \<Rightarrow> nat \<Rightarrow> relationship_row list \<Rightarrow> (relationship_update list \<times> bool) result" where
  "collect_deletes L lim cnt [] = Ok ([], False)"
| "collect_deletes L lim cnt (r # rs) =
     (case row_Relationship L r of
        Err e \<Rightarrow> Err e
      | Ok rt \<Rightarrow>
          if lim > 0 \<and> cnt + 1 = lim then Ok ([delete_update rt], True)
          else (case collect_deletes L lim (cnt + 1) rs of
                  Err e \<Rightarrow> Err e
                | Ok (ms, met) \<Rightarrow> Ok (delete_update rt # ms, met)))"

text \<open>The number of deletions and whether the limit was met are returned also with an error.\<close>

definition deleteWithLock ::
    "spice_lib \<Rightarrow> 't txn_ops \<Rightarrow> 't \<Rightarrow> relationship_filter_v1 \<Rightarrow> nat \<Rightarrow> 't \<times> (nat \<times> bool) \<times> unit result" where
  "deleteWithLock L T tx fltr lim =
     (case filter_from_public L fltr of
        Err e \<Rightarrow> (tx, (0, False), Err e)
      | Ok dsFilter \<Rightarrow>
          (case iteratorForFilter T tx dsFilter of
             Err e \<Rightarrow> (tx, (0, False), Err e)
           | Ok rows \<Rightarrow>
               (case map_res as_relationship rows of
                  Err e \<Rightarrow> (tx, (0, False), Err e)
                | Ok rels \<Rightarrow>
                    (case collect_deletes L lim 0 (filter (\<lambda>r. \<not> relationshipFilterFilterFunc L fltr r) rels) of
                       Err e \<Rightarrow> (tx, (0, False), Err e)
                     | Ok (mutations, metLimit) \<Rightarrow>
                         (let (tx', res) = write_rels L T tx mutations
                          in (tx', (length mutations, metLimit), res))))))"

definition deleteRelationships ::
    "spice_lib \<Rightarrow> 't txn_ops \<Rightarrow> 't rwt \<Rightarrow> relationship_filter_v1 \<Rightarrow> nat option \<Rightarrow>
     't rwt \<times> ((nat \<times> bool) \<times> unit result) result" where
  "deleteRelationships L T w fltr deleteLimit = with_wtx w (\<lambda>tx.
     (let delLimit = (case deleteLimit of Some n \<Rightarrow> if n > 0 then n else 0 | None \<Rightarrow> 0);
          (tx', out) = deleteWithLock L T tx fltr delLimit
      in (tx', Ok out)))"

section \<open>Bulk load\<close>

text \<open>The source yields relationships until it ends or fails.\<close>

definition create_update :: "tuple_relationship \<Rightarrow> relationship_update" where
  "create_update rt = \<lparr>operation = UpdateOperationCreate, updRelationship = rt\<rparr>"

fun bulkLoad ::
    "spice_lib \<Rightarrow> 't txn_ops \<Rightarrow> 't rwt \<Rightarrow> nat \<Rightarrow> tuple_relationship result list \<Rightarrow>
     't rwt \<times> nat \<times> unit result" where
  "bulkLoad L T w numCopied [] = (w, numCopied, Ok ())"
| "bulkLoad L T w numCopied (Err e # src) = (w, numCopied, Err e)"
| "bulkLoad L T w numCopied (Ok nxt # src) =
     (case writeRelationships L T w [create_update nxt] of
        (w', Err e) \<Rightarrow> (w', 0, Err e)
      | (w', Ok _) \<Rightarrow> bulkLoad L T w' (numCopied + 1) src)"

section \<open>Counters\<close>

definition new_ref :: "counter_heap \<Rightarrow> nat" where
  "new_ref h = foldr (\<lambda>(p, _) n. max (p + 1) n) h 0"

definition registerCounter ::
    "spice_lib \<Rightarrow> 't txn_ops \<Rightarrow> 't rwt \<Rightarrow> string \<Rightarrow> opaque \<Rightarrow> 't rwt \<times> unit result" where
  "registerCounter L T w name fltr =
     (let h = rwHeap w;
          (w', res) = with_wtx w (\<lambda>tx.
            case txFirst T tx TableCounters (StrKey [name]) of
              Err e \<Rightarrow> (tx, Err e)
            | Ok (Some _) \<Rightarrow> (tx, Err (CounterAlreadyRegistered name fltr))
            | Ok None \<Rightarrow>
                (case marshal_filter L fltr of
                   Err e \<Rightarrow> (tx, Err e)
                 | Ok filterBytes \<Rightarrow>
                     (let (tx', res) = txInsert T tx TableCounters (CounterRow name (new_ref h))
                      in (tx', (case res of Err e \<Rightarrow> Err e
                           | Ok _ \<Rightarrow> Ok \<lparr>ctName = name, ctFilterBytes = filterBytes, ctCount = 0,
                                        ctUpdated = NoRevision\<rparr>)))))
      in case res of
           Err e \<Rightarrow> (w', Err e)
         | Ok c \<Rightarrow> (w'\<lparr>rwHeap := (new_ref h, c) # h\<rparr>, Ok ()))"

definition unregisterCounter ::
    "'t txn_ops \<Rightarrow> 't rwt \<Rightarrow> string \<Rightarrow> 't rwt \<times> unit result" where
  "unregisterCounter T w name = with_wtx w (\<lambda>tx.
     case txFirst T tx TableCounters (StrKey [name]) of
       Err e \<Rightarrow> (tx, Err e)
     | Ok None \<Rightarrow> (tx, Err (CounterNotRegistered name))
     | Ok (Some foundRaw) \<Rightarrow> txDelete T tx TableCounters foundRaw)"

text \<open>
  The found object is assigned to in place: the heap changes before \<open>Insert\<close>, whatever it answers
  and whatever becomes of the transaction.
\<close>

definition storeCounterValue ::
    "'t txn_ops \<Rightarrow> 't rwt \<Rightarrow> string \<Rightarrow> int \<Rightarrow> revision \<Rightarrow> 't rwt \<times> unit result" where
  "storeCounterValue T w name val computedAtRevision =
     (case mustLock (rwLocker w) of
        Err e \<Rightarrow> (w, Err e)
      | Ok _ \<Rightarrow> (case rwTxSource w of
          Err e \<Rightarrow> (w, Err e)
        | Ok tx \<Rightarrow>
            (case txFirst T tx TableCounters (StrKey [name]) of
               Err e \<Rightarrow> (w, Err e)
             | Ok None \<Rightarrow> (w, Err (CounterNotRegistered name))
             | Ok (Some (CounterRow n p)) \<Rightarrow>
                 (case map_of (rwHeap w) p of
                    None \<Rightarrow> (w, Err (Panic ''dangling counter''))
                  | Some c \<Rightarrow>
                      (let h = gm_put p (c\<lparr>ctCount := val, ctUpdated := computedAtRevision\<rparr>) (rwHeap w);
                           (tx', res) = txInsert T tx TableCounters (CounterRow n p)
                       in (w\<lparr>rwTxSource := Ok tx', rwHeap := h\<rparr>, res)))
             | Ok (Some _) \<Rightarrow> (w, Err (Panic ''interface conversion'')))))"

section \<open>Namespaces\<close>

fun write_namespaces ::
    "spice_lib \<Rightarrow> 't txn_ops \<Rightarrow> revision \<Rightarrow> 't \<Rightarrow> ns_definition list \<Rightarrow> 't \<times> unit result" where
  "write_namespaces L T newRev tx [] = (tx, Ok ())"
| "write_namespaces L T newRev tx (c # cs) =
     (case marshal_ns L c of
        Err e \<Rightarrow> (tx, Err e)
      | Ok serialized \<Rightarrow>
          (case txInsert T tx TableNamespace (NamespaceRow
                  \<lparr>nsName = nsDefName c, nsConfigBytes = serialized, nsUpdated = newRev\<rparr>) of
             (tx', Err e) \<Rightarrow> (tx', Err e)
           | (tx', Ok _) \<Rightarrow> write_namespaces L T newRev tx' cs))"

definition writeNamespaces ::
    "spice_lib \<Rightarrow> 't txn_ops \<Rightarrow> 't rwt \<Rightarrow> ns_definition list \<Rightarrow> 't rwt \<times> unit result" where
  "writeNamespaces L T w newConfigs = with_wtx w (\<lambda>tx. write_namespaces L T (rwNewRevision w) tx newConfigs)"

definition resource_type_filter :: "string \<Rightarrow> relationship_filter_v1" where
  "resource_type_filter n = \<lparr>resourceTypeV1 = n, optionalResourceIdV1 = [], optionalResourceIdPrefixV1 = [],
     optionalRelV1 = [], optionalSubjectFilterV1 = None\<rparr>"

fun delete_namespaces ::
    "spice_lib \<Rightarrow> 't txn_ops \<Rightarrow> bool \<Rightarrow> 't \<Rightarrow> string list \<Rightarrow> 't \<times> unit result" where
  "delete_namespaces L T withRels tx [] = (tx, Ok ())"
| "delete_namespaces L T withRels tx (n # ns) =
     (case txFirst T tx TableNamespace (StrKey [n]) of
        Err e \<Rightarrow> (tx, Err e)
      | Ok None \<Rightarrow> (tx, Err (ErrorString ''namespace not found''))
      | Ok (Some foundRaw) \<Rightarrow>
          (case txDelete T tx TableNamespace foundRaw of
             (tx', Err e) \<Rightarrow> (tx', Err e)
           | (tx', Ok _) \<Rightarrow>
               if withRels
               then (case deleteWithLock L T tx' (resource_type_filter n) 0 of
                       (tx'', _, Err e) \<Rightarrow>
                         (tx'', Err (Wrap ''unable to delete relationships from deleted namespace'' e))
                     | (tx'', _, Ok _) \<Rightarrow> delete_namespaces L T withRels tx'' ns)
               else delete_namespaces L T withRels tx' ns))"

definition deleteNamespaces ::
    "spice_lib \<Rightarrow> 't txn_ops \<Rightarrow> 't rwt \<Rightarrow> string list \<Rightarrow> bool \<Rightarrow> 't rwt \<times> unit result" where
  "deleteNamespaces L T w nsNames withRels =
     (if nsNames = [] then (w, Ok ())
      else with_wtx w (\<lambda>tx. delete_namespaces L T withRels tx nsNames))"

section \<open>Caveats\<close>

fun writeCaveat ::
    "spice_lib \<Rightarrow> 't txn_ops \<Rightarrow> revision \<Rightarrow> string list \<Rightarrow> 't \<Rightarrow> caveat_definition list \<Rightarrow> 't \<times> unit result" where
  "writeCaveat L T newRev caveatNames tx [] = (tx, Ok ())"
| "writeCaveat L T newRev caveatNames tx (c # cs) =
     (if (cavDefName c) \<in> set caveatNames
      then (tx, Err (ErrorString (''duplicate caveat '' @ cavDefName c)))
      else case marshal_caveat L c of
        Err e \<Rightarrow> (tx, Err e)
      | Ok marshalled \<Rightarrow>
          (case txInsert T tx TableCaveats (CaveatRow
                  \<lparr>cvName = cavDefName c, cvDefinition = marshalled, cvRevision = newRev\<rparr>) of
             (tx', Err e) \<Rightarrow> (tx', Err e)
           | (tx', Ok _) \<Rightarrow> writeCaveat L T newRev (cavDefName c # caveatNames) tx' cs))"

definition writeCaveats ::
    "spice_lib \<Rightarrow> 't txn_ops \<Rightarrow> 't rwt \<Rightarrow> caveat_definition list \<Rightarrow> 't rwt \<times> unit result" where
  "writeCaveats L T w caveats = with_wtx w (\<lambda>tx. writeCaveat L T (rwNewRevision w) [] tx caveats)"

fun delete_caveats :: "'t txn_ops \<Rightarrow> 't \<Rightarrow> string list \<Rightarrow> 't \<times> unit result" where
  "delete_caveats T tx [] = (tx, Ok ())"
| "delete_caveats T tx (n # ns) =
     (case txDelete T tx TableCaveats (CaveatRow \<lparr>cvName = n, cvDefinition = [], cvRevision = NoRevision\<rparr>) of
        (tx', Err e) \<Rightarrow> (tx', Err e)
      | (tx', Ok _) \<Rightarrow> delete_caveats T tx' ns)"

definition deleteCaveats :: "'t txn_ops \<Rightarrow> 't rwt \<Rightarrow> string list \<Rightarrow> 't rwt \<times> unit result" where
  "deleteCaveats T w names = with_wtx w (\<lambda>tx. delete_caveats T tx names)"

end
