(* ===== verification/Memdb_Store.thy ===== *)
theory Memdb_Store
  imports Memdb_Write
begin

text \<open>
  What the relationship table of the in-memory datastore is, seen from outside: a map from the
  identity of a relationship to the relationship. The operations of \<open>Memdb_Write\<close> refine updates of
  that map, and the queries of \<open>Memdb_Read\<close> are selections from it in a fixed order.
\<close>

section \<open>The abstract store\<close>

type_synonym store = "obj_and_rel \<times> obj_and_rel \<Rightarrow> tuple_relationship option"

definition ref_key :: "obj_and_rel \<times> obj_and_rel \<Rightarrow> string list" where
  "ref_key rs = [objectType (fst rs), objectID (fst rs), objRelation (fst rs),
     objectType (snd rs), objectID (snd rs), objRelation (snd rs)]"

definition abs_store :: "spice_lib \<Rightarrow> contents \<Rightarrow> store" where
  "abs_store L c rs = (case c TableRelationship (StrKey (ref_key rs)) of
     Some (RelationshipRow r) \<Rightarrow> (case row_Relationship L r of Ok rel \<Rightarrow> Some rel | Err _ \<Rightarrow> None)
   | _ \<Rightarrow> None)"

text \<open>Every stored row was written from a relationship.\<close>

definition stored :: "spice_lib \<Rightarrow> contents \<Rightarrow> bool" where
  "stored L c \<longleftrightarrow> contents_ok c \<and> (\<forall>k r. c TableRelationship k = Some (RelationshipRow r) \<longrightarrow>
     (\<exists>rel. r = row_of_relationship L rel))"

text \<open>The specification of an update and of a batch of updates.\<close>

definition spec_update :: "spice_lib \<Rightarrow> store \<Rightarrow> relationship_update \<Rightarrow> store \<times> unit result" where
  "spec_update L m u = (let rel = updRelationship u; k = rel_ref rel in
     case operation u of
       UpdateOperationCreate \<Rightarrow>
         (case m k of Some existing \<Rightarrow> (m, Err (CreateRelationshipExists existing))
          | None \<Rightarrow> (m(k \<mapsto> rel), Ok ()))
     | UpdateOperationTouch \<Rightarrow>
         (case m k of
            Some existing \<Rightarrow> if must_string L existing = must_string L rel then (m, Ok ()) else (m(k \<mapsto> rel), Ok ())
          | None \<Rightarrow> (m(k \<mapsto> rel), Ok ()))
     | UpdateOperationDelete \<Rightarrow> (m(k := None), Ok ())
     | UpdateOperationUnknown _ \<Rightarrow> (m, Err (MustBug ''unknown tuple mutation operation type'')))"

fun spec_updates :: "spice_lib \<Rightarrow> store \<Rightarrow> relationship_update list \<Rightarrow> store \<times> unit result" where
  "spec_updates L m [] = (m, Ok ())"
| "spec_updates L m (u # us) =
     (case spec_update L m u of (m', Err e) \<Rightarrow> (m', Err e) | (m', Ok _) \<Rightarrow> spec_updates L m' us)"

definition rel_ok :: "tuple_relationship \<Rightarrow> bool" where
  "rel_ok rel \<longleftrightarrow> list_all field_ok (ref_key (rel_ref rel))"

section \<open>Rows and relationships\<close>

lemma rel_key_row [simp]: "rel_key (row_of_relationship L rel) = ref_key (rel_ref rel)"
  by (simp add: rel_key_def row_of_relationship_def ref_key_def rel_ref_def)

lemma ref_key_inj [simp]: "ref_key a = ref_key b \<longleftrightarrow> a = b"
  by (cases a; cases b) (auto simp: ref_key_def intro: obj_and_rel.equality)

lemma row_roundtrip:
  assumes "lib_laws L"
  shows "row_Relationship L (row_of_relationship L rel) = Ok rel"
  using lib_laws.struct_map [OF assms] lib_laws.time_roundtrip [OF assms]
  by (cases "optionalCaveat rel"; cases "optionalIntegrity rel")
    (auto simp: row_Relationship_def row_of_relationship_def contextualizedCaveat_def toCaveatReference_def
      toIntegrity_def relationshipIntegrity_def)

lemma row_of_relationship_inj:
  assumes "lib_laws L"
  shows "row_of_relationship L a = row_of_relationship L b \<longleftrightarrow> a = b"
  using row_roundtrip [OF assms] by (metis sum.inject(2))

lemma abs_store_Some:
  assumes "lib_laws L" and "stored L c"
  shows "abs_store L c k = Some rel \<longleftrightarrow>
    c TableRelationship (StrKey (ref_key k)) = Some (RelationshipRow (row_of_relationship L rel))"
    (is "?a \<longleftrightarrow> ?b")
proof
  assume ?a
  then obtain r where r: "c TableRelationship (StrKey (ref_key k)) = Some (RelationshipRow r)"
    "row_Relationship L r = Ok rel"
    by (auto simp: abs_store_def split: option.splits row.splits sum.splits)
  with assms obtain rel' where "r = row_of_relationship L rel'" by (auto simp: stored_def)
  with r row_roundtrip [OF assms(1)] show ?b by simp
next
  assume ?b
  then show ?a by (simp add: abs_store_def row_roundtrip [OF assms(1)])
qed

lemma contents_okD: "contents_ok c \<Longrightarrow> c tb k = Some r \<Longrightarrow> row_table r = tb \<and> row_key r = k \<and> key_ok k"
  by (simp add: contents_ok_def)

lemma stored_row:
  assumes "stored L c" and "c TableRelationship k = Some r"
  shows "\<exists>rel. r = RelationshipRow (row_of_relationship L rel) \<and> k = StrKey (ref_key (rel_ref rel))"
proof -
  have "row_table r = TableRelationship" "row_key r = k"
    using assms contents_okD unfolding stored_def by blast+
  moreover from this obtain x where "r = RelationshipRow x" by (cases r) auto
  ultimately show ?thesis using assms by (fastforce simp: stored_def)
qed

lemma abs_store_ref: "lib_laws L \<Longrightarrow> stored L c \<Longrightarrow> abs_store L c k = Some rel \<Longrightarrow> k = rel_ref rel"
  using stored_row [of L c "StrKey (ref_key k)"] by (auto simp: abs_store_Some row_of_relationship_inj)

lemma abs_store_None:
  assumes "lib_laws L" and "stored L c"
  shows "abs_store L c k = None \<longleftrightarrow> c TableRelationship (StrKey (ref_key k)) = None"
proof (cases "c TableRelationship (StrKey (ref_key k))")
  case (Some r)
  from stored_row [OF assms(2) this] obtain rel where "r = RelationshipRow (row_of_relationship L rel)" by blast
  with Some show ?thesis by (auto simp: abs_store_def row_roundtrip [OF assms(1)])
qed (simp add: abs_store_def)

text \<open>The table as a sorted list of relationships.\<close>

definition res_key :: "tuple_relationship \<Rightarrow> string list" where
  "res_key rel = ref_key (rel_ref rel)"

definition subj_key :: "tuple_relationship \<Rightarrow> string list" where
  "subj_key rel = [objectType (subject rel), objectID (subject rel), objRelation (subject rel),
     objectType (resource rel), objectID (resource rel), objRelation (resource rel)]"

lemma stored_tuples:
  assumes "lib_laws L" and "stored L c"
  obtains ts where "sorted_rows (c TableRelationship) = map (RelationshipRow \<circ> row_of_relationship L) ts"
    and "sorted_wrt (\<lambda>a b. res_key a < res_key b) ts" and "set ts = ran (abs_store L c)"
proof -
  have ok: "contents_ok c" using assms(2) by (simp add: stored_def)
  have "\<exists>rel. r = (RelationshipRow \<circ> row_of_relationship L) rel" if "r \<in> set (sorted_rows (c TableRelationship))" for r
    using that stored_row [OF assms(2)] by (metis comp_apply in_sorted_rows [OF ok])
  then obtain ts where ts: "sorted_rows (c TableRelationship) = map (RelationshipRow \<circ> row_of_relationship L) ts"
    using ex_map_conv [of "sorted_rows (c TableRelationship)" "RelationshipRow \<circ> row_of_relationship L"] by blast
  have "sorted_wrt (\<lambda>a b. row_key a < row_key b) (sorted_rows (c TableRelationship))"
    by (rule sorted_rows_sorted [OF ok])
  then have "sorted_wrt (\<lambda>a b. res_key a < res_key b) ts"
    by (simp add: ts sorted_wrt_map res_key_def)
  moreover have "set ts = ran (abs_store L c)"
  proof (rule set_eqI)
    fix rel
    have "rel \<in> set ts \<longleftrightarrow> RelationshipRow (row_of_relationship L rel) \<in> set (sorted_rows (c TableRelationship))"
      by (auto simp: ts row_of_relationship_inj [OF assms(1)])
    also have "\<dots> \<longleftrightarrow> abs_store L c (rel_ref rel) = Some rel"
      by (simp add: in_sorted_rows [OF ok] abs_store_Some [OF assms])
    also have "\<dots> \<longleftrightarrow> rel \<in> ran (abs_store L c)"
      using abs_store_ref [OF assms] unfolding ran_def by blast
    finally show "rel \<in> set ts \<longleftrightarrow> rel \<in> ran (abs_store L c)" .
  qed
  ultimately show thesis using that ts by blast
qed

section \<open>Writing\<close>

lemma abs_store_put:
  assumes "lib_laws L"
  shows "abs_store L (put_row TableRelationship (RelationshipRow (row_of_relationship L rel)) c) =
    (abs_store L c)(rel_ref rel \<mapsto> rel)"
  by (auto simp: fun_eq_iff abs_store_def put_row_def row_roundtrip [OF assms])

lemma abs_store_del:
  "abs_store L (del_row TableRelationship (StrKey (ref_key k)) c) = (abs_store L c)(k := None)"
  by (auto simp: fun_eq_iff abs_store_def del_row_def)

lemma stored_put:
  "stored L c \<Longrightarrow> rel_ok rel \<Longrightarrow> stored L (put_row TableRelationship (RelationshipRow (row_of_relationship L rel)) c)"
  using contents_ok_put [of c "RelationshipRow (row_of_relationship L rel)"]
  by (auto simp: stored_def rel_ok_def put_row_def split: if_splits)

lemma stored_del: "stored L c \<Longrightarrow> stored L (del_row TableRelationship k c)"
  using contents_ok_del [of c] by (auto simp: stored_def del_row_def split: if_splits)

locale memdb_store = memdb_txn T view base valid + lib_laws L
  for T :: "'t txn_ops" and view base :: "'t \<Rightarrow> contents" and valid :: "'t \<Rightarrow> bool" and L :: spice_lib
begin

lemmas roundtrip = row_roundtrip [OF lib_laws_axioms]

definition holds :: "'t \<Rightarrow> bool" where
  "holds t \<longleftrightarrow> valid t \<and> stored L (view t)"

text \<open>The frame of a write to the relationship table.\<close>

definition rel_step :: "'t \<Rightarrow> 't \<Rightarrow> bool" where
  "rel_step t t' \<longleftrightarrow> holds t' \<and> base t' = base t \<and> (\<forall>tb. tb \<noteq> TableRelationship \<longrightarrow> view t' tb = view t tb)"

lemma rel_step_refl [intro]: "holds t \<Longrightarrow> rel_step t t"
  by (simp add: rel_step_def)

lemma rel_step_trans: "rel_step t t' \<Longrightarrow> rel_step t' t'' \<Longrightarrow> rel_step t t''"
  by (simp add: rel_step_def)

lemma insert_rel:
  assumes "holds t" and "rel_ok rel"
  shows "\<exists>t'. insert_relationship T t (row_of_relationship L rel) = (t', Ok ()) \<and> rel_step t t' \<and>
    abs_store L (view t') = (abs_store L (view t))(rel_ref rel \<mapsto> rel)"
proof -
  have "key_ok (row_key (RelationshipRow (row_of_relationship L rel)))"
    using assms(2) by (simp add: rel_ok_def)
  then obtain t' where "txInsert T t TableRelationship (RelationshipRow (row_of_relationship L rel)) = (t', Ok ())"
    "valid t'" "base t' = base t"
    "view t' = put_row TableRelationship (RelationshipRow (row_of_relationship L rel)) (view t)"
    using insert [of t "RelationshipRow (row_of_relationship L rel)" TableRelationship] assms(1)
    by (auto simp: holds_def)
  then show ?thesis
    using assms stored_put [of L "view t" rel] abs_store_put [OF lib_laws_axioms]
    by (auto simp: insert_relationship_def rel_step_def holds_def put_row_def)
qed

lemma delete_rel:
  assumes "holds t" and "abs_store L (view t) k = Some rel"
  shows "\<exists>t'. txDelete T t TableRelationship (RelationshipRow (row_of_relationship L rel)) = (t', Ok ()) \<and>
    rel_step t t' \<and> abs_store L (view t') = (abs_store L (view t))(k := None)"
proof -
  have s: "stored L (view t)" "valid t" using assms(1) by (simp_all add: holds_def)
  have k: "k = rel_ref rel" using abs_store_ref [OF lib_laws_axioms s(1) assms(2)] .
  then have "view t TableRelationship (row_key (RelationshipRow (row_of_relationship L rel))) \<noteq> None"
    using assms(2) abs_store_Some [OF lib_laws_axioms s(1)] by simp
  from delete_found [OF s(2) this] obtain t' where
    "txDelete T t TableRelationship (RelationshipRow (row_of_relationship L rel)) = (t', Ok ())"
    "valid t'" "base t' = base t"
    "view t' = del_row TableRelationship (StrKey (ref_key k)) (view t)" by (auto simp: k)
  then show ?thesis
    using s stored_del [OF s(1)] abs_store_del [of L k] by (auto simp: rel_step_def holds_def del_row_def)
qed

lemma first_rel:
  assumes "holds t"
  shows "txFirst T t TableRelationship (StrKey (ref_key k)) =
    Ok (map_option (RelationshipRow \<circ> row_of_relationship L) (abs_store L (view t) k))"
proof -
  have s: "stored L (view t)" "valid t" using assms by (simp_all add: holds_def)
  show ?thesis
    using abs_store_None [OF lib_laws_axioms s(1), of k] abs_store_Some [OF lib_laws_axioms s(1), of k]
    by (cases "abs_store L (view t) k") (auto simp: first [OF s(2)])
qed

lemma write_one_refines:
  assumes "holds t" and "rel_ok (updRelationship u)"
  shows "\<exists>t' res. write_one L T t u = (t', res) \<and> rel_step t t' \<and>
    spec_update L (abs_store L (view t)) u = (abs_store L (view t'), res)"
proof (cases "abs_store L (view t) (rel_ref (updRelationship u))")
  case None
  then show ?thesis
    using first_rel [OF assms(1), of "rel_ref (updRelationship u)"] insert_rel [OF assms] assms(1)
    by (cases "operation u") (auto simp: write_one_def spec_update_def Let_def fun_upd_idem)
next
  case (Some ex)
  then show ?thesis
    using first_rel [OF assms(1), of "rel_ref (updRelationship u)"] insert_rel [OF assms] assms(1)
      delete_rel [OF assms(1) Some]
    by (cases "operation u") (auto simp: write_one_def spec_update_def Let_def roundtrip)
qed

lemma write_rels_refines:
  assumes "holds t" and "\<forall>u \<in> set us. rel_ok (updRelationship u)"
  shows "\<exists>t' res. write_rels L T t us = (t', res) \<and> rel_step t t' \<and>
    spec_updates L (abs_store L (view t)) us = (abs_store L (view t'), res)"
  using assms
proof (induction us arbitrary: t)
  case (Cons u us)
  then obtain t1 res1 where 1: "write_one L T t u = (t1, res1)" "rel_step t t1"
    "spec_update L (abs_store L (view t)) u = (abs_store L (view t1), res1)"
    using write_one_refines [of t u] by auto
  show ?case
  proof (cases res1)
    case (Inl e)
    with 1 show ?thesis by auto
  next
    case (Inr x)
    have "holds t1" using 1(2) by (simp add: rel_step_def)
    with Cons.IH [of t1] Cons.prems(2) obtain t2 res2 where
      "write_rels L T t1 us = (t2, res2)" "rel_step t1 t2"
      "spec_updates L (abs_store L (view t1)) us = (abs_store L (view t2), res2)" by auto
    with 1 Inr rel_step_trans show ?thesis by auto
  qed
qed auto

end

interpretation ref_store: memdb_store ref_ops "\<lambda>t. ref_view (rtView t)" "\<lambda>t. ref_view (rtBase t)" ref_valid ref_lib
  by unfold_locales

definition rwt_on :: "'t rwt \<Rightarrow> 't \<Rightarrow> bool" where
  "rwt_on w t \<longleftrightarrow> rwLocker w = MutexLocker False \<and> rwTxSource w = Ok t"

text \<open>
  C1. \<open>WriteRelationships\<close> refines the update of a map from identities to relationships: CREATE
  inserts or fails on the relationship that exists, TOUCH inserts or replaces, DELETE removes, the
  batch stops at the first error and keeps the updates before it; no other table changes.
\<close>

theorem write_refines_store:
  assumes "memdb_store T view base valid L" and "valid t" and "stored L (view t)" and "rwt_on w t"
    and "\<forall>u \<in> set us. rel_ok (updRelationship u)"
  shows "\<exists>t' res. writeRelationships L T w us = (w\<lparr>rwTxSource := Ok t'\<rparr>, res) \<and>
    valid t' \<and> stored L (view t') \<and>
    spec_updates L (abs_store L (view t)) us = (abs_store L (view t'), res) \<and>
    (\<forall>tb. tb \<noteq> TableRelationship \<longrightarrow> view t' tb = view t tb)"
proof -
  have "memdb_store.holds view valid L t"
    using assms(1-3) by (simp add: memdb_store.holds_def)
  from memdb_store.write_rels_refines [OF assms(1) this assms(5)] obtain t' res where
    "write_rels L T t us = (t', res)" "memdb_store.rel_step view base valid L t t'"
    "spec_updates L (abs_store L (view t)) us = (abs_store L (view t'), res)" by blast
  then show ?thesis
    using assms(1,4) by (auto simp: writeRelationships_def with_wtx_def rwt_on_def
        memdb_store.rel_step_def memdb_store.holds_def)
qed

definition empty_rwt :: "ref_txn rwt" where
  "empty_rwt = \<lparr>rwLocker = MutexLocker False, rwTxSource = Ok (ref_begin []), rwNewRevision = TimestampRev 1,
     rwNow = 0, rwHeap = []\<rparr>"

lemma ref_empty_ok: "ref_valid (ref_begin [])" "stored L (ref_view (rtView (ref_begin [])))"
  by (simp_all add: ref_valid_def ref_begin_def stored_def contents_ok_def ref_view_def dom_def)

lemma sample_rel_ok: "rel_ok (sample_rel ''d1'' ''u1'')" "rel_ok (sample_rel ''d2'' ''u1'')"
    "rel_ok (sample_rel ''d1'' ''u2'')"
  by (simp_all add: rel_ok_def ref_key_def rel_ref_def sample_rel_def field_ok_def)

theorem write_refines_store_witness:
  "\<exists>t' res. writeRelationships ref_lib ref_ops empty_rwt
      [create_update (sample_rel ''d1'' ''u1''), create_update (sample_rel ''d1'' ''u1'')] =
      (empty_rwt\<lparr>rwTxSource := Ok t'\<rparr>, res) \<and>
    res = Err (CreateRelationshipExists (sample_rel ''d1'' ''u1'')) \<and>
    abs_store ref_lib (ref_view (rtView t')) (rel_ref (sample_rel ''d1'' ''u1'')) = Some (sample_rel ''d1'' ''u1'')"
proof -
  let ?x = "sample_rel ''d1'' ''u1''"
  have on: "rwt_on empty_rwt (ref_begin [])" by (simp add: rwt_on_def empty_rwt_def)
  have "abs_store ref_lib (ref_view (rtView (ref_begin []))) = (\<lambda>_. None)"
    by (simp add: fun_eq_iff abs_store_def ref_view_def ref_begin_def)
  with write_refines_store [OF ref_store.memdb_store_axioms ref_empty_ok(1) ref_empty_ok(2) on,
        of "[create_update ?x, create_update ?x]"] sample_rel_ok(1)
  obtain t' where "writeRelationships ref_lib ref_ops empty_rwt [create_update ?x, create_update ?x] =
      (empty_rwt\<lparr>rwTxSource := Ok t'\<rparr>, Err (CreateRelationshipExists ?x))"
    "[rel_ref ?x \<mapsto> ?x] = abs_store ref_lib (ref_view (rtView t'))"
    by (auto simp: spec_update_def create_update_def Let_def)
  then show ?thesis by (metis fun_upd_same)
qed

section \<open>Querying\<close>

text \<open>The specification of the filters, on relationships.\<close>

definition relation_matches :: "spice_lib \<Rightarrow> subject_relation_filter \<Rightarrow> string \<Rightarrow> bool" where
  "relation_matches L f rel \<longleftrightarrow>
     (if onlyNonEllipsisRelations f then rel \<noteq> ellipsis L
      else (\<not> includeEllipsisRelation f \<and> nonEllipsisRelation f = []) \<or>
           (includeEllipsisRelation f \<and> rel = ellipsis L) \<or>
           (nonEllipsisRelation f \<noteq> [] \<and> rel = nonEllipsisRelation f))"

definition selector_matches :: "spice_lib \<Rightarrow> subjects_selector \<Rightarrow> tuple_relationship \<Rightarrow> bool" where
  "selector_matches L s rel \<longleftrightarrow>
     (optionalSubjectType s = [] \<or> optionalSubjectType s = objectType (subject rel)) \<and>
     (optionalSubjectIds s = [] \<or> objectID (subject rel) \<in> set (optionalSubjectIds s)) \<and>
     relation_matches L (relationFilter s) (objRelation (subject rel))"

definition caveat_matches :: "caveat_name_filter \<Rightarrow> tuple_relationship \<Rightarrow> bool" where
  "caveat_matches f rel \<longleftrightarrow> (case cavFilterOption f of
     CaveatFilterOptionNone \<Rightarrow> True
   | CaveatFilterOptionHasMatchingCaveat \<Rightarrow> \<exists>c. optionalCaveat rel = Some c \<and> caveatName c = cavFilterName f
   | CaveatFilterOptionNoCaveat \<Rightarrow> \<forall>c. optionalCaveat rel = Some c \<longrightarrow> caveatName c = [])"

definition expiration_matches :: "expiration_filter_option \<Rightarrow> tuple_relationship \<Rightarrow> bool" where
  "expiration_matches f rel \<longleftrightarrow> (case f of
     ExpirationFilterOptionNone \<Rightarrow> True
   | ExpirationFilterOptionHasExpiration \<Rightarrow> optionalExpiration rel \<noteq> None
   | ExpirationFilterOptionNoExpiration \<Rightarrow> optionalExpiration rel = None)"

definition resource_matches ::
    "string \<Rightarrow> string list \<Rightarrow> string \<Rightarrow> string \<Rightarrow> tuple_relationship \<Rightarrow> bool" where
  "resource_matches ty ids pre rl rel \<longleftrightarrow>
     (ty = [] \<or> ty = objectType (resource rel)) \<and> (ids = [] \<or> objectID (resource rel) \<in> set ids) \<and>
     prefix pre (objectID (resource rel)) \<and> (rl = [] \<or> rl = objRelation (resource rel))"

definition matches :: "spice_lib \<Rightarrow> relationships_filter \<Rightarrow> tuple_relationship \<Rightarrow> bool" where
  "matches L f rel \<longleftrightarrow>
     resource_matches (optionalResourceType f) (optionalResourceIds f) (optionalResourceIDPrefix f)
       (optionalResourceRelation f) rel \<and>
     caveat_matches (optionalCaveatNameFilter f) rel \<and> expiration_matches (optionalExpirationOption f) rel \<and>
     (optionalSubjectsSelectors f = [] \<or> (\<exists>s \<in> set (optionalSubjectsSelectors f). selector_matches L s rel))"

text \<open>
  What a query returns from a store: the relationships that match, are not skipped and lie behind
  the cursor, in the requested order, up to the limit.
\<close>

definition order_key :: "query_options \<Rightarrow> tuple_relationship \<Rightarrow> string list" where
  "order_key opts = (if qSort opts = BySubject then subj_key else res_key)"

definition behind_cursor :: "query_options \<Rightarrow> tuple_relationship \<Rightarrow> bool" where
  "behind_cursor opts rel \<longleftrightarrow> (case qAfter opts of
     None \<Rightarrow> True | Some a \<Rightarrow> qSort opts = Unsorted \<or> order_key opts a < order_key opts rel)"

definition limited :: "nat option \<Rightarrow> 'a list \<Rightarrow> 'a list" where
  "limited lim xs = (case lim of None \<Rightarrow> xs | Some n \<Rightarrow> take n xs)"

definition selection ::
    "(tuple_relationship \<Rightarrow> bool) \<Rightarrow> nanotime \<Rightarrow> query_options \<Rightarrow> store \<Rightarrow> tuple_relationship list \<Rightarrow> bool" where
  "selection P now opts m ys \<longleftrightarrow>
     set ys = {rel \<in> ran m. P rel \<and> behind_cursor opts rel \<and>
       \<not> skipped now (qSkipCaveats opts) (qSkipExpiration opts) rel} \<and>
     sorted_wrt (\<lambda>a b. order_key opts a < order_key opts b) ys"

lemma selector_row [simp]: "applySubjectSelector L (row_of_relationship L rel) s = selector_matches L s rel"
  by (auto simp: applySubjectSelector_def selector_matches_def relation_matches_def row_of_relationship_def)

lemma filter_row:
  "filterFuncForFilters L ty ids pre rl sels cf ef cur (row_of_relationship L rel) \<longleftrightarrow>
     \<not> (resource_matches ty ids pre rl rel \<and> caveat_matches cf rel \<and> expiration_matches ef rel \<and>
        (sels = [] \<or> (\<exists>s \<in> set sels. selector_matches L s rel))) \<or> cur (row_of_relationship L rel)"
proof -
  let ?r = "row_of_relationship L rel"
  have or: "(if a then True else b) \<longleftrightarrow> a \<or> b" for a b by simp
  have fields: "rNamespace ?r = objectType (resource rel)" "rResourceID ?r = objectID (resource rel)"
    "rRelation ?r = objRelation (resource rel)" "rExpiration ?r = optionalExpiration rel"
    by (simp_all add: row_of_relationship_def)
  have cav: "(cavFilterOption cf = CaveatFilterOptionHasMatchingCaveat \<and>
        (case rCaveat ?r of None \<Rightarrow> True | Some c \<Rightarrow> ccName c \<noteq> cavFilterName cf)) \<or>
      (cavFilterOption cf = CaveatFilterOptionNoCaveat \<and>
        (case rCaveat ?r of None \<Rightarrow> False | Some c \<Rightarrow> ccName c \<noteq> [])) \<longleftrightarrow> \<not> caveat_matches cf rel"
    by (cases "cavFilterOption cf"; cases "optionalCaveat rel")
      (simp_all add: caveat_matches_def row_of_relationship_def toCaveatReference_def)
  have expn: "(ef = ExpirationFilterOptionHasExpiration \<and> optionalExpiration rel = None) \<or>
      (ef = ExpirationFilterOptionNoExpiration \<and> optionalExpiration rel \<noteq> None) \<longleftrightarrow> \<not> expiration_matches ef rel"
    by (cases ef) (auto simp: expiration_matches_def)
  have pre: "pre \<noteq> [] \<and> \<not> prefix pre s \<longleftrightarrow> \<not> prefix pre s" for s by auto
  have sel: "sels \<noteq> [] \<and> \<not> list_ex (applySubjectSelector L ?r) sels \<longleftrightarrow>
      \<not> (sels = [] \<or> (\<exists>s \<in> set sels. selector_matches L s rel))"
    by (simp add: list_ex_iff)
  show ?thesis
    unfolding filterFuncForFilters_def or fields pre sel resource_matches_def
    using cav expn by blast
qed

lemma lessRef_cons:
  "lessRef a b c o1 \<or> (eqRef a b c o1 \<and> P) \<longleftrightarrow>
    a < objectType o1 \<or> a = objectType o1 \<and> (b < objectID o1 \<or> b = objectID o1 \<and>
      (c < objRelation o1 \<or> c = objRelation o1 \<and> P))"
  by (auto simp: lessRef_def eqRef_def)

lemma subject_less_key: "subject_less a b \<longleftrightarrow> subj_key a < subj_key b"
  unfolding subject_less_def lessRef_cons subj_key_def by (auto simp: lessRef_def)

lemma subj_key_inj: "subj_key a = subj_key b \<longleftrightarrow> res_key a = res_key b"
  by (auto simp: subj_key_def res_key_def ref_key_def rel_ref_def)

lemma cursor_row:
  assumes "qAfter opts = None \<or> (\<forall>n. qSort opts \<noteq> SortOther n)"
  shows "\<exists>cur. mustMakeCursorFilterFn (qAfter opts) (qSort opts) = Ok cur \<and>
    (\<forall>rel. cur (row_of_relationship L rel) \<longleftrightarrow> \<not> behind_cursor opts rel)"
proof (cases "qAfter opts")
  case None
  then show ?thesis by (auto simp: mustMakeCursorFilterFn_def noopCursorFilter_def behind_cursor_def)
next
  case (Some aft)
  have res: "lessRef a b c (resource aft) \<or> (eqRef a b c (resource aft) \<and>
      (lessRef d e f (subject aft) \<or> eqRef d e f (subject aft))) \<longleftrightarrow> [a, b, c, d, e, f] \<le> res_key aft"
    for a b c d e f
    unfolding lessRef_cons res_key_def ref_key_def rel_ref_def by (auto simp: lessRef_def eqRef_def le_less)
  have subj: "lessRef a b c (subject aft) \<or> (eqRef a b c (subject aft) \<and>
      (lessRef d e f (resource aft) \<or> eqRef d e f (resource aft))) \<longleftrightarrow> [a, b, c, d, e, f] \<le> subj_key aft"
    for a b c d e f
    unfolding lessRef_cons subj_key_def by (auto simp: lessRef_def eqRef_def le_less)
  have k: "res_key rel = [rNamespace (row_of_relationship L rel), rResourceID (row_of_relationship L rel),
      rRelation (row_of_relationship L rel), rSubjectNamespace (row_of_relationship L rel),
      rSubjectObjectID (row_of_relationship L rel), rSubjectRelation (row_of_relationship L rel)]"
    "subj_key rel = [rSubjectNamespace (row_of_relationship L rel), rSubjectObjectID (row_of_relationship L rel),
      rSubjectRelation (row_of_relationship L rel), rNamespace (row_of_relationship L rel),
      rResourceID (row_of_relationship L rel), rRelation (row_of_relationship L rel)]" for rel
    by (simp_all add: res_key_def subj_key_def ref_key_def rel_ref_def row_of_relationship_def)
  show ?thesis
    using assms Some
    by (cases "qSort opts")
      (auto simp: mustMakeCursorFilterFn_def noopCursorFilter_def behind_cursor_def order_key_def res subj
        k [symmetric] not_less Let_def)
qed

interpretation key_order: strict_order "(<) :: string list \<Rightarrow> string list \<Rightarrow> bool"
  by unfold_locales auto

lemma sort_slice_key: "map k (sort_slice (\<lambda>a b. k a < k b) xs) = sort_slice (<) (map k xs)"
proof (induction xs)
  case (Cons x xs)
  have "map k (insert_by (\<lambda>a b. k a < k b) x ys) = insert_by (<) (k x) (map k ys)" for ys
    by (induction ys) auto
  with Cons show ?case by simp
qed simp

lemma iterator_rows:
  assumes "lib_laws L"
  shows "newMemdbTupleIterator L now lim sc se cnt (map (row_of_relationship L) ts) =
    map Ok (limited (map_option (\<lambda>n. n - cnt) lim) (filter (\<lambda>rel. \<not> skipped now sc se rel) ts))"
proof (induction ts arbitrary: cnt)
  case Nil
  then show ?case by (simp add: limited_def split: option.split)
next
  case (Cons x ts)
  show ?case
  proof (cases lim)
    case None
    then show ?thesis using Cons by (simp add: limited_def row_roundtrip [OF assms])
  next
    case (Some n)
    then show ?thesis
      using Cons by (auto simp: limited_def row_roundtrip [OF assms] take_Cons' diff_diff_left)
  qed
qed

text \<open>Both iterators, on the rows of a sorted list of relationships.\<close>

lemma sorted_iterator_rows:
  assumes "lib_laws L" and "sorted_wrt (\<lambda>a b. res_key a < res_key b) ts" and "\<forall>n. qSort opts \<noteq> SortOther n"
  shows "\<exists>ys. sorted_iterator L now opts (map (row_of_relationship L) ts) = Ok (map Ok (limited (qLimit opts) ys)) \<and>
    set ys = {rel \<in> set ts. \<not> skipped now (qSkipCaveats opts) (qSkipExpiration opts) rel} \<and>
    sorted_wrt (\<lambda>a b. order_key opts a < order_key opts b) ys"
proof -
  let ?zs = "filter (\<lambda>rel. \<not> skipped now (qSkipCaveats opts) (qSkipExpiration opts) rel) ts"
  have zs: "sorted_wrt (\<lambda>a b. res_key a < res_key b) ?zs" using assms(2) by (rule sorted_wrt_filter)
  show ?thesis
  proof (cases "qSort opts = BySubject")
    case True
    have "distinct (map res_key ?zs)"
      using zs key_order.sorted_distinct [of "map res_key ?zs"] by (simp add: sorted_wrt_map)
    then have "distinct (map subj_key ?zs)" by (simp add: distinct_map inj_on_def subj_key_inj)
    then have "sorted_wrt (<) (map subj_key (sort_slice (\<lambda>a b. subj_key a < subj_key b) ?zs))"
      unfolding sort_slice_key by (rule key_order.sorted_sort_slice)
    then have sorted: "sorted_wrt (\<lambda>a b. subj_key a < subj_key b) (sort_slice (\<lambda>a b. subj_key a < subj_key b) ?zs)"
      by (simp add: sorted_wrt_map)
    have "map_res (row_Relationship L) (map (row_of_relationship L) ts) = Ok ts"
      by (simp add: map_res_Ok_iff list_all2_map1 list_all2_same row_roundtrip [OF assms(1)])
    then have "sorted_iterator L now opts (map (row_of_relationship L) ts) =
        Ok (map Ok (limited (qLimit opts) (sort_slice (\<lambda>a b. subj_key a < subj_key b) ?zs)))"
      by (auto simp: sorted_iterator_def newSubjectSortedIterator_def newSliceRelationshipIterator_def True
          limited_def subject_less_key [abs_def] Let_def split: option.split)
    with sorted show ?thesis
      by (intro exI [of _ "sort_slice (\<lambda>a b. subj_key a < subj_key b) ?zs"]) (simp add: order_key_def True)
  next
    case False
    then have "sorted_iterator L now opts (map (row_of_relationship L) ts) = Ok (map Ok (limited (qLimit opts) ?zs))"
      using assms(3) iterator_rows [OF assms(1), of now "qLimit opts" "qSkipCaveats opts" "qSkipExpiration opts" 0 ts]
      by (cases "qSort opts") (auto simp: sorted_iterator_def option.map_id0 [unfolded id_def])
    with zs show ?thesis
      by (intro exI [of _ ?zs]) (simp add: order_key_def False)
  qed
qed

lemma as_relationship_rows:
  "map_res as_relationship (map (RelationshipRow \<circ> row_of_relationship L) ts) = Ok (map (row_of_relationship L) ts)"
  by (simp add: map_res_Ok_iff list_all2_conv_all_nth)

lemma filter_rows: "filter P (map f ts) = map f (filter (\<lambda>x. P (f x)) ts)"
  by (simp add: filter_map comp_def)

context memdb_store begin

text \<open>The rows an index yields, filtered as the queries do.\<close>

lemma selection_of_rows:
  assumes "holds t" and "\<forall>n. qSort opts \<noteq> SortOther n"
    and "mustMakeCursorFilterFn (qAfter opts) (qSort opts) = Ok cur"
    and "\<And>rel. P rel \<Longrightarrow> index_match idx args (RelationshipRow (row_of_relationship L rel))"
    and "\<And>rel. keep (row_of_relationship L rel) \<longleftrightarrow> P rel \<and> \<not> cur (row_of_relationship L rel)"
  shows "\<exists>rels ys. txGet T t idx args = Ok (map RelationshipRow rels) \<and>
    map_res as_relationship (map RelationshipRow rels) = Ok rels \<and>
    sorted_iterator L now opts (filter keep rels) = Ok (map Ok (limited (qLimit opts) ys)) \<and>
    selection P now opts (abs_store L (view t)) ys"
proof -
  have s: "valid t" "stored L (view t)" using assms(1) by (simp_all add: holds_def)
  obtain ts where ts: "sorted_rows (view t TableRelationship) = map (RelationshipRow \<circ> row_of_relationship L) ts"
    "sorted_wrt (\<lambda>a b. res_key a < res_key b) ts" "set ts = ran (abs_store L (view t))"
    by (rule stored_tuples [OF lib_laws_axioms s(2)])
  let ?Q = "\<lambda>rel. index_match idx args (RelationshipRow (row_of_relationship L rel))"
  let ?rels = "map (row_of_relationship L) (filter ?Q ts)"
  have "txGet T t idx args = Ok (map RelationshipRow ?rels)"
    by (simp add: get [OF s(1)] ts(1) filter_rows)
  moreover have "map_res as_relationship (map RelationshipRow ?rels) = Ok ?rels"
    using as_relationship_rows [of L "filter ?Q ts"] by simp
  moreover obtain cur' where "mustMakeCursorFilterFn (qAfter opts) (qSort opts) = Ok cur'"
    "\<And>rel. cur' (row_of_relationship L rel) \<longleftrightarrow> \<not> behind_cursor opts rel"
    using cursor_row [of opts L] assms(2) by blast
  then have cur: "\<And>rel. cur (row_of_relationship L rel) \<longleftrightarrow> \<not> behind_cursor opts rel" using assms(3) by simp
  have absorb: "?Q x \<and> P x \<and> c \<longleftrightarrow> P x \<and> c" for x c using assms(4) by blast
  have "filter keep ?rels = map (row_of_relationship L) (filter (\<lambda>rel. P rel \<and> behind_cursor opts rel) ts)"
    by (simp add: filter_rows assms(5) cur absorb)
  moreover obtain ys where "sorted_iterator L now opts
      (map (row_of_relationship L) (filter (\<lambda>rel. P rel \<and> behind_cursor opts rel) ts)) =
        Ok (map Ok (limited (qLimit opts) ys))"
    "set ys = {rel \<in> set (filter (\<lambda>rel. P rel \<and> behind_cursor opts rel) ts).
       \<not> skipped now (qSkipCaveats opts) (qSkipExpiration opts) rel}"
    "sorted_wrt (\<lambda>a b. order_key opts a < order_key opts b) ys"
    using sorted_iterator_rows [OF lib_laws_axioms _ assms(2), of "filter (\<lambda>rel. P rel \<and> behind_cursor opts rel) ts" now]
      sorted_wrt_filter [OF ts(2)] by blast
  ultimately show ?thesis
    using ts(3) by (intro exI [of _ ?rels] exI [of _ ys]) (auto simp: selection_def)
qed

end

text \<open>A reader on a transaction, as \<open>SnapshotReader\<close> and a read-write transaction hand it out.\<close>

definition reader_on :: "'t reader \<Rightarrow> 't \<Rightarrow> bool" where
  "reader_on r t \<longleftrightarrow> rdTxSource r = Ok t \<and> rdInitErr r = None \<and> rdLocker r \<in> {NoopLocker, MutexLocker False}"

lemma reader_on_simps: "reader_on r t \<Longrightarrow> with_init r (with_tx r f) = f t"
  by (auto simp: reader_on_def with_init_def with_tx_def)

text \<open>A transaction with three relationships, for the instances.\<close>

definition sample_txn :: ref_txn where
  "sample_txn = fst (write_rels ref_lib ref_ops (ref_begin []) [create_update (sample_rel ''d1'' ''u1''),
     create_update (sample_rel ''d1'' ''u2''), create_update (sample_rel ''d2'' ''u1'')])"

lemma sample_txn_ok: "ref_valid sample_txn" "stored ref_lib (ref_view (rtView sample_txn))"
proof -
  have "ref_store.holds (ref_begin [])" using ref_empty_ok by (simp add: ref_store.holds_def)
  then have "ref_store.holds sample_txn"
    using ref_store.write_rels_refines [of "ref_begin []" "[create_update (sample_rel ''d1'' ''u1''),
     create_update (sample_rel ''d1'' ''u2''), create_update (sample_rel ''d2'' ''u1'')]"] sample_rel_ok
    by (auto simp: sample_txn_def create_update_def ref_store.rel_step_def)
  then show "ref_valid sample_txn" "stored ref_lib (ref_view (rtView sample_txn))"
    by (simp_all add: ref_store.holds_def)
qed

definition sample_reader :: "ref_txn reader" where
  "sample_reader = \<lparr>rdLocker = NoopLocker, rdTxSource = Ok sample_txn, rdInitErr = None, rdNow = 0\<rparr>"

lemma sample_reader_on: "reader_on sample_reader sample_txn"
  by (simp add: reader_on_def sample_reader_def)

definition sample_query :: query_options where
  "sample_query = \<lparr>qLimit = Some 1, qSort = BySubject, qAfter = None, qSkipCaveats = False, qSkipExpiration = False\<rparr>"

definition sample_user_filter :: subjects_filter where
  "sample_user_filter = \<lparr>sfSubjectType = ''user'', sfSubjectIds = [''u1''], sfRelationFilter = no_subject_filter\<rparr>"

definition sample_reverse_query :: reverse_query_options where
  "sample_reverse_query = \<lparr>resRelation = Some (''document'', ''viewer''), revOptions = sample_query\<rparr>"

definition sample_rwt :: "ref_txn rwt" where
  "sample_rwt = empty_rwt\<lparr>rwTxSource := Ok sample_txn\<rparr>"

lemma sample_rwt_on: "rwt_on sample_rwt sample_txn"
  by (simp add: rwt_on_def sample_rwt_def empty_rwt_def)

lemma query_result:
  assumes "memdb_store T view base valid L" and "valid t" and "stored L (view t)" and "reader_on r t"
    and "\<forall>n. qSort opts \<noteq> SortOther n" and "qAfter opts = None \<or> qSort opts \<noteq> Unsorted"
  shows "\<exists>ys. queryRelationships L T r fltr opts = Ok (map Ok (limited (qLimit opts) ys)) \<and>
    selection (matches L fltr) (rdNow r) opts (abs_store L (view t)) ys"
proof -
  let ?idx = "if optionalResourceType fltr = [] then IndexNamespacePrefix
    else if optionalResourceRelation fltr = [] then IndexNamespace else IndexNamespaceAndRelation"
  let ?args = "if optionalResourceType fltr = [] then [[]]
    else if optionalResourceRelation fltr = [] then [optionalResourceType fltr]
    else [optionalResourceType fltr, optionalResourceRelation fltr]"
  obtain cur where cur: "mustMakeCursorFilterFn (qAfter opts) (qSort opts) = Ok cur"
    using cursor_row [of opts L] assms(5) by blast
  let ?keep = "\<lambda>tpl. \<not> filterFuncForFilters L (optionalResourceType fltr) (optionalResourceIds fltr)
      (optionalResourceIDPrefix fltr) (optionalResourceRelation fltr) (optionalSubjectsSelectors fltr)
      (optionalCaveatNameFilter fltr) (optionalExpirationOption fltr) cur tpl"
  have idx: "index_match ?idx ?args (RelationshipRow (row_of_relationship L rel))" if "matches L fltr rel" for rel
    using that by (auto simp: matches_def resource_matches_def row_of_relationship_def)
  have keep: "?keep (row_of_relationship L rel) \<longleftrightarrow> matches L fltr rel \<and> \<not> cur (row_of_relationship L rel)" for rel
    unfolding filter_row matches_def by blast
  have "memdb_store.holds view valid L t" using assms(1-3) by (simp add: memdb_store.holds_def)
  from memdb_store.selection_of_rows [OF assms(1) this assms(5) cur idx keep, of "rdNow r"]
  obtain rels ys where q: "txGet T t ?idx ?args = Ok (map RelationshipRow rels)"
    "map_res as_relationship (map RelationshipRow rels) = Ok rels"
    "sorted_iterator L (rdNow r) opts (filter ?keep rels) = Ok (map Ok (limited (qLimit opts) ys))"
    "selection (matches L fltr) (rdNow r) opts (abs_store L (view t)) ys" by blast
  have "iteratorForFilter T t fltr = Ok (map RelationshipRow rels)"
    using q(1) by (auto simp: iteratorForFilter_def split: if_splits)
  then have "queryRelationships L T r fltr opts = Ok (map Ok (limited (qLimit opts) ys))"
    using assms(6) by (simp add: queryRelationships_def reader_on_simps [OF assms(4)] cur q(2,3))
  with q(4) show ?thesis by blast
qed

text \<open>
  C2. \<open>QueryRelationships\<close> returns, without an error item, exactly the relationships of the store
  that match the filter, are neither expired nor skipped and lie behind the cursor: strictly
  ascending in the requested order, and of these the first ones up to the limit.
\<close>

theorem query_selects:
  assumes "memdb_store T view base valid L" and "valid t" and "stored L (view t)" and "reader_on r t"
    and "\<forall>n. qSort opts \<noteq> SortOther n" and "qAfter opts = None \<or> qSort opts \<noteq> Unsorted"
  shows "\<exists>ys. queryRelationships L T r fltr opts = Ok (map Ok (limited (qLimit opts) ys)) \<and>
    selection (matches L fltr) (rdNow r) opts (abs_store L (view t)) ys"
  using assms by (rule query_result)

theorem query_selects_witness:
  "\<exists>ys. queryRelationships ref_lib ref_ops sample_reader any_filter sample_query = Ok (map Ok (limited (Some 1) ys)) \<and>
    selection (matches ref_lib any_filter) 0 sample_query (abs_store ref_lib (ref_view (rtView sample_txn))) ys"
proof -
  have "\<forall>n. qSort sample_query \<noteq> SortOther n" "qAfter sample_query = None \<or> qSort sample_query \<noteq> Unsorted"
    by (simp_all add: sample_query_def)
  from query_selects [OF ref_store.memdb_store_axioms sample_txn_ok sample_reader_on this, of any_filter]
  show ?thesis by (simp add: sample_query_def sample_reader_def)
qed

definition reverse_matches ::
    "spice_lib \<Rightarrow> subjects_filter \<Rightarrow> (string \<times> string) option \<Rightarrow> tuple_relationship \<Rightarrow> bool" where
  "reverse_matches L f rr rel \<longleftrightarrow> sfSubjectType f = objectType (subject rel) \<and>
     selector_matches L (as_selector L f) rel \<and>
     (case rr of None \<Rightarrow> True | Some (n, e) \<Rightarrow>
        (n = [] \<or> n = objectType (resource rel)) \<and> (e = [] \<or> e = objRelation (resource rel)))"

text \<open>
  \<open>ReverseQueryRelationships\<close> returns exactly the relationships with the subject type of its
  filter that the filter's selector and the optional resource relation accept, in the requested order,
  behind the cursor and up to the limit.
\<close>

theorem reverse_query_selects:
  assumes "memdb_store T view base valid L" and "valid t" and "stored L (view t)" and "reader_on r t"
    and "\<forall>n. qSort (revOptions opts) \<noteq> SortOther n"
  shows "\<exists>ys. reverseQueryRelationships L T r fltr opts = Ok (map Ok (limited (qLimit (revOptions opts)) ys)) \<and>
    selection (reverse_matches L fltr (resRelation opts)) (rdNow r) (revOptions opts) (abs_store L (view t)) ys"
proof -
  let ?qo = "revOptions opts" and ?P = "reverse_matches L fltr (resRelation opts)"
  obtain cur where cur: "mustMakeCursorFilterFn (qAfter ?qo) (qSort ?qo) = Ok cur"
    using cursor_row [of ?qo L] assms(5) by blast
  obtain n e where ne: "(case resRelation opts of None \<Rightarrow> ([], []) | Some nr \<Rightarrow> nr) = (n, e)" by fastforce
  let ?keep = "\<lambda>tpl. rSubjectNamespace tpl = sfSubjectType fltr \<and> \<not> filterFuncForFilters L n [] [] e
      [as_selector L fltr] no_caveat_filter ExpirationFilterOptionNone cur tpl"
  have idx: "index_match IndexSubjectNamespace [sfSubjectType fltr] (RelationshipRow (row_of_relationship L rel))"
    if "?P rel" for rel
    using that by (simp add: reverse_matches_def row_of_relationship_def)
  have keep: "?keep (row_of_relationship L rel) \<longleftrightarrow> ?P rel \<and> \<not> cur (row_of_relationship L rel)" for rel
    unfolding filter_row reverse_matches_def
    using ne by (auto simp: resource_matches_def caveat_matches_def expiration_matches_def no_caveat_filter_def
        row_of_relationship_def split: option.splits)
  have h: "memdb_store.holds view valid L t" using assms(1-3) by (simp add: memdb_store.holds_def)
  from memdb_store.selection_of_rows [OF assms(1) h assms(5) cur idx keep, of "rdNow r"]
  obtain rels ys where q: "txGet T t IndexSubjectNamespace [sfSubjectType fltr] = Ok (map RelationshipRow rels)"
    "map_res as_relationship (map RelationshipRow rels) = Ok rels"
    "sorted_iterator L (rdNow r) ?qo (filter ?keep rels) = Ok (map Ok (limited (qLimit ?qo) ys))"
    "selection ?P (rdNow r) ?qo (abs_store L (view t)) ys" by blast
  have "\<forall>x \<in> set rels. rSubjectNamespace x = sfSubjectType fltr"
  proof
    fix x assume "x \<in> set rels"
    then have "RelationshipRow x \<in> set (map RelationshipRow rels)" by simp
    moreover have "map RelationshipRow rels =
        filter (index_match IndexSubjectNamespace [sfSubjectType fltr]) (sorted_rows (view t TableRelationship))"
      using q(1) memdb_txn.get [OF memdb_store.axioms(1) [OF assms(1)] assms(2)] by simp
    ultimately have "RelationshipRow x \<in> set (filter (index_match IndexSubjectNamespace [sfSubjectType fltr])
        (sorted_rows (view t TableRelationship)))" by simp
    then show "rSubjectNamespace x = sfSubjectType fltr" by simp
  qed
  then have "filter ?keep rels = filter (\<lambda>tpl. \<not> filterFuncForFilters L n [] [] e
      [as_selector L fltr] no_caveat_filter ExpirationFilterOptionNone cur tpl) rels"
    by (auto intro: filter_cong)
  then have "reverseQueryRelationships L T r fltr opts = Ok (map Ok (limited (qLimit ?qo) ys))"
    using q(1-3) by (simp add: reverseQueryRelationships_def reader_on_simps [OF assms(4)] cur ne)
  with q(4) show ?thesis by blast
qed

theorem reverse_query_selects_witness:
  "\<exists>ys. reverseQueryRelationships ref_lib ref_ops sample_reader sample_user_filter sample_reverse_query =
      Ok (map Ok (limited (Some 1) ys)) \<and>
    selection (reverse_matches ref_lib sample_user_filter (Some (''document'', ''viewer''))) 0 sample_query
      (abs_store ref_lib (ref_view (rtView sample_txn))) ys"
proof -
  have "\<forall>n. qSort (revOptions sample_reverse_query) \<noteq> SortOther n"
    by (simp add: sample_query_def sample_reverse_query_def)
  from reverse_query_selects [OF ref_store.memdb_store_axioms sample_txn_ok sample_reader_on this, of sample_user_filter]
  show ?thesis by (simp add: sample_reverse_query_def sample_reader_def) (simp add: sample_query_def)
qed

section \<open>Pages\<close>

lemma sorted_by_key_unique:
  fixes k :: "'a \<Rightarrow> string list"
  assumes "sorted_wrt (\<lambda>a b. k a < k b) xs" and "sorted_wrt (\<lambda>a b. k a < k b) ys" and "set xs = set ys"
  shows "xs = ys"
proof -
  have "sorted_wrt (<) (map k xs)" "sorted_wrt (<) (map k ys)" using assms by (simp_all add: sorted_wrt_map)
  then have eq: "map k xs = map k ys" and d: "distinct (map k xs)"
    using assms(3) key_order.sorted_unique [of "map k xs" "map k ys"] key_order.sorted_distinct [of "map k xs"]
    by simp_all
  have "inj_on k (set xs \<union> set ys)" using d assms(3) by (simp add: distinct_map)
  with eq show ?thesis by (rule map_inj_on)
qed

lemma order_key_limit [simp]: "order_key (opts\<lparr>qLimit := lim\<rparr>) = order_key opts"
  by (simp add: order_key_def)

lemma behind_cursor_limit [simp]: "behind_cursor (opts\<lparr>qLimit := lim\<rparr>) rel = behind_cursor opts rel"
  by (simp add: behind_cursor_def split: option.split)

lemma selection_limit [simp]: "selection P now (opts\<lparr>qLimit := lim\<rparr>) m ys = selection P now opts m ys"
  by (simp add: selection_def)

lemma selection_limit_after: "selection P now (opts\<lparr>qLimit := lim, qAfter := a\<rparr>) m ys = selection P now (opts\<lparr>qAfter := a\<rparr>) m ys"
proof -
  have "opts\<lparr>qLimit := lim, qAfter := a\<rparr> = (opts\<lparr>qAfter := a\<rparr>)\<lparr>qLimit := lim\<rparr>" by simp
  then show ?thesis by (simp only: selection_limit)
qed

text \<open>A selection restarted behind one of its members is the part of it after that member.\<close>

lemma selection_after:
  assumes "selection P now opts m (xs @ x # zs)" and "selection P now (opts\<lparr>qAfter := Some x\<rparr>) m ys"
    and "qSort opts \<noteq> Unsorted"
  shows "ys = zs"
proof (rule sorted_by_key_unique)
  let ?k = "order_key opts"
  have k: "order_key (opts\<lparr>qAfter := Some x\<rparr>) = ?k" by (simp add: order_key_def)
  have sorted: "sorted_wrt (\<lambda>a b. ?k a < ?k b) (xs @ x # zs)" using assms(1) by (simp add: selection_def)
  then show "sorted_wrt (\<lambda>a b. ?k a < ?k b) zs" by (simp add: sorted_wrt_append)
  show "sorted_wrt (\<lambda>a b. ?k a < ?k b) ys" using assms(2) by (simp add: selection_def k)
  have mem: "rel \<in> set (xs @ x # zs) \<longleftrightarrow> rel \<in> ran m \<and> P rel \<and> behind_cursor opts rel \<and>
      \<not> skipped now (qSkipCaveats opts) (qSkipExpiration opts) rel" for rel
    using assms(1) by (simp add: selection_def set_eq_iff)
  have "behind_cursor opts rel" if "?k x < ?k rel" for rel
    using that mem [of x] assms(3) by (auto simp: behind_cursor_def split: option.splits)
  then have "set ys = {rel \<in> set (xs @ x # zs). ?k x < ?k rel}"
    using assms(2,3) mem by (auto simp: selection_def behind_cursor_def k)
  also have "\<dots> = set zs" using sorted by (auto simp: sorted_wrt_append)
  finally show "set ys = set zs" .
qed

text \<open>
  C5. Pages concatenate: what a limited query returns, followed by the query that starts behind
  its last relationship, is what the unlimited query returns, for every order but the unsorted one.
\<close>

theorem pages_concatenate:
  assumes "memdb_store T view base valid L" and "valid t" and "stored L (view t)" and "reader_on r t"
    and "qSort opts \<in> {ChooseEfficient, ByResource, BySubject}"
    and "queryRelationships L T r fltr (opts\<lparr>qLimit := Some n\<rparr>) = Ok (page @ [Ok x])"
  shows "\<exists>rest. queryRelationships L T r fltr (opts\<lparr>qLimit := None, qAfter := Some x\<rparr>) = Ok rest \<and>
    queryRelationships L T r fltr (opts\<lparr>qLimit := None\<rparr>) = Ok ((page @ [Ok x]) @ rest)"
proof -
  have sort: "\<forall>n. qSort opts \<noteq> SortOther n" "qSort opts \<noteq> Unsorted" using assms(5) by auto
  note q = query_result [OF assms(1-4), of _ fltr]
  obtain full where full: "queryRelationships L T r fltr (opts\<lparr>qLimit := None\<rparr>) = Ok (map Ok full)"
    "selection (matches L fltr) (rdNow r) opts (abs_store L (view t)) full"
    using q [of "opts\<lparr>qLimit := None\<rparr>"] sort by (auto simp: limited_def)
  obtain ys where ys: "queryRelationships L T r fltr (opts\<lparr>qLimit := Some n\<rparr>) = Ok (map Ok (take n ys))"
    "selection (matches L fltr) (rdNow r) opts (abs_store L (view t)) ys"
    using q [of "opts\<lparr>qLimit := Some n\<rparr>"] sort by (auto simp: limited_def)
  have "ys = full"
    by (rule sorted_by_key_unique [of "order_key opts"]) (use full(2) ys(2) in \<open>simp_all add: selection_def\<close>)
  then have "map Ok (take n full) = page @ [Ok x]" using assms(6) ys(1) by simp
  then obtain xs where xs: "take n full = xs @ [x]" "page = map Ok xs"
    by (auto simp: map_eq_append_conv)
  obtain rest where rest: "queryRelationships L T r fltr (opts\<lparr>qLimit := None, qAfter := Some x\<rparr>) = Ok (map Ok rest)"
    "selection (matches L fltr) (rdNow r) (opts\<lparr>qAfter := Some x\<rparr>) (abs_store L (view t)) rest"
    using q [of "opts\<lparr>qLimit := None, qAfter := Some x\<rparr>"] sort
      by (auto simp: limited_def selection_limit_after)
  have "full = xs @ x # drop n full" using xs(1) append_take_drop_id [of n full] by simp
  then have "rest = drop n full" using selection_after [OF _ rest(2) sort(2)] full(2) by metis
  then have "map Ok full = (page @ [Ok x]) @ map Ok rest"
    using xs \<open>full = xs @ x # drop n full\<close> by (metis append.assoc append_Cons append_Nil list.simps(9) map_append)
  with full(1) rest(1) show ?thesis by auto
qed

theorem pages_concatenate_witness:
  "\<exists>rest. queryRelationships ref_lib ref_ops sample_reader any_filter
      (sample_query\<lparr>qLimit := None, qAfter := Some (sample_rel ''d1'' ''u1'')\<rparr>) = Ok rest \<and>
    queryRelationships ref_lib ref_ops sample_reader any_filter (sample_query\<lparr>qLimit := None\<rparr>) =
      Ok (Ok (sample_rel ''d1'' ''u1'') # rest)"
proof -
  have sort: "qSort sample_query \<in> {ChooseEfficient, ByResource, BySubject}" by (simp add: sample_query_def)
  have "queryRelationships ref_lib ref_ops sample_reader any_filter (sample_query\<lparr>qLimit := Some 1\<rparr>) =
      Ok ([] @ [Ok (sample_rel ''d1'' ''u1'')])" by code_simp
  from pages_concatenate [OF ref_store.memdb_store_axioms sample_txn_ok sample_reader_on sort this]
  show ?thesis by simp
qed

section \<open>Deleting by filter\<close>

definition matches_public :: "spice_lib \<Rightarrow> relationship_filter_v1 \<Rightarrow> tuple_relationship \<Rightarrow> bool" where
  "matches_public L f rel \<longleftrightarrow>
     (resourceTypeV1 f = [] \<or> resourceTypeV1 f = objectType (resource rel)) \<and>
     (optionalResourceIdV1 f = [] \<or> optionalResourceIdV1 f = objectID (resource rel)) \<and>
     prefix (optionalResourceIdPrefixV1 f) (objectID (resource rel)) \<and>
     (optionalRelV1 f = [] \<or> optionalRelV1 f = objRelation (resource rel)) \<and>
     (case optionalSubjectFilterV1 f of
        None \<Rightarrow> True
      | Some s \<Rightarrow> subjectTypeV1 s = objectType (subject rel) \<and>
          (optionalSubjectIdV1 s = [] \<or> optionalSubjectIdV1 s = objectID (subject rel)) \<and>
          (case optionalRelationV1 s of None \<Rightarrow> True
           | Some e \<Rightarrow> objRelation (subject rel) = (if e = [] then ellipsis L else e)))"

lemma public_filter_row:
  "relationshipFilterFilterFunc L f (row_of_relationship L rel) \<longleftrightarrow> \<not> matches_public L f rel"
  by (auto simp: relationshipFilterFilterFunc_def matches_public_def row_of_relationship_def
      split: option.splits)

definition first_ones :: "nat \<Rightarrow> 'a list \<Rightarrow> 'a list" where
  "first_ones lim xs = (if lim = 0 then xs else take lim xs)"

lemma set_first_ones: "set (first_ones lim xs) \<subseteq> set xs"
  by (auto simp: first_ones_def dest: in_set_takeD)

lemma collect_deletes_rows:
  assumes "lib_laws L"
  shows "lim = 0 \<or> cnt < lim \<Longrightarrow> collect_deletes L lim cnt (map (row_of_relationship L) ts) =
    Ok (map delete_update (if lim = 0 then ts else take (lim - cnt) ts), 0 < lim \<and> lim - cnt \<le> length ts)"
proof (induction ts arbitrary: cnt)
  case (Cons x ts)
  show ?case
  proof (cases "0 < lim \<and> cnt + 1 = lim")
    case True
    then show ?thesis by (auto simp: row_roundtrip [OF assms])
  next
    case False
    then have "lim = 0 \<or> cnt + 1 < lim" using Cons.prems by auto
    with Cons.IH [of "cnt + 1"] False show ?thesis
      by (auto simp: row_roundtrip [OF assms] take_Cons' diff_diff_left)
  qed
qed auto

lemma spec_deletes:
  "spec_updates L m (map delete_update rels) = (m |` (- rel_ref ` set rels), Ok ())"
proof (induction rels arbitrary: m)
  case (Cons x rels)
  then show ?case
    by (auto simp: spec_update_def delete_update_def Let_def restrict_map_def fun_eq_iff)
qed (simp add: restrict_map_def fun_eq_iff)

lemma delete_with_lock:
  assumes "memdb_store T view base valid L" and "memdb_store.holds view valid L t"
    and "filter_from_public L fltr = Ok dsFilter"
  shows "\<exists>t' ys. deleteWithLock L T t fltr lim = (t', (length (first_ones lim ys), 0 < lim \<and> lim \<le> length ys), Ok ()) \<and>
    set ys = {rel \<in> ran (abs_store L (view t)). matches_public L fltr rel} \<and>
    sorted_wrt (\<lambda>a b. res_key a < res_key b) ys \<and> memdb_store.rel_step view base valid L t t' \<and>
    abs_store L (view t') = abs_store L (view t) |` (- rel_ref ` set (first_ones lim ys))"
proof -
  note lib = memdb_store.axioms(2) [OF assms(1)] and txn = memdb_store.axioms(1) [OF assms(1)]
  have st: "stored L (view t)" and va: "valid t"
    using assms(1,2) by (simp_all add: memdb_store.holds_def)
  obtain ts where ts: "sorted_rows (view t TableRelationship) = map (RelationshipRow \<circ> row_of_relationship L) ts"
    "sorted_wrt (\<lambda>a b. res_key a < res_key b) ts" "set ts = ran (abs_store L (view t))"
    by (rule stored_tuples [OF lib st])
  let ?ys = "filter (matches_public L fltr) ts"
  have d: "optionalResourceType dsFilter = resourceTypeV1 fltr" "optionalResourceRelation dsFilter = optionalRelV1 fltr"
    using lib_laws.public_filter [OF lib assms(3)] by simp_all
  obtain idx args where it: "iteratorForFilter T t dsFilter =
      Ok (map (RelationshipRow \<circ> row_of_relationship L)
        (filter (\<lambda>rel. index_match idx args (RelationshipRow (row_of_relationship L rel))) ts))"
    and idx: "\<And>rel. matches_public L fltr rel \<Longrightarrow> index_match idx args (RelationshipRow (row_of_relationship L rel))"
  proof (cases "resourceTypeV1 fltr = []")
    case True
    then show thesis
      using that [of IndexNamespacePrefix "[[]]"]
      by (simp add: iteratorForFilter_def d memdb_txn.get [OF txn va] ts(1) filter_rows)
  next
    case False
    let ?idx = "if optionalRelV1 fltr = [] then IndexNamespace else IndexNamespaceAndRelation"
    let ?args = "if optionalRelV1 fltr = [] then [resourceTypeV1 fltr] else [resourceTypeV1 fltr, optionalRelV1 fltr]"
    show thesis
    proof (rule that [of ?idx ?args])
      show "iteratorForFilter T t dsFilter = Ok (map (RelationshipRow \<circ> row_of_relationship L)
        (filter (\<lambda>rel. index_match ?idx ?args (RelationshipRow (row_of_relationship L rel))) ts))"
        using False by (simp add: iteratorForFilter_def d memdb_txn.get [OF txn va] ts(1) filter_rows)
      show "index_match ?idx ?args (RelationshipRow (row_of_relationship L rel))"
        if "matches_public L fltr rel" for rel
        using that False by (auto simp: matches_public_def row_of_relationship_def)
    qed
  qed
  have rows: "filter (\<lambda>r. \<not> relationshipFilterFilterFunc L fltr r) (map (row_of_relationship L)
      (filter (\<lambda>rel. index_match idx args (RelationshipRow (row_of_relationship L rel))) ts)) =
      map (row_of_relationship L) ?ys"
    using idx by (auto simp: filter_rows public_filter_row intro: arg_cong [where f = "map _"] filter_cong)
  have ok: "rel_ok rel" if "rel \<in> set ts" for rel
  proof -
    have "abs_store L (view t) (rel_ref rel) = Some rel"
      using that ts(3) abs_store_ref [OF lib st] by (fastforce simp: ran_def)
    then show ?thesis
      using abs_store_Some [OF lib st] contents_okD st
      by (fastforce simp: stored_def rel_ok_def)
  qed
  have "\<forall>u \<in> set (map delete_update (first_ones lim ?ys)). rel_ok (updRelationship u)"
    using ok set_first_ones [of lim ?ys] by (auto simp: delete_update_def)
  then obtain t' res where w: "write_rels L T t (map delete_update (first_ones lim ?ys)) = (t', res)"
    "memdb_store.rel_step view base valid L t t'" and
    sp: "spec_updates L (abs_store L (view t)) (map delete_update (first_ones lim ?ys)) = (abs_store L (view t'), res)"
    using memdb_store.write_rels_refines [OF assms(1,2)] by blast
  from sp have ab: "abs_store L (view t') = abs_store L (view t) |` (- rel_ref ` set (first_ones lim ?ys))"
    and res: "res = Ok ()" by (simp_all add: spec_deletes)
  have "collect_deletes L lim 0 (map (row_of_relationship L) ?ys) =
      Ok (map delete_update (first_ones lim ?ys), 0 < lim \<and> lim \<le> length ?ys)"
    using collect_deletes_rows [OF lib, of lim 0 ?ys] by (cases "lim = 0") (simp_all add: first_ones_def)
  then have "deleteWithLock L T t fltr lim =
      (t', (length (first_ones lim ?ys), 0 < lim \<and> lim \<le> length ?ys), Ok ())"
    using w(1) res by (simp add: deleteWithLock_def assms(3) it as_relationship_rows rows)
  moreover have "set ?ys = {rel \<in> ran (abs_store L (view t)). matches_public L fltr rel}" using ts(3) by auto
  moreover have "sorted_wrt (\<lambda>a b. res_key a < res_key b) ?ys" using ts(2) by (rule sorted_wrt_filter)
  ultimately show ?thesis using w(2) ab by blast
qed

text \<open>
  C10. \<open>DeleteRelationships\<close> removes exactly the relationships that match its filter, with a limit
  the first ones of them in the order of their identities, counts them, and reports whether the
  limit was met.
\<close>

theorem delete_removes_selection:
  assumes "memdb_store T view base valid L" and "valid t" and "stored L (view t)" and "rwt_on w t"
    and "filter_from_public L fltr = Ok dsFilter"
  shows "\<exists>t' ys. let lim = (case deleteLimit of None \<Rightarrow> 0 | Some n \<Rightarrow> n); m = abs_store L (view t) in
    deleteRelationships L T w fltr deleteLimit =
      (w\<lparr>rwTxSource := Ok t'\<rparr>, Ok ((length (first_ones lim ys), 0 < lim \<and> lim \<le> length ys), Ok ())) \<and>
    set ys = {rel \<in> ran m. matches_public L fltr rel} \<and> sorted_wrt (\<lambda>a b. res_key a < res_key b) ys \<and>
    valid t' \<and> stored L (view t') \<and> abs_store L (view t') = m |` (- rel_ref ` set (first_ones lim ys))"
proof -
  let ?lim = "case deleteLimit of None \<Rightarrow> 0 | Some n \<Rightarrow> n"
  have "memdb_store.holds view valid L t" using assms(1-3) by (simp add: memdb_store.holds_def)
  from delete_with_lock [OF assms(1) this assms(5), of ?lim] obtain t' ys where
    d: "deleteWithLock L T t fltr ?lim = (t', (length (first_ones ?lim ys), 0 < ?lim \<and> ?lim \<le> length ys), Ok ())"
    "set ys = {rel \<in> ran (abs_store L (view t)). matches_public L fltr rel}"
    "sorted_wrt (\<lambda>a b. res_key a < res_key b) ys" "memdb_store.rel_step view base valid L t t'"
    "abs_store L (view t') = abs_store L (view t) |` (- rel_ref ` set (first_ones ?lim ys))" by blast
  have "(case deleteLimit of Some n \<Rightarrow> if n > 0 then n else 0 | None \<Rightarrow> 0) = ?lim"
    by (simp split: option.split)
  then have "deleteRelationships L T w fltr deleteLimit =
      (w\<lparr>rwTxSource := Ok t'\<rparr>, Ok ((length (first_ones ?lim ys), 0 < ?lim \<and> ?lim \<le> length ys), Ok ()))"
    using assms(4) d(1) by (simp add: deleteRelationships_def with_wtx_def rwt_on_def)
  then show ?thesis
    unfolding Let_def using d(2-5) assms(1)
    by (intro exI [of _ t'] exI [of _ ys]) (auto simp: memdb_store.rel_step_def memdb_store.holds_def)
qed

theorem delete_removes_selection_witness:
  "\<exists>t' ys. deleteRelationships ref_lib ref_ops sample_rwt (resource_type_filter ''document'') (Some 2) =
      (sample_rwt\<lparr>rwTxSource := Ok t'\<rparr>, Ok ((length (take 2 ys), 2 \<le> length ys), Ok ())) \<and>
    set ys = {rel \<in> ran (abs_store ref_lib (ref_view (rtView sample_txn))).
      matches_public ref_lib (resource_type_filter ''document'') rel}"
proof -
  have "filter_from_public ref_lib (resource_type_filter ''document'') =
      Ok (any_filter\<lparr>optionalResourceType := ''document''\<rparr>)"
    by (simp add: ref_lib_def resource_type_filter_def any_filter_def)
  from delete_removes_selection [OF ref_store.memdb_store_axioms sample_txn_ok sample_rwt_on this, of "Some 2"]
  show ?thesis by (simp add: first_ones_def Let_def) blast
qed

end
