(* ===== verification/Memdb_Defs.thy ===== *)
theory Memdb_Defs
  imports Memdb_Store
begin

text \<open>
  Namespaces, caveats and counters of the in-memory datastore: what reads return after writes, what
  the deletion of a namespace removes, how counters count, and what readers that were built with an
  error do.
\<close>

section \<open>Namespaces\<close>

definition namespace_at :: "spice_lib \<Rightarrow> contents \<Rightarrow> string \<Rightarrow> (ns_definition \<times> revision) result" where
  "namespace_at L c n = (case c TableNamespace (StrKey [n]) of
     None \<Rightarrow> Err (NamespaceNotFound n) | Some raw \<Rightarrow> load_namespace L raw)"

lemma stored_cong:
  "stored L c \<Longrightarrow> contents_ok c' \<Longrightarrow> c' TableRelationship = c TableRelationship \<Longrightarrow> stored L c'"
  by (simp add: stored_def)

context memdb_store begin

lemma read_namespace:
  "valid t \<Longrightarrow> reader_on r t \<Longrightarrow> readNamespaceByName L T r n = namespace_at L (view t) n"
  by (simp add: readNamespaceByName_def reader_on_simps first namespace_at_def split: option.split)

lemma insert_namespace:
  assumes "holds t" and "field_ok (nsName x)"
  shows "\<exists>t'. txInsert T t TableNamespace (NamespaceRow x) = (t', Ok ()) \<and> holds t' \<and>
    view t' = put_row TableNamespace (NamespaceRow x) (view t)"
proof -
  have "key_ok (row_key (NamespaceRow x))" using assms(2) by simp
  with insert [of t "NamespaceRow x" TableNamespace] assms(1) obtain t' where
    "txInsert T t TableNamespace (NamespaceRow x) = (t', Ok ())" "valid t'"
    "view t' = put_row TableNamespace (NamespaceRow x) (view t)" by (auto simp: holds_def)
  moreover from this assms(1) have "holds t'"
    using view_ok [of t'] by (auto simp: holds_def put_row_def intro: stored_cong)
  ultimately show ?thesis by blast
qed

lemma write_namespaces_spec:
  assumes "holds t" and "\<forall>d \<in> set ds. field_ok (nsDefName d)"
  shows "\<exists>t'. write_namespaces L T rv t ds = (t', Ok ()) \<and> holds t' \<and>
    (\<forall>tb. tb \<noteq> TableNamespace \<longrightarrow> view t' tb = view t tb) \<and>
    (\<forall>n. namespace_at L (view t') n = (case map_of (rev (map (\<lambda>d. (nsDefName d, d)) ds)) n of
       Some d \<Rightarrow> Ok (d, rv) | None \<Rightarrow> namespace_at L (view t) n))"
  using assms
proof (induction ds arbitrary: t)
  case (Cons d ds)
  obtain b where b: "marshal_ns L d = Ok b" "unmarshal_ns L b = Ok d" using ns_roundtrip by blast
  let ?x = "\<lparr>nsName = nsDefName d, nsConfigBytes = b, nsUpdated = rv\<rparr>"
  obtain t1 where t1: "txInsert T t TableNamespace (NamespaceRow ?x) = (t1, Ok ())" "holds t1"
    "view t1 = put_row TableNamespace (NamespaceRow ?x) (view t)"
    using insert_namespace [of t ?x] Cons.prems by auto
  have at: "namespace_at L (view t1) n = (if n = nsDefName d then Ok (d, rv) else namespace_at L (view t) n)" for n
    by (simp add: namespace_at_def t1(3) put_row_def load_namespace_def b)
  from Cons.IH [OF t1(2)] Cons.prems(2) obtain t2 where t2: "write_namespaces L T rv t1 ds = (t2, Ok ())"
    "holds t2" "\<forall>tb. tb \<noteq> TableNamespace \<longrightarrow> view t2 tb = view t1 tb"
    "\<forall>n. namespace_at L (view t2) n = (case map_of (rev (map (\<lambda>d. (nsDefName d, d)) ds)) n of
       Some d \<Rightarrow> Ok (d, rv) | None \<Rightarrow> namespace_at L (view t1) n)" by auto
  have "write_namespaces L T rv t (d # ds) = (t2, Ok ())" using b t1(1) t2(1) by simp
  moreover have "view t2 tb = view t tb" if "tb \<noteq> TableNamespace" for tb
    using that t2(3) by (simp add: t1(3) put_row_def)
  moreover have "namespace_at L (view t2) n = (case map_of (rev (map (\<lambda>d. (nsDefName d, d)) (d # ds))) n of
       Some d \<Rightarrow> Ok (d, rv) | None \<Rightarrow> namespace_at L (view t) n)" for n
    unfolding t2(4) [rule_format] by (simp add: at map_add_def split: option.split)
  ultimately show ?case using t2(2) by blast
qed simp

end

text \<open>
  After \<open>WriteNamespaces\<close> every name in it reads back as the last definition written under that
  name, at the revision of the transaction; every other name reads as before, and the relationships
  are untouched.
\<close>

theorem namespaces_read_back:
  assumes "memdb_store T view base valid L" and "valid t" and "stored L (view t)" and "rwt_on w t"
    and "\<forall>d \<in> set ds. field_ok (nsDefName d)"
  shows "\<exists>t'. writeNamespaces L T w ds = (w\<lparr>rwTxSource := Ok t'\<rparr>, Ok ()) \<and>
    abs_store L (view t') = abs_store L (view t) \<and>
    (\<forall>r n. reader_on r t' \<longrightarrow> readNamespaceByName L T r n =
      (case map_of (rev (map (\<lambda>d. (nsDefName d, d)) ds)) n of
         Some d \<Rightarrow> Ok (d, rwNewRevision w)
       | None \<Rightarrow> readNamespaceByName L T (r\<lparr>rdTxSource := Ok t\<rparr>) n))"
proof -
  have h: "memdb_store.holds view valid L t" using assms(1-3) by (simp add: memdb_store.holds_def)
  from memdb_store.write_namespaces_spec [OF assms(1) this assms(5), of "rwNewRevision w"] obtain t' where
    t': "write_namespaces L T (rwNewRevision w) t ds = (t', Ok ())" "memdb_store.holds view valid L t'"
    "\<forall>tb. tb \<noteq> TableNamespace \<longrightarrow> view t' tb = view t tb"
    "\<forall>n. namespace_at L (view t') n = (case map_of (rev (map (\<lambda>d. (nsDefName d, d)) ds)) n of
       Some d \<Rightarrow> Ok (d, rwNewRevision w) | None \<Rightarrow> namespace_at L (view t) n)" by blast
  have "valid t'" using t'(2) assms(1) by (simp add: memdb_store.holds_def)
  moreover have "reader_on r t' \<Longrightarrow> reader_on (r\<lparr>rdTxSource := Ok t\<rparr>) t" for r
    by (simp add: reader_on_def)
  moreover have "abs_store L (view t') = abs_store L (view t)"
    using t'(3) by (simp add: fun_eq_iff abs_store_def)
  moreover have "writeNamespaces L T w ds = (w\<lparr>rwTxSource := Ok t'\<rparr>, Ok ())"
    using assms(4) t'(1) by (simp add: writeNamespaces_def with_wtx_def rwt_on_def)
  ultimately show ?thesis
    using t'(4) memdb_store.read_namespace [OF assms(1)] assms(2)
    by (intro exI [of _ t']) (simp split: option.split)
qed

theorem namespaces_read_back_witness:
  "\<exists>t'. writeNamespaces ref_lib ref_ops sample_rwt [\<lparr>nsDefName = ''user'', nsDefBody = ''a''\<rparr>,
       \<lparr>nsDefName = ''user'', nsDefBody = ''b''\<rparr>] = (sample_rwt\<lparr>rwTxSource := Ok t'\<rparr>, Ok ()) \<and>
    readNamespaceByName ref_lib ref_ops (sample_reader\<lparr>rdTxSource := Ok t'\<rparr>) ''user'' =
      Ok (\<lparr>nsDefName = ''user'', nsDefBody = ''b''\<rparr>, TimestampRev 1)"
proof -
  let ?ds = "[\<lparr>nsDefName = ''user'', nsDefBody = ''a''\<rparr>, \<lparr>nsDefName = ''user'', nsDefBody = ''b''\<rparr>]"
  have "\<forall>d \<in> set ?ds. field_ok (nsDefName d)" by (simp add: field_ok_def)
  from namespaces_read_back [OF ref_store.memdb_store_axioms sample_txn_ok sample_rwt_on this]
  obtain t' where t': "writeNamespaces ref_lib ref_ops sample_rwt ?ds = (sample_rwt\<lparr>rwTxSource := Ok t'\<rparr>, Ok ())"
    "\<forall>r n. reader_on r t' \<longrightarrow> readNamespaceByName ref_lib ref_ops r n =
      (case map_of (rev (map (\<lambda>d. (nsDefName d, d)) ?ds)) n of
         Some d \<Rightarrow> Ok (d, rwNewRevision sample_rwt)
       | None \<Rightarrow> readNamespaceByName ref_lib ref_ops (r\<lparr>rdTxSource := Ok sample_txn\<rparr>) n)" by blast
  have "reader_on (sample_reader\<lparr>rdTxSource := Ok t'\<rparr>) t'" by (simp add: reader_on_def sample_reader_def)
  with t' show ?thesis by (intro exI [of _ t']) (simp add: sample_rwt_def empty_rwt_def)
qed

section \<open>Deleting namespaces\<close>

lemma matches_resource_type:
  "n \<noteq> [] \<Longrightarrow> matches_public L (resource_type_filter n) rel \<longleftrightarrow> objectType (resource rel) = n"
  by (auto simp: matches_public_def resource_type_filter_def)

context memdb_store begin

lemma delete_namespace_row:
  assumes "holds t" and "view t TableNamespace (StrKey [n]) = Some raw"
  shows "\<exists>t'. txDelete T t TableNamespace raw = (t', Ok ()) \<and> holds t' \<and>
    view t' = del_row TableNamespace (StrKey [n]) (view t)"
proof -
  have v: "valid t" using assms(1) by (simp add: holds_def)
  have "row_key raw = StrKey [n]" using view_row [OF v assms(2)] by simp
  with delete_found [OF v, of TableNamespace raw] assms(2) obtain t' where
    "txDelete T t TableNamespace raw = (t', Ok ())" "valid t'"
    "view t' = del_row TableNamespace (StrKey [n]) (view t)" by auto
  moreover from this assms(1) have "holds t'"
    using view_ok [of t'] by (auto simp: holds_def del_row_def intro: stored_cong)
  ultimately show ?thesis by blast
qed

lemma delete_namespaces_spec:
  assumes "holds t" and "\<forall>n \<in> set ns. n \<noteq> [] \<and> (\<exists>d. filter_from_public L (resource_type_filter n) = Ok d)"
  shows "\<exists>t'. delete_namespaces L T True t ns = (t',
      if distinct ns \<and> (\<forall>n \<in> set ns. view t TableNamespace (StrKey [n]) \<noteq> None) then Ok ()
      else Err (ErrorString ''namespace not found'')) \<and> holds t' \<and>
    (distinct ns \<and> (\<forall>n \<in> set ns. view t TableNamespace (StrKey [n]) \<noteq> None) \<longrightarrow>
      (\<forall>n. view t' TableNamespace (StrKey [n]) =
        (if n \<in> set ns then None else view t TableNamespace (StrKey [n]))) \<and>
      abs_store L (view t') = abs_store L (view t) |` {k. objectType (fst k) \<notin> set ns})"
  using assms
proof (induction ns arbitrary: t)
  case Nil
  then show ?case by (auto simp: restrict_map_def fun_eq_iff)
next
  case (Cons n ns)
  have v: "valid t" and st: "stored L (view t)" using Cons.prems(1) by (simp_all add: holds_def)
  show ?case
  proof (cases "view t TableNamespace (StrKey [n])")
    case None
    then show ?thesis using Cons.prems(1) by (auto simp: first [OF v])
  next
    case (Some raw)
    obtain t1 where t1: "txDelete T t TableNamespace raw = (t1, Ok ())" "holds t1"
      "view t1 = del_row TableNamespace (StrKey [n]) (view t)"
      using delete_namespace_row [OF Cons.prems(1) Some] by blast
    obtain d where d: "filter_from_public L (resource_type_filter n) = Ok d" and n: "n \<noteq> []"
      using Cons.prems(2) by auto
    from delete_with_lock [OF memdb_store_axioms t1(2) d, of 0] obtain t2 ys where
      t2: "deleteWithLock L T t1 (resource_type_filter n) 0 = (t2, (length ys, False), Ok ())"
      "set ys = {rel \<in> ran (abs_store L (view t1)). matches_public L (resource_type_filter n) rel}"
      "rel_step t1 t2" "abs_store L (view t2) = abs_store L (view t1) |` (- rel_ref ` set ys)"
      by (auto simp: first_ones_def)
    have abs1: "abs_store L (view t1) = abs_store L (view t)"
      by (simp add: t1(3) abs_store_def fun_eq_iff del_row_def)
    have abs2: "abs_store L (view t2) = abs_store L (view t) |` {k. objectType (fst k) \<noteq> n}"
    proof
      fix k
      show "abs_store L (view t2) k = (abs_store L (view t) |` {k. objectType (fst k) \<noteq> n}) k"
      proof (cases "abs_store L (view t) k")
        case (Some rel)
        then have "k = rel_ref rel" by (rule abs_store_ref [OF lib_laws_axioms st])
        have ran: "rel \<in> ran (abs_store L (view t))" using Some by (rule ranI)
        have uniq: "rel' = rel" if "rel_ref rel' = k" "rel' \<in> ran (abs_store L (view t))" for rel'
        proof -
          from that(2) obtain k' where k': "abs_store L (view t) k' = Some rel'" by (auto simp: ran_def)
          then have "k' = rel_ref rel'" by (rule abs_store_ref [OF lib_laws_axioms st])
          with k' that(1) Some show ?thesis by simp
        qed
        have "k \<in> rel_ref ` set ys \<longleftrightarrow> objectType (resource rel) = n"
        proof
          assume "k \<in> rel_ref ` set ys"
          then obtain rel' where "k = rel_ref rel'" "rel' \<in> set ys" by blast
          then show "objectType (resource rel) = n"
            using uniq [of rel'] t2(2) matches_resource_type [OF n, of L rel] by (simp add: abs1)
        next
          assume "objectType (resource rel) = n"
          then have "rel \<in> set ys" using ran t2(2) matches_resource_type [OF n, of L rel] by (simp add: abs1)
          with \<open>k = rel_ref rel\<close> show "k \<in> rel_ref ` set ys" by blast
        qed
        with \<open>k = rel_ref rel\<close> show ?thesis by (simp add: t2(4) abs1 restrict_map_def rel_ref_def)
      qed (simp add: t2(4) abs1 restrict_map_def)
    qed
    have ns2: "view t2 TableNamespace = (view t TableNamespace)(StrKey [n] := None)"
      using t2(3) by (simp add: rel_step_def t1(3) del_row_def)
    have "holds t2" using t2(3) by (simp add: rel_step_def)
    moreover have "\<forall>n \<in> set ns. n \<noteq> [] \<and> (\<exists>d. filter_from_public L (resource_type_filter n) = Ok d)"
      using Cons.prems(2) by simp
    ultimately obtain t3 where t3: "delete_namespaces L T True t2 ns = (t3,
      if distinct ns \<and> (\<forall>n \<in> set ns. view t2 TableNamespace (StrKey [n]) \<noteq> None) then Ok ()
      else Err (ErrorString ''namespace not found''))" "holds t3"
      "distinct ns \<and> (\<forall>n \<in> set ns. view t2 TableNamespace (StrKey [n]) \<noteq> None) \<longrightarrow>
      (\<forall>n. view t3 TableNamespace (StrKey [n]) =
        (if n \<in> set ns then None else view t2 TableNamespace (StrKey [n]))) \<and>
      abs_store L (view t3) = abs_store L (view t2) |` {k. objectType (fst k) \<notin> set ns}"
      using Cons.IH [of t2] by blast
    have cond: "distinct ns \<and> (\<forall>n \<in> set ns. view t2 TableNamespace (StrKey [n]) \<noteq> None) \<longleftrightarrow>
        distinct (n # ns) \<and> (\<forall>m \<in> set (n # ns). view t TableNamespace (StrKey [m]) \<noteq> None)"
      using Some by (auto simp: ns2)
    have "delete_namespaces L T True t (n # ns) = delete_namespaces L T True t2 ns"
      by (simp add: first [OF v] Some t1(1) t2(1))
    then show ?thesis
      using t3 unfolding cond
      by (intro exI [of _ t3]) (auto simp: ns2 abs2 restrict_map_def fun_eq_iff)
  qed
qed

end

text \<open>
  \<open>DeleteNamespaces\<close> with its relationships succeeds exactly when the names are distinct and all
  defined, and then leaves neither the namespaces nor any relationship whose resource is of one of
  them, and every other relationship.
\<close>

theorem delete_namespaces_exact:
  assumes "memdb_store T view base valid L" and "valid t" and "stored L (view t)" and "rwt_on w t"
    and "ns \<noteq> []" and "\<forall>n \<in> set ns. n \<noteq> [] \<and> (\<exists>d. filter_from_public L (resource_type_filter n) = Ok d)"
  shows "\<exists>t'. deleteNamespaces L T w ns True = (w\<lparr>rwTxSource := Ok t'\<rparr>,
      if distinct ns \<and> (\<forall>n \<in> set ns. view t TableNamespace (StrKey [n]) \<noteq> None) then Ok ()
      else Err (ErrorString ''namespace not found'')) \<and>
    (distinct ns \<and> (\<forall>n \<in> set ns. view t TableNamespace (StrKey [n]) \<noteq> None) \<longrightarrow>
      (\<forall>n. view t' TableNamespace (StrKey [n]) =
        (if n \<in> set ns then None else view t TableNamespace (StrKey [n]))) \<and>
      abs_store L (view t') = abs_store L (view t) |` {k. objectType (fst k) \<notin> set ns})"
proof -
  have "memdb_store.holds view valid L t" using assms(1-3) by (simp add: memdb_store.holds_def)
  from memdb_store.delete_namespaces_spec [OF assms(1) this assms(6)] obtain t' where
    "delete_namespaces L T True t ns = (t',
      if distinct ns \<and> (\<forall>n \<in> set ns. view t TableNamespace (StrKey [n]) \<noteq> None) then Ok ()
      else Err (ErrorString ''namespace not found''))"
    "distinct ns \<and> (\<forall>n \<in> set ns. view t TableNamespace (StrKey [n]) \<noteq> None) \<longrightarrow>
      (\<forall>n. view t' TableNamespace (StrKey [n]) =
        (if n \<in> set ns then None else view t TableNamespace (StrKey [n]))) \<and>
      abs_store L (view t') = abs_store L (view t) |` {k. objectType (fst k) \<notin> set ns}" by blast
  then show ?thesis
    using assms(4,5) by (intro exI [of _ t']) (simp add: deleteNamespaces_def with_wtx_def rwt_on_def)
qed

theorem delete_namespaces_exact_witness:
  "\<exists>t'. deleteNamespaces ref_lib ref_ops sample_rwt [''document''] True =
     (sample_rwt\<lparr>rwTxSource := Ok t'\<rparr>, Err (ErrorString ''namespace not found''))"
proof -
  have f: "\<forall>n \<in> set [''document'']. n \<noteq> [] \<and> (\<exists>d. filter_from_public ref_lib (resource_type_filter n) = Ok d)"
    by (simp add: ref_lib_def resource_type_filter_def)
  have "ref_view (rtView sample_txn) TableNamespace (StrKey [''document'']) = None" by code_simp
  with delete_namespaces_exact [OF ref_store.memdb_store_axioms sample_txn_ok sample_rwt_on _ f]
  show ?thesis by auto
qed

section \<open>Counters\<close>

text \<open>Every counter row refers to a counter object of its name whose filter can be read.\<close>

definition counters_ok :: "spice_lib \<Rightarrow> counter_heap \<Rightarrow> contents \<Rightarrow> bool" where
  "counters_ok L h c \<longleftrightarrow> (\<forall>k raw. c TableCounters k = Some raw \<longrightarrow>
     (\<exists>n p x f. raw = CounterRow n p \<and> map_of h p = Some x \<and> ctName x = n \<and>
        unmarshal_filter L (ctFilterBytes x) = Ok f))"

lemma find_unique:
  assumes "x \<in> set xs" and "P x" and unique: "\<And>y. y \<in> set xs \<Longrightarrow> P y \<Longrightarrow> y = x"
  shows "find P xs = Some x"
proof (cases "find P xs")
  case None
  then show ?thesis using assms(1,2) by (simp add: find_None_iff)
next
  case (Some y)
  then have "y \<in> set xs" "P y" by (auto simp: find_Some_iff)
  then have "y = x" by (rule unique)
  with Some show ?thesis by simp
qed

context memdb_store begin

lemma lookup_counters:
  assumes "valid t" and "reader_on r t" and "counters_ok L h (view t)"
  shows "\<exists>cs. lookupCounters L T h r = Ok cs \<and>
    (\<forall>n p x f. view t TableCounters (StrKey [n]) = Some (CounterRow n p) \<longrightarrow> map_of h p = Some x \<longrightarrow>
      unmarshal_filter L (ctFilterBytes x) = Ok f \<longrightarrow>
      find (\<lambda>c. rcName c = n) cs = Some \<lparr>rcName = n, rcFilter = f, rcCount = ctCount x,
        rcComputedAtRevision = ctUpdated x\<rparr>)"
proof -
  let ?rows = "sorted_rows (view t TableCounters)"
  have ok: "contents_ok (view t)" using view_ok [OF assms(1)] by blast
  have row: "\<exists>n p x f. raw = CounterRow n p \<and> view t TableCounters (StrKey [n]) = Some raw \<and>
      map_of h p = Some x \<and> ctName x = n \<and> unmarshal_filter L (ctFilterBytes x) = Ok f"
    if "raw \<in> set ?rows" for raw
  proof -
    have v: "view t TableCounters (row_key raw) = Some raw" using that in_sorted_rows [OF ok] by blast
    with assms(3) obtain n p x f where "raw = CounterRow n p" "map_of h p = Some x" "ctName x = n"
      "unmarshal_filter L (ctFilterBytes x) = Ok f" unfolding counters_ok_def by blast
    with v show ?thesis by auto
  qed
  then have "\<exists>c. load_counter L h raw = Ok c" if "raw \<in> set ?rows" for raw
    using that by (fastforce simp: load_counter_def)
  then obtain g where g: "\<And>raw. raw \<in> set ?rows \<Longrightarrow> load_counter L h raw = Ok (g raw)" by metis
  have "lookupCounters L T h r = Ok (map g ?rows)"
    by (simp add: lookupCounters_def reader_on_simps [OF assms(2)] lower_bound [OF assms(1)] key_from_def
        map_res_total [of _ _ g] g)
  moreover have "find (\<lambda>c. rcName c = n) (map g ?rows) = Some \<lparr>rcName = n, rcFilter = f, rcCount = ctCount x,
        rcComputedAtRevision = ctUpdated x\<rparr>"
    if n: "view t TableCounters (StrKey [n]) = Some (CounterRow n p)" "map_of h p = Some x"
      "unmarshal_filter L (ctFilterBytes x) = Ok f" for n p x f
  proof (rule find_unique)
    let ?c = "\<lparr>rcName = n, rcFilter = f, rcCount = ctCount x, rcComputedAtRevision = ctUpdated x\<rparr>"
    have m: "CounterRow n p \<in> set ?rows" using n(1) by (simp add: in_sorted_rows [OF ok])
    have "ctName x = n" using assms(3) n(1,2) by (fastforce simp: counters_ok_def)
    then have gc: "g (CounterRow n p) = ?c" using g [OF m] n(2,3) by (simp add: load_counter_def)
    with m show "?c \<in> set (map g ?rows)" by force
    show "y = ?c" if y: "y \<in> set (map g ?rows)" "rcName y = n" for y
    proof -
      from y(1) obtain raw where raw: "raw \<in> set ?rows" "y = g raw" by auto
      from row [OF raw(1)] obtain n' p' x' f' where r: "raw = CounterRow n' p'"
        "view t TableCounters (StrKey [n']) = Some raw" "map_of h p' = Some x'" "ctName x' = n'"
        "unmarshal_filter L (ctFilterBytes x') = Ok f'" by blast
      then have "load_counter L h raw = Ok \<lparr>rcName = n', rcFilter = f', rcCount = ctCount x',
          rcComputedAtRevision = ctUpdated x'\<rparr>" by (simp add: load_counter_def)
      then have "rcName (g raw) = n'" using g [OF raw(1)] by (metis relationship_counter.select_convs(1) sum.inject(2))
      with y(2) raw(2) r(2) n(1) gc show ?thesis by simp
    qed
  qed simp
  ultimately show ?thesis by blast
qed

end

lemma count_items_Ok: "count_items n (map Ok xs) = Ok (n + length xs)"
  by (induction xs arbitrary: n) auto

text \<open>The sample transaction with a counter of the documents, for the instances.\<close>

definition counter_txn :: ref_txn where
  "counter_txn = fst (txInsert ref_ops sample_txn TableCounters (CounterRow ''docs'' 0))"

definition counter_objects :: counter_heap where
  "counter_objects = [(0, \<lparr>ctName = ''docs'', ctFilterBytes = ''document'', ctCount = 7, ctUpdated = TimestampRev 3\<rparr>)]"

lemma counter_txn_ok: "ref_valid counter_txn"
  "ref_view (rtView counter_txn) = put_row TableCounters (CounterRow ''docs'' 0) (ref_view (rtView sample_txn))"
  "stored ref_lib (ref_view (rtView counter_txn))"
proof -
  have "key_ok (row_key (CounterRow ''docs'' 0))" by (simp add: field_ok_def)
  with ref_db.insert [OF sample_txn_ok(1), of "CounterRow ''docs'' 0" TableCounters]
  show v: "ref_valid counter_txn" and
    view: "ref_view (rtView counter_txn) = put_row TableCounters (CounterRow ''docs'' 0) (ref_view (rtView sample_txn))"
    by (auto simp: counter_txn_def)
  show "stored ref_lib (ref_view (rtView counter_txn))"
    by (rule stored_cong [OF sample_txn_ok(2)]) (use ref_db.view_ok [OF v] in \<open>simp_all add: view put_row_def\<close>)
qed

lemma sample_txn_counters: "ref_view (rtView sample_txn) TableCounters k = None"
proof -
  have "map_of (rtView sample_txn) (TableCounters, k) = None"
  proof (rule ccontr)
    assume "map_of (rtView sample_txn) (TableCounters, k) \<noteq> None"
    then have "(TableCounters, k) \<in> fst ` set (rtView sample_txn)" by (simp add: map_of_eq_None_iff)
    moreover have "list_all (\<lambda>(tb, k). tb \<noteq> TableCounters) (map fst (rtView sample_txn))" by code_simp
    ultimately show False by (auto simp: list_all_iff)
  qed
  then show ?thesis by (simp add: ref_view_def)
qed

lemma counter_objects_ok: "counters_ok ref_lib counter_objects (ref_view (rtView counter_txn))"
  "ref_view (rtView counter_txn) TableCounters (StrKey [''docs'']) = Some (CounterRow ''docs'' 0)"
  by (auto simp: counters_ok_def counter_txn_ok(2) put_row_def sample_txn_counters counter_objects_def
      ref_lib_def split: if_splits)

definition counter_reader :: "ref_txn reader" where
  "counter_reader = \<lparr>rdLocker = NoopLocker, rdTxSource = Ok counter_txn, rdInitErr = None, rdNow = 0\<rparr>"

lemma counter_reader_on: "reader_on counter_reader counter_txn"
  by (simp add: reader_on_def counter_reader_def)

text \<open>
  \<open>CountRelationships\<close> of a registered counter is the number of relationships of the store that
  match the counter's filter and have not expired.
\<close>

theorem count_is_cardinality:
  assumes "memdb_store T view base valid L" and "valid t" and "stored L (view t)" and "reader_on r t"
    and "counters_ok L h (view t)" and "view t TableCounters (StrKey [name]) = Some (CounterRow name p)"
    and "map_of h p = Some x" and "unmarshal_filter L (ctFilterBytes x) = Ok f"
    and "filter_from_core L f = Ok fltr"
  shows "countRelationships L T h r name =
    Ok (card {rel \<in> ran (abs_store L (view t)). matches L fltr rel \<and> \<not> expired (rdNow r) rel})"
proof -
  obtain cs where cs: "lookupCounters L T h r = Ok cs"
    "find (\<lambda>c. rcName c = name) cs = Some \<lparr>rcName = name, rcFilter = f, rcCount = ctCount x,
        rcComputedAtRevision = ctUpdated x\<rparr>"
    using memdb_store.lookup_counters [OF assms(1,2,4,5)] assms(6-8) by blast
  obtain ys where ys: "queryRelationships L T r fltr default_query = Ok (map Ok ys)"
    "selection (matches L fltr) (rdNow r) default_query (abs_store L (view t)) ys"
    using query_result [OF assms(1-4), of default_query fltr] by (auto simp: default_query_def limited_def)
  have "set ys = {rel \<in> ran (abs_store L (view t)). matches L fltr rel \<and> \<not> expired (rdNow r) rel}"
    using ys(2) by (auto simp: selection_def default_query_def behind_cursor_def skipped_def)
  moreover have "distinct ys"
    using ys(2) key_order.sorted_distinct [of "map res_key ys"]
    by (auto simp: selection_def default_query_def order_key_def sorted_wrt_map distinct_map)
  ultimately have "length ys = card {rel \<in> ran (abs_store L (view t)). matches L fltr rel \<and> \<not> expired (rdNow r) rel}"
    using distinct_card by metis
  then show ?thesis
    by (simp add: countRelationships_def cs assms(9) ys(1) count_items_Ok)
qed

theorem count_is_cardinality_witness:
  "countRelationships ref_lib ref_ops counter_objects counter_reader ''docs'' =
    Ok (card {rel \<in> ran (abs_store ref_lib (ref_view (rtView counter_txn))).
      matches ref_lib (any_filter\<lparr>optionalResourceType := ''document''\<rparr>) rel \<and> \<not> expired 0 rel})"
proof -
  have "map_of counter_objects 0 = Some \<lparr>ctName = ''docs'', ctFilterBytes = ''document'', ctCount = 7, ctUpdated = TimestampRev 3\<rparr>"
    by (simp add: counter_objects_def)
  moreover have "unmarshal_filter ref_lib ''document'' = Ok ''document''" by (simp add: ref_lib_def)
  moreover have "filter_from_core ref_lib ''document'' = Ok (any_filter\<lparr>optionalResourceType := ''document''\<rparr>)"
    by (simp add: ref_lib_def)
  ultimately show ?thesis
    using count_is_cardinality [OF ref_store.memdb_store_axioms counter_txn_ok(1,3) counter_reader_on
        counter_objects_ok] by (simp add: counter_reader_def)
qed

text \<open>
  \<open>StoreCounterValue\<close> writes through to every transaction and snapshot that holds the counter,
  before and without a commit: a reader on another, unchanged transaction sees the new value.
\<close>

theorem stored_counter_is_shared:
  assumes "memdb_store T view base valid L" and "valid t" and "rwt_on w t"
    and "view t TableCounters (StrKey [name]) = Some (CounterRow name p)" and "field_ok name"
    and "valid t0" and "reader_on r0 t0" and "counters_ok L (rwHeap w) (view t0)"
    and "view t0 TableCounters (StrKey [name]) = Some (CounterRow name p)"
  shows "\<exists>w' cs c. storeCounterValue T w name val rv = (w', Ok ()) \<and>
    lookupCounters L T (rwHeap w') r0 = Ok cs \<and> find (\<lambda>c. rcName c = name) cs = Some c \<and>
    rcCount c = val \<and> rcComputedAtRevision c = rv"
proof -
  note txn = memdb_store.axioms(1) [OF assms(1)]
  obtain x f where x: "map_of (rwHeap w) p = Some x" "ctName x = name" "unmarshal_filter L (ctFilterBytes x) = Ok f"
    using assms(8,9) by (fastforce simp: counters_ok_def)
  let ?h = "gm_put p (x\<lparr>ctCount := val, ctUpdated := rv\<rparr>) (rwHeap w)"
  obtain t' where "txInsert T t TableCounters (CounterRow name p) = (t', Ok ())"
    using memdb_txn.insert [OF txn assms(2), of "CounterRow name p" TableCounters] assms(5) by auto
  then have "storeCounterValue T w name val rv = (w\<lparr>rwTxSource := Ok t', rwHeap := ?h\<rparr>, Ok ())"
    using assms(3,4) x(1) by (simp add: storeCounterValue_def rwt_on_def memdb_txn.first [OF txn assms(2)])
  moreover have "counters_ok L ?h (view t0)"
    unfolding counters_ok_def
  proof (intro allI impI)
    fix k raw
    assume "view t0 TableCounters k = Some raw"
    with assms(8) obtain n q y g where y: "raw = CounterRow n q" "map_of (rwHeap w) q = Some y" "ctName y = n"
      "unmarshal_filter L (ctFilterBytes y) = Ok g" unfolding counters_ok_def by blast
    then show "\<exists>n q y g. raw = CounterRow n q \<and> map_of ?h q = Some y \<and> ctName y = n \<and>
        unmarshal_filter L (ctFilterBytes y) = Ok g"
      using x by (cases "q = p") auto
  qed
  moreover have "map_of ?h p = Some (x\<lparr>ctCount := val, ctUpdated := rv\<rparr>)" by simp
  moreover have "unmarshal_filter L (ctFilterBytes (x\<lparr>ctCount := val, ctUpdated := rv\<rparr>)) = Ok f"
    using x(3) by simp
  ultimately show ?thesis
    using memdb_store.lookup_counters [OF assms(1,6,7), of ?h] assms(9) by fastforce
qed

theorem stored_counter_is_shared_witness:
  "\<exists>w' cs c. storeCounterValue ref_ops (empty_rwt\<lparr>rwTxSource := Ok counter_txn, rwHeap := counter_objects\<rparr>)
      ''docs'' 9 (TimestampRev 8) = (w', Ok ()) \<and>
    lookupCounters ref_lib ref_ops (rwHeap w') counter_reader = Ok cs \<and>
    find (\<lambda>c. rcName c = ''docs'') cs = Some c \<and> rcCount c = 9"
proof -
  let ?w = "empty_rwt\<lparr>rwTxSource := Ok counter_txn, rwHeap := counter_objects\<rparr>"
  have on: "rwt_on ?w counter_txn" by (simp add: rwt_on_def empty_rwt_def)
  have f: "field_ok ''docs''" by (simp add: field_ok_def)
  have h: "counters_ok ref_lib (rwHeap ?w) (ref_view (rtView counter_txn))" using counter_objects_ok by simp
  from stored_counter_is_shared [OF ref_store.memdb_store_axioms counter_txn_ok(1) on counter_objects_ok(2) f
      counter_txn_ok(1) counter_reader_on h counter_objects_ok(2), of 9 "TimestampRev 8"]
  show ?thesis by blast
qed

section \<open>Readers built with an error\<close>

text \<open>What \<open>SnapshotReader\<close> returns when it cannot serve: \<open>memdbReader{nil, nil, err, now}\<close>.\<close>

definition error_reader :: "go_error \<Rightarrow> nanotime \<Rightarrow> 't reader" where
  "error_reader e now = \<lparr>rdLocker = NilLocker, rdTxSource = Err (Panic ''nil txSource''),
     rdInitErr = Some e, rdNow = now\<rparr>"

text \<open>
  On a reader built with an error every read returns that error, except for the reads of
  caveats: they do not look at it and panic.
\<close>

theorem error_reader_reads:
  shows "queryRelationships L T (error_reader e now) fltr opts = Err e \<and>
    reverseQueryRelationships L T (error_reader e now) sfltr ropts = Err e \<and>
    lookupCounters L T h (error_reader e now) = Err e \<and>
    countRelationships L T h (error_reader e now) name = Err e \<and>
    readNamespaceByName L T (error_reader e now) name = Err e \<and>
    listAllNamespaces L T (error_reader e now) = Err e \<and>
    lookupNamespacesWithNames L T (error_reader e now) names = Err e \<and>
    readCaveatByName L T (error_reader e now) name = Err (Panic ''nil pointer dereference'') \<and>
    listAllCaveats L T (error_reader e now) = Err (Panic ''nil pointer dereference'') \<and>
    lookupCaveatsWithNames L T (error_reader e now) names = Err (Panic ''nil pointer dereference'')"
  by (simp add: error_reader_def with_init_def with_tx_def queryRelationships_def
      reverseQueryRelationships_def lookupCounters_def countRelationships_def readNamespaceByName_def
      listAllNamespaces_def lookupNamespacesWithNames_def readCaveatByName_def listAllCaveats_def
      lookupCaveatsWithNames_def)

section \<open>Bulk load\<close>

text \<open>
  C11. \<open>BulkLoad\<close> refines a sequence of CREATE updates that stops at the first error: the number it
  reports is the number of relationships of the source, and zero when one of them exists, although
  the ones before it stay in the transaction.
\<close>

theorem bulk_load_refines:
  assumes "memdb_store T view base valid L" and "valid t" and "stored L (view t)" and "rwt_on w t"
    and "\<forall>rel \<in> set rels. rel_ok rel"
  shows "\<exists>t' res. bulkLoad L T w 0 (map Ok rels) =
      (w\<lparr>rwTxSource := Ok t'\<rparr>, (if res = Ok () then length rels else 0), res) \<and> valid t' \<and> stored L (view t') \<and>
    spec_updates L (abs_store L (view t)) (map create_update rels) = (abs_store L (view t'), res)"
proof -
  have "\<exists>t' res. bulkLoad L T w n (map Ok rels) =
      (w\<lparr>rwTxSource := Ok t'\<rparr>, (if res = Ok () then n + length rels else 0), res) \<and>
      memdb_store.holds view valid L t' \<and>
    spec_updates L (abs_store L (view t)) (map create_update rels) = (abs_store L (view t'), res)"
    if "memdb_store.holds view valid L t" for n
    using that assms(4,5)
  proof (induction rels arbitrary: t w n)
    case Nil
    have "w = w\<lparr>rwTxSource := Ok t\<rparr>" using Nil.prems(2) by (simp add: rwt_on_def)
    with Nil show ?case by (intro exI [of _ t] exI [of _ "Ok ()"]) simp
  next
    case (Cons rel rels)
    from memdb_store.write_rels_refines [OF assms(1) Cons.prems(1), of "[create_update rel]"] Cons.prems(3)
    obtain t1 res1 where 1: "write_rels L T t [create_update rel] = (t1, res1)"
      "memdb_store.rel_step view base valid L t t1"
      "spec_updates L (abs_store L (view t)) [create_update rel] = (abs_store L (view t1), res1)"
      by (auto simp: create_update_def simp del: write_rels.simps spec_updates.simps)
    have w1: "writeRelationships L T w [create_update rel] = (w\<lparr>rwTxSource := Ok t1\<rparr>, res1)"
      using 1(1) Cons.prems(2) by (simp add: writeRelationships_def with_wtx_def rwt_on_def del: write_rels.simps)
    have h1: "memdb_store.holds view valid L t1"
      using 1(2) memdb_store.rel_step_def [OF assms(1)] by blast
    have sp: "spec_updates L m (u # us) = (case spec_updates L m [u] of
        (m', Err e) \<Rightarrow> (m', Err e) | (m', Ok _) \<Rightarrow> spec_updates L m' us)" for m u us
      by (auto split: prod.split sum.split)
    show ?case
    proof (cases res1)
      case (Inl e)
      then show ?thesis
        using 1(3) w1 h1 sp [of "abs_store L (view t)" "create_update rel" "map create_update rels"]
        by (intro exI [of _ t1] exI [of _ "Err e"]) (simp del: spec_updates.simps)
    next
      case (Inr u)
      have "rwt_on (w\<lparr>rwTxSource := Ok t1\<rparr>) t1" using Cons.prems(2) by (simp add: rwt_on_def)
      with Cons.IH [OF h1 this, of "n + 1"] Cons.prems(3) obtain t2 res2 where
        "bulkLoad L T (w\<lparr>rwTxSource := Ok t1\<rparr>) (n + 1) (map Ok rels) =
          (w\<lparr>rwTxSource := Ok t2\<rparr>, (if res2 = Ok () then n + 1 + length rels else 0), res2)"
        "memdb_store.holds view valid L t2"
        "spec_updates L (abs_store L (view t1)) (map create_update rels) = (abs_store L (view t2), res2)" by auto
      then show ?thesis
        using 1(3) Inr w1 sp [of "abs_store L (view t)" "create_update rel" "map create_update rels"]
        by (intro exI [of _ t2] exI [of _ res2]) (simp del: spec_updates.simps)
    qed
  qed
  from this [of 0] assms(1-3) obtain t' res where "bulkLoad L T w 0 (map Ok rels) =
      (w\<lparr>rwTxSource := Ok t'\<rparr>, (if res = Ok () then length rels else 0), res)"
      "memdb_store.holds view valid L t'"
    "spec_updates L (abs_store L (view t)) (map create_update rels) = (abs_store L (view t'), res)" by (auto simp: memdb_store.holds_def)
  then show ?thesis using memdb_store.holds_def [OF assms(1)] by blast
qed

theorem bulk_load_refines_witness:
  "\<exists>t'. bulkLoad ref_lib ref_ops empty_rwt 0 [Ok (sample_rel ''d1'' ''u1''), Ok (sample_rel ''d2'' ''u1'')] =
     (empty_rwt\<lparr>rwTxSource := Ok t'\<rparr>, 2, Ok ())"
proof -
  let ?rels = "[sample_rel ''d1'' ''u1'', sample_rel ''d2'' ''u1'']"
  have on: "rwt_on empty_rwt (ref_begin [])" by (simp add: rwt_on_def empty_rwt_def)
  have "\<forall>rel \<in> set ?rels. rel_ok rel" by (simp add: sample_rel_ok)
  from bulk_load_refines [OF ref_store.memdb_store_axioms ref_empty_ok(1) ref_empty_ok(2) on this]
  obtain t' res where b: "bulkLoad ref_lib ref_ops empty_rwt 0 (map Ok ?rels) =
      (empty_rwt\<lparr>rwTxSource := Ok t'\<rparr>, (if res = Ok () then length ?rels else 0), res)" by blast
  have "snd (bulkLoad ref_lib ref_ops empty_rwt 0 (map Ok ?rels)) = (2, Ok ())" by code_simp
  with b show ?thesis by (intro exI [of _ t']) (simp del: bulkLoad.simps)
qed

end
