(* ===== verification/Changes.thy ===== *)
theory Changes
  imports Revisions
begin

text \<open>
  \<open>common/changes.go\<close> and \<open>common/transaction_metadata.go\<close>: the change tracker. It is generic in
  the kind of revision \<open>'r\<close> and the type \<open>'k\<close> of its keys, as the code is; the methods of \<open>'r\<close> the
  code calls are the record \<open>rev_methods\<close>. An operation returns the tracker and its error, because
  an early return on an error keeps the changes made before it. The mutex makes every operation
  atomic, so an execution is the sequence of its operations.
\<close>

section \<open>State\<close>

record 'r change_record =
  crRev :: 'r
  relTouches :: "(string \<times> tuple_relationship) list"
  relDeletes :: "(string \<times> tuple_relationship) list"
  definitionsChanged :: "(string \<times> schema_definition) list"
  namespacesDeleted :: "(string \<times> unit) list"
  caveatsDeleted :: "(string \<times> unit) list"
  metadatas :: "any_map list"

record ('r, 'k) changes =
  chRecords :: "('k \<times> 'r change_record) list"
  chKeyFunc :: "'r \<Rightarrow> 'k"
  chContent :: watch_content
  maxByteSize :: nat
  currentByteSize :: int

record 'r rev_methods =
  rvInterface :: "'r \<Rightarrow> revision"      \<comment> \<open>the conversion to the interface \<open>datastore.Revision\<close>\<close>
  rvGreaterThan :: "'r \<Rightarrow> 'r \<Rightarrow> bool"
  rvZero :: 'r                        \<comment> \<open>the zero value \<open>*new(R)\<close>\<close>

definition nsPrefix :: string where "nsPrefix = ''n$''"
definition caveatPrefix :: string where "caveatPrefix = ''c$''"

definition newChanges :: "('r \<Rightarrow> 'k) \<Rightarrow> watch_content \<Rightarrow> nat \<Rightarrow> ('r, 'k) changes" where
  "newChanges keyFn c maxSize = \<lparr>chRecords = [], chKeyFunc = keyFn, chContent = c,
     maxByteSize = maxSize, currentByteSize = 0\<rparr>"

definition isEmpty :: "('r, 'k) changes \<Rightarrow> bool" where
  "isEmpty ch \<longleftrightarrow> chRecords ch = []"

section \<open>Transaction metadata\<close>

text \<open>\<open>reflect.DeepEqual\<close> of two maps: the same keys with the same values.\<close>

definition tm_Equals :: "any_map \<Rightarrow> any_map \<Rightarrow> bool" where
  "tm_Equals tm other \<longleftrightarrow> length tm = length other \<and>
     list_all (\<lambda>(k, v). map_of other k = Some v) tm"

definition tm_Len :: "any_map \<Rightarrow> nat" where
  "tm_Len tm = length tm"

definition tm_MustStruct :: "spice_lib \<Rightarrow> any_map \<Rightarrow> opaque result" where
  "tm_MustStruct L tm = (case new_struct L tm of
     Err e \<Rightarrow> Err (Panic ''failed to convert metadata to structpb'') | Ok s \<Rightarrow> Ok s)"

section \<open>Recording changes\<close>

definition fresh_record :: "'r \<Rightarrow> 'r change_record" where
  "fresh_record rv = \<lparr>crRev = rv, relTouches = [], relDeletes = [], definitionsChanged = [],
     namespacesDeleted = [], caveatsDeleted = [], metadatas = []\<rparr>"

definition recordForRevision ::
    "('r, 'k) changes \<Rightarrow> 'r \<Rightarrow> ('r, 'k) changes \<times> 'r change_record" where
  "recordForRevision ch rv = (case map_of (chRecords ch) (chKeyFunc ch rv) of
     Some record \<Rightarrow> (ch, record)
   | None \<Rightarrow> (ch\<lparr>chRecords := gm_put (chKeyFunc ch rv) (fresh_record rv) (chRecords ch)\<rparr>,
       fresh_record rv))"

text \<open>
  The maps of a \<open>changeRecord\<close> are references shared with the stored record: an update of one of
  them is an update of the tracker.
\<close>

definition storeRecord ::
    "('r, 'k) changes \<Rightarrow> 'r \<Rightarrow> 'r change_record \<Rightarrow> ('r, 'k) changes" where
  "storeRecord ch rv record =
     ch\<lparr>chRecords := gm_put (chKeyFunc ch rv) record (chRecords ch)\<rparr>"

text \<open>
  The size is an \<open>int64\<close> sum. A sum that is not negative converts to \<open>uint64\<close>, so the error of that
  conversion has no branch.
\<close>

definition adjustByteSize ::
    "('r, 'k) changes \<Rightarrow> int \<Rightarrow> int \<Rightarrow> ('r, 'k) changes \<times> unit result" where
  "adjustByteSize ch itemSize delta =
     (if maxByteSize ch = 0 then (ch, Ok ())
      else let ch' = ch\<lparr>currentByteSize := i64 (currentByteSize ch + i64 (itemSize * delta))\<rparr>
           in if currentByteSize ch' < 0 then (ch', Err (MustBug ''byte size underflow''))
              else if nat (currentByteSize ch') > maxByteSize ch
              then (ch', Err (MaximumChangesSizeExceeded (maxByteSize ch)))
              else (ch', Ok ()))"

definition addRelationshipChange ::
    "spice_lib \<Rightarrow> ('r, 'k) changes \<Rightarrow> 'r \<Rightarrow> tuple_relationship \<Rightarrow> update_operation \<Rightarrow>
     ('r, 'k) changes \<times> unit result" where
  "addRelationshipChange L ch rv rel op =
     (if \<not> watchRelationships (chContent ch) then (ch, Ok ())
      else let (ch1, record) = recordForRevision ch rv; key = string_without L rel in
        case op of
          UpdateOperationTouch \<Rightarrow>
            (let record1 = record\<lparr>relDeletes := gm_del key (relDeletes record)\<rparr>;
                 (ch2, err) = (case map_of (relDeletes record) key of
                     Some existing \<Rightarrow> adjustByteSize (storeRecord ch1 rv record1) (rel_size L existing) (- 1)
                   | None \<Rightarrow> (ch1, Ok ()))
             in case err of
                  Err e \<Rightarrow> (ch2, Err e)
                | Ok _ \<Rightarrow> adjustByteSize
                    (storeRecord ch2 rv (record1\<lparr>relTouches := gm_put key rel (relTouches record)\<rparr>))
                    (rel_size L rel) 1)
        | UpdateOperationDelete \<Rightarrow>
            (case map_of (relTouches record) key of
               Some _ \<Rightarrow> (ch1, Ok ())
             | None \<Rightarrow> adjustByteSize
                 (storeRecord ch1 rv (record\<lparr>relDeletes := gm_put key rel (relDeletes record)\<rparr>))
                 (rel_size L rel) 1)
        | _ \<Rightarrow> (ch1, Err (MustBug ''unknown change operation'')))"

definition addRevisionMetadata ::
    "('r, 'k) changes \<Rightarrow> 'r \<Rightarrow> any_map \<Rightarrow> ('r, 'k) changes \<times> unit result" where
  "addRevisionMetadata ch rv metadata =
     (if tm_Len metadata = 0 then (ch, Ok ())
      else let (ch1, record) = recordForRevision ch rv
           in if list_ex (\<lambda>existing. tm_Equals existing metadata) (metadatas record) then (ch1, Ok ())
              else (storeRecord ch1 rv (record\<lparr>metadatas := metadatas record @ [metadata]\<rparr>), Ok ()))"

definition addDeletedNamespace ::
    "('r, 'k) changes \<Rightarrow> 'r \<Rightarrow> string \<Rightarrow> ('r, 'k) changes \<times> unit result" where
  "addDeletedNamespace ch rv namespaceName =
     (if \<not> watchSchema (chContent ch) then (ch, Ok ())
      else let (ch1, record) = recordForRevision ch rv
           in case map_of (definitionsChanged record) (nsPrefix @ namespaceName) of
                Some _ \<Rightarrow> (ch1, Ok ())
              | None \<Rightarrow> (storeRecord ch1 rv (record\<lparr>
                  definitionsChanged := gm_del (nsPrefix @ namespaceName) (definitionsChanged record),
                  namespacesDeleted := gm_put namespaceName () (namespacesDeleted record)\<rparr>), Ok ()))"

definition addDeletedCaveat ::
    "('r, 'k) changes \<Rightarrow> 'r \<Rightarrow> string \<Rightarrow> ('r, 'k) changes \<times> unit result" where
  "addDeletedCaveat ch rv cavName =
     (if \<not> watchSchema (chContent ch) then (ch, Ok ())
      else let (ch1, record) = recordForRevision ch rv
           in case map_of (definitionsChanged record) (caveatPrefix @ cavName) of
                Some _ \<Rightarrow> (ch1, Ok ())
              | None \<Rightarrow> (storeRecord ch1 rv (record\<lparr>
                  definitionsChanged := gm_del (caveatPrefix @ cavName) (definitionsChanged record),
                  caveatsDeleted := gm_put cavName () (caveatsDeleted record)\<rparr>), Ok ()))"

text \<open>Both branches of the code look the previous definition up under the namespace prefix.\<close>

definition addChangedDefinition ::
    "spice_lib \<Rightarrow> ('r, 'k) changes \<Rightarrow> 'r \<Rightarrow> schema_definition \<Rightarrow> ('r, 'k) changes \<times> unit result" where
  "addChangedDefinition L ch rv sdef =
     (if \<not> watchSchema (chContent ch) then (ch, Ok ())
      else let (ch1, record) = recordForRevision ch rv in
        case sdef of
          NamespaceDefinition t \<Rightarrow>
            (let record1 = record\<lparr>namespacesDeleted := gm_del (nsDefName t) (namespacesDeleted record)\<rparr>;
                 chd = storeRecord ch1 rv record1;
                 (ch2, err) = (case map_of (definitionsChanged record) (nsPrefix @ nsDefName t) of
                     Some existing \<Rightarrow> adjustByteSize chd (def_size L existing) (- 1)
                   | None \<Rightarrow> (chd, Ok ()))
             in case err of
                  Err e \<Rightarrow> (ch2, Err e)
                | Ok _ \<Rightarrow> adjustByteSize (storeRecord ch2 rv (record1\<lparr>definitionsChanged :=
                      gm_put (nsPrefix @ nsDefName t) sdef (definitionsChanged record)\<rparr>))
                    (def_size L sdef) 1)
        | CaveatDefinition t \<Rightarrow>
            (let record1 = record\<lparr>caveatsDeleted := gm_del (cavDefName t) (caveatsDeleted record)\<rparr>;
                 chd = storeRecord ch1 rv record1;
                 (ch2, err) = (case map_of (definitionsChanged record) (nsPrefix @ cavDefName t) of
                     Some existing \<Rightarrow> adjustByteSize chd (def_size L existing) (- 1)
                   | None \<Rightarrow> (chd, Ok ()))
             in case err of
                  Err e \<Rightarrow> (ch2, Err e)
                | Ok _ \<Rightarrow> adjustByteSize (storeRecord ch2 rv (record1\<lparr>definitionsChanged :=
                      gm_put (caveatPrefix @ cavDefName t) sdef (definitionsChanged record)\<rparr>))
                    (def_size L sdef) 1)
        | UnknownDefinition _ \<Rightarrow> (ch1, Err (MustBug ''unknown schema definition kind'')))"

section \<open>Emitting changes\<close>

definition change_of_record ::
    "spice_lib \<Rightarrow> 'r rev_methods \<Rightarrow> 'r change_record \<Rightarrow> revision_changes result" where
  "change_of_record L M record =
     (case map_res (tm_MustStruct L) (metadatas record) of
        Err e \<Rightarrow> Err e
      | Ok structs \<Rightarrow> Ok \<lparr>
          chRevision = rvInterface M (crRev record),
          relationshipChanges =
            map (\<lambda>rel. (UpdateOperationTouch, rel)) (gm_vals (relTouches record)) @
            map (\<lambda>rel. (UpdateOperationDelete, rel)) (gm_vals (relDeletes record)),
          changedDefinitions = gm_vals (definitionsChanged record),
          deletedNamespaces = gm_keys (namespacesDeleted record),
          deletedCaveats = gm_keys (caveatsDeleted record),
          isCheckpoint = False,
          chMetadatas = structs\<rparr>)"

definition revisionChanges ::
    "spice_lib \<Rightarrow> 'r rev_methods \<Rightarrow> ('k \<Rightarrow> 'k \<Rightarrow> bool) \<Rightarrow> ('r, 'k) changes \<Rightarrow> 'r \<Rightarrow> bool \<Rightarrow>
     revision_changes list result" where
  "revisionChanges L M lessThanFunc ch boundRev withBound =
     (if isEmpty ch then Ok []
      else let revisionsWithChanges = map fst (filter (\<lambda>(rk, cr).
                 \<not> withBound \<or> rvGreaterThan M boundRev (crRev cr)) (chRecords ch))
           in if revisionsWithChanges = [] then Ok []
              else map_res (\<lambda>k. change_of_record L M (case map_of (chRecords ch) k of
                     Some record \<Rightarrow> record | None \<Rightarrow> fresh_record (rvZero M)))
                   (sort_slice lessThanFunc revisionsWithChanges))"

definition asRevisionChanges ::
    "spice_lib \<Rightarrow> 'r rev_methods \<Rightarrow> ('k \<Rightarrow> 'k \<Rightarrow> bool) \<Rightarrow> ('r, 'k) changes \<Rightarrow>
     revision_changes list result" where
  "asRevisionChanges L M lessThanFunc ch = revisionChanges L M lessThanFunc ch (rvZero M) False"

definition removeAllChangesBefore ::
    "'r rev_methods \<Rightarrow> ('r, 'k) changes \<Rightarrow> 'r \<Rightarrow> ('r, 'k) changes" where
  "removeAllChangesBefore M ch boundRev =
     ch\<lparr>chRecords := filter (\<lambda>(rk, cr). \<not> rvGreaterThan M boundRev (crRev cr)) (chRecords ch)\<rparr>"

definition filterAndRemoveRevisionChanges ::
    "spice_lib \<Rightarrow> 'r rev_methods \<Rightarrow> ('k \<Rightarrow> 'k \<Rightarrow> bool) \<Rightarrow> ('r, 'k) changes \<Rightarrow> 'r \<Rightarrow>
     ('r, 'k) changes \<times> revision_changes list result" where
  "filterAndRemoveRevisionChanges L M lessThanFunc ch boundRev =
     (case revisionChanges L M lessThanFunc ch boundRev True of
        Err e \<Rightarrow> (ch, Err e)
      | Ok cs \<Rightarrow> (removeAllChangesBefore M ch boundRev, Ok cs))"

section \<open>Executions\<close>

datatype 'r change_op =
    RelChange 'r tuple_relationship update_operation
  | MetadataChange 'r any_map
  | NamespaceDeleted 'r string
  | CaveatDeleted 'r string
  | DefinitionChanged 'r schema_definition

fun op_rev :: "'r change_op \<Rightarrow> 'r" where
  "op_rev (RelChange r _ _) = r"
| "op_rev (MetadataChange r _) = r"
| "op_rev (NamespaceDeleted r _) = r"
| "op_rev (CaveatDeleted r _) = r"
| "op_rev (DefinitionChanged r _) = r"

fun change_step ::
    "spice_lib \<Rightarrow> ('r, 'k) changes \<Rightarrow> 'r change_op \<Rightarrow> ('r, 'k) changes \<times> unit result" where
  "change_step L ch (RelChange r rel op) = addRelationshipChange L ch r rel op"
| "change_step L ch (MetadataChange r m) = addRevisionMetadata ch r m"
| "change_step L ch (NamespaceDeleted r n) = addDeletedNamespace ch r n"
| "change_step L ch (CaveatDeleted r n) = addDeletedCaveat ch r n"
| "change_step L ch (DefinitionChanged r d) = addChangedDefinition L ch r d"

text \<open>A caller stops at the first error.\<close>

fun run_changes ::
    "spice_lib \<Rightarrow> ('r, 'k) changes \<Rightarrow> 'r change_op list \<Rightarrow> ('r, 'k) changes \<times> unit result" where
  "run_changes L ch [] = (ch, Ok ())"
| "run_changes L ch (op # ops) =
     (case change_step L ch op of
        (ch', Err e) \<Rightarrow> (ch', Err e)
      | (ch', Ok _) \<Rightarrow> run_changes L ch' ops)"

lemma run_changes_append:
  "run_changes L ch (xs @ ys) =
     (case run_changes L ch xs of (ch', Err e) \<Rightarrow> (ch', Err e) | (ch', Ok _) \<Rightarrow> run_changes L ch' ys)"
  by (induction xs arbitrary: ch) (auto split: prod.splits sum.splits)

lemma run_changes_snoc_Ok:
  "run_changes L ch (ops @ [op]) = (ch'', Ok u) \<longleftrightarrow>
    (\<exists>ch'. run_changes L ch ops = (ch', Ok ()) \<and> change_step L ch' op = (ch'', Ok ()))"
  by (auto simp: run_changes_append split: prod.splits sum.splits)

section \<open>Bookkeeping lemmas\<close>

lemma adjust_fields [simp]:
  "chRecords (fst (adjustByteSize ch n d)) = chRecords ch"
  "chKeyFunc (fst (adjustByteSize ch n d)) = chKeyFunc ch"
  "chContent (fst (adjustByteSize ch n d)) = chContent ch"
  "maxByteSize (fst (adjustByteSize ch n d)) = maxByteSize ch"
  by (simp_all add: adjustByteSize_def Let_def)

lemma adjust_fields_eq:
  assumes "adjustByteSize ch n d = (ch', res)"
  shows "chRecords ch' = chRecords ch" "chKeyFunc ch' = chKeyFunc ch"
    "chContent ch' = chContent ch" "maxByteSize ch' = maxByteSize ch"
  using adjust_fields [of ch n d] assms by simp_all

lemma store_fields [simp]:
  "chRecords (storeRecord ch r c) = gm_put (chKeyFunc ch r) c (chRecords ch)"
  "chKeyFunc (storeRecord ch r c) = chKeyFunc ch"
  "chContent (storeRecord ch r c) = chContent ch"
  "maxByteSize (storeRecord ch r c) = maxByteSize ch"
  "currentByteSize (storeRecord ch r c) = currentByteSize ch"
  by (simp_all add: storeRecord_def)

definition record_at :: "('r, 'k) changes \<Rightarrow> 'r \<Rightarrow> 'r change_record" where
  "record_at ch r = (case map_of (chRecords ch) (chKeyFunc ch r) of
     Some c \<Rightarrow> c | None \<Rightarrow> fresh_record r)"

lemma recordForRevision_store: "recordForRevision ch r = (storeRecord ch r (record_at ch r), record_at ch r)"
  by (simp add: recordForRevision_def storeRecord_def record_at_def gm_put_same split: option.split)

lemma store_store [simp]: "storeRecord (storeRecord ch r c) r c' = storeRecord ch r c'"
  by (simp add: storeRecord_def)

lemma new_fields [simp]:
  "chRecords (newChanges k c m) = []" "chKeyFunc (newChanges k c m) = k"
  "chContent (newChanges k c m) = c" "maxByteSize (newChanges k c m) = m"
  "currentByteSize (newChanges k c m) = 0"
  by (simp_all add: newChanges_def)

lemmas tracker_ops = addRelationshipChange_def addRevisionMetadata_def addDeletedNamespace_def
  addDeletedCaveat_def addChangedDefinition_def recordForRevision_store Let_def

text \<open>Every operation changes at most the record of its revision, and keeps the configuration.\<close>

definition frame :: "('r, 'k) changes \<Rightarrow> 'r \<Rightarrow> ('r, 'k) changes \<Rightarrow> bool" where
  "frame ch r ch' \<longleftrightarrow> (chRecords ch' = chRecords ch \<or>
      (\<exists>c. chRecords ch' = gm_put (chKeyFunc ch r) c (chRecords ch))) \<and>
    chKeyFunc ch' = chKeyFunc ch \<and> chContent ch' = chContent ch \<and> maxByteSize ch' = maxByteSize ch"

lemma frame_intros [intro!]:
  "frame ch r ch"
  "frame ch r ch' \<Longrightarrow> frame ch r (storeRecord ch' r c)"
  "frame ch r ch' \<Longrightarrow> frame ch r (fst (adjustByteSize ch' n d))"
  by (auto simp: frame_def)

lemma step_frame: "frame ch (op_rev op) (fst (change_step L ch op))"
proof (cases op)
  case (RelChange r rel u)
  then show ?thesis
    by (cases u) (auto simp: tracker_ops case_prod_beta split: option.split sum.split)
next
  case (DefinitionChanged r d)
  then show ?thesis
    by (cases d) (auto simp: tracker_ops case_prod_beta split: option.split sum.split)
qed (auto simp: tracker_ops split: option.split)

text \<open>Which operations the requested content lets through, and what each does to its record.\<close>

fun relevant :: "watch_content \<Rightarrow> 'r change_op \<Rightarrow> bool" where
  "relevant c (RelChange _ _ _) = watchRelationships c"
| "relevant c (MetadataChange _ m) = (m \<noteq> [])"
| "relevant c (NamespaceDeleted _ _) = watchSchema c"
| "relevant c (CaveatDeleted _ _) = watchSchema c"
| "relevant c (DefinitionChanged _ _) = watchSchema c"

text \<open>The first half is what remains when the size accounting fails in between.\<close>

fun first_half :: "spice_lib \<Rightarrow> 'r change_op \<Rightarrow> 'r change_record \<Rightarrow> 'r change_record" where
  "first_half L (RelChange _ rel UpdateOperationTouch) c =
     c\<lparr>relDeletes := gm_del (string_without L rel) (relDeletes c)\<rparr>"
| "first_half L (DefinitionChanged _ (NamespaceDefinition t)) c =
     c\<lparr>namespacesDeleted := gm_del (nsDefName t) (namespacesDeleted c)\<rparr>"
| "first_half L (DefinitionChanged _ (CaveatDefinition t)) c =
     c\<lparr>caveatsDeleted := gm_del (cavDefName t) (caveatsDeleted c)\<rparr>"
| "first_half L _ c = c"

definition put_definition ::
    "string \<Rightarrow> schema_definition \<Rightarrow> 'r change_record \<Rightarrow> 'r change_record" where
  "put_definition k d c = c\<lparr>definitionsChanged := gm_put k d (definitionsChanged c)\<rparr>"

fun effect :: "spice_lib \<Rightarrow> 'r change_op \<Rightarrow> 'r change_record \<Rightarrow> 'r change_record" where
  "effect L (RelChange _ rel UpdateOperationTouch) c =
     c\<lparr>relDeletes := gm_del (string_without L rel) (relDeletes c),
       relTouches := gm_put (string_without L rel) rel (relTouches c)\<rparr>"
| "effect L (RelChange _ rel UpdateOperationDelete) c =
     (if map_of (relTouches c) (string_without L rel) \<noteq> None then c
      else c\<lparr>relDeletes := gm_put (string_without L rel) rel (relDeletes c)\<rparr>)"
| "effect L (RelChange _ _ _) c = c"
| "effect L (MetadataChange _ m) c =
     (if list_ex (\<lambda>e. tm_Equals e m) (metadatas c) then c
      else c\<lparr>metadatas := metadatas c @ [m]\<rparr>)"
| "effect L (NamespaceDeleted _ n) c =
     (if map_of (definitionsChanged c) (nsPrefix @ n) \<noteq> None then c
      else c\<lparr>namespacesDeleted := gm_put n () (namespacesDeleted c)\<rparr>)"
| "effect L (CaveatDeleted _ n) c =
     (if map_of (definitionsChanged c) (caveatPrefix @ n) \<noteq> None then c
      else c\<lparr>caveatsDeleted := gm_put n () (caveatsDeleted c)\<rparr>)"
| "effect L (DefinitionChanged r (NamespaceDefinition t)) c =
     put_definition (nsPrefix @ nsDefName t) (NamespaceDefinition t)
       (first_half L (DefinitionChanged r (NamespaceDefinition t)) c)"
| "effect L (DefinitionChanged r (CaveatDefinition t)) c =
     put_definition (caveatPrefix @ cavDefName t) (CaveatDefinition t)
       (first_half L (DefinitionChanged r (CaveatDefinition t)) c)"
| "effect L (DefinitionChanged _ (UnknownDefinition _)) c = c"

lemma step_irrelevant: "\<not> relevant (chContent ch) op \<Longrightarrow> change_step L ch op = (ch, Ok ())"
  by (cases op) (auto simp: tracker_ops tm_Len_def)

lemma step_records:
  assumes "relevant (chContent ch) op"
  defines "c \<equiv> record_at ch (op_rev op)"
  shows "\<exists>c'. c' \<in> {c, first_half L op c, effect L op c} \<and>
    chRecords (fst (change_step L ch op)) = gm_put (chKeyFunc ch (op_rev op)) c' (chRecords ch) \<and>
    (snd (change_step L ch op) = Ok () \<longrightarrow> c' = effect L op c)"
proof (cases op)
  case (RelChange r rel u)
  then show ?thesis
    using assms by (cases u) (auto simp: tracker_ops case_prod_beta gm_del_absent split: option.split sum.split)
next
  case (DefinitionChanged r d)
  then show ?thesis
    using assms by (cases d)
      (auto simp: tracker_ops case_prod_beta gm_del_absent put_definition_def split: option.split sum.split)
next
  case (MetadataChange r m)
  then show ?thesis using assms by (auto simp: tracker_ops tm_Len_def)
next
  case (NamespaceDeleted r n)
  then show ?thesis using assms by (auto simp: tracker_ops gm_del_absent split: option.split)
next
  case (CaveatDeleted r n)
  then show ?thesis using assms by (auto simp: tracker_ops gm_del_absent split: option.split)
qed

section \<open>The invariant\<close>

text \<open>
  A record is consistent: its maps have distinct keys, every entry stands under the key the code
  computes for it, no relationship is both touched and deleted, no definition is both changed and
  deleted, and no metadata is recorded twice.
\<close>

definition entry_ok :: "string \<times> schema_definition \<Rightarrow> bool" where
  "entry_ok kd = (case snd kd of
     NamespaceDefinition t \<Rightarrow> fst kd = nsPrefix @ nsDefName t
   | CaveatDefinition t \<Rightarrow> fst kd = caveatPrefix @ cavDefName t
   | UnknownDefinition _ \<Rightarrow> False)"

definition record_ok :: "spice_lib \<Rightarrow> 'r change_record \<Rightarrow> bool" where
  "record_ok L c \<longleftrightarrow>
     gm_ok (relTouches c) \<and> gm_ok (relDeletes c) \<and> gm_ok (definitionsChanged c) \<and>
     gm_ok (namespacesDeleted c) \<and> gm_ok (caveatsDeleted c) \<and>
     dom (map_of (relTouches c)) \<inter> dom (map_of (relDeletes c)) = {} \<and>
     (\<forall>(k, rel) \<in> set (relTouches c) \<union> set (relDeletes c). k = string_without L rel) \<and>
     (\<forall>kd \<in> set (definitionsChanged c). entry_ok kd) \<and>
     (\<forall>n. map_of (namespacesDeleted c) n \<noteq> None \<longrightarrow> map_of (definitionsChanged c) (nsPrefix @ n) = None) \<and>
     (\<forall>n. map_of (caveatsDeleted c) n \<noteq> None \<longrightarrow> map_of (definitionsChanged c) (caveatPrefix @ n) = None) \<and>
     sorted_wrt (\<lambda>a b. \<not> tm_Equals a b) (metadatas c)"

definition tracker_ok :: "spice_lib \<Rightarrow> ('r, 'k) changes \<Rightarrow> bool" where
  "tracker_ok L ch \<longleftrightarrow> gm_ok (chRecords ch) \<and>
     (\<forall>(k, c) \<in> set (chRecords ch). k = chKeyFunc ch (crRev c) \<and> record_ok L c)"

lemma prefix_neq [simp]: "nsPrefix @ a \<noteq> caveatPrefix @ b" "caveatPrefix @ b \<noteq> nsPrefix @ a"
  by (simp_all add: nsPrefix_def caveatPrefix_def)

lemma record_ok_fresh [simp]: "record_ok L (fresh_record r)"
  by (simp add: record_ok_def fresh_record_def)

lemma set_gm_put: "gm_ok m \<Longrightarrow> set (gm_put k v m) = insert (k, v) {e \<in> set m. fst e \<noteq> k}"
  by (induction m) (auto simp: rev_image_eqI)

lemma set_gm_del: "set (gm_del k m) = {e \<in> set m. fst e \<noteq> k}"
  by (induction m) auto

lemma record_ok_first_half: "record_ok L c \<Longrightarrow> record_ok L (first_half L op c)"
  by (cases "(L, op, c)" rule: first_half.cases) (auto simp: record_ok_def set_gm_del)

lemma record_ok_put_definition:
  assumes "record_ok L c" and "entry_ok (k, d)"
    and "\<And>n. k = nsPrefix @ n \<Longrightarrow> map_of (namespacesDeleted c) n = None"
    and "\<And>n. k = caveatPrefix @ n \<Longrightarrow> map_of (caveatsDeleted c) n = None"
  shows "record_ok L (put_definition k d c)"
  using assms by (auto simp: record_ok_def put_definition_def set_gm_put)

lemma record_ok_effect:
  assumes "record_ok L c"
  shows "record_ok L (effect L op c)"
proof (cases op)
  case (RelChange r rel u)
  then show ?thesis
    using assms by (cases u) (auto simp: record_ok_def set_gm_put set_gm_del)
next
  case (MetadataChange r m)
  then show ?thesis
    using assms by (auto simp: record_ok_def sorted_wrt_append list_ex_iff)
next
  case (NamespaceDeleted r n)
  then show ?thesis
    using assms by (cases "map_of (definitionsChanged c) (nsPrefix @ n)") (auto simp: record_ok_def set_gm_put)
next
  case (CaveatDeleted r n)
  then show ?thesis
    using assms by (cases "map_of (definitionsChanged c) (caveatPrefix @ n)") (auto simp: record_ok_def set_gm_put)
next
  case (DefinitionChanged r d)
  show ?thesis
  proof (cases d)
    case (UnknownDefinition x)
    then show ?thesis using assms DefinitionChanged by simp
  next
    case (NamespaceDefinition t)
    then show ?thesis
      using DefinitionChanged record_ok_first_half [OF assms, of op]
      by (auto intro!: record_ok_put_definition simp: entry_ok_def)
  next
    case (CaveatDefinition t)
    then show ?thesis
      using DefinitionChanged record_ok_first_half [OF assms, of op]
      by (auto intro!: record_ok_put_definition simp: entry_ok_def)
  qed
qed

lemma crRev_effect [simp]: "crRev (effect L op c) = crRev c" "crRev (first_half L op c) = crRev c"
proof -
  show h: "crRev (first_half L op c) = crRev c" for op
    by (cases "(L, op, c)" rule: first_half.cases) auto
  show "crRev (effect L op c) = crRev c"
    by (cases "(L, op, c)" rule: effect.cases) (auto simp: put_definition_def)
qed

text \<open>
  What a tracker needs from its revisions: a kind of revision with its keys, whose method table is
  the one the tracker is instantiated with.
\<close>

locale change_tracker = revision_ops klt eq gt lt key
  for klt :: "'k \<Rightarrow> 'k \<Rightarrow> bool" and eq gt lt :: "'r \<Rightarrow> 'r \<Rightarrow> bool" and key :: "'r \<Rightarrow> 'k" +
  fixes M :: "'r rev_methods"
  assumes gt_method: "rvGreaterThan M a b \<longleftrightarrow> gt a b"
begin

lemma record_at_ok:
  assumes "tracker_ok L ch" and "chKeyFunc ch = key"
  shows "record_ok L (record_at ch r)" "crRev (record_at ch r) = r"
proof -
  have "record_ok L (record_at ch r) \<and> crRev (record_at ch r) = r"
  proof (cases "map_of (chRecords ch) (key r)")
    case None
    then show ?thesis using assms(2) by (simp add: record_at_def fresh_record_def [of r, symmetric])
      (simp add: fresh_record_def)
  next
    case (Some c)
    then have "(key r, c) \<in> set (chRecords ch)" by (rule map_of_SomeD)
    with assms have "key r = key (crRev c)" "record_ok L c" by (auto simp: tracker_ok_def)
    with assms(2) Some show ?thesis by (simp add: record_at_def key_inj)
  qed
  then show "record_ok L (record_at ch r)" "crRev (record_at ch r) = r" by simp_all
qed

lemma step_tracker_ok:
  assumes "tracker_ok L ch" and "chKeyFunc ch = key"
  shows "tracker_ok L (fst (change_step L ch op)) \<and> chKeyFunc (fst (change_step L ch op)) = key"
proof (cases "relevant (chContent ch) op")
  case False
  then show ?thesis using assms by (simp add: step_irrelevant)
next
  case True
  let ?r = "op_rev op"
  let ?c = "record_at ch ?r"
  from step_records [OF True, of L] obtain c' where
    c': "c' \<in> {?c, first_half L op ?c, effect L op ?c}"
    and recs: "chRecords (fst (change_step L ch op)) = gm_put (chKeyFunc ch ?r) c' (chRecords ch)"
    by blast
  have "record_ok L c'" "crRev c' = ?r"
    using c' record_at_ok [OF assms, of ?r] record_ok_effect [of L ?c op] record_ok_first_half [of L ?c op]
    by auto
  moreover have "chKeyFunc (fst (change_step L ch op)) = key"
    using step_frame [of ch op L] assms(2) by (simp add: frame_def)
  ultimately show ?thesis
    using assms recs by (auto simp: tracker_ok_def set_gm_put)
qed

lemma drain_tracker_ok:
  assumes "tracker_ok L ch"
  shows "tracker_ok L (fst (filterAndRemoveRevisionChanges L M klt ch b))"
proof -
  have "tracker_ok L (removeAllChangesBefore M ch b)"
    using assms unfolding tracker_ok_def removeAllChangesBefore_def
    by (auto simp: distinct_map inj_on_def)
  with assms show ?thesis
    by (simp add: filterAndRemoveRevisionChanges_def split: sum.split)
qed

end

text \<open>The states of a tracker: any operation, with whatever result, and any drain.\<close>

inductive tracker_reach ::
    "spice_lib \<Rightarrow> 'r rev_methods \<Rightarrow> ('k \<Rightarrow> 'k \<Rightarrow> bool) \<Rightarrow> ('r \<Rightarrow> 'k) \<Rightarrow> ('r, 'k) changes \<Rightarrow> bool"
  for L M klt key where
  start: "tracker_reach L M klt key (newChanges key content maxSize)"
| step: "tracker_reach L M klt key ch \<Longrightarrow> change_step L ch op = (ch', res) \<Longrightarrow>
    tracker_reach L M klt key ch'"
| drain: "tracker_reach L M klt key ch \<Longrightarrow>
    filterAndRemoveRevisionChanges L M klt ch bound = (ch', emitted) \<Longrightarrow>
    tracker_reach L M klt key ch'"

lemma tracker_reach_key: "tracker_reach L M klt key ch \<Longrightarrow> chKeyFunc ch = key"
proof (induction rule: tracker_reach.induct)
  case (step ch op ch' res)
  then show ?case using step_frame [of ch op L] by (simp add: frame_def)
next
  case (drain ch bound ch' emitted)
  then show ?case
    by (auto simp: filterAndRemoveRevisionChanges_def removeAllChangesBefore_def split: sum.splits)
qed simp

lemma tracker_reach_ok:
  assumes "change_tracker klt eq gt lt key M" and "tracker_reach L M klt key ch"
  shows "tracker_ok L ch"
  using assms(2)
proof (induction rule: tracker_reach.induct)
  case (start content maxSize)
  then show ?case by (simp add: tracker_ok_def)
next
  case (step ch op ch' res)
  then show ?case
    using change_tracker.step_tracker_ok [OF assms(1) step.IH tracker_reach_key [OF step.hyps(1)], of op]
      step.hyps(2) by simp
next
  case (drain ch bound ch' emitted)
  then show ?case
    using change_tracker.drain_tracker_ok [OF assms(1) drain.IH, of bound] drain.hyps(2) by simp
qed

definition ts_methods :: "int rev_methods" where
  "ts_methods = \<lparr>rvInterface = TimestampRev,
     rvGreaterThan = (\<lambda>a b. ts_GreaterThan a (TimestampRev b) = Ok True), rvZero = 0\<rparr>"

interpretation tsc: change_tracker timestampIDKeyLessThanFunc
  "\<lambda>a b. ts_Equal a (TimestampRev b) = Ok True" "\<lambda>a b. ts_GreaterThan a (TimestampRev b) = Ok True"
  "\<lambda>a b. ts_LessThan a (TimestampRev b) = Ok True" timestampIDKeyFunc ts_methods
  by unfold_locales (simp add: ts_methods_def)

definition tx_methods :: "64 word rev_methods" where
  "tx_methods = \<lparr>rvInterface = TransactionIDRev,
     rvGreaterThan = (\<lambda>a b. tx_GreaterThan a (TransactionIDRev b) = Ok True), rvZero = 0\<rparr>"

interpretation txc: change_tracker transactionIDKeyLessThanFunc
  "\<lambda>a b. tx_Equal a (TransactionIDRev b) = Ok True" "\<lambda>a b. tx_GreaterThan a (TransactionIDRev b) = Ok True"
  "\<lambda>a b. tx_LessThan a (TransactionIDRev b) = Ok True" transactionIDKeyFunc tx_methods
  by unfold_locales (simp add: tx_methods_def)

definition hlc_methods :: "hlc_revision rev_methods" where
  "hlc_methods = \<lparr>rvInterface = hlc_rev,
     rvGreaterThan = (\<lambda>a b. hlc_GreaterThan a (hlc_rev b) = Ok True),
     rvZero = \<lparr>hlcTime = 0, logicalclock = 0\<rparr>\<rparr>"

interpretation hlcc: change_tracker hlcKeyLessThanFunc
  "\<lambda>a b. hlc_Equal a (hlc_rev b) = Ok True" "\<lambda>a b. hlc_GreaterThan a (hlc_rev b) = Ok True"
  "\<lambda>a b. hlc_LessThan a (hlc_rev b) = Ok True" hlcKeyFunc hlc_methods
  by unfold_locales (simp add: hlc_methods_def)

lemma tracker_reach_step: "tracker_reach L M klt key ch \<Longrightarrow> tracker_reach L M klt key (fst (change_step L ch op))"
  by (rule tracker_reach.step [OF _ prod.collapse [symmetric]])

lemma tracker_reach_run: "tracker_reach L M klt key ch \<Longrightarrow> tracker_reach L M klt key (fst (run_changes L ch ops))"
proof (induction ops arbitrary: ch)
  case (Cons op ops)
  then show ?case
    using tracker_reach_step [OF Cons.prems, of op] by (auto split: prod.split sum.split)
qed simp

text \<open>
  C4. In every state a tracker can reach, failed operations and drains included, the records are
  consistent: a relationship is never both touched and deleted at one revision, a definition never
  both changed and deleted, and every revision has one record.
\<close>

theorem tracker_consistent:
  assumes "change_tracker klt eq gt lt key M" and "tracker_reach L M klt key ch"
  shows "tracker_ok L ch"
  using assms by (rule tracker_reach_ok)

theorem tracker_consistent_witness:
  "tracker_ok ref_lib (fst (change_step ref_lib (newChanges timestampIDKeyFunc watch_all 0)
     (RelChange 5 (sample_rel ''d1'' ''u1'') UpdateOperationTouch)))"
proof -
  let ?new = "newChanges timestampIDKeyFunc watch_all 0"
  let ?op = "RelChange 5 (sample_rel ''d1'' ''u1'') UpdateOperationTouch"
  have "tracker_reach ref_lib ts_methods timestampIDKeyLessThanFunc timestampIDKeyFunc
      (fst (change_step ref_lib ?new ?op))"
    by (intro tracker_reach_step tracker_reach.start)
  then show ?thesis by (rule tracker_consistent [OF tsc.change_tracker_axioms])
qed

section \<open>What is emitted\<close>

text \<open>
  The specification: the net effect of a history of operations on one revision. A touch wins over
  every delete of the same relationship, whatever their order, and the last of several touches
  wins; a changed definition wins over its deletion.
\<close>

definition touches_of :: "spice_lib \<Rightarrow> 'r \<Rightarrow> 'r change_op list \<Rightarrow> (string \<times> tuple_relationship) list" where
  "touches_of L r ops = concat (map (\<lambda>op. case op of
     RelChange r' rel UpdateOperationTouch \<Rightarrow> if r' = r then [(string_without L rel, rel)] else []
   | _ \<Rightarrow> []) ops)"

definition deletes_of :: "spice_lib \<Rightarrow> 'r \<Rightarrow> 'r change_op list \<Rightarrow> (string \<times> tuple_relationship) list" where
  "deletes_of L r ops = concat (map (\<lambda>op. case op of
     RelChange r' rel UpdateOperationDelete \<Rightarrow> if r' = r then [(string_without L rel, rel)] else []
   | _ \<Rightarrow> []) ops)"

definition definitions_of :: "'r \<Rightarrow> 'r change_op list \<Rightarrow> (string \<times> schema_definition) list" where
  "definitions_of r ops = concat (map (\<lambda>op. case op of
     DefinitionChanged r' (NamespaceDefinition t) \<Rightarrow>
       if r' = r then [(nsPrefix @ nsDefName t, NamespaceDefinition t)] else []
   | DefinitionChanged r' (CaveatDefinition t) \<Rightarrow>
       if r' = r then [(caveatPrefix @ cavDefName t, CaveatDefinition t)] else []
   | _ \<Rightarrow> []) ops)"

definition metadata_of :: "'r \<Rightarrow> 'r change_op list \<Rightarrow> any_map list" where
  "metadata_of r ops = concat (map (\<lambda>op. case op of
     MetadataChange r' m \<Rightarrow> if r' = r then [m] else [] | _ \<Rightarrow> []) ops)"

definition add_meta :: "any_map list \<Rightarrow> any_map \<Rightarrow> any_map list" where
  "add_meta ms m = (if list_ex (\<lambda>e. tm_Equals e m) ms then ms else ms @ [m])"

definition last_write :: "('a \<times> 'b) list \<Rightarrow> 'a \<Rightarrow> 'b option" where
  "last_write kvs = map_of (rev kvs)"

definition net_change :: "spice_lib \<Rightarrow> 'r \<Rightarrow> 'r change_op list \<Rightarrow> revision_changes \<Rightarrow> bool" where
  "net_change L r ops c \<longleftrightarrow>
     distinct (relationshipChanges c) \<and>
     set (relationshipChanges c) =
       {(UpdateOperationTouch, rel) | k rel. last_write (touches_of L r ops) k = Some rel} \<union>
       {(UpdateOperationDelete, rel) | k rel. last_write (touches_of L r ops) k = None \<and>
          last_write (deletes_of L r ops) k = Some rel} \<and>
     set (changedDefinitions c) = ran (last_write (definitions_of r ops)) \<and>
     set (deletedNamespaces c) = {n. NamespaceDeleted r n \<in> set ops \<and>
       last_write (definitions_of r ops) (nsPrefix @ n) = None} \<and>
     set (deletedCaveats c) = {n. CaveatDeleted r n \<in> set ops \<and>
       last_write (definitions_of r ops) (caveatPrefix @ n) = None} \<and>
     map Ok (chMetadatas c) = map (new_struct L) (foldl add_meta [] (metadata_of r ops)) \<and>
     \<not> isCheckpoint c"

text \<open>The same at the level of the record.\<close>

definition recorded :: "spice_lib \<Rightarrow> 'r \<Rightarrow> 'r change_op list \<Rightarrow> 'r change_record \<Rightarrow> bool" where
  "recorded L r ops c \<longleftrightarrow>
     map_of (relTouches c) = last_write (touches_of L r ops) \<and>
     map_of (relDeletes c) = last_write (deletes_of L r ops) |` (- dom (last_write (touches_of L r ops))) \<and>
     map_of (definitionsChanged c) = last_write (definitions_of r ops) \<and>
     (\<forall>n. map_of (namespacesDeleted c) n \<noteq> None \<longleftrightarrow> NamespaceDeleted r n \<in> set ops \<and>
       last_write (definitions_of r ops) (nsPrefix @ n) = None) \<and>
     (\<forall>n. map_of (caveatsDeleted c) n \<noteq> None \<longleftrightarrow> CaveatDeleted r n \<in> set ops \<and>
       last_write (definitions_of r ops) (caveatPrefix @ n) = None) \<and>
     metadatas c = foldl add_meta [] (metadata_of r ops)"

lemmas history_defs = touches_of_def deletes_of_def definitions_of_def metadata_of_def

lemma last_write_simps [simp]:
  "last_write [] = Map.empty" "last_write (xs @ [(k, v)]) = (last_write xs)(k \<mapsto> v)"
  by (simp_all add: last_write_def)

lemma recorded_fresh: "\<forall>op \<in> set ops. op_rev op \<noteq> r \<Longrightarrow> recorded L r ops (fresh_record r)"
proof (induction ops rule: rev_induct)
  case Nil
  then show ?case by (simp add: recorded_def fresh_record_def history_defs)
next
  case (snoc op ops)
  then show ?case
    by (cases op) (auto simp: recorded_def fresh_record_def history_defs
        split: update_operation.splits schema_definition.splits)
qed

lemma recorded_other:
  "recorded L r ops c \<Longrightarrow> op_rev op \<noteq> r \<Longrightarrow> recorded L r (ops @ [op]) c"
  by (cases op) (auto simp: recorded_def history_defs
        split: update_operation.splits schema_definition.splits)

text \<open>The operations the code knows; the others are reported as bugs.\<close>

fun known_op :: "'r change_op \<Rightarrow> bool" where
  "known_op (RelChange _ _ u) = (u = UpdateOperationTouch \<or> u = UpdateOperationDelete)"
| "known_op (DefinitionChanged _ d) = (case d of UnknownDefinition _ \<Rightarrow> False | _ \<Rightarrow> True)"
| "known_op _ = True"

lemma step_Ok_known:
  "relevant (chContent ch) op \<Longrightarrow> snd (change_step L ch op) = Ok () \<Longrightarrow> known_op op"
  by (cases op) (auto simp: tracker_ops split: update_operation.splits schema_definition.splits)

lemma recorded_effect:
  assumes "recorded L r ops c" and "op_rev op = r" and "known_op op"
  shows "recorded L r (ops @ [op]) (effect L op c)"
proof (cases op)
  case (RelChange r' rel u)
  show ?thesis
  proof (cases u)
    case UpdateOperationTouch
    with RelChange assms show ?thesis
      by (auto simp: recorded_def history_defs restrict_map_def fun_eq_iff)
  next
    case UpdateOperationDelete
    with RelChange assms show ?thesis
      by (auto simp: recorded_def history_defs restrict_map_def fun_eq_iff)
  qed (use RelChange assms(3) in auto)
next
  case (MetadataChange r' m)
  then show ?thesis
    using assms by (auto simp: recorded_def history_defs add_meta_def)
next
  case (NamespaceDeleted r' n)
  then show ?thesis
    using assms by (auto simp: recorded_def history_defs)
next
  case (CaveatDeleted r' n)
  then show ?thesis
    using assms by (auto simp: recorded_def history_defs)
next
  case (DefinitionChanged r' d)
  then show ?thesis
    using assms by (cases d) (auto simp: recorded_def history_defs put_definition_def)
qed

text \<open>The tracker after a history of relevant operations.\<close>

definition tracks ::
    "spice_lib \<Rightarrow> ('r \<Rightarrow> 'k) \<Rightarrow> 'r change_op list \<Rightarrow> ('r, 'k) changes \<Rightarrow> bool" where
  "tracks L key ops ch \<longleftrightarrow> chKeyFunc ch = key \<and> tracker_ok L ch \<and>
     crRev ` snd ` set (chRecords ch) = op_rev ` set ops \<and> (\<forall>r. recorded L r ops (record_at ch r))"

definition record_list :: "('k \<Rightarrow> 'k \<Rightarrow> bool) \<Rightarrow> ('k \<times> 'r change_record) list \<Rightarrow> 'r change_record list" where
  "record_list klt recs = map (the \<circ> map_of recs) (sort_slice klt (map fst recs))"

lemma map_res_cong: "(\<And>x. x \<in> set xs \<Longrightarrow> f x = g x) \<Longrightarrow> map_res f xs = map_res g xs"
  by (induction xs) (auto split: sum.split)

lemma map_res_map: "map_res f (map g xs) = map_res (\<lambda>x. f (g x)) xs"
  by (induction xs) (auto split: sum.split)

lemma map_res_append:
  "map_res f (xs @ ys) = (case map_res f xs of Err e \<Rightarrow> Err e
     | Ok as \<Rightarrow> (case map_res f ys of Err e \<Rightarrow> Err e | Ok bs \<Rightarrow> Ok (as @ bs)))"
  by (induction xs) (auto split: sum.splits)

lemma map_of_filter_fst:
  "gm_ok m \<Longrightarrow> k \<in> fst ` set (filter P m) \<Longrightarrow> map_of (filter P m) k = map_of m k"
  by (metis (no_types, lifting) distinct_map_filter filter_is_subset imageE map_of_is_SomeI prod.collapse subsetD)

text \<open>The emission of the records a bound selects.\<close>

lemma revisionChanges_eq:
  assumes "gm_ok (chRecords ch)"
  shows "revisionChanges L M klt ch b wb = map_res (change_of_record L M)
    (record_list klt (filter (\<lambda>(k, c). \<not> wb \<or> rvGreaterThan M b (crRev c)) (chRecords ch)))"
    (is "_ = map_res _ (record_list klt ?recs)")
proof (cases "?recs = []")
  case True
  then show ?thesis by (simp add: revisionChanges_def record_list_def)
next
  case False
  then have "revisionChanges L M klt ch b wb = map_res (\<lambda>k. change_of_record L M
      (case map_of (chRecords ch) k of Some c \<Rightarrow> c | None \<Rightarrow> fresh_record (rvZero M)))
      (sort_slice klt (map fst ?recs))"
    by (auto simp: revisionChanges_def isEmpty_def)
  also have "\<dots> = map_res (\<lambda>k. change_of_record L M (the (map_of ?recs k))) (sort_slice klt (map fst ?recs))"
  proof (rule map_res_cong)
    fix k assume "k \<in> set (sort_slice klt (map fst ?recs))"
    then have k: "k \<in> fst ` set ?recs" by simp
    then have "map_of ?recs k = map_of (chRecords ch) k" using map_of_filter_fst [OF assms] by blast
    moreover from k have "map_of ?recs k \<noteq> None" by (simp add: map_of_eq_None_iff)
    ultimately show "change_of_record L M (case map_of (chRecords ch) k of Some c \<Rightarrow> c | None \<Rightarrow> fresh_record (rvZero M)) =
      change_of_record L M (the (map_of ?recs k))" by auto
  qed
  finally show ?thesis by (simp add: record_list_def map_res_map comp_def)
qed

context change_tracker begin

lemma tracks_new: "tracks L key [] (newChanges key c m)"
  by (auto simp: tracks_def tracker_ok_def record_at_def intro: recorded_fresh)

lemma record_at_put:
  assumes "chKeyFunc ch = key" and "chKeyFunc ch' = key"
    and "chRecords ch' = gm_put (key r) c (chRecords ch)"
  shows "record_at ch' r' = (if r' = r then c else record_at ch r')"
  using assms by (simp add: record_at_def key_inj)

lemma tracks_step:
  assumes "tracks L key ops ch" and "relevant (chContent ch) op"
    and "change_step L ch op = (ch', Ok ())"
  shows "tracks L key (ops @ [op]) ch'"
proof -
  let ?r = "op_rev op"
  have key: "chKeyFunc ch = key" and ok: "tracker_ok L ch"
    and revs: "crRev ` snd ` set (chRecords ch) = op_rev ` set ops"
    and rec: "recorded L r ops (record_at ch r)" for r
    using assms(1) by (auto simp: tracks_def)
  have key': "chKeyFunc ch' = key" and ok': "tracker_ok L ch'"
    using step_tracker_ok [OF ok key, of op] assms(3) by simp_all
  have recs': "chRecords ch' = gm_put (key ?r) (effect L op (record_at ch ?r)) (chRecords ch)"
    using step_records [OF assms(2), of L] assms(3) key by auto
  have "crRev ` snd ` set (chRecords ch') = insert ?r (op_rev ` set ops)"
  proof -
    have "gm_ok (chRecords ch)" using ok by (simp add: tracker_ok_def)
    moreover have "(k, c) \<in> set (chRecords ch) \<Longrightarrow> k = key ?r \<longleftrightarrow> crRev c = ?r" for k c
      using ok key key_inj by (auto simp: tracker_ok_def)
    ultimately show ?thesis
      unfolding recs' revs [symmetric]
      using record_at_ok(2) [OF ok key, of ?r] by (force simp: set_gm_put)
  qed
  moreover have "recorded L r (ops @ [op]) (record_at ch' r)" for r
    using recorded_effect [OF rec refl step_Ok_known [OF assms(2), of L]] assms(3)
      recorded_other [OF rec, of op r]
    by (auto simp: record_at_put [OF key key' recs'])
  ultimately show ?thesis using key' ok' by (simp add: tracks_def)
qed

lemma run_tracks:
  assumes "run_changes L (newChanges key c m) ops = (ch, Ok ())"
  shows "tracks L key (filter (relevant c) ops) ch \<and> chContent ch = c"
  using assms
proof (induction ops arbitrary: ch rule: rev_induct)
  case Nil
  then show ?case using tracks_new [of L c m] by auto
next
  case (snoc op ops)
  then obtain ch1 where r: "run_changes L (newChanges key c m) ops = (ch1, Ok ())"
    and s: "change_step L ch1 op = (ch, Ok ())" by (auto simp: run_changes_snoc_Ok)
  from snoc.IH [OF r] have IH: "tracks L key (filter (relevant c) ops) ch1" "chContent ch1 = c" by auto
  have "chContent ch = c" using step_frame [of ch1 op L] s IH(2) by (simp add: frame_def)
  then show ?case
    using IH s tracks_step [OF IH(1) _ s] step_irrelevant [of ch1 op L] by (cases "relevant c op") auto
qed

lemma sorted_record_list:
  assumes "tracker_ok L ch" and "chKeyFunc ch = key"
  shows "sorted_wrt lt (map crRev (record_list klt (filter P (chRecords ch))))"
    "set (record_list klt (filter P (chRecords ch))) = snd ` set (filter P (chRecords ch))"
proof -
  let ?recs = "filter P (chRecords ch)"
  have ok: "gm_ok ?recs" using assms(1) by (auto simp: tracker_ok_def distinct_map inj_on_def)
  have at: "the (map_of ?recs k) \<in> snd ` set ?recs \<and> key (crRev (the (map_of ?recs k))) = k"
    if k: "k \<in> fst ` set ?recs" for k
  proof -
    from k obtain c where c: "(k, c) \<in> set ?recs" by auto
    then have "map_of ?recs k = Some c" using ok by simp
    moreover have "key (crRev c) = k" using c assms by (auto simp: tracker_ok_def)
    ultimately show ?thesis using c by force
  qed
  have "sorted_wrt klt (sort_slice klt (map fst ?recs))" using ok by (rule sorted_sort_slice)
  then have "sorted_wrt (\<lambda>a b. lt (crRev (the (map_of ?recs a))) (crRev (the (map_of ?recs b))))
      (sort_slice klt (map fst ?recs))"
    by (rule sorted_wrt_mono_rel [rotated]) (use at klt_iff in \<open>metis list.set_map set_sort_slice\<close>)
  then show "sorted_wrt lt (map crRev (record_list klt ?recs))"
    by (simp add: record_list_def sorted_wrt_map)
  show "set (record_list klt ?recs) = snd ` set ?recs"
    using ok by (force simp: record_list_def image_image)
qed

end

lemma distinct_vals_by_key:
  assumes "gm_ok m" and "\<forall>(k, v) \<in> set m. k = f v"
  shows "distinct (gm_vals m)"
proof -
  have "map fst m = map f (gm_vals m)" using assms(2) by auto
  with assms(1) show ?thesis by (metis distinct_map)
qed

lemma map_res_MustStruct:
  "map_res (tm_MustStruct L) ms = Ok ss \<Longrightarrow> map Ok ss = map (new_struct L) ms"
  by (induction ms arbitrary: ss) (auto simp: tm_MustStruct_def split: sum.splits)

lemma net_change_of_record:
  assumes ok: "record_ok L c" and rec: "recorded L r ops c"
    and emit: "change_of_record L M c = Ok rc"
  shows "net_change L r ops rc \<and> chRevision rc = rvInterface M (crRev c)"
proof -
  obtain ss where ss: "map_res (tm_MustStruct L) (metadatas c) = Ok ss"
    and rc: "relationshipChanges rc =
            map (\<lambda>rel. (UpdateOperationTouch, rel)) (gm_vals (relTouches c)) @
            map (\<lambda>rel. (UpdateOperationDelete, rel)) (gm_vals (relDeletes c))"
      "changedDefinitions rc = gm_vals (definitionsChanged c)"
      "deletedNamespaces rc = gm_keys (namespacesDeleted c)"
      "deletedCaveats rc = gm_keys (caveatsDeleted c)" "\<not> isCheckpoint rc"
      "chMetadatas rc = ss" "chRevision rc = rvInterface M (crRev c)"
    using emit by (auto simp: change_of_record_def split: sum.splits)
  note r = ok [unfolded record_ok_def] and h = rec [unfolded recorded_def]
  have "distinct (relationshipChanges rc)"
    using r distinct_vals_by_key [of "relTouches c" "string_without L"]
      distinct_vals_by_key [of "relDeletes c" "string_without L"]
    by (auto simp: rc distinct_map inj_on_def)
  moreover have touched: "snd ` set (relTouches c) = {rel. \<exists>k. last_write (touches_of L r ops) k = Some rel}"
    using r h by (metis ran_def ran_distinct)
  moreover have deleted: "snd ` set (relDeletes c) = {rel. \<exists>k. last_write (touches_of L r ops) k = None \<and>
      last_write (deletes_of L r ops) k = Some rel}"
  proof -
    have "snd ` set (relDeletes c) = ran (map_of (relDeletes c))" using r by (simp add: ran_distinct)
    also have "\<dots> = {rel. \<exists>k. last_write (touches_of L r ops) k = None \<and>
      last_write (deletes_of L r ops) k = Some rel}"
      using h by (auto simp: ran_def restrict_map_def split: if_splits)
    finally show ?thesis .
  qed
  have "set (relationshipChanges rc) =
      Pair UpdateOperationTouch ` snd ` set (relTouches c) \<union>
      Pair UpdateOperationDelete ` snd ` set (relDeletes c)"
    by (simp add: rc image_image)
  then have "set (relationshipChanges rc) =
       {(UpdateOperationTouch, rel) | k rel. last_write (touches_of L r ops) k = Some rel} \<union>
       {(UpdateOperationDelete, rel) | k rel. last_write (touches_of L r ops) k = None \<and>
          last_write (deletes_of L r ops) k = Some rel}"
    unfolding touched deleted by blast
  moreover have "set (changedDefinitions rc) = ran (last_write (definitions_of r ops))"
    using r h rc(2) by (metis list.set_map ran_distinct)
  moreover have "set (deletedNamespaces rc) = {n. NamespaceDeleted r n \<in> set ops \<and>
       last_write (definitions_of r ops) (nsPrefix @ n) = None}"
    using h by (auto simp: rc map_of_eq_None_iff)
  moreover have "set (deletedCaveats rc) = {n. CaveatDeleted r n \<in> set ops \<and>
       last_write (definitions_of r ops) (caveatPrefix @ n) = None}"
    using h by (auto simp: rc map_of_eq_None_iff)
  moreover have "map Ok (chMetadatas rc) = map (new_struct L) (foldl add_meta [] (metadata_of r ops))"
    using map_res_MustStruct [OF ss] h rc by simp
  ultimately show ?thesis
    using rc unfolding net_change_def by blast
qed

lemma foldl_add_meta_set: "set (foldl add_meta ms xs) \<subseteq> set ms \<union> set xs"
proof (induction xs arbitrary: ms)
  case (Cons x xs)
  have "set (add_meta ms x) \<subseteq> insert x (set ms)" by (simp add: add_meta_def subset_insertI)
  with Cons.IH [of "add_meta ms x"] show ?case by auto
qed simp

lemma metadata_of_set: "m \<in> set (metadata_of r ops) \<Longrightarrow> MetadataChange r m \<in> set ops"
  by (auto simp: metadata_of_def split: change_op.splits if_splits)

lemma change_of_record_total:
  assumes "recorded L r ops c" and "\<forall>m. MetadataChange r m \<in> set ops \<longrightarrow> (\<exists>s. new_struct L m = Ok s)"
  shows "\<exists>rc. change_of_record L M c = Ok rc"
proof -
  have "\<exists>s. tm_MustStruct L m = Ok s" if "m \<in> set (metadatas c)" for m
    using that assms metadata_of_set foldl_add_meta_set [of "[]" "metadata_of r ops"]
    by (fastforce simp: recorded_def tm_MustStruct_def)
  then obtain g where "\<And>m. m \<in> set (metadatas c) \<Longrightarrow> tm_MustStruct L m = Ok (g m)" by metis
  then show ?thesis by (simp add: change_of_record_def map_res_total [of _ _ g])
qed

lemma emission_exact:
  assumes "change_tracker klt eq gt lt key M"
    and "run_changes L (newChanges key content maxSize) ops = (ch, Ok ())"
    and "\<forall>r m. MetadataChange r m \<in> set ops \<longrightarrow> (\<exists>s. new_struct L m = Ok s)"
  shows "\<exists>rs cs. asRevisionChanges L M klt ch = Ok cs \<and> sorted_wrt lt rs \<and>
    set rs = op_rev ` {op \<in> set ops. relevant content op} \<and>
    list_all2 (\<lambda>r c. chRevision c = rvInterface M r \<and>
      net_change L r (filter (relevant content) ops) c) rs cs"
proof -
  let ?ops = "filter (relevant content) ops"
  have t: "tracks L key ?ops ch" using change_tracker.run_tracks [OF assms(1,2)] by blast
  then have ok: "tracker_ok L ch" and key: "chKeyFunc ch = key" by (simp_all add: tracks_def)
  let ?cs = "record_list klt (filter (\<lambda>_. True) (chRecords ch))"
  have as: "asRevisionChanges L M klt ch = map_res (change_of_record L M) ?cs"
    using ok revisionChanges_eq [of ch L M klt "rvZero M" False]
    by (simp add: asRevisionChanges_def tracker_ok_def)
  note sorted = change_tracker.sorted_record_list [OF assms(1) ok key, of "\<lambda>_. True"]
  have each: "record_ok L c \<and> recorded L (crRev c) ?ops c" if "c \<in> set ?cs" for c
  proof -
    from that obtain k where kc: "(k, c) \<in> set (chRecords ch)" using sorted(2) by auto
    with ok have "k = chKeyFunc ch (crRev c)" "record_ok L c" "gm_ok (chRecords ch)"
      by (auto simp: tracker_ok_def)
    moreover from this kc have "record_at ch (crRev c) = c" by (simp add: record_at_def)
    moreover have "recorded L (crRev c) ?ops (record_at ch (crRev c))" using t by (simp add: tracks_def)
    ultimately show ?thesis by simp
  qed
  have "\<exists>rc. change_of_record L M c = Ok rc" if "c \<in> set ?cs" for c
    using change_of_record_total [of L "crRev c" ?ops c M] each [OF that] assms(3) by auto
  then obtain g where g: "\<And>c. c \<in> set ?cs \<Longrightarrow> change_of_record L M c = Ok (g c)" by metis
  have emit: "asRevisionChanges L M klt ch = Ok (map g ?cs)"
    unfolding as by (rule map_res_total) (rule g)
  have "list_all2 (\<lambda>r c. chRevision c = rvInterface M r \<and> net_change L r ?ops c)
      (map crRev ?cs) (map g ?cs)"
    unfolding list_all2_map1 list_all2_map2 list_all2_same
    using net_change_of_record [OF _ _ g] each by blast
  moreover have "set (map crRev ?cs) = op_rev ` {op \<in> set ops. relevant content op}"
    using t sorted(2) by (simp add: tracks_def image_image)
  ultimately show ?thesis
    using sorted(1) emit
    by (intro exI [of _ "map crRev ?cs"] exI [of _ "map g ?cs"] conjI) assumption+
qed

text \<open>
  C3. A history of operations that all succeed is emitted exactly: one change for each revision an
  operation of the requested content names, in ascending order of the revisions, each with the net
  effect of its operations.
\<close>

theorem emitted_changes_exact:
  assumes "change_tracker klt eq gt lt key M"
    and "run_changes L (newChanges key content maxSize) ops = (ch, Ok ())"
    and "\<forall>r m. MetadataChange r m \<in> set ops \<longrightarrow> (\<exists>s. new_struct L m = Ok s)"
  shows "\<exists>rs cs. asRevisionChanges L M klt ch = Ok cs \<and> sorted_wrt lt rs \<and>
    set rs = op_rev ` {op \<in> set ops. relevant content op} \<and>
    list_all2 (\<lambda>r c. chRevision c = rvInterface M r \<and>
      net_change L r (filter (relevant content) ops) c) rs cs"
  using assms by (rule emission_exact)

theorem emitted_changes_exact_witness:
  "let ops = [RelChange (5 :: int) (sample_rel ''d1'' ''u1'') UpdateOperationTouch,
              RelChange 3 (sample_rel ''d2'' ''u1'') UpdateOperationDelete,
              RelChange 5 (sample_rel ''d1'' ''u1'') UpdateOperationDelete,
              MetadataChange 3 [(''by'', ''me'')], NamespaceDeleted 3 ''folder'']
   in \<exists>rs cs. asRevisionChanges ref_lib ts_methods timestampIDKeyLessThanFunc
        (fst (run_changes ref_lib (newChanges timestampIDKeyFunc watch_all 0) ops)) = Ok cs \<and>
      set rs = {3, 5} \<and> list_all2 (\<lambda>r c. chRevision c = TimestampRev r \<and> net_change ref_lib r ops c) rs cs"
proof -
  let ?ops = "[RelChange (5 :: int) (sample_rel ''d1'' ''u1'') UpdateOperationTouch,
              RelChange 3 (sample_rel ''d2'' ''u1'') UpdateOperationDelete,
              RelChange 5 (sample_rel ''d1'' ''u1'') UpdateOperationDelete,
              MetadataChange 3 [(''by'', ''me'')], NamespaceDeleted 3 ''folder'']"
  let ?run = "run_changes ref_lib (newChanges timestampIDKeyFunc watch_all 0) ?ops"
  have "snd ?run = Ok ()" by code_simp
  then have run: "?run = (fst ?run, Ok ())" by (metis prod.collapse)
  have meta: "\<forall>r m. MetadataChange r m \<in> set ?ops \<longrightarrow> (\<exists>s. new_struct ref_lib m = Ok s)"
    by (simp add: ref_lib_def)
  from emitted_changes_exact [OF tsc.change_tracker_axioms run meta]
  obtain rs cs where r: "asRevisionChanges ref_lib ts_methods timestampIDKeyLessThanFunc (fst ?run) = Ok cs"
      "set rs = op_rev ` {op \<in> set ?ops. relevant watch_all op}"
      "list_all2 (\<lambda>r c. chRevision c = rvInterface ts_methods r \<and>
         net_change ref_lib r (filter (relevant watch_all) ?ops) c) rs cs" by blast
  moreover have all: "filter (relevant watch_all) ?ops = ?ops" by (simp add: watch_all_def)
  moreover have "op_rev ` {op \<in> set ?ops. relevant watch_all op} = {3, 5}"
    unfolding set_filter [symmetric] all by (simp add: insert_commute)
  moreover have "rvInterface ts_methods = TimestampRev" by (simp add: ts_methods_def)
  ultimately show ?thesis unfolding Let_def by (intro exI [of _ rs] exI [of _ cs]) (simp only: conj_absorb)
qed

section \<open>Draining\<close>

context change_tracker begin

lemma below_before: "gt b r \<Longrightarrow> \<not> gt b r' \<Longrightarrow> lt r r'"
  using rev_total [of r r'] rev_trans unfolding gt_iff eq_iff by blast

lemma records_unique:
  assumes "sorted_wrt lt (map crRev xs)" and "sorted_wrt lt (map crRev ys)"
    and "set xs = set ys" and "inj_on crRev (set xs)"
  shows "xs = ys"
proof -
  have "sorted_wrt klt (map (key \<circ> crRev) xs)" "sorted_wrt klt (map (key \<circ> crRev) ys)"
    using assms(1,2) by (simp_all add: sorted_wrt_map klt_iff)
  then have "map (key \<circ> crRev) xs = map (key \<circ> crRev) ys"
    by (rule sorted_unique) (simp add: assms(3))
  moreover have "inj_on (key \<circ> crRev) (set xs \<union> set ys)"
    using assms(3,4) key_inj by (auto simp: inj_on_def)
  ultimately show ?thesis by (rule map_inj_on)
qed

lemma record_list_split:
  assumes "tracker_ok L ch" and "chKeyFunc ch = key"
  shows "record_list klt (chRecords ch) =
    record_list klt (filter (\<lambda>(k, c). rvGreaterThan M b (crRev c)) (chRecords ch)) @
    record_list klt (filter (\<lambda>(k, c). \<not> rvGreaterThan M b (crRev c)) (chRecords ch))"
    (is "?all = ?low @ ?high")
proof (rule records_unique)
  note sl = sorted_record_list [OF assms]
  have low: "set ?low = {c \<in> snd ` set (chRecords ch). gt b (crRev c)}"
    and high: "set ?high = {c \<in> snd ` set (chRecords ch). \<not> gt b (crRev c)}"
    unfolding sl(2) by (force simp: gt_method)+
  show "sorted_wrt lt (map crRev ?all)" using sl(1) [of "\<lambda>_. True"] by simp
  have "sorted_wrt lt (map crRev ?low)" "sorted_wrt lt (map crRev ?high)" by (rule sl(1))+
  then show "sorted_wrt lt (map crRev (?low @ ?high))"
    using below_before low high by (auto simp: sorted_wrt_append)
  have all: "set ?all = snd ` set (chRecords ch)" using sl(2) [of "\<lambda>_. True"] by simp
  then show "set ?all = set (?low @ ?high)" unfolding set_append low high by blast
  show "inj_on crRev (set ?all)"
    unfolding all using assms(1) by (fastforce simp: tracker_ok_def inj_on_def dest: eq_key_imp_eq_value)
qed

end

lemma map_res_Ok_from: "map_res f xs = Ok ys \<Longrightarrow> y \<in> set ys \<Longrightarrow> \<exists>x \<in> set xs. f x = Ok y"
  by (induction xs arbitrary: ys) (auto split: sum.splits)

lemma chRevision_of_record: "change_of_record L M c = Ok e \<Longrightarrow> chRevision e = rvInterface M (crRev c)"
  by (auto simp: change_of_record_def split: sum.splits)

text \<open>
  A drain up to a bound takes exactly the changes below the bound: what it emits, followed by
  what the tracker would emit afterwards, is what the tracker would have emitted before, so no
  change is lost, duplicated or reordered.
\<close>

theorem drain_partitions:
  assumes "change_tracker klt eq gt lt key M" and "tracker_reach L M klt key ch"
    and "asRevisionChanges L M klt ch = Ok cs"
  shows "\<exists>ch' es rest. filterAndRemoveRevisionChanges L M klt ch b = (ch', Ok es) \<and>
    asRevisionChanges L M klt ch' = Ok rest \<and> cs = es @ rest \<and>
    (\<forall>e \<in> set es. \<exists>r. chRevision e = rvInterface M r \<and> lt r b) \<and>
    (\<forall>e \<in> set rest. \<exists>r. chRevision e = rvInterface M r \<and> \<not> lt r b)"
proof -
  note ok = tracker_reach_ok [OF assms(1,2)] and key = tracker_reach_key [OF assms(2)]
  have gm: "gm_ok (chRecords ch)" using ok by (simp add: tracker_ok_def)
  let ?ch' = "removeAllChangesBefore M ch b"
  let ?low = "record_list klt (filter (\<lambda>(k, c). rvGreaterThan M b (crRev c)) (chRecords ch))"
  let ?high = "record_list klt (filter (\<lambda>(k, c). \<not> rvGreaterThan M b (crRev c)) (chRecords ch))"
  have gm': "gm_ok (chRecords ?ch')"
    using gm by (auto simp: removeAllChangesBefore_def distinct_map inj_on_def)
  have "map_res (change_of_record L M) (?low @ ?high) = Ok cs"
    using assms(3) revisionChanges_eq [OF gm, of L M klt "rvZero M" False]
      change_tracker.record_list_split [OF assms(1) ok key, of b]
    by (simp add: asRevisionChanges_def)
  then obtain es rest where es: "map_res (change_of_record L M) ?low = Ok es"
    and rest: "map_res (change_of_record L M) ?high = Ok rest" and cs: "cs = es @ rest"
    by (auto simp: map_res_append split: sum.splits)
  have "revisionChanges L M klt ch b True = Ok es"
    using revisionChanges_eq [OF gm, of L M klt b True] es by simp
  then have "filterAndRemoveRevisionChanges L M klt ch b = (?ch', Ok es)"
    by (simp add: filterAndRemoveRevisionChanges_def)
  moreover have after: "asRevisionChanges L M klt ?ch' = Ok rest"
    using revisionChanges_eq [OF gm', of L M klt "rvZero M" False] rest
    by (simp add: asRevisionChanges_def removeAllChangesBefore_def)
  have rev_of: "\<exists>c \<in> set xs. chRevision e = rvInterface M (crRev c)"
    if "map_res (change_of_record L M) xs = Ok ys" "e \<in> set ys" for xs ys e
    using map_res_Ok_from [OF that] chRevision_of_record by blast
  have "\<forall>c \<in> set ?low. lt (crRev c) b" "\<forall>c \<in> set ?high. \<not> lt (crRev c) b"
    using change_tracker.sorted_record_list(2) [OF assms(1) ok key]
      change_tracker.gt_method [OF assms(1)] revision_ops.gt_iff [OF change_tracker.axioms(1) [OF assms(1)]]
    by auto
  moreover from this have "\<forall>e \<in> set es. \<exists>r. chRevision e = rvInterface M r \<and> lt r b"
    "\<forall>e \<in> set rest. \<exists>r. chRevision e = rvInterface M r \<and> \<not> lt r b"
    using rev_of [OF es] rev_of [OF rest] by blast+
  ultimately show ?thesis using cs after by (intro exI conjI)
qed

theorem drain_partitions_witness:
  "let ch = fst (run_changes ref_lib (newChanges timestampIDKeyFunc watch_all 0)
       [RelChange 5 (sample_rel ''d1'' ''u1'') UpdateOperationTouch,
        RelChange 3 (sample_rel ''d2'' ''u1'') UpdateOperationDelete])
   in \<exists>ch' es. filterAndRemoveRevisionChanges ref_lib ts_methods timestampIDKeyLessThanFunc ch 4 = (ch', Ok es) \<and>
     (\<forall>e \<in> set es. \<exists>r. chRevision e = TimestampRev r \<and> r < 4)"
proof -
  let ?ch = "fst (run_changes ref_lib (newChanges timestampIDKeyFunc watch_all 0)
       [RelChange 5 (sample_rel ''d1'' ''u1'') UpdateOperationTouch,
        RelChange 3 (sample_rel ''d2'' ''u1'') UpdateOperationDelete])"
  have reach: "tracker_reach ref_lib ts_methods timestampIDKeyLessThanFunc timestampIDKeyFunc ?ch"
    by (intro tracker_reach_run tracker_reach.start)
  have "(case asRevisionChanges ref_lib ts_methods timestampIDKeyLessThanFunc ?ch of
      Ok _ \<Rightarrow> True | Err _ \<Rightarrow> False)" by code_simp
  then obtain cs where as: "asRevisionChanges ref_lib ts_methods timestampIDKeyLessThanFunc ?ch = Ok cs"
    by (auto split: sum.splits)
  from drain_partitions [OF tsc.change_tracker_axioms reach as, of 4]
  show ?thesis by (auto simp: Let_def ts_methods_def ts_compare_defs simp del: run_changes.simps)
qed

section \<open>Size accounting\<close>

definition vals_sum :: "('v \<Rightarrow> int) \<Rightarrow> ('k \<times> 'v) list \<Rightarrow> int" where
  "vals_sum f m = sum_list (map (f \<circ> snd) m)"

definition old_val :: "('v \<Rightarrow> int) \<Rightarrow> ('k \<times> 'v) list \<Rightarrow> 'k \<Rightarrow> int" where
  "old_val f m k = (case map_of m k of None \<Rightarrow> 0 | Some v \<Rightarrow> f v)"

lemma vals_sum_nil [simp]: "vals_sum f [] = 0"
  by (simp add: vals_sum_def)

lemma vals_sum_put [simp]: "gm_ok m \<Longrightarrow> vals_sum f (gm_put k v m) = vals_sum f m - old_val f m k + f v"
  by (induction m) (auto simp: vals_sum_def old_val_def)

lemma vals_sum_del [simp]: "gm_ok m \<Longrightarrow> vals_sum f (gm_del k m) = vals_sum f m - old_val f m k"
  by (induction m) (auto simp: vals_sum_def old_val_def)

lemma vals_sum_nonneg: "(\<And>v. 0 \<le> f v) \<Longrightarrow> 0 \<le> vals_sum f m"
  unfolding vals_sum_def by (rule sum_list_nonneg) auto

lemma old_val_bounds: "(\<And>v. 0 \<le> f v) \<Longrightarrow> 0 \<le> old_val f m k \<and> old_val f m k \<le> vals_sum f m"
proof (induction m)
  case (Cons e m)
  have "0 \<le> f (snd e)" "0 \<le> vals_sum f m" using Cons.prems vals_sum_nonneg [of f m] by auto
  with Cons.IH [OF Cons.prems] show ?case by (cases e) (auto simp: old_val_def vals_sum_def)
qed (simp add: old_val_def)

definition record_bytes :: "spice_lib \<Rightarrow> 'r change_record \<Rightarrow> int" where
  "record_bytes L c = vals_sum (rel_size L) (relTouches c) + vals_sum (rel_size L) (relDeletes c) +
     vals_sum (def_size L) (definitionsChanged c)"

definition bytes_held :: "spice_lib \<Rightarrow> ('r, 'k) changes \<Rightarrow> int" where
  "bytes_held L ch = vals_sum (record_bytes L) (chRecords ch)"

lemma record_bytes_fresh [simp]: "record_bytes L (fresh_record r) = 0"
  by (simp add: record_bytes_def fresh_record_def)

lemma bytes_held_put:
  assumes "gm_ok (chRecords ch)" and "chRecords ch' = gm_put (chKeyFunc ch r) c (chRecords ch)"
  shows "bytes_held L ch' = bytes_held L ch - record_bytes L (record_at ch r) + record_bytes L c"
  using assms by (simp add: bytes_held_def old_val_def record_at_def split: option.split)

text \<open>The amounts an operation subtracts and adds.\<close>

fun size_released :: "spice_lib \<Rightarrow> 'r change_op \<Rightarrow> 'r change_record \<Rightarrow> int" where
  "size_released L (RelChange _ rel UpdateOperationTouch) c =
     old_val (rel_size L) (relDeletes c) (string_without L rel)"
| "size_released L (DefinitionChanged _ (NamespaceDefinition t)) c =
     old_val (def_size L) (definitionsChanged c) (nsPrefix @ nsDefName t)"
| "size_released L (DefinitionChanged _ (CaveatDefinition t)) c =
     old_val (def_size L) (definitionsChanged c) (nsPrefix @ cavDefName t)"
| "size_released L _ c = 0"

fun size_added :: "spice_lib \<Rightarrow> 'r change_op \<Rightarrow> 'r change_record \<Rightarrow> int" where
  "size_added L (RelChange _ rel UpdateOperationTouch) c = rel_size L rel"
| "size_added L (RelChange _ rel UpdateOperationDelete) c =
     (if map_of (relTouches c) (string_without L rel) \<noteq> None then 0 else rel_size L rel)"
| "size_added L (DefinitionChanged _ d) c = def_size L d"
| "size_added L _ c = 0"

definition size_in_range :: "('r, 'k) changes \<Rightarrow> bool" where
  "size_in_range ch \<longleftrightarrow> 0 < maxByteSize ch \<and> int (maxByteSize ch) < 2 ^ 62 \<and>
     0 \<le> currentByteSize ch \<and> currentByteSize ch \<le> int (maxByteSize ch)"

lemma size_in_range_store [simp]: "size_in_range (storeRecord ch r c) = size_in_range ch"
  by (simp add: size_in_range_def)

lemma adjust_release:
  assumes "size_in_range ch" and "0 \<le> n" and "n \<le> currentByteSize ch"
  shows "adjustByteSize ch n (- 1) = (ch\<lparr>currentByteSize := currentByteSize ch - n\<rparr>, Ok ())"
proof -
  have "is_i64 (- n)" "is_i64 (currentByteSize ch - n)"
    using assms by (auto simp: is_i64_def size_in_range_def)
  with assms show ?thesis
    by (auto simp: adjustByteSize_def Let_def size_in_range_def)
qed

lemma adjust_add:
  assumes "size_in_range ch" and "0 \<le> n" and "n < 2 ^ 62"
  shows "adjustByteSize ch n 1 = (ch\<lparr>currentByteSize := currentByteSize ch + n\<rparr>,
     if currentByteSize ch + n > int (maxByteSize ch)
     then Err (MaximumChangesSizeExceeded (maxByteSize ch)) else Ok ())"
proof -
  have "is_i64 n" "is_i64 (currentByteSize ch + n)"
    using assms by (auto simp: is_i64_def size_in_range_def)
  with assms show ?thesis
    by (auto simp: adjustByteSize_def Let_def size_in_range_def)
qed

text \<open>One operation on a tracker with a size limit, when the sum stays in range.\<close>

lemma step_size:
  assumes lib: "lib_laws L" and rel: "relevant (chContent ch) op" and known: "known_op op"
    and range: "size_in_range ch"
    and sub: "size_released L op (record_at ch (op_rev op)) \<le> currentByteSize ch"
    and add: "size_added L op (record_at ch (op_rev op)) < 2 ^ 62"
  shows "let c = record_at ch (op_rev op);
             cur' = currentByteSize ch - size_released L op c + size_added L op c in
    if cur' \<le> int (maxByteSize ch)
    then snd (change_step L ch op) = Ok () \<and> currentByteSize (fst (change_step L ch op)) = cur'
    else snd (change_step L ch op) = Err (MaximumChangesSizeExceeded (maxByteSize ch))"
proof -
  note nn = lib_laws.rel_size_nonneg [OF lib] lib_laws.def_size_nonneg [OF lib]
  have rng: "size_in_range (ch'\<lparr>currentByteSize := n\<rparr>)"
    if "size_in_range ch'" "0 \<le> n" "n \<le> currentByteSize ch'" for ch' :: "('a, 'b) changes" and n
    using that by (auto simp: size_in_range_def)
  have le: "currentByteSize ch \<le> int (maxByteSize ch)" using range by (simp add: size_in_range_def)
  show ?thesis
  proof (cases op)
    case (RelChange r x u)
    then show ?thesis
      using rel known range sub add nn le
      by (auto simp: tracker_ops case_prod_beta old_val_def adjust_release adjust_add rng
          split: option.splits)
  next
    case (DefinitionChanged r d)
    then show ?thesis
      using rel known range sub add nn
      by (cases d) (auto simp: tracker_ops case_prod_beta old_val_def adjust_release adjust_add rng
          split: option.splits)
  qed (use rel range in \<open>auto simp: tracker_ops size_in_range_def split: option.splits\<close>)
qed

text \<open>
  What an operation adds to the bytes held is at most what it adds to the recorded size, when no
  namespace changed at its revision bears the name of the caveat it changes.
\<close>

fun no_clash :: "'r change_op \<Rightarrow> 'r change_record \<Rightarrow> bool" where
  "no_clash (DefinitionChanged _ (CaveatDefinition t)) c =
     (map_of (definitionsChanged c) (nsPrefix @ cavDefName t) = None)"
| "no_clash _ c = True"

lemma effect_bytes:
  assumes lib: "lib_laws L" and ok: "record_ok L c" and "no_clash op c"
  shows "record_bytes L (effect L op c) - record_bytes L c \<le> size_added L op c - size_released L op c"
    "size_released L op c \<le> record_bytes L c"
proof -
  note nn = lib_laws.rel_size_nonneg [OF lib] lib_laws.def_size_nonneg [OF lib]
  note b = old_val_bounds [of "rel_size L", OF nn(1)] old_val_bounds [of "def_size L", OF nn(2)]
    vals_sum_nonneg [of "rel_size L", OF nn(1)] vals_sum_nonneg [of "def_size L", OF nn(2)]
  have gm: "gm_ok (relTouches c)" "gm_ok (relDeletes c)" "gm_ok (definitionsChanged c)"
    using ok by (simp_all add: record_ok_def)
  have add: "record_bytes L (effect L op c) - record_bytes L c \<le> size_added L op c - size_released L op c"
  proof (cases op)
    case (RelChange r x u)
    then show ?thesis using gm b(1) [THEN conjunct1] by (cases u) (auto simp: record_bytes_def)
  next
    case (DefinitionChanged r d)
    then show ?thesis
      using gm b(2) [THEN conjunct1] assms(3) nn by (cases d) (auto simp: record_bytes_def put_definition_def old_val_def)
  qed (auto simp: record_bytes_def)
  have "size_released L op c \<le> 0 \<or> size_released L op c \<le> vals_sum (rel_size L) (relDeletes c) \<or>
      size_released L op c \<le> vals_sum (def_size L) (definitionsChanged c)"
    by (cases "(L, op, c)" rule: size_released.cases) (auto simp: b(1,2) [THEN conjunct2])
  then have rel: "size_released L op c \<le> record_bytes L c"
    using b(3) [of "relTouches c"] b(3) [of "relDeletes c"] b(4) [of "definitionsChanged c"]
    unfolding record_bytes_def by linarith
  from add rel show "record_bytes L (effect L op c) - record_bytes L c \<le> size_added L op c - size_released L op c"
    "size_released L op c \<le> record_bytes L c" by blast+
qed

definition clash_free :: "'r change_op list \<Rightarrow> bool" where
  "clash_free ops \<longleftrightarrow> (\<forall>r t u. DefinitionChanged r (NamespaceDefinition t) \<in> set ops \<and>
     DefinitionChanged r (CaveatDefinition u) \<in> set ops \<longrightarrow> nsDefName t \<noteq> cavDefName u)"

fun op_size :: "spice_lib \<Rightarrow> 'r change_op \<Rightarrow> int" where
  "op_size L (RelChange _ rel _) = rel_size L rel"
| "op_size L (DefinitionChanged _ d) = def_size L d"
| "op_size L _ = 0"

lemma size_added_le: "lib_laws L \<Longrightarrow> known_op op \<Longrightarrow> size_added L op c \<le> op_size L op"
  by (cases "(L, op, c)" rule: size_added.cases) (auto simp: lib_laws.rel_size_nonneg)

lemma last_write_definitions:
  "last_write (definitions_of r ops) (nsPrefix @ n) = Some d \<Longrightarrow>
    \<exists>t. DefinitionChanged r (NamespaceDefinition t) \<in> set ops \<and> nsDefName t = n"
  unfolding last_write_def definitions_of_def
  by (drule map_of_SomeD, clarsimp split: change_op.splits)
    (rename_tac d' r', case_tac d', auto split: if_splits)

lemma no_clash_tracked:
  assumes "recorded L r ops c" and "clash_free (ops @ [op])" and "op_rev op = r"
  shows "no_clash op c"
proof (cases "(op, c)" rule: no_clash.cases)
  case (1 r' t c')
  then show ?thesis
    using assms last_write_definitions [of r ops "cavDefName t"]
    by (cases "last_write (definitions_of r ops) (nsPrefix @ cavDefName t)")
      (auto simp: recorded_def clash_free_def)
qed auto

text \<open>The accounting along a history.\<close>

definition sizes_ok :: "spice_lib \<Rightarrow> nat \<Rightarrow> ('r, 'k) changes \<Rightarrow> bool" where
  "sizes_ok L m ch \<longleftrightarrow> maxByteSize ch = m \<and> size_in_range ch \<and> bytes_held L ch \<le> currentByteSize ch"

lemma record_bytes_nonneg: "lib_laws L \<Longrightarrow> 0 \<le> record_bytes L c"
  by (simp add: record_bytes_def vals_sum_nonneg lib_laws.rel_size_nonneg lib_laws.def_size_nonneg)

lemma record_bytes_le_held: "lib_laws L \<Longrightarrow> record_bytes L (record_at ch r) \<le> bytes_held L ch"
  using old_val_bounds [of "record_bytes L" "chRecords ch" "chKeyFunc ch r"] record_bytes_nonneg
    vals_sum_nonneg [of "record_bytes L" "chRecords ch"]
  by (auto simp: bytes_held_def old_val_def record_at_def split: option.splits)

lemma step_sizes_ok:
  assumes lib: "lib_laws L" and "sizes_ok L m ch" and ok: "tracker_ok L ch"
    and "record_ok L (record_at ch (op_rev op))"
    and "known_op op" and "no_clash op (record_at ch (op_rev op))" and "op_size L op < 2 ^ 62"
  shows "snd (change_step L ch op) = Err (MaximumChangesSizeExceeded m) \<or>
    snd (change_step L ch op) = Ok () \<and> sizes_ok L m (fst (change_step L ch op))"
proof (cases "relevant (chContent ch) op")
  case False
  then show ?thesis using assms(2) by (simp add: step_irrelevant)
next
  case True
  let ?c = "record_at ch (op_rev op)" and ?ch' = "fst (change_step L ch op)"
  note e = effect_bytes [OF lib assms(4,6)]
  have m: "maxByteSize ch = m" and range: "size_in_range ch" and held: "bytes_held L ch \<le> currentByteSize ch"
    using assms(2) by (simp_all add: sizes_ok_def)
  have sub: "size_released L op ?c \<le> currentByteSize ch"
    using e(2) record_bytes_le_held [OF lib, of ch "op_rev op"] held by linarith
  have add: "size_added L op ?c < 2 ^ 62"
    using size_added_le [OF lib assms(5), of ?c] assms(7) by linarith
  note s = step_size [OF lib True assms(5) range sub add, unfolded Let_def m]
  show ?thesis
  proof (cases "snd (change_step L ch op) = Ok ()")
    case False
    with s show ?thesis by (auto split: if_splits)
  next
    case Ok: True
    then have cur: "currentByteSize ?ch' = currentByteSize ch - size_released L op ?c + size_added L op ?c"
      "currentByteSize ?ch' \<le> int m"
      using s by (auto split: if_splits)
    have recs: "chRecords ?ch' = gm_put (chKeyFunc ch (op_rev op)) (effect L op ?c) (chRecords ch)"
      using step_records [OF True, of L] Ok by auto
    have "bytes_held L ?ch' = bytes_held L ch - record_bytes L ?c + record_bytes L (effect L op ?c)"
      by (rule bytes_held_put [OF _ recs]) (use ok in \<open>simp add: tracker_ok_def\<close>)
    then have "bytes_held L ?ch' \<le> currentByteSize ?ch'" using cur e(1) held by linarith
    moreover have "0 \<le> bytes_held L ?ch'"
      by (simp add: bytes_held_def vals_sum_nonneg record_bytes_nonneg [OF lib])
    moreover have "maxByteSize ?ch' = m" using step_frame [of ch op L] m by (simp add: frame_def)
    ultimately show ?thesis
      using Ok cur(2) range m by (simp add: sizes_ok_def size_in_range_def)
  qed
qed



lemma nsPrefix_simps [simp]: "(nsPrefix @ a = nsPrefix @ b) = (a = b)" "(caveatPrefix @ a = caveatPrefix @ b) = (a = b)"
  by simp_all

text \<open>
  When a namespace and a caveat of one name change at one revision, the size of the namespace
  is taken off although it stays in the tracker: the recorded size is the caveat's alone, and a
  second change of the caveat ends in the underflow error when the namespace is the larger one.
\<close>

theorem caveat_releases_namespace_size:
  fixes r :: 'r and t :: ns_definition and u v :: caveat_definition and key :: "'r \<Rightarrow> 'k"
  assumes "lib_laws L" and "watchSchema content" and "nsDefName t = cavDefName u" and "cavDefName v = cavDefName u"
    and "0 < maxSize" and "int maxSize < 2 ^ 62"
    and "def_size L (NamespaceDefinition t) + def_size L (CaveatDefinition u) \<le> int maxSize"
  defines "ops \<equiv> [DefinitionChanged r (NamespaceDefinition t), DefinitionChanged r (CaveatDefinition u)]"
  shows "\<exists>ch. run_changes L (newChanges key content maxSize) ops = (ch, Ok ()) \<and>
    currentByteSize ch = def_size L (CaveatDefinition u) \<and>
    bytes_held L ch = def_size L (NamespaceDefinition t) + def_size L (CaveatDefinition u) \<and>
    (def_size L (CaveatDefinition u) < def_size L (NamespaceDefinition t) \<longrightarrow>
      snd (change_step L ch (DefinitionChanged r (CaveatDefinition v))) = Err (MustBug ''byte size underflow''))"
proof -
  note nn = lib_laws.def_size_nonneg [OF assms(1)]
  let ?n = "def_size L (NamespaceDefinition t)" and ?c = "def_size L (CaveatDefinition u)"
  have b: "0 \<le> ?n" "0 \<le> ?c" "?n \<le> int maxSize" "?c \<le> int maxSize"
    using nn [of "NamespaceDefinition t"] nn [of "CaveatDefinition u"] assms(7) by linarith+
  let ?rec = "(fresh_record r)\<lparr>definitionsChanged :=
      [(nsPrefix @ cavDefName u, NamespaceDefinition t), (caveatPrefix @ cavDefName u, CaveatDefinition u)]\<rparr>"
  let ?ch = "\<lparr>chRecords = [(key r, ?rec)], chKeyFunc = key, chContent = content, maxByteSize = maxSize,
      currentByteSize = ?c\<rparr>"
  have i: "i64 ?n = ?n" "i64 (- ?n) = - ?n" "i64 ?c = ?c" "i64 (?c - ?n) = ?c - ?n" "i64 0 = 0"
    using b assms(6) by (auto intro!: i64_id simp: is_i64_def)
  have "nsPrefix \<noteq> caveatPrefix" "\<not> maxSize < nat ?c" "\<not> maxSize < nat ?n"
    using b by (simp_all add: nsPrefix_def caveatPrefix_def not_less nat_le_iff)
  then have "run_changes L (newChanges key content maxSize) ops = (?ch, Ok ())"
    using assms(2,3,5,6) b i unfolding ops_def
    by (simp add: addChangedDefinition_def recordForRevision_def storeRecord_def adjustByteSize_def
        newChanges_def fresh_record_def Let_def)
  moreover have "bytes_held L ?ch = ?n + ?c"
    by (simp add: bytes_held_def vals_sum_def record_bytes_def fresh_record_def)
  moreover have "snd (change_step L ?ch (DefinitionChanged r (CaveatDefinition v))) =
      Err (MustBug ''byte size underflow'')" if "?c < ?n"
    using that assms(2,4,5) i
    by (simp add: addChangedDefinition_def recordForRevision_def storeRecord_def adjustByteSize_def
        fresh_record_def Let_def)
  ultimately show ?thesis by (intro exI [of _ ?ch]) simp
qed

theorem caveat_releases_namespace_size_witness:
  "\<exists>ch. run_changes ref_lib (newChanges timestampIDKeyFunc watch_all 100)
      [DefinitionChanged 1 (NamespaceDefinition \<lparr>nsDefName = ''doc'', nsDefBody = ''relations''\<rparr>),
       DefinitionChanged 1 (CaveatDefinition \<lparr>cavDefName = ''doc'', cavDefBody = ''x''\<rparr>)] = (ch, Ok ()) \<and>
    currentByteSize ch = 4 \<and> bytes_held ref_lib ch = 16"
proof -
  let ?t = "\<lparr>nsDefName = ''doc'', nsDefBody = ''relations''\<rparr>"
  let ?u = "\<lparr>cavDefName = ''doc'', cavDefBody = ''x''\<rparr>"
  have s: "def_size ref_lib (NamespaceDefinition ?t) = 12" "def_size ref_lib (CaveatDefinition ?u) = 4"
    by (simp_all add: ref_lib_def)
  have "watchSchema watch_all" by (simp add: watch_all_def)
  from caveat_releases_namespace_size [OF ref_lib.lib_laws_axioms this,
      where t = ?t and u = ?u and v = ?u and maxSize = 100 and r = 1 and key = timestampIDKeyFunc]
  show ?thesis unfolding s by (simp del: run_changes.simps) blast
qed

lemma i64_small: "0 \<le> x \<Longrightarrow> x < 2 ^ 62 * 2 \<Longrightarrow> i64 x = x"
  by (simp add: is_i64_def)

text \<open>Rounds of one touched relationship, each drained at once.\<close>

fun drained_rounds :: "spice_lib \<Rightarrow> nat \<Rightarrow> tuple_relationship \<Rightarrow> nat \<Rightarrow> (int, int) changes" where
  "drained_rounds L maxSize x 0 = newChanges timestampIDKeyFunc watch_all maxSize"
| "drained_rounds L maxSize x (Suc n) =
     fst (filterAndRemoveRevisionChanges L ts_methods timestampIDKeyLessThanFunc
       (fst (change_step L (drained_rounds L maxSize x n) (RelChange (int n) x UpdateOperationTouch)))
       (int n + 1))"

text \<open>
  Draining never gives back the bytes it emits: a relationship that fits into the limit is
  refused in the end although every change before it has been drained and the tracker is empty.
\<close>

theorem drain_keeps_bytes:
  assumes "lib_laws L" and "0 < maxSize" and "int maxSize < 2 ^ 62"
    and "0 < rel_size L x" and "rel_size L x \<le> int maxSize"
  defines "n \<equiv> nat (int maxSize div rel_size L x)"
  shows "isEmpty (drained_rounds L maxSize x n) \<and>
    snd (change_step L (drained_rounds L maxSize x n) (RelChange (int n) x UpdateOperationTouch)) =
      Err (MaximumChangesSizeExceeded maxSize)"
proof -
  let ?s = "rel_size L x"
  have rounds: "int k * ?s \<le> int maxSize \<Longrightarrow> drained_rounds L maxSize x k =
      (newChanges timestampIDKeyFunc watch_all maxSize)\<lparr>currentByteSize := int k * ?s\<rparr>" for k
  proof (induction k)
    case 0
    then show ?case by (simp add: newChanges_def)
  next
    case (Suc k)
    then have le: "int k * ?s \<le> int maxSize" "int k * ?s + ?s \<le> int maxSize" using assms(4) by (simp_all add: algebra_simps)
    have nn: "0 \<le> int k * ?s" using assms(4) by simp
    have pos: "0 \<le> int k * ?s + ?s" using nn assms(4) by simp
    moreover have "i64 ?s = ?s" "i64 (int k * ?s + ?s) = int k * ?s + ?s"
      using le(2) assms(3-5) by (simp_all add: i64_small pos)
    ultimately show ?case
      using Suc.IH [OF le(1)] le(2) assms(2)
      by (simp add: addRelationshipChange_def recordForRevision_def storeRecord_def adjustByteSize_def
          newChanges_def fresh_record_def filterAndRemoveRevisionChanges_def revisionChanges_def isEmpty_def
          removeAllChangesBefore_def ts_methods_def ts_compare_defs watch_all_def change_of_record_def
          timestampIDKeyFunc_def nat_le_iff algebra_simps Let_def)
  qed
  have n: "int n = int maxSize div ?s" using assms(4) by (simp add: n_def pos_imp_zdiv_nonneg_iff)
  have "int maxSize div ?s * ?s + int maxSize mod ?s = int maxSize" by (rule div_mult_mod_eq)
  moreover have "0 \<le> int maxSize mod ?s" "int maxSize mod ?s < ?s" using assms(4) by simp_all
  ultimately have le: "int n * ?s \<le> int maxSize" and gt: "int maxSize < int n * ?s + ?s"
    unfolding n by linarith+
  have nn: "0 \<le> int n * ?s + ?s" using assms(4) by simp
  have "i64 ?s = ?s" "i64 (int n * ?s + ?s) = int n * ?s + ?s"
    using le assms(3-5) by (simp_all add: i64_small nn)
  then show ?thesis
    using rounds [OF le] gt assms(2) nn
    by (simp add: addRelationshipChange_def recordForRevision_def storeRecord_def adjustByteSize_def
          newChanges_def fresh_record_def isEmpty_def watch_all_def nat_less_iff Let_def)
qed

theorem drain_keeps_bytes_witness:
  "isEmpty (drained_rounds ref_lib 100 (sample_rel ''d1'' ''u1'') 3) \<and>
   snd (change_step ref_lib (drained_rounds ref_lib 100 (sample_rel ''d1'' ''u1'') 3)
     (RelChange 3 (sample_rel ''d1'' ''u1'') UpdateOperationTouch)) = Err (MaximumChangesSizeExceeded 100)"
proof -
  have s: "rel_size ref_lib (sample_rel ''d1'' ''u1'') = 30"
    by (simp add: ref_lib_def show_rel_def sample_rel_def)
  from drain_keeps_bytes [OF ref_lib.lib_laws_axioms, of 100 "sample_rel ''d1'' ''u1''", unfolded s]
  show ?thesis by (simp del: drained_rounds.simps change_step.simps)
qed

end
