(* ===== verification/Memdb_Datastore.thy ===== *)
theory Memdb_Datastore
  imports Memdb_Defs Changes
begin

text \<open>
  \<open>memdb/memdb.go\<close>, \<open>memdb/revisions.go\<close>, \<open>memdb/watch.go\<close>, \<open>memdb/stats.go\<close> and \<open>memdb/errors.go\<close>: the
  in-memory datastore. A \<open>*memdb.MemDB\<close> is a pointer into a heap of database roots, because the code
  shares one between the live database and its first snapshot. Every critical section under the
  datastore's mutex is one function of the state; the clock readings are arguments.
\<close>

section \<open>State\<close>

text \<open>
  The packages outside: SpiceDB's library, go-memdb (\<open>'t\<close> are its transactions, \<open>'d\<close> the immutable
  roots of its databases), and the comparison methods of \<open>datastore.NoRevision\<close>.
\<close>

record ('d, 't) env =
  eLib :: spice_lib
  eTxnOps :: "'t txn_ops"
  eNewMemDB :: "'d result"
  eTxn :: "bool \<Rightarrow> 'd \<Rightarrow> 't"      \<comment> \<open>\<open>db.Txn(write)\<close>, on the current root\<close>
  eCommit :: "'t \<Rightarrow> 'd"           \<comment> \<open>the root \<open>tx.Commit\<close> installs\<close>
  eNoEqual :: "revision \<Rightarrow> bool"
  eNoGreater :: "revision \<Rightarrow> bool"
  eNoLess :: "revision \<Rightarrow> bool"

record 'd memdb_ds =
  dsDB :: "nat option"                     \<comment> \<open>\<open>mdb.db\<close>, \<open>None\<close> after \<open>Close\<close>\<close>
  dsRevisions :: "(int \<times> nat) list"        \<comment> \<open>\<open>mdb.revisions\<close>\<close>
  dsActive :: bool                         \<comment> \<open>\<open>mdb.activeWriteTxn\<close> is not nil\<close>
  dsNegativeGCWindow :: int
  dsQuantizationPeriod :: int
  dsWatchBufferLength :: nat
  dsUniqueID :: string
  dsHeap :: "(nat \<times> 'd) list"             \<comment> \<open>the databases\<close>
  dsNextPtr :: nat
  dsCounters :: counter_heap
  dsWriter :: bool                         \<comment> \<open>a write transaction holds the writer lock of the database\<close>
  dsLocked :: bool                         \<comment> \<open>somebody waits for it while holding \<open>mdb.Lock\<close>\<close>

definition defaultWatchBufferLength :: nat where "defaultWatchBufferLength = 128"
definition numAttempts :: nat where "numAttempts = 10"

definition root_at :: "'d memdb_ds \<Rightarrow> nat \<Rightarrow> 'd option" where
  "root_at ds p = map_of (dsHeap ds) p"

definition newMemdbDatastore ::
    "('d, 't) env \<Rightarrow> nat \<Rightarrow> int \<Rightarrow> int \<Rightarrow> nanotime \<Rightarrow> string \<Rightarrow> 'd memdb_ds result" where
  "newMemdbDatastore E bufferLength revisionQuantization gcWindow now uniqueID =
     (if revisionQuantization > gcWindow
      then Err (ErrorString ''gc window must be larger than quantization interval'')
      else case eNewMemDB E of
        Err e \<Rightarrow> Err e
      | Ok d \<Rightarrow> Ok \<lparr>dsDB = Some 0, dsRevisions = [(newForTime now, 0)], dsActive = False,
          dsNegativeGCWindow = i64 (gcWindow * - 1),
          dsQuantizationPeriod = (if revisionQuantization \<le> 1 then 1 else revisionQuantization),
          dsWatchBufferLength = (if bufferLength = 0 then defaultWatchBufferLength else bufferLength),
          dsUniqueID = uniqueID, dsHeap = [(0, d)], dsNextPtr = 1, dsCounters = [],
          dsWriter = False, dsLocked = False\<rparr>)"

definition metricsID :: "string result" where "metricsID = Ok ''memdb''"

definition uniqueID :: "'d memdb_ds \<Rightarrow> string result" where "uniqueID ds = Ok (dsUniqueID ds)"

definition supportsIntegrity :: bool where "supportsIntegrity = True"

definition checkNotClosed :: "'d memdb_ds \<Rightarrow> unit result" where
  "checkNotClosed ds = (case dsDB ds of None \<Rightarrow> Err ErrMemDBIsClosed | Some _ \<Rightarrow> Ok ())"

section \<open>Revisions\<close>

text \<open>The methods of a \<open>datastore.Revision\<close> of any kind.\<close>

definition rev_Equal :: "('d, 't) env \<Rightarrow> revision \<Rightarrow> revision \<Rightarrow> bool result" where
  "rev_Equal E r rhs = (case r of
     NoRevision \<Rightarrow> Ok (eNoEqual E rhs)
   | TimestampRev t \<Rightarrow> ts_Equal t rhs
   | TransactionIDRev x \<Rightarrow> tx_Equal x rhs
   | HLCRev t l \<Rightarrow> hlc_Equal \<lparr>hlcTime = t, logicalclock = l\<rparr> rhs)"

definition rev_GreaterThan :: "('d, 't) env \<Rightarrow> revision \<Rightarrow> revision \<Rightarrow> bool result" where
  "rev_GreaterThan E r rhs = (case r of
     NoRevision \<Rightarrow> Ok (eNoGreater E rhs)
   | TimestampRev t \<Rightarrow> ts_GreaterThan t rhs
   | TransactionIDRev x \<Rightarrow> tx_GreaterThan x rhs
   | HLCRev t l \<Rightarrow> hlc_GreaterThan \<lparr>hlcTime = t, logicalclock = l\<rparr> rhs)"

definition rev_LessThan :: "('d, 't) env \<Rightarrow> revision \<Rightarrow> revision \<Rightarrow> bool result" where
  "rev_LessThan E r rhs = (case r of
     NoRevision \<Rightarrow> Ok (eNoLess E rhs)
   | TimestampRev t \<Rightarrow> ts_LessThan t rhs
   | TransactionIDRev x \<Rightarrow> tx_LessThan x rhs
   | HLCRev t l \<Rightarrow> hlc_LessThan \<lparr>hlcTime = t, logicalclock = l\<rparr> rhs)"

definition nowRevision :: "nanotime \<Rightarrow> int" where
  "nowRevision now = newForTime now"

text \<open>The index expression panics when there is no revision.\<close>

definition headRevisionNoLock :: "'d memdb_ds \<Rightarrow> int result" where
  "headRevisionNoLock ds =
     (if dsRevisions ds = [] then Err (Panic ''index out of range'') else Ok (fst (last (dsRevisions ds))))"

definition newRevisionID :: "'d memdb_ds \<Rightarrow> nanotime \<Rightarrow> int result" where
  "newRevisionID ds now = (case headRevisionNoLock ds of
     Err e \<Rightarrow> Err e
   | Ok existing \<Rightarrow>
       (let created = nowRevision now
        in case ts_Equal created (TimestampRev existing) of
             Err e \<Rightarrow> Err e
           | Ok same \<Rightarrow> Ok (if same then newForTimestamp (i64 (ts_TimestampNanoSec created + 1)) else created)))"

definition headRevision :: "'d memdb_ds \<Rightarrow> revision result" where
  "headRevision ds = (case checkNotClosed ds of
     Err e \<Rightarrow> Err e
   | Ok _ \<Rightarrow> (case headRevisionNoLock ds of Err e \<Rightarrow> Err e | Ok h \<Rightarrow> Ok (TimestampRev h)))"

definition squashRevisionsForTesting :: "'d memdb_ds \<Rightarrow> nanotime \<Rightarrow> 'd memdb_ds" where
  "squashRevisionsForTesting ds now = (case dsDB ds of
     Some p \<Rightarrow> ds\<lparr>dsRevisions := [(nowRevision now, p)]\<rparr>
   | None \<Rightarrow> ds\<lparr>dsRevisions := []\<rparr>)"

definition optimizedRevision_ds :: "'d memdb_ds \<Rightarrow> nanotime \<Rightarrow> revision result" where
  "optimizedRevision_ds ds clock = (case checkNotClosed ds of
     Err e \<Rightarrow> Err e
   | Ok _ \<Rightarrow> (let now = nowRevision clock in
       Ok (TimestampRev (newForTimestamp (i64 (ts_TimestampNanoSec now -
         ts_TimestampNanoSec now smod dsQuantizationPeriod ds))))))"

definition revisionOutsideGCWindow ::
    "('d, 't) env \<Rightarrow> 'd memdb_ds \<Rightarrow> int \<Rightarrow> revision \<Rightarrow> bool result" where
  "revisionOutsideGCWindow E ds now revisionRaw = (case headRevisionNoLock ds of
     Err e \<Rightarrow> Err e
   | Ok h \<Rightarrow> (case rev_Equal E revisionRaw (TimestampRev h) of
       Err e \<Rightarrow> Err e
     | Ok True \<Rightarrow> Ok False
     | Ok False \<Rightarrow>
         rev_LessThan E revisionRaw
           (TimestampRev (newForTimestamp (i64 (ts_TimestampNanoSec now + dsNegativeGCWindow ds))))))"

definition checkRevisionLocalCallerMustLock ::
    "('d, 't) env \<Rightarrow> 'd memdb_ds \<Rightarrow> nanotime \<Rightarrow> revision \<Rightarrow> unit result" where
  "checkRevisionLocalCallerMustLock E ds clock dr =
     (let now = nowRevision clock in
      case revisionOutsideGCWindow E ds now dr of
        Err e \<Rightarrow> Err e
      | Ok True \<Rightarrow> Err (InvalidRevision dr RevisionStale)
      | Ok False \<Rightarrow>
          (case rev_GreaterThan E dr (TimestampRev now) of
             Err e \<Rightarrow> Err e
           | Ok False \<Rightarrow> Ok ()
           | Ok True \<Rightarrow>
               (case headRevisionNoLock ds of
                  Err e \<Rightarrow> Err e
                | Ok h \<Rightarrow>
                    (case rev_LessThan E dr (TimestampRev h) of
                       Err e \<Rightarrow> Err e
                     | Ok True \<Rightarrow> Ok ()
                     | Ok False \<Rightarrow>
                         (case rev_Equal E dr (TimestampRev h) of
                            Err e \<Rightarrow> Err e
                          | Ok True \<Rightarrow> Ok ()
                          | Ok False \<Rightarrow> Err (InvalidRevision dr CouldNotDetermineRevision))))))"

definition checkRevision_ds ::
    "('d, 't) env \<Rightarrow> 'd memdb_ds \<Rightarrow> nanotime \<Rightarrow> revision \<Rightarrow> unit result" where
  "checkRevision_ds E ds clock dr = (case checkNotClosed ds of
     Err e \<Rightarrow> Err e | Ok _ \<Rightarrow> checkRevisionLocalCallerMustLock E ds clock dr)"

section \<open>Snapshots\<close>

text \<open>The revision whose snapshot a reader at \<open>dr\<close> gets: the first that is not before it, or the last.\<close>

definition revision_index :: "'d memdb_ds \<Rightarrow> revision \<Rightarrow> nat" where
  "revision_index ds dr =
     (let n = length (dsRevisions ds);
          i = sort_search n (\<lambda>i. ts_GreaterThan (fst (dsRevisions ds ! i)) dr = Ok True \<or>
                ts_Equal (fst (dsRevisions ds ! i)) dr = Ok True)
      in if i = n then n - 1 else i)"

definition snapshotReader ::
    "('d, 't) env \<Rightarrow> 'd memdb_ds \<Rightarrow> nanotime \<Rightarrow> revision \<Rightarrow> 't reader" where
  "snapshotReader E ds now dr = (case checkNotClosed ds of
     Err e \<Rightarrow> error_reader e now
   | Ok _ \<Rightarrow>
       if dsRevisions ds = [] then error_reader (ErrorString ''memdb datastore is not ready'') now
       else (case checkRevisionLocalCallerMustLock E ds now dr of
         Err e \<Rightarrow> error_reader e now
       | Ok _ \<Rightarrow>
           (case root_at ds (snd (dsRevisions ds ! revision_index ds dr)) of
              None \<Rightarrow> error_reader (ErrorString ''memdb datastore is already closed'') now
            | Some d \<Rightarrow> \<lparr>rdLocker = NoopLocker, rdTxSource = Ok (eTxn E False d), rdInitErr = None,
                rdNow = now\<rparr>)))"

section \<open>One attempt of a read-write transaction\<close>

text \<open>The variables of the body of the retry loop: \<open>tx\<close>, \<open>createTxOnce\<close>, \<open>newRevision\<close>.\<close>

record 't attempt =
  atTx :: "'t option"
  atDB :: nat                        \<comment> \<open>the database the transaction was begun on\<close>
  atOnce :: bool
  atRevision :: int
  atNow :: nanotime

definition begin_attempt :: "'d memdb_ds \<Rightarrow> nanotime \<Rightarrow> nanotime \<Rightarrow> 't attempt result" where
  "begin_attempt ds clock now = (case newRevisionID ds clock of
     Err e \<Rightarrow> Err e
   | Ok r \<Rightarrow> Ok \<lparr>atTx = None, atDB = 0, atOnce = False, atRevision = r, atNow = now\<rparr>)"

text \<open>
  \<open>txSrc\<close>: the first call begins the transaction or fails; \<open>err\<close> is a fresh variable of every call,
  so a later call after a failed one returns a nil transaction without an error, and using it panics.
  \<open>db.Txn(true)\<close> waits for the writer lock of the database while the datastore's mutex is held.
\<close>

definition txSrc ::
    "('d, 't) env \<Rightarrow> 'd memdb_ds \<Rightarrow> 't attempt \<Rightarrow> 'd memdb_ds \<times> 't attempt \<times> 't result" where
  "txSrc E ds att =
     (if atOnce att
      then (ds, att, (case atTx att of Some t \<Rightarrow> Ok t | None \<Rightarrow> Err (Panic ''nil transaction'')))
      else let att1 = att\<lparr>atOnce := True\<rparr> in
        if dsActive ds then (ds, att1, Err ErrSerialization)
        else case dsDB ds of
          None \<Rightarrow> (ds, att1, Err ErrMemDBIsClosed)
        | Some p \<Rightarrow>
            (case root_at ds p of
               None \<Rightarrow> (ds, att1, Err (Panic ''dangling database''))
             | Some d \<Rightarrow>
                 if dsWriter ds then (ds\<lparr>dsLocked := True\<rparr>, att1, Err (Blocks ''writer lock''))
                 else (let t = eTxn E True d
                       in (ds\<lparr>dsActive := True, dsWriter := True\<rparr>, att1\<lparr>atTx := Some t, atDB := p\<rparr>, Ok t))))"

text \<open>The branch taken when the user function returns an error.\<close>

definition fail_attempt :: "'d memdb_ds \<Rightarrow> 't attempt \<Rightarrow> 'd memdb_ds" where
  "fail_attempt ds att = (case atTx att of None \<Rightarrow> ds
     | Some _ \<Rightarrow> ds\<lparr>dsActive := False, dsWriter := False\<rparr>)"

text \<open>What one of \<open>tx.Changes()\<close> adds to the tracked changes.\<close>

definition track_change ::
    "spice_lib \<Rightarrow> int \<Rightarrow> (int, int) changes \<Rightarrow> table \<times> row option \<times> row option \<Rightarrow>
     (int, int) changes \<times> unit result" where
  "track_change L newRev tracked change = (case change of (tb, before, after) \<Rightarrow>
     (case tb of
        TableRelationship \<Rightarrow>
          (case (after, before) of
             (Some raw, _) \<Rightarrow>
               (case as_relationship raw of Err e \<Rightarrow> (tracked, Err e) | Ok r \<Rightarrow>
                 (case row_Relationship L r of Err e \<Rightarrow> (tracked, Err e)
                  | Ok rt \<Rightarrow> addRelationshipChange L tracked newRev rt UpdateOperationTouch))
           | (None, Some raw) \<Rightarrow>
               (case as_relationship raw of Err e \<Rightarrow> (tracked, Err e) | Ok r \<Rightarrow>
                 (case row_Relationship L r of Err e \<Rightarrow> (tracked, Err e)
                  | Ok rt \<Rightarrow> addRelationshipChange L tracked newRev rt UpdateOperationDelete))
           | (None, None) \<Rightarrow> (tracked, Err (MustBug ''unexpected relationship change'')))
      | TableNamespace \<Rightarrow>
          (case (after, before) of
             (Some (NamespaceRow n), _) \<Rightarrow>
               (case unmarshal_ns L (nsConfigBytes n) of Err e \<Rightarrow> (tracked, Err e)
                | Ok loaded \<Rightarrow> addChangedDefinition L tracked newRev (NamespaceDefinition loaded))
           | (None, Some (NamespaceRow n)) \<Rightarrow> addDeletedNamespace tracked newRev (nsName n)
           | (None, None) \<Rightarrow> (tracked, Err (MustBug ''unexpected namespace change''))
           | _ \<Rightarrow> (tracked, Err (Panic ''interface conversion'')))
      | TableCaveats \<Rightarrow>
          (case (after, before) of
             (Some (CaveatRow c), _) \<Rightarrow>
               (case unmarshal_caveat L (cvDefinition c) of Err e \<Rightarrow> (tracked, Err e)
                | Ok loaded \<Rightarrow> addChangedDefinition L tracked newRev (CaveatDefinition loaded))
           | (None, Some (CaveatRow c)) \<Rightarrow> addDeletedCaveat tracked newRev (cvName c)
           | (None, None) \<Rightarrow> (tracked, Err (MustBug ''unexpected namespace change''))
           | _ \<Rightarrow> (tracked, Err (Panic ''interface conversion'')))
      | _ \<Rightarrow> (tracked, Ok ())))"

fun track_changes ::
    "spice_lib \<Rightarrow> int \<Rightarrow> (int, int) changes \<Rightarrow> (table \<times> row option \<times> row option) list \<Rightarrow>
     (int, int) changes \<times> unit result" where
  "track_changes L newRev tracked [] = (tracked, Ok ())"
| "track_changes L newRev tracked (c # cs) =
     (case track_change L newRev tracked c of
        (tracked', Err e) \<Rightarrow> (tracked', Err e)
      | (tracked', Ok _) \<Rightarrow> track_changes L newRev tracked' cs)"

definition no_changes :: revision_changes where
  "no_changes = \<lparr>chRevision = NoRevision, relationshipChanges = [], changedDefinitions = [],
     deletedNamespaces = [], deletedCaveats = [], isCheckpoint = False, chMetadatas = []\<rparr>"

text \<open>The changes of the transaction, as they go into the changelog.\<close>

definition transaction_changes ::
    "('d, 't) env \<Rightarrow> int \<Rightarrow> any_map \<Rightarrow> 't \<Rightarrow> revision_changes result" where
  "transaction_changes E newRev metadata t =
     (let L = eLib E;
          tracked = newChanges timestampIDKeyFunc watch_all 0;
          (tracked1, err1) = (if metadata = [] then (tracked, Ok ()) else addRevisionMetadata tracked newRev metadata)
      in case err1 of
           Err e \<Rightarrow> Err e
         | Ok _ \<Rightarrow>
             (case track_changes L newRev tracked1 (txChanges (eTxnOps E) t) of
                (_, Err e) \<Rightarrow> Err e
              | (tracked2, Ok _) \<Rightarrow>
                  (case asRevisionChanges L ts_methods timestampIDKeyLessThanFunc tracked2 of
                     Err e \<Rightarrow> Err e
                   | Ok changes \<Rightarrow>
                       if length changes > 1
                       then Err (MustBug ''unexpected MemDB transaction with multiple revision changes'')
                       else Ok (case changes of [] \<Rightarrow> no_changes | rc # _ \<Rightarrow> rc))))"

text \<open>
  The branch taken when the user function succeeds. An error return before the commit leaves the
  transaction open and registered.
\<close>

definition commit_attempt ::
    "('d, 't) env \<Rightarrow> any_map \<Rightarrow> 'd memdb_ds \<Rightarrow> 't attempt \<Rightarrow> 'd memdb_ds \<times> int result" where
  "commit_attempt E metadata ds att =
     (let newRev = atRevision att;
          finish = (\<lambda>ds1. (let ds2 = ds1\<lparr>dsActive := False\<rparr> in
             case dsDB ds2 of
               None \<Rightarrow> (ds2, Err ErrMemDBIsClosed)
             | Some p \<Rightarrow>
                 (case root_at ds2 p of
                    None \<Rightarrow> (ds2, Err (Panic ''dangling database''))
                  | Some d \<Rightarrow> (ds2\<lparr>dsHeap := (dsNextPtr ds2, d) # dsHeap ds2, dsNextPtr := dsNextPtr ds2 + 1,
                      dsRevisions := dsRevisions ds2 @ [(newRev, dsNextPtr ds2)]\<rparr>, Ok newRev))))
      in case atTx att of
           None \<Rightarrow> finish ds
         | Some t \<Rightarrow>
             (case transaction_changes E newRev metadata t of
                Err e \<Rightarrow> (ds, Err e)
              | Ok rc \<Rightarrow>
                  (case txInsert (eTxnOps E) t TableChangelog
                      (ChangelogRow \<lparr>clRevisionNanos = ts_TimestampNanoSec newRev, clChanges = rc\<rparr>) of
                     (_, Err e) \<Rightarrow> (ds, Err (Wrap ''error writing changelog'' e))
                   | (t', Ok _) \<Rightarrow> finish (ds\<lparr>dsWriter := False, dsHeap := gm_put (atDB att) (eCommit E t') (dsHeap ds)\<rparr>))))"

end
