(* ===== verification/Memdb_Txn.thy ===== *)
theory Memdb_Txn
  imports Memdb_Datastore
begin

text \<open>
  The rest of \<open>memdb/memdb.go\<close>: user functions over a read-write transaction, the retry loop of
  \<open>ReadWriteTx\<close>, \<open>Close\<close>, and the descriptions of the datastore. A \<open>datastore.TxUserFunc\<close> is a
  program of calls on the transaction; what it does next depends on the answers.
\<close>

section \<open>User functions\<close>

datatype rw_op =
    OpWrite "relationship_update list"
  | OpDelete relationship_filter_v1 "nat option"
  | OpBulkLoad "tuple_relationship result list"
  | OpRegisterCounter string opaque
  | OpUnregisterCounter string
  | OpStoreCounterValue string int revision
  | OpWriteNamespaces "ns_definition list"
  | OpDeleteNamespaces "string list" bool
  | OpWriteCaveats "caveat_definition list"
  | OpDeleteCaveats "string list"
  | OpQuery relationships_filter query_options
  | OpReverseQuery subjects_filter reverse_query_options
  | OpCount string
  | OpLookupCounters
  | OpReadNamespace string
  | OpListNamespaces
  | OpLookupNamespaces "string list"
  | OpReadCaveat string
  | OpListCaveats
  | OpLookupCaveats "string list"

datatype rw_answer =
    AnsUnit "unit result"
  | AnsDelete "((nat \<times> bool) \<times> unit result) result"
  | AnsBulkLoad nat "unit result"
  | AnsRelationships "tuple_relationship result list result"
  | AnsCount "nat result"
  | AnsCounters "relationship_counter list result"
  | AnsNamespace "(ns_definition \<times> revision) result"
  | AnsNamespaces "(ns_definition \<times> revision) list result"
  | AnsCaveat "(caveat_definition \<times> revision) result"
  | AnsCaveats "(caveat_definition \<times> revision) list result"

datatype prog = Done "unit result" | Call rw_op "rw_answer \<Rightarrow> prog"

fun do_op :: "spice_lib \<Rightarrow> 't txn_ops \<Rightarrow> 't rwt \<Rightarrow> rw_op \<Rightarrow> 't rwt \<times> rw_answer" where
  "do_op L T w (OpWrite us) = map_prod id AnsUnit (writeRelationships L T w us)"
| "do_op L T w (OpDelete fltr lim) = map_prod id AnsDelete (deleteRelationships L T w fltr lim)"
| "do_op L T w (OpBulkLoad src) = (case bulkLoad L T w 0 src of (w', n, res) \<Rightarrow> (w', AnsBulkLoad n res))"
| "do_op L T w (OpRegisterCounter name fltr) = map_prod id AnsUnit (registerCounter L T w name fltr)"
| "do_op L T w (OpUnregisterCounter name) = map_prod id AnsUnit (unregisterCounter T w name)"
| "do_op L T w (OpStoreCounterValue name v r) = map_prod id AnsUnit (storeCounterValue T w name v r)"
| "do_op L T w (OpWriteNamespaces ds) = map_prod id AnsUnit (writeNamespaces L T w ds)"
| "do_op L T w (OpDeleteNamespaces ns withRels) = map_prod id AnsUnit (deleteNamespaces L T w ns withRels)"
| "do_op L T w (OpWriteCaveats cs) = map_prod id AnsUnit (writeCaveats L T w cs)"
| "do_op L T w (OpDeleteCaveats ns) = map_prod id AnsUnit (deleteCaveats T w ns)"
| "do_op L T w (OpQuery fltr opts) = (w, AnsRelationships (queryRelationships L T (rwt_reader w) fltr opts))"
| "do_op L T w (OpReverseQuery fltr opts) =
     (w, AnsRelationships (reverseQueryRelationships L T (rwt_reader w) fltr opts))"
| "do_op L T w (OpCount name) = (w, AnsCount (countRelationships L T (rwHeap w) (rwt_reader w) name))"
| "do_op L T w OpLookupCounters = (w, AnsCounters (lookupCounters L T (rwHeap w) (rwt_reader w)))"
| "do_op L T w (OpReadNamespace n) = (w, AnsNamespace (readNamespaceByName L T (rwt_reader w) n))"
| "do_op L T w OpListNamespaces = (w, AnsNamespaces (listAllNamespaces L T (rwt_reader w)))"
| "do_op L T w (OpLookupNamespaces ns) = (w, AnsNamespaces (lookupNamespacesWithNames L T (rwt_reader w) ns))"
| "do_op L T w (OpReadCaveat n) = (w, AnsCaveat (readCaveatByName L T (rwt_reader w) n))"
| "do_op L T w OpListCaveats = (w, AnsCaveats (listAllCaveats L T (rwt_reader w)))"
| "do_op L T w (OpLookupCaveats ns) = (w, AnsCaveats (lookupCaveatsWithNames L T (rwt_reader w) ns))"

text \<open>The calls that return before they ask \<open>txSource\<close> for the transaction.\<close>

fun asks_for_tx :: "rw_op \<Rightarrow> bool" where
  "asks_for_tx (OpBulkLoad (Ok _ # _)) = True"
| "asks_for_tx (OpBulkLoad _) = False"
| "asks_for_tx (OpDeleteNamespaces ns _) = (ns \<noteq> [])"
| "asks_for_tx (OpLookupNamespaces ns) = (ns \<noteq> [])"
| "asks_for_tx _ = True"

fun err_of :: "'a result \<Rightarrow> go_error option" where
  "err_of (Err e) = Some e"
| "err_of (Ok _) = None"

text \<open>A panic inside a call, or a call that blocks, does not come back to the user function.\<close>

fun answer_abort :: "rw_answer \<Rightarrow> go_error option" where
  "answer_abort a = (case (case a of
       AnsUnit r \<Rightarrow> err_of r
     | AnsDelete r \<Rightarrow> (case r of Err e \<Rightarrow> Some e | Ok (_, r') \<Rightarrow> err_of r')
     | AnsBulkLoad _ r \<Rightarrow> err_of r
     | AnsRelationships r \<Rightarrow> err_of r
     | AnsCount r \<Rightarrow> err_of r
     | AnsCounters r \<Rightarrow> err_of r
     | AnsNamespace r \<Rightarrow> err_of r
     | AnsNamespaces r \<Rightarrow> err_of r
     | AnsCaveat r \<Rightarrow> err_of r
     | AnsCaveats r \<Rightarrow> err_of r) of
     None \<Rightarrow> None | Some e \<Rightarrow> if aborts e then Some e else None)"

section \<open>The read-write transaction\<close>

text \<open>\<open>memdbReadWriteTx\<close> with what \<open>txSrc\<close> answers; the user function makes one call at a time.\<close>

definition rwt_of :: "'d memdb_ds \<Rightarrow> 't attempt \<Rightarrow> 't result \<Rightarrow> 't rwt" where
  "rwt_of ds att src = \<lparr>rwLocker = MutexLocker False, rwTxSource = src,
     rwNewRevision = TimestampRev (atRevision att), rwNow = atNow att, rwHeap = dsCounters ds\<rparr>"

definition rw_call ::
    "('d, 't) env \<Rightarrow> 'd memdb_ds \<Rightarrow> 't attempt \<Rightarrow> rw_op \<Rightarrow> 'd memdb_ds \<times> 't attempt \<times> rw_answer" where
  "rw_call E ds att op =
     (let (ds1, att1, src) = (if asks_for_tx op then txSrc E ds att
            else (ds, att, Err (Panic ''no transaction'')));
          (w, ans) = do_op (eLib E) (eTxnOps E) (rwt_of ds1 att1 src) op
      in (ds1\<lparr>dsCounters := rwHeap w\<rparr>,
          (case rwTxSource w of Ok t \<Rightarrow> att1\<lparr>atTx := Some t\<rparr> | Err _ \<Rightarrow> att1), ans))"

primrec run_prog ::
    "('d, 't) env \<Rightarrow> prog \<Rightarrow> 'd memdb_ds \<Rightarrow> 't attempt \<Rightarrow> 'd memdb_ds \<times> 't attempt \<times> unit result" where
  "run_prog E (Done r) = (\<lambda>ds att. (ds, att, r))"
| "run_prog E (Call op k) = (\<lambda>ds att. case rw_call E ds att op of (ds1, att1, ans) \<Rightarrow>
     (case answer_abort ans of
        Some e \<Rightarrow> (ds1, att1, Err e)
      | None \<Rightarrow> run_prog E (k ans) ds1 att1))"

text \<open>One round of the loop: \<open>None\<close> means that it goes on.\<close>

definition attempt_tx ::
    "('d, 't) env \<Rightarrow> any_map \<Rightarrow> nanotime \<times> nanotime \<Rightarrow> prog \<Rightarrow> 'd memdb_ds \<Rightarrow> 'd memdb_ds \<times> int result option" where
  "attempt_tx E metadata clock f ds =
     (case begin_attempt ds (fst clock) (snd clock) of
        Err e \<Rightarrow> (ds, Some (Err e))
      | Ok att \<Rightarrow>
          (case run_prog E f ds att of
             (ds1, att1, Err e) \<Rightarrow>
               if aborts e then (ds1, Some (Err e))
               else let ds2 = fail_attempt ds1 att1
                    in (ds2, if is_serialization e then None else Some (Err e))
           | (ds1, att1, Ok _) \<Rightarrow> map_prod id Some (commit_attempt E metadata ds1 att1)))"

text \<open>The user function of the round and the readings of the clock are indexed by the round.\<close>

fun rw_loop ::
    "('d, 't) env \<Rightarrow> any_map \<Rightarrow> (nat \<Rightarrow> nanotime \<times> nanotime) \<Rightarrow> (nat \<Rightarrow> prog) \<Rightarrow> nat \<Rightarrow> nat \<Rightarrow>
     'd memdb_ds \<Rightarrow> 'd memdb_ds \<times> int result" where
  "rw_loop E metadata clock f i 0 ds = (ds, Err (SerializationMaxRetriesReached
     (ErrorString ''serialization max retries exceeded; please reduce your parallel writes'')))"
| "rw_loop E metadata clock f i (Suc n) ds =
     (case attempt_tx E metadata (clock i) (f i) ds of
        (ds1, Some res) \<Rightarrow> (ds1, res)
      | (ds1, None) \<Rightarrow> rw_loop E metadata clock f (Suc i) n ds1)"

definition readWriteTx ::
    "('d, 't) env \<Rightarrow> bool \<Rightarrow> any_map \<Rightarrow> (nat \<Rightarrow> nanotime \<times> nanotime) \<Rightarrow> (nat \<Rightarrow> prog) \<Rightarrow>
     'd memdb_ds \<Rightarrow> 'd memdb_ds \<times> int result" where
  "readWriteTx E disableRetries metadata clock f ds =
     rw_loop E metadata clock f 0 (if disableRetries then 1 else numAttempts) ds"

section \<open>State and features\<close>

definition readyState :: "'d memdb_ds \<Rightarrow> (string \<times> bool) result" where
  "readyState ds = Ok (''missing expected initial revision'', dsRevisions ds \<noteq> [])"

datatype feature_status = FeatureSupported | FeatureUnsupported

record features =
  ftWatch :: feature_status
  ftIntegrityData :: feature_status
  ftContinuousCheckpointing :: feature_status
  ftWatchEmitsImmediately :: feature_status

definition offlineFeatures :: "features result" where
  "offlineFeatures = Ok \<lparr>ftWatch = FeatureSupported, ftIntegrityData = FeatureSupported,
     ftContinuousCheckpointing = FeatureUnsupported, ftWatchEmitsImmediately = FeatureUnsupported\<rparr>"

definition features_ds :: "features result" where
  "features_ds = offlineFeatures"

definition close_ds :: "'d memdb_ds \<Rightarrow> nanotime \<Rightarrow> 'd memdb_ds" where
  "close_ds ds now = ds\<lparr>dsRevisions := (case dsDB ds of Some p \<Rightarrow> [(nowRevision now, p)] | None \<Rightarrow> []),
     dsDB := None\<rparr>"

end
