(* ===== verification/Memdb_Atomic.thy ===== *)
theory Memdb_Atomic
  imports Memdb_Txn
begin

text \<open>
  Transactions of the in-memory datastore as a whole: every call of a user function keeps the
  database well formed, a transaction takes effect entirely or not at all, and the snapshots other
  readers hold do not move.
\<close>

section \<open>Well-formed databases\<close>

text \<open>Rows as the write operations make them.\<close>

fun row_good :: "spice_lib \<Rightarrow> row \<Rightarrow> bool" where
  "row_good L (RelationshipRow r) \<longleftrightarrow> (\<exists>rel. r = row_of_relationship L rel)"
| "row_good L (NamespaceRow n) \<longleftrightarrow> (\<exists>d. unmarshal_ns L (nsConfigBytes n) = Ok d \<and> nsDefName d = nsName n)"
| "row_good L (CaveatRow c) \<longleftrightarrow> (\<exists>d. unmarshal_caveat L (cvDefinition c) = Ok d \<and> cavDefName d = cvName c)"
| "row_good L _ \<longleftrightarrow> True"

definition good :: "spice_lib \<Rightarrow> contents \<Rightarrow> bool" where
  "good L c \<longleftrightarrow> contents_ok c \<and> (\<forall>tb k r. c tb k = Some r \<longrightarrow> row_good L r)"

lemma good_stored: "good L c \<Longrightarrow> stored L c"
  by (fastforce simp: good_def stored_def)

lemma good_put:
  "good L c \<Longrightarrow> row_table r = tb \<Longrightarrow> key_ok (row_key r) \<Longrightarrow> row_good L r \<Longrightarrow> good L (put_row tb r c)"
  using contents_ok_put [of c r tb] by (auto simp: good_def put_row_def split: if_splits)

lemma good_del: "good L c \<Longrightarrow> good L (del_row tb k c)"
  using contents_ok_del [of c] by (auto simp: good_def del_row_def split: if_splits)

text \<open>The keys an index encodes or refuses.\<close>

definition insertable :: "key \<Rightarrow> bool" where
  "insertable k \<longleftrightarrow> key_ok k \<or> (\<exists>ks. k = StrKey ks \<and> [] \<in> set ks)"

fun op_ok :: "rw_op \<Rightarrow> bool" where
  "op_ok (OpWrite us) \<longleftrightarrow> (\<forall>u \<in> set us. insertable (StrKey (ref_key (rel_ref (updRelationship u)))))"
| "op_ok (OpBulkLoad src) \<longleftrightarrow> (\<forall>r. Ok r \<in> set src \<longrightarrow> insertable (StrKey (ref_key (rel_ref r))))"
| "op_ok (OpRegisterCounter name _) \<longleftrightarrow> insertable (StrKey [name])"
| "op_ok (OpWriteNamespaces ds) \<longleftrightarrow> (\<forall>d \<in> set ds. insertable (StrKey [nsDefName d]))"
| "op_ok (OpWriteCaveats cs) \<longleftrightarrow> (\<forall>c \<in> set cs. insertable (StrKey [cavDefName c]))"
| "op_ok _ \<longleftrightarrow> True"

primrec prog_ok :: "prog \<Rightarrow> bool" where
  "prog_ok (Done r) \<longleftrightarrow> True"
| "prog_ok (Call op k) \<longleftrightarrow> op_ok op \<and> (\<forall>a. prog_ok (k a))"

lemma fst_case_res:
  "fst (case p of (a, Err e) \<Rightarrow> (a, f e) | (a, Ok x) \<Rightarrow> (a, g x)) = fst p"
  by (simp split: prod.split sum.split)

context memdb_store begin

definition live :: "'t \<Rightarrow> bool" where
  "live t \<longleftrightarrow> valid t \<and> good L (view t) \<and> view t TableChangelog = base t TableChangelog"

definition keeps :: "'t \<Rightarrow> 't \<Rightarrow> bool" where
  "keeps t t' \<longleftrightarrow> live t' \<and> base t' = base t"

lemma keeps_refl [simp, intro]: "live t \<Longrightarrow> keeps t t"
  by (simp add: keeps_def)

lemma keeps_trans: "keeps t t' \<Longrightarrow> keeps t' t'' \<Longrightarrow> keeps t t''"
  by (simp add: keeps_def)

lemma keeps_live: "keeps t t' \<Longrightarrow> live t'"
  by (simp add: keeps_def)

lemma live_holds: "live t \<Longrightarrow> holds t"
  by (simp add: live_def holds_def good_stored)

lemma keeps_insert:
  assumes "live t" and "row_table r = tb" and "insertable (row_key r)" and "row_good L r"
    and "tb \<noteq> TableChangelog"
  shows "keeps t (fst (txInsert T t tb r))"
proof (cases "key_ok (row_key r)")
  case True
  with assms insert [of t r tb] obtain t' where
    "txInsert T t tb r = (t', Ok ())" "valid t'" "view t' = put_row tb r (view t)" "base t' = base t"
    by (auto simp: live_def)
  with assms True show ?thesis by (simp add: keeps_def live_def good_put) (simp add: put_row_def)
next
  case False
  with assms(3) obtain ks where "row_key r = StrKey ks" "[] \<in> set ks" by (auto simp: insertable_def)
  with assms(1) insert_missing [of t r ks tb] show ?thesis by (auto simp: live_def)
qed

lemma keeps_delete:
  assumes "live t" and "tb \<noteq> TableChangelog"
  shows "keeps t (fst (txDelete T t tb r))"
proof (cases "view t tb (row_key r)")
  case None
  with assms delete_missing [of t tb r] show ?thesis by (simp add: live_def)
next
  case (Some x)
  with assms delete_found [of t tb r] obtain t' where
    "txDelete T t tb r = (t', Ok ())" "valid t'" "view t' = del_row tb (row_key r) (view t)" "base t' = base t"
    by (auto simp: live_def)
  with assms show ?thesis by (simp add: keeps_def live_def good_del) (simp add: del_row_def)
qed

lemma keeps_insert_relationship:
  assumes "live t" and "insertable (StrKey (ref_key (rel_ref rel)))"
  shows "keeps t (fst (insert_relationship T t (row_of_relationship L rel)))"
proof -
  have "keeps t (fst (txInsert T t TableRelationship (RelationshipRow (row_of_relationship L rel))))"
    by (rule keeps_insert) (use assms in auto)
  then show ?thesis by (auto simp: insert_relationship_def split: prod.split sum.split)
qed

lemma keeps_write_one:
  assumes "live t"
    and "operation u = UpdateOperationDelete \<or> insertable (StrKey (ref_key (rel_ref (updRelationship u))))"
  shows "keeps t (fst (write_one L T t u))"
proof -
  have ins: "operation u \<noteq> UpdateOperationDelete \<Longrightarrow>
      keeps t (fst (insert_relationship T t (row_of_relationship L (updRelationship u))))"
    using keeps_insert_relationship [OF assms(1)] assms(2) by blast
  let ?k = "StrKey (rel_key (row_of_relationship L (updRelationship u)))"
  let ?ex = "\<lambda>found. case found of None \<Rightarrow> Ok None | Some raw \<Rightarrow> map_sum id Some (as_relationship raw)"
  show ?thesis
  proof (cases "txFirst T t TableRelationship ?k")
    case (Inr found)
    show ?thesis
    proof (cases "?ex found")
      case ex: (Inr existing)
      show ?thesis
      proof (cases existing)
        case None
        then show ?thesis
          using assms(1) ins Inr ex by (cases "operation u") (simp_all add: write_one_def Let_def)
      next
        case (Some x)
        then show ?thesis
          using assms(1) ins keeps_delete [OF assms(1)] Inr ex
          by (cases "operation u"; cases "row_Relationship L x")
            (simp_all add: write_one_def Let_def fst_case_res)
      qed
    qed (use assms(1) Inr in \<open>simp add: write_one_def Let_def\<close>)
  qed (use assms(1) in \<open>simp add: write_one_def Let_def\<close>)
qed

lemma keeps_write_rels:
  assumes "live t" and "\<forall>u \<in> set us. operation u = UpdateOperationDelete \<or>
    insertable (StrKey (ref_key (rel_ref (updRelationship u))))"
  shows "keeps t (fst (write_rels L T t us))"
  using assms
proof (induction us arbitrary: t)
  case (Cons u us)
  have 1: "keeps t (fst (write_one L T t u))" using Cons.prems by (intro keeps_write_one) auto
  show ?case
  proof (cases "write_one L T t u")
    case (Pair t1 res)
    with 1 have k: "keeps t t1" by simp
    have "keeps t1 (fst (write_rels L T t1 us))"
      by (rule Cons.IH [OF keeps_live [OF k]]) (use Cons.prems(2) in simp)
    from keeps_trans [OF k this] k show ?thesis by (cases res) (simp_all add: Pair)
  qed
qed simp

lemma collect_deletes_ops:
  "collect_deletes L lim n rs = Ok (ms, b) \<Longrightarrow> m \<in> set ms \<Longrightarrow> operation m = UpdateOperationDelete"
  by (induction L lim n rs arbitrary: ms b rule: collect_deletes.induct)
     (auto simp: delete_update_def split: sum.splits if_splits)

lemma keeps_deleteWithLock:
  assumes "live t"
  shows "keeps t (fst (deleteWithLock L T t fltr lim))"
proof (cases "filter_from_public L fltr")
  case 1: (Inr d)
  show ?thesis
  proof (cases "iteratorForFilter T t d")
    case 2: (Inr rows)
    show ?thesis
    proof (cases "map_res as_relationship rows")
      case 3: (Inr rels)
      show ?thesis
      proof (cases "collect_deletes L lim 0 (filter (\<lambda>r. \<not> relationshipFilterFilterFunc L fltr r) rels)")
        case 4: (Inr p)
        obtain ms b where p: "p = (ms, b)" by (cases p)
        have "keeps t (fst (write_rels L T t ms))"
          by (rule keeps_write_rels [OF assms]) (use collect_deletes_ops 4 p in blast)
        then show ?thesis using 1 2 3 4 p by (auto simp: deleteWithLock_def split: prod.split)
      qed (use assms 1 2 3 in \<open>simp add: deleteWithLock_def\<close>)
    qed (use assms 1 2 in \<open>simp add: deleteWithLock_def\<close>)
  qed (use assms 1 in \<open>simp add: deleteWithLock_def\<close>)
qed (use assms in \<open>simp add: deleteWithLock_def\<close>)

lemma keeps_write_namespaces:
  assumes "live t" and "\<forall>d \<in> set ds. insertable (StrKey [nsDefName d])"
  shows "keeps t (fst (write_namespaces L T rv t ds))"
  using assms
proof (induction ds arbitrary: t)
  case (Cons d ds)
  obtain b where b: "marshal_ns L d = Ok b" "unmarshal_ns L b = Ok d" using ns_roundtrip by blast
  let ?r = "NamespaceRow \<lparr>nsName = nsDefName d, nsConfigBytes = b, nsUpdated = rv\<rparr>"
  have k: "keeps t (fst (txInsert T t TableNamespace ?r))"
    by (rule keeps_insert) (use Cons.prems b in auto)
  then have "keeps (fst (txInsert T t TableNamespace ?r))
      (fst (write_namespaces L T rv (fst (txInsert T t TableNamespace ?r)) ds))"
    by (intro Cons.IH keeps_live) (use Cons.prems(2) in auto)
  from keeps_trans [OF k this] k b show ?case by (auto split: prod.split sum.split)
qed simp

lemma keeps_writeCaveat:
  assumes "live t" and "\<forall>d \<in> set ds. insertable (StrKey [cavDefName d])"
  shows "keeps t (fst (writeCaveat L T rv ns t ds))"
  using assms
proof (induction ds arbitrary: t ns)
  case (Cons d ds)
  obtain b where b: "marshal_caveat L d = Ok b" "unmarshal_caveat L b = Ok d" using caveat_roundtrip by blast
  let ?r = "CaveatRow \<lparr>cvName = cavDefName d, cvDefinition = b, cvRevision = rv\<rparr>"
  have k: "keeps t (fst (txInsert T t TableCaveats ?r))"
    by (rule keeps_insert) (use Cons.prems b in auto)
  then have "keeps (fst (txInsert T t TableCaveats ?r))
      (fst (writeCaveat L T rv (cavDefName d # ns) (fst (txInsert T t TableCaveats ?r)) ds))"
    by (intro Cons.IH keeps_live) (use Cons.prems(2) in auto)
  from keeps_trans [OF k this] k b Cons.prems(1) show ?case by (auto split: prod.split sum.split)
qed simp

lemma keeps_delete_caveats: "live t \<Longrightarrow> keeps t (fst (delete_caveats T t ns))"
proof (induction ns arbitrary: t)
  case (Cons n ns)
  let ?p = "txDelete T t TableCaveats (CaveatRow \<lparr>cvName = n, cvDefinition = [], cvRevision = NoRevision\<rparr>)"
  have k: "keeps t (fst ?p)" by (rule keeps_delete [OF Cons.prems]) simp
  from keeps_trans [OF k Cons.IH [OF keeps_live [OF k]]] k show ?case
    by (auto split: prod.split sum.split)
qed simp

lemma keeps_delete_namespaces: "live t \<Longrightarrow> keeps t (fst (delete_namespaces L T b t ns))"
proof (induction ns arbitrary: t)
  case (Cons n ns)
  show ?case
  proof (cases "txFirst T t TableNamespace (StrKey [n])")
    case 1: (Inr found)
    show ?thesis
    proof (cases found)
      case 2: (Some raw)
      let ?p = "txDelete T t TableNamespace raw"
      let ?q = "deleteWithLock L T (fst ?p) (resource_type_filter n) 0"
      have k: "keeps t (fst ?p)" by (rule keeps_delete [OF Cons.prems]) simp
      have q: "keeps t (fst ?q)"
        using keeps_trans [OF k keeps_deleteWithLock [OF keeps_live [OF k]]] .
      from keeps_trans [OF k Cons.IH [OF keeps_live [OF k]]] k q
        keeps_trans [OF q Cons.IH [OF keeps_live [OF q]]] 1 2
      show ?thesis by (auto split: prod.split sum.split)
    qed (use Cons.prems 1 in simp)
  qed (use Cons.prems in simp)
qed simp

section \<open>Calls\<close>

lemma with_wtx_keeps:
  assumes "rwt_on w t" and "keeps t (fst (f t))"
  shows "\<exists>t'. rwt_on (fst (with_wtx w f)) t' \<and> keeps t t'"
  using assms by (auto simp: with_wtx_def rwt_on_def split: prod.split)

lemma keeps_bulkLoad:
  assumes "live t" and "rwt_on w t" and "\<forall>r. Ok r \<in> set src \<longrightarrow> insertable (StrKey (ref_key (rel_ref r)))"
  shows "\<exists>t'. rwt_on (fst (bulkLoad L T w n src)) t' \<and> keeps t t'"
  using assms
proof (induction src arbitrary: t w n)
  case (Cons x src)
  show ?case
  proof (cases x)
    case (Inl e)
    then show ?thesis using Cons.prems by auto
  next
    case (Inr nxt)
    have "keeps t (fst (write_rels L T t [create_update nxt]))"
      by (rule keeps_write_rels) (use Cons.prems Inr in \<open>auto simp: create_update_def\<close>)
    from with_wtx_keeps [OF Cons.prems(2), of "\<lambda>tx. write_rels L T tx [create_update nxt]", OF this]
    obtain t1 where t1: "rwt_on (fst (writeRelationships L T w [create_update nxt])) t1" "keeps t t1"
      by (auto simp: writeRelationships_def)
    have "\<exists>t'. rwt_on (fst (bulkLoad L T (fst (writeRelationships L T w [create_update nxt])) (n + 1) src)) t' \<and>
        keeps t1 t'"
      by (rule Cons.IH [OF keeps_live [OF t1(2)] t1(1)]) (use Cons.prems(3) in simp)
    with t1 keeps_trans [OF t1(2)] show ?thesis
      by (cases "writeRelationships L T w [create_update nxt]"; cases "snd (writeRelationships L T w [create_update nxt])")
         (auto simp: Inr)
  qed
qed auto

lemma keeps_registerCounter:
  assumes "live t" and "rwt_on w t" and "insertable (StrKey [name])"
  shows "\<exists>t'. rwt_on (fst (registerCounter L T w name fltr)) t' \<and> keeps t t'"
proof (cases "txFirst T t TableCounters (StrKey [name])")
  case 1: (Inr found)
  have k: "keeps t (fst (txInsert T t TableCounters (CounterRow name (new_ref (rwHeap w)))))"
    by (rule keeps_insert) (use assms in auto)
  show ?thesis
  proof (cases found)
    case None
    with 1 k assms(1,2) show ?thesis
      by (cases "marshal_filter L fltr"; cases "txInsert T t TableCounters (CounterRow name (new_ref (rwHeap w)))";
          cases "snd (txInsert T t TableCounters (CounterRow name (new_ref (rwHeap w))))")
        (auto simp: registerCounter_def with_wtx_def rwt_on_def Let_def)
  qed (use assms(1,2) 1 in \<open>auto simp: registerCounter_def with_wtx_def rwt_on_def Let_def\<close>)
qed (use assms(1,2) in \<open>auto simp: registerCounter_def with_wtx_def rwt_on_def Let_def\<close>)

lemma keeps_storeCounterValue:
  assumes "live t" and "rwt_on w t"
  shows "\<exists>t'. rwt_on (fst (storeCounterValue T w name v rv)) t' \<and> keeps t t'"
proof -
  have v: "valid t" using assms(1) by (simp add: live_def)
  show ?thesis
  proof (cases "view t TableCounters (StrKey [name])")
    case None
    then show ?thesis using assms by (auto simp: storeCounterValue_def rwt_on_def first [OF v])
  next
    case (Some raw)
    from view_row [OF v Some] have raw: "row_table raw = TableCounters" "key_ok (row_key raw)" by auto
    then obtain n p where cr: "raw = CounterRow n p" by (cases raw) auto
    have k: "keeps t (fst (txInsert T t TableCounters raw))"
      by (rule keeps_insert) (use assms raw cr in \<open>auto simp: insertable_def\<close>)
    show ?thesis
      using assms Some k by (cases "map_of (rwHeap w) p")
        (auto simp: storeCounterValue_def rwt_on_def first [OF v] cr Let_def split: prod.split)
  qed
qed

lemma keeps_do_op:
  assumes "live t" and "rwt_on w t" and "op_ok op"
  shows "\<exists>t'. rwt_on (fst (do_op L T w op)) t' \<and> keeps t t'"
proof (cases op)
  case (OpWrite us)
  then show ?thesis
    using with_wtx_keeps [OF assms(2), of "\<lambda>tx. write_rels L T tx us"] keeps_write_rels [OF assms(1), of us] assms(3)
    by (auto simp: writeRelationships_def)
next
  case (OpDelete fltr lim)
  let ?f = "\<lambda>n tx. case deleteWithLock L T tx fltr n of (tx', out) \<Rightarrow> (tx', Ok out)"
  have k: "keeps t (fst (?f n t))" for n
    using keeps_deleteWithLock [OF assms(1), of fltr n] by (simp split: prod.split) auto
  then show ?thesis
    using OpDelete with_wtx_keeps [OF assms(2), of "?f (case lim of Some n \<Rightarrow> if n > 0 then n else 0 | None \<Rightarrow> 0)", OF k]
    by (simp add: deleteRelationships_def Let_def)
next
  case (OpBulkLoad src)
  then show ?thesis
    using keeps_bulkLoad [OF assms(1,2), of src 0] assms(3) by (cases "bulkLoad L T w 0 src") auto
next
  case (OpRegisterCounter name fltr)
  then show ?thesis using keeps_registerCounter [OF assms(1,2)] assms(3) by simp
next
  case (OpUnregisterCounter name)
  have "keeps t (fst (case txFirst T t TableCounters (StrKey [name]) of Err e \<Rightarrow> (t, Err e)
     | Ok None \<Rightarrow> (t, Err (CounterNotRegistered name)) | Ok (Some foundRaw) \<Rightarrow> txDelete T t TableCounters foundRaw))"
    using keeps_delete [OF assms(1)] assms(1) by (auto split: sum.split option.split)
  then show ?thesis using OpUnregisterCounter with_wtx_keeps [OF assms(2)]
    by (auto simp: unregisterCounter_def)
next
  case (OpStoreCounterValue name v r)
  then show ?thesis using keeps_storeCounterValue [OF assms(1,2)] by simp
next
  case (OpWriteNamespaces ds)
  then show ?thesis
    using with_wtx_keeps [OF assms(2), of "\<lambda>tx. write_namespaces L T (rwNewRevision w) tx ds"]
      keeps_write_namespaces [OF assms(1), of ds] assms(3)
    by (auto simp: writeNamespaces_def)
next
  case (OpDeleteNamespaces ns b)
  then show ?thesis
    using with_wtx_keeps [OF assms(2), of "\<lambda>tx. delete_namespaces L T b tx ns"]
      keeps_delete_namespaces [OF assms(1), of b ns] assms
    by (auto simp: deleteNamespaces_def)
next
  case (OpWriteCaveats cs)
  then show ?thesis
    using with_wtx_keeps [OF assms(2), of "\<lambda>tx. writeCaveat L T (rwNewRevision w) [] tx cs"]
      keeps_writeCaveat [OF assms(1), of cs] assms(3)
    by (auto simp: writeCaveats_def)
next
  case (OpDeleteCaveats ns)
  then show ?thesis
    using with_wtx_keeps [OF assms(2), of "\<lambda>tx. delete_caveats T tx ns"] keeps_delete_caveats [OF assms(1)]
    by (auto simp: deleteCaveats_def)
qed (use assms in auto)

end

text \<open>A transaction that could not be begun stays away.\<close>

lemma do_op_without_tx:
  assumes "rwLocker w = MutexLocker False" and "rwTxSource w = Err e"
  shows "rwTxSource (fst (do_op L T w op)) = Err e \<and> rwHeap (fst (do_op L T w op)) = rwHeap w"
proof (cases op)
  case (OpBulkLoad src)
  then show ?thesis
    using assms by (cases src; cases "hd src") (auto simp: writeRelationships_def with_wtx_def)
qed (use assms in \<open>auto simp: writeRelationships_def deleteRelationships_def registerCounter_def
      unregisterCounter_def storeCounterValue_def writeNamespaces_def deleteNamespaces_def
      writeCaveats_def deleteCaveats_def with_wtx_def Let_def\<close>)

section \<open>Databases and the state of the datastore\<close>

text \<open>
  What the documentation of go-memdb promises of a database: a new one is empty, a transaction starts
  from the committed rows, and a commit installs the rows the transaction sees.
\<close>

locale memdb_db = memdb_store T view base valid L
  for T :: "'t txn_ops" and view base :: "'t \<Rightarrow> contents" and valid :: "'t \<Rightarrow> bool" and L :: spice_lib +
  fixes E :: "('d, 't) env" and rows :: "'d \<Rightarrow> contents" and dvalid :: "'d \<Rightarrow> bool"
  assumes env: "eLib E = L" "eTxnOps E = T"
    and new_db: "eNewMemDB E = Ok d \<Longrightarrow> dvalid d \<and> rows d = (\<lambda>_ _. None)"
    and begin_txn: "dvalid d \<Longrightarrow> valid (eTxn E wr d) \<and> view (eTxn E wr d) = rows d \<and> base (eTxn E wr d) = rows d"
    and commit: "valid t \<Longrightarrow> dvalid (eCommit E t) \<and> rows (eCommit E t) = view t"

text \<open>The pointers in use are allocated; the committed rows of every database are well formed.\<close>

definition heap_ok :: "spice_lib \<Rightarrow> ('d \<Rightarrow> contents) \<Rightarrow> ('d \<Rightarrow> bool) \<Rightarrow> 'd memdb_ds \<Rightarrow> bool" where
  "heap_ok L rows dvalid ds \<longleftrightarrow>
     (\<forall>p d. root_at ds p = Some d \<longrightarrow> p < dsNextPtr ds \<and> dvalid d \<and> good L (rows d)) \<and>
     (\<forall>(r, p) \<in> set (dsRevisions ds). root_at ds p \<noteq> None) \<and>
     (\<forall>p. dsDB ds = Some p \<longrightarrow> root_at ds p \<noteq> None)"

text \<open>Open, with no write transaction under way.\<close>

definition ds_ready :: "spice_lib \<Rightarrow> ('d \<Rightarrow> contents) \<Rightarrow> ('d \<Rightarrow> bool) \<Rightarrow> 'd memdb_ds \<Rightarrow> bool" where
  "ds_ready L rows dvalid ds \<longleftrightarrow> heap_ok L rows dvalid ds \<and> dsDB ds \<noteq> None \<and> dsRevisions ds \<noteq> [] \<and>
     \<not> dsActive ds \<and> \<not> dsWriter ds \<and> \<not> dsLocked ds"

definition live_root :: "'d memdb_ds \<Rightarrow> 'd option" where
  "live_root ds = (case dsDB ds of None \<Rightarrow> None | Some p \<Rightarrow> root_at ds p)"

text \<open>The state while a user function runs that started from \<open>ds0\<close>.\<close>

definition running ::
    "('t \<Rightarrow> bool) \<Rightarrow> ('t \<Rightarrow> contents) \<Rightarrow> contents \<Rightarrow> 'd memdb_ds \<Rightarrow> 'd memdb_ds \<Rightarrow> 't attempt \<Rightarrow> bool" where
  "running lv base c ds0 ds att \<longleftrightarrow>
     (case atTx att of
        None \<Rightarrow> \<not> atOnce att \<and> (\<exists>h. ds = ds0\<lparr>dsCounters := h\<rparr>)
      | Some t \<Rightarrow> atOnce att \<and> lv t \<and> base t = c \<and> dsDB ds0 = Some (atDB att) \<and>
          (\<exists>h. ds = ds0\<lparr>dsActive := True, dsWriter := True, dsCounters := h\<rparr>))"

context memdb_db begin

abbreviation ready :: "'d memdb_ds \<Rightarrow> bool" where
  "ready \<equiv> ds_ready L rows dvalid"

lemma ready_root:
  assumes "ready ds"
  obtains p d where "dsDB ds = Some p" "root_at ds p = Some d" "live_root ds = Some d" "dvalid d" "good L (rows d)"
  using assms by (fastforce simp: ds_ready_def heap_ok_def live_root_def)

lemma running_call:
  assumes "ready ds0" and "live_root ds0 = Some d" and "running live base (rows d) ds0 ds att" and "op_ok op"
    and "rw_call E ds att op = (ds', att', ans)"
  shows "running live base (rows d) ds0 ds' att' \<and> atRevision att' = atRevision att"
proof -
  obtain p where p: "dsDB ds0 = Some p" "root_at ds0 p = Some d" "dvalid d" "good L (rows d)"
    using ready_root [OF assms(1)] assms(2) by auto
  have flags: "\<not> dsActive ds0" "\<not> dsWriter ds0" using assms(1) by (simp_all add: ds_ready_def)
  have step: ?thesis if "live t" "base t = rows d"
      and att1: "atTx att1 = Some t" "atOnce att1" "atDB att1 = p" "atRevision att1 = atRevision att"
      and ds1: "ds1 = ds0\<lparr>dsActive := True, dsWriter := True, dsCounters := h\<rparr>"
      and eqs: "ds' = ds1\<lparr>dsCounters := rwHeap (fst (do_op L T (rwt_of ds1 att1 (Ok t)) op))\<rparr>"
        "att' = (case rwTxSource (fst (do_op L T (rwt_of ds1 att1 (Ok t)) op)) of
           Ok t \<Rightarrow> att1\<lparr>atTx := Some t\<rparr> | Err _ \<Rightarrow> att1)" for t att1 ds1 h
  proof -
    have "rwt_on (rwt_of ds1 att1 (Ok t)) t" by (simp add: rwt_on_def rwt_of_def)
    from keeps_do_op [OF that(1) this assms(4)] obtain t' where
      "rwt_on (fst (do_op L T (rwt_of ds1 att1 (Ok t)) op)) t'" "keeps t t'" by blast
    with that p show ?thesis
      by (simp add: running_def rwt_on_def keeps_def) (intro exI, rule refl)?
  qed
  obtain ds1 att1 src where src: "(if asks_for_tx op then txSrc E ds att else (ds, att, Err (Panic ''no transaction''))) =
      (ds1, att1, src)" by (metis prod_cases3)
  have eqs: "ds' = ds1\<lparr>dsCounters := rwHeap (fst (do_op L T (rwt_of ds1 att1 src) op))\<rparr>"
    "att' = (case rwTxSource (fst (do_op L T (rwt_of ds1 att1 src) op)) of
       Ok t \<Rightarrow> att1\<lparr>atTx := Some t\<rparr> | Err _ \<Rightarrow> att1)"
    using assms(5) src by (auto simp: rw_call_def env split: prod.splits)
  show ?thesis
  proof (cases "asks_for_tx op")
    case False
    then have "ds1 = ds" "att1 = att" "src = Err (Panic ''no transaction'')" using src by simp_all
    with eqs do_op_without_tx [of "rwt_of ds att src" "Panic ''no transaction''" L T op] assms(3)
    show ?thesis by (simp add: rwt_of_def)
  next
    case asks: True
    show ?thesis
    proof (cases "atTx att")
      case None
      then obtain h where att: "\<not> atOnce att" "ds = ds0\<lparr>dsCounters := h\<rparr>"
        using assms(3) by (auto simp: running_def)
      then have ds: "\<not> dsActive ds" "\<not> dsWriter ds" "dsDB ds = Some p" "root_at ds p = Some d"
        using p flags by (simp_all add: root_at_def)
      then have "ds1 = ds\<lparr>dsActive := True, dsWriter := True\<rparr>"
        "att1 = att\<lparr>atOnce := True, atTx := Some (eTxn E True d), atDB := p\<rparr>" "src = Ok (eTxn E True d)"
        using src asks att(1) by (simp_all add: txSrc_def Let_def)
      with eqs show ?thesis
        by (intro step [of "eTxn E True d" att1 ds1 h])
          (use begin_txn [OF p(3), of True] p(4) att(2) in \<open>simp_all add: live_def\<close>)
    next
      case (Some t)
      then obtain h where att: "atOnce att" "live t" "base t = rows d" "atDB att = p"
        "ds = ds0\<lparr>dsActive := True, dsWriter := True, dsCounters := h\<rparr>"
        using assms(3) p(1) by (auto simp: running_def)
      then have "ds1 = ds" "att1 = att" "src = Ok t" using src asks Some by (simp_all add: txSrc_def)
      with eqs att Some show ?thesis by (intro step [of t att1 ds1 h]) simp_all
    qed
  qed
qed

lemma running_prog:
  assumes "ready ds0" and "live_root ds0 = Some d"
    and "running live base (rows d) ds0 ds att" and "prog_ok f" and "run_prog E f ds att = (ds', att', r)"
  shows "running live base (rows d) ds0 ds' att' \<and> atRevision att' = atRevision att"
  using assms(3-5)
proof (induction f arbitrary: ds att)
  case (Call op k)
  obtain ds1 att1 ans where c: "rw_call E ds att op = (ds1, att1, ans)" by (metis prod_cases3)
  have 1: "running live base (rows d) ds0 ds1 att1 \<and> atRevision att1 = atRevision att"
    by (rule running_call [OF assms(1,2) Call.prems(1) _ c]) (use Call.prems(2) in simp)
  show ?case
  proof (cases "answer_abort ans")
    case None
    then show ?thesis using Call.IH [of "k ans" ds1 att1] Call.prems 1 c by auto
  next
    case (Some e)
    then show ?thesis using Call.prems 1 c by simp
  qed
qed auto

lemma running_fail:
  assumes "ready ds0" and "running live base c ds0 ds att"
  shows "\<exists>h. fail_attempt ds att = ds0\<lparr>dsCounters := h\<rparr>"
proof -
  have "\<not> dsActive ds0" "\<not> dsWriter ds0" using assms(1) by (simp_all add: ds_ready_def)
  with assms(2) show ?thesis
    by (cases "atTx att"; cases ds0) (auto simp: running_def fail_attempt_def)
qed

end

end
