(* ===== verification/Memdb_Changelog.thy ===== *)
theory Memdb_Changelog
  imports Memdb_Atomic
begin

text \<open>
  The changelog a commit writes: the changes of the transaction as a history of the change tracker,
  and that replaying them on the relationships the transaction started from gives those it ends with.
\<close>

section \<open>The changes of a transaction as a history\<close>

fun ops_of_change :: "spice_lib \<Rightarrow> int \<Rightarrow> table \<times> row option \<times> row option \<Rightarrow> int change_op list" where
  "ops_of_change L r (TableRelationship, _, Some (RelationshipRow x)) =
     [RelChange r (projr (row_Relationship L x)) UpdateOperationTouch]"
| "ops_of_change L r (TableRelationship, Some (RelationshipRow x), None) =
     [RelChange r (projr (row_Relationship L x)) UpdateOperationDelete]"
| "ops_of_change L r (TableNamespace, _, Some (NamespaceRow n)) =
     [DefinitionChanged r (NamespaceDefinition (projr (unmarshal_ns L (nsConfigBytes n))))]"
| "ops_of_change L r (TableNamespace, Some (NamespaceRow n), None) = [NamespaceDeleted r (nsName n)]"
| "ops_of_change L r (TableCaveats, _, Some (CaveatRow c)) =
     [DefinitionChanged r (CaveatDefinition (projr (unmarshal_caveat L (cvDefinition c))))]"
| "ops_of_change L r (TableCaveats, Some (CaveatRow c), None) = [CaveatDeleted r (cvName c)]"
| "ops_of_change L r _ = []"

definition change_ok :: "spice_lib \<Rightarrow> table \<times> row option \<times> row option \<Rightarrow> bool" where
  "change_ok L c = (case c of (tb, before, after) \<Rightarrow>
     (before \<noteq> None \<or> after \<noteq> None) \<and>
     (\<forall>x. before = Some x \<or> after = Some x \<longrightarrow> row_table x = tb \<and> row_good L x))"

lemma unlimited_adjust [simp]: "maxByteSize ch = 0 \<Longrightarrow> adjustByteSize ch n d = (ch, Ok ())"
  by (simp add: adjustByteSize_def)

lemma unlimited_step:
  assumes "maxByteSize ch = 0" and "known_op op"
  shows "\<exists>ch'. change_step L ch op = (ch', Ok ()) \<and> maxByteSize ch' = 0"
proof (cases op)
  case (RelChange r rel u)
  then show ?thesis using assms by (auto simp: tracker_ops split: option.split)
next
  case (DefinitionChanged r d)
  then show ?thesis using assms by (cases d) (auto simp: tracker_ops split: option.split)
qed (use assms(1) in \<open>auto simp: tracker_ops split: option.split\<close>)

lemma unlimited_run:
  "maxByteSize ch = 0 \<Longrightarrow> \<forall>op \<in> set ops. known_op op \<Longrightarrow>
    \<exists>ch'. run_changes L ch ops = (ch', Ok ()) \<and> maxByteSize ch' = 0"
proof (induction ops arbitrary: ch)
  case (Cons op ops)
  from unlimited_step [OF Cons.prems(1), of op L] Cons.prems(2) obtain ch1 where
    c: "change_step L ch op = (ch1, Ok ())" "maxByteSize ch1 = 0" by auto
  from Cons.IH [OF c(2)] Cons.prems(2) c(1) show ?case by simp
qed simp

lemma known_ops_of_change: "op \<in> set (ops_of_change L r c) \<Longrightarrow> known_op op \<and> op_rev op = r"
  by (induction L r c rule: ops_of_change.induct) auto

context lib_laws begin

lemma track_change_run:
  assumes "change_ok L c" and "maxByteSize ch = 0"
  shows "track_change L r ch c = run_changes L ch (ops_of_change L r c)"
proof -
  obtain tb before after where c: "c = (tb, before, after)" by (metis prod_cases3)
  note rt = row_roundtrip [OF lib_laws_axioms]
  show ?thesis
  proof (cases after)
    case (Some x)
    with assms(1) have x: "row_table x = tb" "row_good L x" by (auto simp: change_ok_def c)
    with Some show ?thesis
      by (cases x) (auto simp: c track_change_def rt split: prod.split sum.split)
  next
    case None
    with assms(1) obtain y where y: "before = Some y" by (auto simp: change_ok_def c)
    with assms(1) have x: "row_table y = tb" "row_good L y" by (auto simp: change_ok_def c)
    with None y show ?thesis
      by (cases y) (auto simp: c track_change_def rt split: prod.split sum.split)
  qed
qed

lemma track_changes_run:
  assumes "\<forall>c \<in> set cs. change_ok L c" and "maxByteSize ch = 0"
  shows "track_changes L r ch cs = run_changes L ch (concat (map (ops_of_change L r) cs))"
  using assms
proof (induction cs arbitrary: ch)
  case (Cons c cs)
  have k: "\<forall>op \<in> set (ops_of_change L r c). known_op op" using known_ops_of_change by blast
  from unlimited_run [OF Cons.prems(2) k] obtain ch1 where
    c: "run_changes L ch (ops_of_change L r c) = (ch1, Ok ())" "maxByteSize ch1 = 0" by blast
  then show ?case
    using Cons.IH [OF _ c(2)] Cons.prems track_change_run [of c ch r] by (simp add: run_changes_append)
qed simp

end

section \<open>One revision\<close>

definition history_of :: "spice_lib \<Rightarrow> int \<Rightarrow> any_map \<Rightarrow> (table \<times> row option \<times> row option) list \<Rightarrow> int change_op list" where
  "history_of L r metadata cs =
     (if metadata = [] then [] else [MetadataChange r metadata]) @ concat (map (ops_of_change L r) cs)"

lemma relevant_ops_of_change: "op \<in> set (ops_of_change L r c) \<Longrightarrow> relevant watch_all op"
  by (induction L r c rule: ops_of_change.induct) (auto simp: watch_all_def)

lemma history_rev:
  assumes "op \<in> set (history_of L r metadata cs)"
  shows "op_rev op = r" "relevant watch_all op"
proof -
  have "op_rev op = r \<and> relevant watch_all op"
  proof (cases "metadata \<noteq> [] \<and> op = MetadataChange r metadata")
    case False
    then obtain c where "op \<in> set (ops_of_change L r c)" using assms by (auto simp: history_of_def split: if_splits)
    then show ?thesis using known_ops_of_change relevant_ops_of_change by blast
  qed auto
  then show "op_rev op = r" "relevant watch_all op" by simp_all
qed

lemma net_change_empty: "net_change L r [] no_changes"
  by (simp add: net_change_def no_changes_def history_defs)

context lib_laws begin

lemma one_revision:
  assumes "run_changes L (newChanges timestampIDKeyFunc watch_all 0) ops = (ch, Ok ())"
    and "\<forall>op \<in> set ops. op_rev op = r \<and> relevant watch_all op"
    and "\<forall>m. MetadataChange r m \<in> set ops \<longrightarrow> (\<exists>s. new_struct L m = Ok s)"
  shows "\<exists>cs. asRevisionChanges L ts_methods timestampIDKeyLessThanFunc ch = Ok cs \<and>
    (cs = [] \<and> ops = [] \<or> (\<exists>c. cs = [c] \<and> net_change L r ops c))"
proof -
  have meta: "\<forall>r' m. MetadataChange r' m \<in> set ops \<longrightarrow> (\<exists>s. new_struct L m = Ok s)"
    using assms(2,3) by fastforce
  obtain rs cs where e: "asRevisionChanges L ts_methods timestampIDKeyLessThanFunc ch = Ok cs"
    "sorted_wrt (\<lambda>a b. ts_LessThan a (TimestampRev b) = Ok True) rs"
    "set rs = op_rev ` {op \<in> set ops. relevant watch_all op}"
    "list_all2 (\<lambda>r c. chRevision c = rvInterface ts_methods r \<and> net_change L r (filter (relevant watch_all) ops) c) rs cs"
    using emission_exact [OF tsc.change_tracker_axioms assms(1) meta] by blast
  have ops: "filter (relevant watch_all) ops = ops" using assms(2) by (simp add: filter_id_conv)
  have rs: "set rs \<subseteq> {r}" using e(3) assms(2) by auto
  have "distinct rs"
    using e(2) by (induction rs) (auto simp: ts_compare_defs)
  with rs have "rs = [] \<or> rs = [r]" by (cases rs; cases "tl rs") auto
  moreover have "rs = [] \<Longrightarrow> ops = []" using e(3) assms(2) by (cases ops) auto
  ultimately show ?thesis using e(1,4) unfolding ops by (auto simp: list_all2_Cons1)
qed

lemma transaction_changes_net:
  assumes "eLib E = L" and "\<forall>c \<in> set (txChanges (eTxnOps E) t). change_ok L c"
    and "metadata = [] \<or> (\<exists>s. new_struct L metadata = Ok s)"
  shows "\<exists>rc. transaction_changes E r metadata t = Ok rc \<and>
    net_change L r (history_of L r metadata (txChanges (eTxnOps E) t)) rc"
proof -
  let ?cs = "txChanges (eTxnOps E) t"
  let ?new = "newChanges timestampIDKeyFunc watch_all 0"
  let ?md = "if metadata = [] then [] else [MetadataChange r metadata]"
  obtain ch1 where 1: "run_changes L ?new ?md = (ch1, Ok ())" "maxByteSize ch1 = 0"
  proof -
    have "maxByteSize ?new = 0" "\<forall>op \<in> set ?md. known_op op" by simp_all
    from unlimited_run [OF this, of L] that show thesis by blast
  qed
  have "\<forall>op \<in> set (concat (map (ops_of_change L r) ?cs)). known_op op"
    using known_ops_of_change by fastforce
  from unlimited_run [OF 1(2) this, of L] obtain ch2 where
    2: "run_changes L ch1 (concat (map (ops_of_change L r) ?cs)) = (ch2, Ok ())" by blast
  have run: "run_changes L ?new (history_of L r metadata ?cs) = (ch2, Ok ())"
    unfolding history_of_def run_changes_append 1(1) by (simp add: 2)
  have md: "(if metadata = [] then (?new, Ok ()) else addRevisionMetadata ?new r metadata) = (ch1, Ok ())"
    using 1(1) by (simp split: if_splits prod.splits sum.splits)
  have tr: "track_changes L r ch1 ?cs = (ch2, Ok ())"
    using track_changes_run [OF assms(2) 1(2)] 2 by simp
  have hist: "\<forall>op \<in> set (history_of L r metadata ?cs). op_rev op = r \<and> relevant watch_all op"
    using history_rev [of _ L r metadata ?cs] by blast
  have "\<forall>m. MetadataChange r m \<in> set (history_of L r metadata ?cs) \<longrightarrow> (\<exists>s. new_struct L m = Ok s)"
  proof (intro allI impI)
    fix m assume m: "MetadataChange r m \<in> set (history_of L r metadata ?cs)"
    have "MetadataChange r m \<notin> set (ops_of_change L r c)" for c
      by (induction L r c rule: ops_of_change.induct) auto
    with m assms(3) show "\<exists>s. new_struct L m = Ok s" by (auto simp: history_of_def split: if_splits)
  qed
  from one_revision [OF run hist this] obtain cs where
    cs: "asRevisionChanges L ts_methods timestampIDKeyLessThanFunc ch2 = Ok cs"
    "cs = [] \<and> history_of L r metadata ?cs = [] \<or> (\<exists>c. cs = [c] \<and> net_change L r (history_of L r metadata ?cs) c)"
    by blast
  then show ?thesis
    using net_change_empty [of L r]
    by (auto simp: transaction_changes_def assms(1) md tr Let_def cong: if_cong)
qed

end

section \<open>Replaying the changes\<close>

text \<open>The printed identities tell the relationships apart: the tracker merges what prints alike.\<close>

definition names_apart :: "spice_lib \<Rightarrow> tuple_relationship set \<Rightarrow> bool" where
  "names_apart L S \<longleftrightarrow> (\<forall>a \<in> S. \<forall>b \<in> S. string_without L a = string_without L b \<longrightarrow> rel_ref a = rel_ref b)"

fun apply_change :: "store \<Rightarrow> update_operation \<times> tuple_relationship \<Rightarrow> store" where
  "apply_change m (UpdateOperationTouch, rel) = m(rel_ref rel \<mapsto> rel)"
| "apply_change m (_, rel) = m(rel_ref rel := None)"

definition apply_changes :: "store \<Rightarrow> (update_operation \<times> tuple_relationship) list \<Rightarrow> store" where
  "apply_changes = foldl apply_change"

lemma apply_changes_other: "k \<notin> rel_ref ` snd ` set cs \<Longrightarrow> apply_changes m cs k = m k"
proof (induction cs rule: rev_induct)
  case (snoc c cs)
  then show ?case by (cases "(m, c)" rule: apply_change.cases) (auto simp: apply_changes_def)
qed (simp add: apply_changes_def)

lemma apply_changes_at:
  assumes "inj_on (rel_ref \<circ> snd) (set cs)" and "c \<in> set cs"
  shows "apply_changes m cs (rel_ref (snd c)) = (if fst c = UpdateOperationTouch then Some (snd c) else None)"
  using assms
proof (induction cs rule: rev_induct)
  case (snoc d cs)
  show ?case
  proof (cases "d = c")
    case True
    then show ?thesis by (cases "(m, c)" rule: apply_change.cases) (auto simp: apply_changes_def)
  next
    case False
    with snoc.prems have "rel_ref (snd d) \<noteq> rel_ref (snd c)" "c \<in> set cs" by (auto simp: inj_on_def)
    with snoc.IH snoc.prems(1) show ?thesis
      by (cases "(m, d)" rule: apply_change.cases) (auto simp: apply_changes_def)
  qed
qed simp

lemma last_write_functional:
  assumes "\<And>v v'. (k, v) \<in> set kvs \<Longrightarrow> (k, v') \<in> set kvs \<Longrightarrow> v = v'"
  shows "last_write kvs k = Some v \<longleftrightarrow> (k, v) \<in> set kvs"
proof
  assume "last_write kvs k = Some v"
  then show "(k, v) \<in> set kvs" by (auto simp: last_write_def dest: map_of_SomeD)
next
  assume kv: "(k, v) \<in> set kvs"
  then have "k \<in> fst ` set (rev kvs)" by force
  then obtain v' where v': "map_of (rev kvs) k = Some v'" by (metis map_of_eq_None_iff not_Some_eq)
  then have "(k, v') \<in> set kvs" by (auto dest: map_of_SomeD)
  with assms [OF kv] v' show "last_write kvs k = Some v" by (simp add: last_write_def)
qed

text \<open>Which changes the written keys give.\<close>

definition changes_between :: "(table \<times> key) list \<Rightarrow> contents \<Rightarrow> contents \<Rightarrow> (table \<times> row option \<times> row option) list" where
  "changes_between ks b v = map (\<lambda>(tb, k). (tb, b tb k, v tb k)) ks"

definition written :: "(table \<times> key) list \<Rightarrow> obj_and_rel \<times> obj_and_rel \<Rightarrow> bool" where
  "written ks rs \<longleftrightarrow> (TableRelationship, StrKey (ref_key rs)) \<in> set ks"

context lib_laws begin

lemmas rt = row_roundtrip [OF lib_laws_axioms]

lemma relationship_ops:
  assumes "stored L b" and "stored L v"
  obtains rel where "k = StrKey (ref_key (rel_ref rel))" "abs_store L v (rel_ref rel) = Some rel"
      "ops_of_change L r (TableRelationship, b TableRelationship k, v TableRelationship k) =
        [RelChange r rel UpdateOperationTouch]"
  | rel where "k = StrKey (ref_key (rel_ref rel))" "abs_store L v (rel_ref rel) = None"
      "abs_store L b (rel_ref rel) = Some rel"
      "ops_of_change L r (TableRelationship, b TableRelationship k, v TableRelationship k) =
        [RelChange r rel UpdateOperationDelete]"
  | "v TableRelationship k = None" "b TableRelationship k = None"
proof (cases "v TableRelationship k")
  case (Some x)
  from stored_row [OF assms(2) this] obtain rel where
    "x = RelationshipRow (row_of_relationship L rel)" "k = StrKey (ref_key (rel_ref rel))" by blast
  with Some that(1) [of rel] show ?thesis
    by (simp add: rt abs_store_Some [OF lib_laws_axioms assms(2)])
next
  case v: None
  show ?thesis
  proof (cases "b TableRelationship k")
    case (Some x)
    from stored_row [OF assms(1) this] obtain rel where
      "x = RelationshipRow (row_of_relationship L rel)" "k = StrKey (ref_key (rel_ref rel))" by blast
    with v Some that(2) [of rel] show ?thesis
      by (simp add: rt abs_store_Some [OF lib_laws_axioms assms(1)] abs_store_None [OF lib_laws_axioms assms(2)])
  qed (use v that(3) in blast)
qed

lemma touches_of_history:
  assumes "stored L v" and "stored L b"
  shows "(s, rel) \<in> set (touches_of L r (history_of L r metadata (changes_between ks b v))) \<longleftrightarrow>
    s = string_without L rel \<and> written ks (rel_ref rel) \<and> abs_store L v (rel_ref rel) = Some rel"
proof -
  have one: "(s, rel) \<in> set (touches_of L r (ops_of_change L r (tb, b tb k, v tb k))) \<longleftrightarrow>
      s = string_without L rel \<and> tb = TableRelationship \<and> k = StrKey (ref_key (rel_ref rel)) \<and>
      abs_store L v (rel_ref rel) = Some rel" for tb k
  proof (cases "tb = TableRelationship")
    case True
    show ?thesis
    proof (rule relationship_ops [OF assms(2,1), of k r])
      assume n: "v TableRelationship k = None" "b TableRelationship k = None"
      then have "k \<noteq> StrKey (ref_key (rel_ref rel)) \<or> abs_store L v (rel_ref rel) = None"
        using abs_store_None [OF lib_laws_axioms assms(1)] by auto
      with n True show ?thesis by (auto simp: touches_of_def)
    next
      fix x
      assume k: "k = StrKey (ref_key (rel_ref x))" and v: "abs_store L v (rel_ref x) = Some x"
        and o: "ops_of_change L r (TableRelationship, b TableRelationship k, v TableRelationship k) =
          [RelChange r x UpdateOperationTouch]"
      have "touches_of L r (ops_of_change L r (tb, b tb k, v tb k)) = [(string_without L x, x)]"
        unfolding True o by (simp add: touches_of_def)
      moreover have "rel_ref rel = rel_ref x \<and> abs_store L v (rel_ref rel) = Some rel \<longleftrightarrow> rel = x"
        using v by (metis option.sel)
      moreover have "k = StrKey (ref_key (rel_ref rel)) \<longleftrightarrow> rel_ref rel = rel_ref x" unfolding k by auto
      ultimately show ?thesis using True by auto
    next
      fix x
      assume k: "k = StrKey (ref_key (rel_ref x))" and v: "abs_store L v (rel_ref x) = None"
        and o: "ops_of_change L r (TableRelationship, b TableRelationship k, v TableRelationship k) =
          [RelChange r x UpdateOperationDelete]"
      have "touches_of L r (ops_of_change L r (tb, b tb k, v tb k)) = []"
        unfolding True o by (simp add: touches_of_def)
      moreover have "k = StrKey (ref_key (rel_ref rel)) \<Longrightarrow> abs_store L v (rel_ref rel) = None"
        using v unfolding k by simp
      ultimately show ?thesis by auto
    qed
  next
    case False
    then show ?thesis
      by (cases "(L, r, tb, b tb k, v tb k)" rule: ops_of_change.cases) (auto simp: touches_of_def)
  qed
  have app: "touches_of L r (xs @ ys) = touches_of L r xs @ touches_of L r ys" for xs ys
    by (simp add: touches_of_def)
  have md: "touches_of L r (if metadata = [] then [] else [MetadataChange r metadata]) = []"
    by (simp add: touches_of_def)
  have con: "set (touches_of L r (concat (map (ops_of_change L r) cs))) =
      (\<Union>c \<in> set cs. set (touches_of L r (ops_of_change L r c)))" for cs
    by (induction cs) (simp_all add: app, simp add: touches_of_def)
  have "(s, rel) \<in> set (touches_of L r (history_of L r metadata (changes_between ks b v))) \<longleftrightarrow>
      (\<exists>tb k. (tb, k) \<in> set ks \<and> (s, rel) \<in> set (touches_of L r (ops_of_change L r (tb, b tb k, v tb k))))"
    unfolding history_of_def app md append_Nil con changes_between_def by (auto intro: rev_bexI)
  then show ?thesis unfolding one written_def by blast
qed

lemma deletes_of_history:
  assumes "stored L v" and "stored L b"
  shows "(s, rel) \<in> set (deletes_of L r (history_of L r metadata (changes_between ks b v))) \<longleftrightarrow>
    s = string_without L rel \<and> written ks (rel_ref rel) \<and> abs_store L b (rel_ref rel) = Some rel \<and>
    abs_store L v (rel_ref rel) = None"
proof -
  have one: "(s, rel) \<in> set (deletes_of L r (ops_of_change L r (tb, b tb k, v tb k))) \<longleftrightarrow>
      s = string_without L rel \<and> tb = TableRelationship \<and> k = StrKey (ref_key (rel_ref rel)) \<and>
      abs_store L b (rel_ref rel) = Some rel \<and> abs_store L v (rel_ref rel) = None" for tb k
  proof (cases "tb = TableRelationship")
    case True
    show ?thesis
    proof (rule relationship_ops [OF assms(2,1), of k r])
      assume n: "v TableRelationship k = None" "b TableRelationship k = None"
      then have "k \<noteq> StrKey (ref_key (rel_ref rel)) \<or> abs_store L b (rel_ref rel) = None"
        using abs_store_None [OF lib_laws_axioms assms(2)] by auto
      with n True show ?thesis by (auto simp: deletes_of_def)
    next
      fix x
      assume k: "k = StrKey (ref_key (rel_ref x))" and v: "abs_store L v (rel_ref x) = Some x"
        and o: "ops_of_change L r (TableRelationship, b TableRelationship k, v TableRelationship k) =
          [RelChange r x UpdateOperationTouch]"
      have "deletes_of L r (ops_of_change L r (tb, b tb k, v tb k)) = []"
        unfolding True o by (simp add: deletes_of_def)
      moreover have "k = StrKey (ref_key (rel_ref rel)) \<Longrightarrow> abs_store L v (rel_ref rel) \<noteq> None"
        using v unfolding k by simp
      ultimately show ?thesis by auto
    next
      fix x
      assume k: "k = StrKey (ref_key (rel_ref x))" and v: "abs_store L v (rel_ref x) = None"
        and b: "abs_store L b (rel_ref x) = Some x"
        and o: "ops_of_change L r (TableRelationship, b TableRelationship k, v TableRelationship k) =
          [RelChange r x UpdateOperationDelete]"
      have "deletes_of L r (ops_of_change L r (tb, b tb k, v tb k)) = [(string_without L x, x)]"
        unfolding True o by (simp add: deletes_of_def)
      moreover have "rel_ref rel = rel_ref x \<and> abs_store L b (rel_ref rel) = Some rel \<and>
          abs_store L v (rel_ref rel) = None \<longleftrightarrow> rel = x"
        using v b by (metis option.sel)
      moreover have "k = StrKey (ref_key (rel_ref rel)) \<longleftrightarrow> rel_ref rel = rel_ref x" unfolding k by auto
      ultimately show ?thesis using True by auto
    qed
  next
    case False
    then show ?thesis
      by (cases "(L, r, tb, b tb k, v tb k)" rule: ops_of_change.cases) (auto simp: deletes_of_def)
  qed
  have app: "deletes_of L r (xs @ ys) = deletes_of L r xs @ deletes_of L r ys" for xs ys
    by (simp add: deletes_of_def)
  have md: "deletes_of L r (if metadata = [] then [] else [MetadataChange r metadata]) = []"
    by (simp add: deletes_of_def)
  have con: "set (deletes_of L r (concat (map (ops_of_change L r) cs))) =
      (\<Union>c \<in> set cs. set (deletes_of L r (ops_of_change L r c)))" for cs
    by (induction cs) (simp_all add: app, simp add: deletes_of_def)
  have "(s, rel) \<in> set (deletes_of L r (history_of L r metadata (changes_between ks b v))) \<longleftrightarrow>
      (\<exists>tb k. (tb, k) \<in> set ks \<and> (s, rel) \<in> set (deletes_of L r (ops_of_change L r (tb, b tb k, v tb k))))"
    unfolding history_of_def app md append_Nil con changes_between_def by (auto intro: rev_bexI)
  then show ?thesis unfolding one written_def by blast
qed

lemma net_relationships:
  assumes st: "stored L v" "stored L b" and apart: "names_apart L (ran (abs_store L b) \<union> ran (abs_store L v))"
    and net: "net_change L r (history_of L r metadata (changes_between ks b v)) rc"
  shows "set (relationshipChanges rc) =
    {(UpdateOperationTouch, rel) | rel. written ks (rel_ref rel) \<and> abs_store L v (rel_ref rel) = Some rel} \<union>
    {(UpdateOperationDelete, rel) | rel. written ks (rel_ref rel) \<and> abs_store L b (rel_ref rel) = Some rel \<and>
       abs_store L v (rel_ref rel) = None}"
proof -
  let ?h = "history_of L r metadata (changes_between ks b v)"
  note T = touches_of_history [OF st, of _ _ r metadata ks]
  note D = deletes_of_history [OF st, of _ _ r metadata ks]
  have same: "rel_ref x = rel_ref y" if "string_without L x = string_without L y"
    "abs_store L v (rel_ref x) = Some x \<or> abs_store L b (rel_ref x) = Some x"
    "abs_store L v (rel_ref y) = Some y \<or> abs_store L b (rel_ref y) = Some y" for x y
    using apart that unfolding names_apart_def ran_def by blast
  have touch: "last_write (touches_of L r ?h) k = Some rel \<longleftrightarrow> (k, rel) \<in> set (touches_of L r ?h)" for k rel
  proof (rule last_write_functional)
    fix x y assume "(k, x) \<in> set (touches_of L r ?h)" "(k, y) \<in> set (touches_of L r ?h)"
    then have x: "k = string_without L x" "abs_store L v (rel_ref x) = Some x"
      and y: "k = string_without L y" "abs_store L v (rel_ref y) = Some y" unfolding T by simp_all
    have "rel_ref x = rel_ref y" by (rule same) (use x y in simp_all)
    with x(2) y(2) show "x = y" by (metis option.inject)
  qed
  have delete: "last_write (deletes_of L r ?h) k = Some rel \<longleftrightarrow> (k, rel) \<in> set (deletes_of L r ?h)" for k rel
  proof (rule last_write_functional)
    fix x y assume "(k, x) \<in> set (deletes_of L r ?h)" "(k, y) \<in> set (deletes_of L r ?h)"
    then have x: "k = string_without L x" "abs_store L b (rel_ref x) = Some x"
      and y: "k = string_without L y" "abs_store L b (rel_ref y) = Some y" unfolding D by simp_all
    have "rel_ref x = rel_ref y" by (rule same) (use x y in simp_all)
    with x(2) y(2) show "x = y" by (metis option.inject)
  qed
  have untouched: "last_write (touches_of L r ?h) (string_without L rel) = None"
    if "abs_store L b (rel_ref rel) = Some rel" "abs_store L v (rel_ref rel) = None" for rel
  proof (rule ccontr)
    assume "last_write (touches_of L r ?h) (string_without L rel) \<noteq> None"
    then obtain x where "last_write (touches_of L r ?h) (string_without L rel) = Some x" by blast
    then have x: "string_without L rel = string_without L x" "abs_store L v (rel_ref x) = Some x"
      unfolding touch T by simp_all
    have "rel_ref rel = rel_ref x" by (rule same) (use x that in simp_all)
    with x(2) that(2) show False by simp
  qed
  show ?thesis
  proof (rule set_eqI)
    fix c
    have "set (relationshipChanges rc) =
       {(UpdateOperationTouch, rel) | k rel. (k, rel) \<in> set (touches_of L r ?h)} \<union>
       {(UpdateOperationDelete, rel) | k rel. last_write (touches_of L r ?h) k = None \<and>
          (k, rel) \<in> set (deletes_of L r ?h)}"
      using net unfolding net_change_def touch delete by blast
    then show "c \<in> set (relationshipChanges rc) \<longleftrightarrow> c \<in>
      {(UpdateOperationTouch, rel) | rel. written ks (rel_ref rel) \<and> abs_store L v (rel_ref rel) = Some rel} \<union>
      {(UpdateOperationDelete, rel) | rel. written ks (rel_ref rel) \<and> abs_store L b (rel_ref rel) = Some rel \<and>
         abs_store L v (rel_ref rel) = None}"
      using untouched unfolding T D by blast
  qed
qed

lemma replay:
  assumes st: "stored L v" "stored L b"
    and ks: "\<And>tb k. v tb k \<noteq> b tb k \<Longrightarrow> (tb, k) \<in> set ks"
    and cs: "set cs =
      {(UpdateOperationTouch, rel) | rel. written ks (rel_ref rel) \<and> abs_store L v (rel_ref rel) = Some rel} \<union>
      {(UpdateOperationDelete, rel) | rel. written ks (rel_ref rel) \<and> abs_store L b (rel_ref rel) = Some rel \<and>
         abs_store L v (rel_ref rel) = None}"
  shows "apply_changes (abs_store L b) cs = abs_store L v"
proof
  fix k
  have inj: "inj_on (rel_ref \<circ> snd) (set cs)"
  proof (rule inj_onI)
    fix c d
    assume cd: "c \<in> set cs" "d \<in> set cs" and e: "(rel_ref \<circ> snd) c = (rel_ref \<circ> snd) d"
    have at: "fst x = UpdateOperationTouch \<and> abs_store L v (rel_ref (snd x)) = Some (snd x) \<or>
        fst x = UpdateOperationDelete \<and> abs_store L v (rel_ref (snd x)) = None \<and>
          abs_store L b (rel_ref (snd x)) = Some (snd x)" if "x \<in> set cs" for x
      using that unfolding cs by auto
    have "fst c = fst d \<and> snd c = snd d"
      using at [OF cd(1)] at [OF cd(2)] e by (metis comp_apply option.distinct(1) option.inject)
    then show "c = d" by (simp add: prod_eq_iff)
  qed
  show "apply_changes (abs_store L b) cs k = abs_store L v k"
  proof (cases "k \<in> rel_ref ` snd ` set cs")
    case True
    then obtain c where "c \<in> set cs" "k = rel_ref (snd c)" by auto
    with apply_changes_at [OF inj, of c "abs_store L b"] show ?thesis by (auto simp: cs)
  next
    case False
    have "abs_store L b k = abs_store L v k"
    proof (cases "written ks k")
      case True
      show ?thesis
      proof (cases "abs_store L v k")
        case (Some rel)
        with True abs_store_ref [OF lib_laws_axioms st(1) Some] have "(UpdateOperationTouch, rel) \<in> set cs"
          by (simp add: cs)
        with False abs_store_ref [OF lib_laws_axioms st(1) Some] show ?thesis by force
      next
        case None
        show ?thesis
        proof (cases "abs_store L b k")
          case (Some rel)
          with True None abs_store_ref [OF lib_laws_axioms st(2) Some] have "(UpdateOperationDelete, rel) \<in> set cs"
            by (simp add: cs)
          with False abs_store_ref [OF lib_laws_axioms st(2) Some] show ?thesis by force
        qed (simp add: None)
      qed
    next
      case False
      then have "v TableRelationship (StrKey (ref_key k)) = b TableRelationship (StrKey (ref_key k))"
        using ks by (auto simp: written_def)
      then show ?thesis by (simp add: abs_store_def)
    qed
    then show ?thesis using apply_changes_other [OF False] by simp
  qed
qed

end

section \<open>Schema changes\<close>

definition ns_at :: "spice_lib \<Rightarrow> contents \<Rightarrow> string \<Rightarrow> ns_definition option" where
  "ns_at L c n = (case c TableNamespace (StrKey [n]) of
     Some (NamespaceRow x) \<Rightarrow> (case unmarshal_ns L (nsConfigBytes x) of Ok d \<Rightarrow> Some d | Err _ \<Rightarrow> None)
   | _ \<Rightarrow> None)"

definition cav_at :: "spice_lib \<Rightarrow> contents \<Rightarrow> string \<Rightarrow> caveat_definition option" where
  "cav_at L c n = (case c TableCaveats (StrKey [n]) of
     Some (CaveatRow x) \<Rightarrow> (case unmarshal_caveat L (cvDefinition x) of Ok d \<Rightarrow> Some d | Err _ \<Rightarrow> None)
   | _ \<Rightarrow> None)"

lemma good_ns:
  assumes "good L c"
  shows "(c TableNamespace k = None \<and> (\<forall>n. k = StrKey [n] \<longrightarrow> ns_at L c n = None)) \<or>
    (\<exists>n x d. k = StrKey [n] \<and> c TableNamespace k = Some (NamespaceRow x) \<and> nsName x = n \<and>
       unmarshal_ns L (nsConfigBytes x) = Ok d \<and> ns_at L c n = Some d \<and> nsDefName d = n)"
proof (cases "c TableNamespace k")
  case (Some x)
  with assms have "row_table x = TableNamespace" "row_key x = k" "row_good L x"
    by (auto simp: good_def contents_ok_def)
  with Some show ?thesis by (cases x) (auto simp: ns_at_def)
qed (auto simp: ns_at_def)

lemma good_cav:
  assumes "good L c"
  shows "(c TableCaveats k = None \<and> (\<forall>n. k = StrKey [n] \<longrightarrow> cav_at L c n = None)) \<or>
    (\<exists>n x d. k = StrKey [n] \<and> c TableCaveats k = Some (CaveatRow x) \<and> cvName x = n \<and>
       unmarshal_caveat L (cvDefinition x) = Ok d \<and> cav_at L c n = Some d \<and> cavDefName d = n)"
proof (cases "c TableCaveats k")
  case (Some x)
  with assms have "row_table x = TableCaveats" "row_key x = k" "row_good L x"
    by (auto simp: good_def contents_ok_def)
  with Some show ?thesis by (cases x) (auto simp: cav_at_def)
qed (auto simp: cav_at_def)

lemma history_member:
  "op \<in> set (history_of L r metadata (changes_between ks b v)) \<longleftrightarrow>
    (metadata \<noteq> [] \<and> op = MetadataChange r metadata) \<or>
    (\<exists>tb k. (tb, k) \<in> set ks \<and> op \<in> set (ops_of_change L r (tb, b tb k, v tb k)))"
  by (auto simp: history_of_def changes_between_def intro: rev_bexI)

lemma ops_of_change_table:
  "DefinitionChanged r' (NamespaceDefinition d) \<in> set (ops_of_change L r (tb, x, y)) \<Longrightarrow> tb = TableNamespace"
  "DefinitionChanged r' (CaveatDefinition cd) \<in> set (ops_of_change L r (tb, x, y)) \<Longrightarrow> tb = TableCaveats"
  "NamespaceDeleted r' n \<in> set (ops_of_change L r (tb, x, y)) \<Longrightarrow> tb = TableNamespace"
  "CaveatDeleted r' n \<in> set (ops_of_change L r (tb, x, y)) \<Longrightarrow> tb = TableCaveats"
  by (cases "(L, r, tb, x, y)" rule: ops_of_change.cases; simp)+

lemma schema_history:
  assumes "good L b" and "good L v" and h_def: "h = history_of L r metadata (changes_between ks b v)"
  shows "DefinitionChanged r (NamespaceDefinition d) \<in> set h \<longleftrightarrow>
      (TableNamespace, StrKey [nsDefName d]) \<in> set ks \<and> ns_at L v (nsDefName d) = Some d"
    and "NamespaceDeleted r n \<in> set h \<longleftrightarrow>
      (TableNamespace, StrKey [n]) \<in> set ks \<and> ns_at L b n \<noteq> None \<and> ns_at L v n = None"
    and "DefinitionChanged r (CaveatDefinition cd) \<in> set h \<longleftrightarrow>
      (TableCaveats, StrKey [cavDefName cd]) \<in> set ks \<and> cav_at L v (cavDefName cd) = Some cd"
    and "CaveatDeleted r n \<in> set h \<longleftrightarrow>
      (TableCaveats, StrKey [n]) \<in> set ks \<and> cav_at L b n \<noteq> None \<and> cav_at L v n = None"
proof -
  have ns: "DefinitionChanged r (NamespaceDefinition d) \<in> set (ops_of_change L r (TableNamespace, b TableNamespace k, v TableNamespace k))
      \<longleftrightarrow> k = StrKey [nsDefName d] \<and> ns_at L v (nsDefName d) = Some d" (is "?A k")
    and nsd: "NamespaceDeleted r n \<in> set (ops_of_change L r (TableNamespace, b TableNamespace k, v TableNamespace k))
      \<longleftrightarrow> k = StrKey [n] \<and> ns_at L b n \<noteq> None \<and> ns_at L v n = None" (is "?B k") for k
  proof -
    have "?A k \<and> ?B k"
      by (rule disjE [OF good_ns [OF assms(1), of k]]; rule disjE [OF good_ns [OF assms(2), of k]]) auto
    then show "?A k" "?B k" by simp_all
  qed
  have cav: "DefinitionChanged r (CaveatDefinition cd) \<in> set (ops_of_change L r (TableCaveats, b TableCaveats k, v TableCaveats k))
      \<longleftrightarrow> k = StrKey [cavDefName cd] \<and> cav_at L v (cavDefName cd) = Some cd" (is "?C k")
    and cavd: "CaveatDeleted r n \<in> set (ops_of_change L r (TableCaveats, b TableCaveats k, v TableCaveats k))
      \<longleftrightarrow> k = StrKey [n] \<and> cav_at L b n \<noteq> None \<and> cav_at L v n = None" (is "?D k") for k
  proof -
    have "?C k \<and> ?D k"
    proof (rule disjE [OF good_cav [OF assms(2), of k]])
      assume v: "v TableCaveats k = None \<and> (\<forall>n. k = StrKey [n] \<longrightarrow> cav_at L v n = None)"
      show ?thesis
      proof (rule disjE [OF good_cav [OF assms(1), of k]])
        assume "b TableCaveats k = None \<and> (\<forall>n. k = StrKey [n] \<longrightarrow> cav_at L b n = None)"
        with v show ?thesis by auto
      next
        assume "\<exists>n x d. k = StrKey [n] \<and> b TableCaveats k = Some (CaveatRow x) \<and> cvName x = n \<and>
          unmarshal_caveat L (cvDefinition x) = Ok d \<and> cav_at L b n = Some d \<and> cavDefName d = n"
        then obtain m x d where b: "k = StrKey [m]" "b TableCaveats k = Some (CaveatRow x)" "cvName x = m"
          "cav_at L b m = Some d" by blast
        have ops: "ops_of_change L r (TableCaveats, b TableCaveats k, v TableCaveats k) = [CaveatDeleted r m]"
          by (simp only: v b(2) ops_of_change.simps b(3))
        have vn: "cav_at L v m = None" using v b(1) by simp
        have "?C k" unfolding ops using vn b(1) by auto
        moreover have "?D k" unfolding ops using vn b(1,4) by (cases "n = m") simp_all
        ultimately show ?thesis by simp
      qed
    next
      assume "\<exists>n x d. k = StrKey [n] \<and> v TableCaveats k = Some (CaveatRow x) \<and> cvName x = n \<and>
        unmarshal_caveat L (cvDefinition x) = Ok d \<and> cav_at L v n = Some d \<and> cavDefName d = n"
      then obtain m x d where v: "k = StrKey [m]" "v TableCaveats k = Some (CaveatRow x)"
        "unmarshal_caveat L (cvDefinition x) = Ok d" "cav_at L v m = Some d" "cavDefName d = m" by blast
      have ops: "ops_of_change L r (TableCaveats, b TableCaveats k, v TableCaveats k) =
          [DefinitionChanged r (CaveatDefinition d)]" by (simp only: v(2,3) ops_of_change.simps sum.sel)
      have "?C k" unfolding ops using v(1,4,5) by (cases "cd = d") auto
      moreover have "?D k" unfolding ops using v(1,4) by (cases "n = m") simp_all
      ultimately show ?thesis by (rule conjI)
    qed
    then show "?C k" "?D k" by simp_all
  qed
  have only: "(\<exists>tb k. (tb, k) \<in> set ks \<and> op \<in> set (ops_of_change L r (tb, b tb k, v tb k))) \<longleftrightarrow>
      (\<exists>k. (tab, k) \<in> set ks \<and> op \<in> set (ops_of_change L r (tab, b tab k, v tab k)))"
    if "\<And>tb x y. op \<in> set (ops_of_change L r (tb, x, y)) \<Longrightarrow> tb = tab" for op tab
    using that by metis
  show "DefinitionChanged r (NamespaceDefinition d) \<in> set h \<longleftrightarrow>
      (TableNamespace, StrKey [nsDefName d]) \<in> set ks \<and> ns_at L v (nsDefName d) = Some d"
  proof -
    have "DefinitionChanged r (NamespaceDefinition d) \<in> set h \<longleftrightarrow> (\<exists>tb k. (tb, k) \<in> set ks \<and>
        DefinitionChanged r (NamespaceDefinition d) \<in> set (ops_of_change L r (tb, b tb k, v tb k)))"
      unfolding h_def history_member by simp
    also have "\<dots> \<longleftrightarrow> (\<exists>k. (TableNamespace, k) \<in> set ks \<and>
        DefinitionChanged r (NamespaceDefinition d) \<in> set (ops_of_change L r (TableNamespace, b TableNamespace k, v TableNamespace k)))"
      by (rule only) (rule ops_of_change_table(1))
    finally show ?thesis unfolding ns by auto
  qed
  show "NamespaceDeleted r n \<in> set h \<longleftrightarrow>
      (TableNamespace, StrKey [n]) \<in> set ks \<and> ns_at L b n \<noteq> None \<and> ns_at L v n = None"
  proof -
    have "NamespaceDeleted r n \<in> set h \<longleftrightarrow> (\<exists>tb k. (tb, k) \<in> set ks \<and>
        NamespaceDeleted r n \<in> set (ops_of_change L r (tb, b tb k, v tb k)))"
      unfolding h_def history_member by simp
    also have "\<dots> \<longleftrightarrow> (\<exists>k. (TableNamespace, k) \<in> set ks \<and>
        NamespaceDeleted r n \<in> set (ops_of_change L r (TableNamespace, b TableNamespace k, v TableNamespace k)))"
      by (rule only) (rule ops_of_change_table(3))
    finally show ?thesis unfolding nsd by auto
  qed
  show "DefinitionChanged r (CaveatDefinition cd) \<in> set h \<longleftrightarrow>
      (TableCaveats, StrKey [cavDefName cd]) \<in> set ks \<and> cav_at L v (cavDefName cd) = Some cd"
  proof -
    have "DefinitionChanged r (CaveatDefinition cd) \<in> set h \<longleftrightarrow> (\<exists>tb k. (tb, k) \<in> set ks \<and>
        DefinitionChanged r (CaveatDefinition cd) \<in> set (ops_of_change L r (tb, b tb k, v tb k)))"
      unfolding h_def history_member by simp
    also have "\<dots> \<longleftrightarrow> (\<exists>k. (TableCaveats, k) \<in> set ks \<and>
        DefinitionChanged r (CaveatDefinition cd) \<in> set (ops_of_change L r (TableCaveats, b TableCaveats k, v TableCaveats k)))"
      by (rule only) (rule ops_of_change_table(2))
    finally show ?thesis unfolding cav by auto
  qed
  show "CaveatDeleted r n \<in> set h \<longleftrightarrow>
      (TableCaveats, StrKey [n]) \<in> set ks \<and> cav_at L b n \<noteq> None \<and> cav_at L v n = None"
  proof -
    have "CaveatDeleted r n \<in> set h \<longleftrightarrow> (\<exists>tb k. (tb, k) \<in> set ks \<and>
        CaveatDeleted r n \<in> set (ops_of_change L r (tb, b tb k, v tb k)))"
      unfolding h_def history_member by simp
    also have "\<dots> \<longleftrightarrow> (\<exists>k. (TableCaveats, k) \<in> set ks \<and>
        CaveatDeleted r n \<in> set (ops_of_change L r (TableCaveats, b TableCaveats k, v TableCaveats k)))"
      by (rule only) (rule ops_of_change_table(4))
    finally show ?thesis unfolding cavd by auto
  qed
qed

lemma definitions_of_member:
  "(k, D) \<in> set (definitions_of r ops) \<longleftrightarrow> DefinitionChanged r D \<in> set ops \<and>
     ((\<exists>d. D = NamespaceDefinition d \<and> k = nsPrefix @ nsDefName d) \<or>
      (\<exists>d. D = CaveatDefinition d \<and> k = caveatPrefix @ cavDefName d))"
proof -
  have one: "(k, D) \<in> set (definitions_of r [op]) \<longleftrightarrow> op = DefinitionChanged r D \<and>
     ((\<exists>d. D = NamespaceDefinition d \<and> k = nsPrefix @ nsDefName d) \<or>
      (\<exists>d. D = CaveatDefinition d \<and> k = caveatPrefix @ cavDefName d))" for op
    by (cases op; cases "(\<lambda>op. case op of DefinitionChanged _ d \<Rightarrow> d | _ \<Rightarrow> undefined) op")
       (auto simp: definitions_of_def split: schema_definition.splits)
  have "set (definitions_of r ops) = (\<Union>op \<in> set ops. set (definitions_of r [op]))"
    by (induction ops) (auto simp: definitions_of_def)
  then show ?thesis by (auto simp: one)
qed

text \<open>A change of the schema is listed exactly when the transaction wrote it.\<close>

definition schema_exact :: "spice_lib \<Rightarrow> contents \<Rightarrow> contents \<Rightarrow> revision_changes \<Rightarrow> bool" where
  "schema_exact L b v rc \<longleftrightarrow>
     (\<forall>n. n \<in> set (deletedNamespaces rc) \<longleftrightarrow> ns_at L b n \<noteq> None \<and> ns_at L v n = None) \<and>
     (\<forall>n. n \<in> set (deletedCaveats rc) \<longleftrightarrow> cav_at L b n \<noteq> None \<and> cav_at L v n = None) \<and>
     (\<forall>d. NamespaceDefinition d \<in> set (changedDefinitions rc) \<longrightarrow> ns_at L v (nsDefName d) = Some d) \<and>
     (\<forall>d. CaveatDefinition d \<in> set (changedDefinitions rc) \<longrightarrow> cav_at L v (cavDefName d) = Some d) \<and>
     (\<forall>n d. ns_at L v n = Some d \<and> ns_at L b n \<noteq> Some d \<longrightarrow> NamespaceDefinition d \<in> set (changedDefinitions rc)) \<and>
     (\<forall>n d. cav_at L v n = Some d \<and> cav_at L b n \<noteq> Some d \<longrightarrow> CaveatDefinition d \<in> set (changedDefinitions rc))"

lemma ns_at_cong: "c TableNamespace (StrKey [n]) = c' TableNamespace (StrKey [n]) \<Longrightarrow> ns_at L c n = ns_at L c' n"
  by (simp add: ns_at_def)

lemma cav_at_cong: "c TableCaveats (StrKey [n]) = c' TableCaveats (StrKey [n]) \<Longrightarrow> cav_at L c n = cav_at L c' n"
  by (simp add: cav_at_def)

lemma net_schema:
  assumes good: "good L b" "good L v" and ks: "\<And>tb k. v tb k \<noteq> b tb k \<Longrightarrow> (tb, k) \<in> set ks"
    and net: "net_change L r (history_of L r metadata (changes_between ks b v)) rc"
  shows "schema_exact L b v rc"
proof -
  let ?h = "history_of L r metadata (changes_between ks b v)"
  note H = schema_history [OF good refl]
  have name: "ns_at L v n = Some d \<Longrightarrow> nsDefName d = n" "cav_at L v n = Some e \<Longrightarrow> cavDefName e = n" for n d e
    using good_ns [OF good(2), of "StrKey [n]"] good_cav [OF good(2), of "StrKey [n]"] by auto
  have defs: "last_write (definitions_of r ?h) k = Some D \<longleftrightarrow> (k, D) \<in> set (definitions_of r ?h)" for k D
  proof (rule last_write_functional)
    fix x y assume "(k, x) \<in> set (definitions_of r ?h)" "(k, y) \<in> set (definitions_of r ?h)"
    then show "x = y" unfolding definitions_of_member using H by auto
  qed
  have changed: "set (changedDefinitions rc) = {D. \<exists>k. (k, D) \<in> set (definitions_of r ?h)}"
    using net unfolding net_change_def ran_def defs by blast
  have nsc: "NamespaceDefinition d \<in> set (changedDefinitions rc) \<longleftrightarrow>
      (TableNamespace, StrKey [nsDefName d]) \<in> set ks \<and> ns_at L v (nsDefName d) = Some d" for d
    unfolding changed definitions_of_member by (auto simp: H)
  have cavc: "CaveatDefinition d \<in> set (changedDefinitions rc) \<longleftrightarrow>
      (TableCaveats, StrKey [cavDefName d]) \<in> set ks \<and> cav_at L v (cavDefName d) = Some d" for d
    unfolding changed definitions_of_member by (auto simp: H)
  have none: "last_write (definitions_of r ?h) k = None \<longleftrightarrow> (\<forall>D. (k, D) \<notin> set (definitions_of r ?h))" for k
    using defs [of k] by (metis not_Some_eq)
  have nsd: "n \<in> set (deletedNamespaces rc) \<longleftrightarrow> ns_at L b n \<noteq> None \<and> ns_at L v n = None" for n
  proof -
    have "n \<in> set (deletedNamespaces rc) \<longleftrightarrow> NamespaceDeleted r n \<in> set ?h \<and>
        last_write (definitions_of r ?h) (nsPrefix @ n) = None"
      using net unfolding net_change_def by blast
    also have "\<dots> \<longleftrightarrow> NamespaceDeleted r n \<in> set ?h"
      unfolding none definitions_of_member using H by auto
    also have "\<dots> \<longleftrightarrow> ns_at L b n \<noteq> None \<and> ns_at L v n = None"
      using H(2) ks ns_at_cong [of v n b L] by metis
    finally show ?thesis .
  qed
  have cavd: "n \<in> set (deletedCaveats rc) \<longleftrightarrow> cav_at L b n \<noteq> None \<and> cav_at L v n = None" for n
  proof -
    have "n \<in> set (deletedCaveats rc) \<longleftrightarrow> CaveatDeleted r n \<in> set ?h \<and>
        last_write (definitions_of r ?h) (caveatPrefix @ n) = None"
      using net unfolding net_change_def by blast
    also have "\<dots> \<longleftrightarrow> CaveatDeleted r n \<in> set ?h"
      unfolding none definitions_of_member using H by auto
    also have "\<dots> \<longleftrightarrow> cav_at L b n \<noteq> None \<and> cav_at L v n = None"
      using H(4) ks cav_at_cong [of v n b L] by metis
    finally show ?thesis .
  qed
  have nsw: "(TableNamespace, StrKey [n]) \<in> set ks" if "ns_at L v n = Some d" "ns_at L b n \<noteq> Some d" for n d
    using that ks ns_at_cong [of v n b L] by metis
  have cavw: "(TableCaveats, StrKey [n]) \<in> set ks" if "cav_at L v n = Some d" "cav_at L b n \<noteq> Some d" for n d
    using that ks cav_at_cong [of v n b L] by metis
  show ?thesis
    unfolding schema_exact_def nsd cavd nsc cavc
    using name nsw cavw by (intro conjI allI impI) (blast | metis)+
qed

section \<open>The changelog entry\<close>

context memdb_db begin

lemma transaction_change_list:
  assumes "valid t"
  obtains ks where "txChanges T t = changes_between ks (base t) (view t)"
    and "\<And>tb k. view t tb k \<noteq> base t tb k \<Longrightarrow> (tb, k) \<in> set ks"
    and "\<And>tb k. (tb, k) \<in> set ks \<Longrightarrow> base t tb k \<noteq> None \<or> view t tb k \<noteq> None"
  using changes [OF assms] unfolding changes_between_def by blast

lemma changes_are_ok:
  assumes "valid t" and "good L (base t)" and "good L (view t)" and "c \<in> set (txChanges T t)"
  shows "change_ok L c"
proof -
  obtain ks where ks: "txChanges T t = changes_between ks (base t) (view t)"
    "\<And>tb k. (tb, k) \<in> set ks \<Longrightarrow> base t tb k \<noteq> None \<or> view t tb k \<noteq> None"
    using transaction_change_list [OF assms(1)] by metis
  with assms(4) obtain tb k where c: "c = (tb, base t tb k, view t tb k)" "(tb, k) \<in> set ks"
    by (auto simp: changes_between_def)
  have "row_table x = tb \<and> row_good L x" if "base t tb k = Some x \<or> view t tb k = Some x" for x
    using that assms(2,3) by (auto simp: good_def contents_ok_def)
  with c ks(2) [of tb k] show ?thesis by (simp add: change_ok_def)
qed

lemma changelog:
  assumes "valid t" and "good L (base t)" and "good L (view t)"
    and "metadata = [] \<or> (\<exists>s. new_struct L metadata = Ok s)"
  shows "\<exists>rc. transaction_changes E r metadata t = Ok rc \<and> schema_exact L (base t) (view t) rc \<and>
    (names_apart L (ran (abs_store L (base t)) \<union> ran (abs_store L (view t))) \<longrightarrow>
      apply_changes (abs_store L (base t)) (relationshipChanges rc) = abs_store L (view t))"
proof -
  obtain ks where ks: "txChanges T t = changes_between ks (base t) (view t)"
    "\<And>tb k. view t tb k \<noteq> base t tb k \<Longrightarrow> (tb, k) \<in> set ks"
    using transaction_change_list [OF assms(1)] by metis
  have ok: "\<forall>c \<in> set (txChanges (eTxnOps E) t). change_ok L c"
    using changes_are_ok [OF assms(1-3)] by (simp add: env)
  from transaction_changes_net [OF env(1) ok assms(4), of r] obtain rc where
    rc: "transaction_changes E r metadata t = Ok rc"
    "net_change L r (history_of L r metadata (changes_between ks (base t) (view t))) rc"
    unfolding env(2) ks(1) by blast
  note st = good_stored [OF assms(3)] good_stored [OF assms(2)]
  have "schema_exact L (base t) (view t) rc"
    using net_schema [OF assms(2,3) ks(2) rc(2)] .
  moreover have "apply_changes (abs_store L (base t)) (relationshipChanges rc) = abs_store L (view t)"
    if "names_apart L (ran (abs_store L (base t)) \<union> ran (abs_store L (view t)))"
    using replay [OF st ks(2) net_relationships [OF st that rc(2)]] .
  ultimately show ?thesis using rc(1) by blast
qed

end

text \<open>
  C15. The changelog entry of a transaction is exact: replaying its relationship changes on the
  relationships the transaction started from gives the relationships it ends with, every namespace
  and caveat it removed is listed as deleted and no other, and every definition it changed is listed
  as it is now.
\<close>

theorem changelog_replays:
  assumes "memdb_db T view base valid L E rows dvalid" and "valid t"
    and "good L (base t)" and "good L (view t)"
    and "metadata = [] \<or> (\<exists>s. new_struct L metadata = Ok s)"
    and "names_apart L (ran (abs_store L (base t)) \<union> ran (abs_store L (view t)))"
  shows "\<exists>rc. transaction_changes E r metadata t = Ok rc \<and>
    apply_changes (abs_store L (base t)) (relationshipChanges rc) = abs_store L (view t) \<and>
    schema_exact L (base t) (view t) rc"
  using memdb_db.changelog [OF assms(1-5), of r] assms(6) by blast

section \<open>The reference database\<close>

definition ref_env :: "(ref_contents, ref_txn) env" where
  "ref_env = \<lparr>eLib = ref_lib, eTxnOps = ref_ops, eNewMemDB = Ok [], eTxn = (\<lambda>_ d. ref_begin d),
     eCommit = rtView, eNoEqual = (\<lambda>r. r = NoRevision), eNoGreater = (\<lambda>_. False), eNoLess = (\<lambda>_. True)\<rparr>"

definition ref_dvalid :: "ref_contents \<Rightarrow> bool" where
  "ref_dvalid d \<longleftrightarrow> gm_ok d \<and> contents_ok (ref_view d)"

lemma ref_begin_simps [simp]:
  "rtBase (ref_begin d) = d" "rtView (ref_begin d) = d" "ref_valid (ref_begin d) \<longleftrightarrow> ref_dvalid d"
  by (auto simp: ref_begin_def ref_valid_def ref_dvalid_def)

lemma ref_view_empty [simp]: "ref_view [] = (\<lambda>_ _. None)" "ref_dvalid []"
  by (simp_all add: ref_view_def ref_dvalid_def contents_ok_def fun_eq_iff dom_def)

interpretation ref_mdb: memdb_db ref_ops "\<lambda>t. ref_view (rtView t)" "\<lambda>t. ref_view (rtBase t)" ref_valid ref_lib
  ref_env ref_view ref_dvalid
proof unfold_locales
  show "eLib ref_env = ref_lib" "eTxnOps ref_env = ref_ops" by (simp_all add: ref_env_def)
  show "ref_dvalid d \<and> ref_view d = (\<lambda>_ _. None)" if "eNewMemDB ref_env = Ok d" for d
    using that by (simp add: ref_env_def)
  show "ref_valid (eTxn ref_env wr d) \<and> ref_view (rtView (eTxn ref_env wr d)) = ref_view d \<and>
      ref_view (rtBase (eTxn ref_env wr d)) = ref_view d" if "ref_dvalid d" for wr d
    using that by (simp add: ref_env_def)
  show "ref_dvalid (eCommit ref_env t) \<and> ref_view (eCommit ref_env t) = ref_view (rtView t)" if "ref_valid t" for t
    using that by (simp add: ref_env_def ref_dvalid_def ref_valid_def)
qed

text \<open>The instance: a transaction on the relationships of \<open>sample_txn\<close>.\<close>

lemma ref_begin_live: "ref_dvalid d \<Longrightarrow> good ref_lib (ref_view d) \<Longrightarrow> ref_store.live (ref_begin d)"
  by (simp add: ref_store.live_def)

lemma good_empty [simp]: "good L (\<lambda>_ _. None)"
  by (simp add: good_def contents_ok_def dom_def)

lemma sample_updates_insertable:
  "insertable (StrKey (ref_key (rel_ref (updRelationship (create_update (sample_rel ''d1'' ''u1''))))))"
  "insertable (StrKey (ref_key (rel_ref (updRelationship (create_update (sample_rel ''d1'' ''u2''))))))"
  "insertable (StrKey (ref_key (rel_ref (updRelationship (create_update (sample_rel ''d2'' ''u1''))))))"
  using sample_rel_ok by (simp_all add: insertable_def rel_ok_def create_update_def)

lemma sample_txn_live: "ref_store.live sample_txn"
proof -
  have "ref_store.keeps (ref_begin []) sample_txn"
    unfolding sample_txn_def
    by (rule ref_store.keeps_write_rels) (use sample_updates_insertable in \<open>auto intro: ref_begin_live\<close>)
  then show ?thesis by (rule ref_store.keeps_live)
qed

lemma sample_store:
  "abs_store ref_lib (ref_view (rtView sample_txn)) =
    [rel_ref (sample_rel ''d1'' ''u1'') \<mapsto> sample_rel ''d1'' ''u1'',
     rel_ref (sample_rel ''d1'' ''u2'') \<mapsto> sample_rel ''d1'' ''u2'',
     rel_ref (sample_rel ''d2'' ''u1'') \<mapsto> sample_rel ''d2'' ''u1'']"
proof -
  let ?us = "[create_update (sample_rel ''d1'' ''u1''), create_update (sample_rel ''d1'' ''u2''),
    create_update (sample_rel ''d2'' ''u1'')]"
  have "ref_store.holds (ref_begin [])" using ref_store.live_holds ref_begin_live by simp
  moreover have "\<forall>u \<in> set ?us. rel_ok (updRelationship u)" using sample_rel_ok by (simp add: create_update_def)
  ultimately obtain t res where t: "write_rels ref_lib ref_ops (ref_begin []) ?us = (t, res)"
    "spec_updates ref_lib (abs_store ref_lib (ref_view (rtView (ref_begin [])))) ?us =
      (abs_store ref_lib (ref_view (rtView t)), res)"
    using ref_store.write_rels_refines by blast
  have "abs_store ref_lib (\<lambda>_ _. None) = Map.empty" by (simp add: fun_eq_iff abs_store_def)
  moreover have "sample_txn = t" using t(1) by (simp add: sample_txn_def)
  ultimately show ?thesis
    using t(2) by (auto simp: spec_update_def create_update_def Let_def rel_ref_def sample_rel_def split: if_splits)
qed

definition sample_delete :: ref_txn where
  "sample_delete = fst (write_rels ref_lib ref_ops (ref_begin (rtView sample_txn))
     [delete_update (sample_rel ''d1'' ''u1'')])"

theorem changelog_replays_witness:
  "\<exists>rc. transaction_changes ref_env 7 [] sample_delete = Ok rc \<and>
    apply_changes [rel_ref (sample_rel ''d1'' ''u1'') \<mapsto> sample_rel ''d1'' ''u1'',
     rel_ref (sample_rel ''d1'' ''u2'') \<mapsto> sample_rel ''d1'' ''u2'',
     rel_ref (sample_rel ''d2'' ''u1'') \<mapsto> sample_rel ''d2'' ''u1''] (relationshipChanges rc) =
    [rel_ref (sample_rel ''d1'' ''u2'') \<mapsto> sample_rel ''d1'' ''u2'',
     rel_ref (sample_rel ''d2'' ''u1'') \<mapsto> sample_rel ''d2'' ''u1'']"
proof -
  let ?a = "sample_rel ''d1'' ''u1''" and ?b = "sample_rel ''d1'' ''u2''" and ?c = "sample_rel ''d2'' ''u1''"
  let ?t0 = "ref_begin (rtView sample_txn)"
  have live0: "ref_store.live ?t0"
    using sample_txn_live by (intro ref_begin_live) (simp_all add: ref_store.live_def ref_dvalid_def ref_valid_def)
  have k: "ref_store.keeps ?t0 sample_delete"
    unfolding sample_delete_def by (rule ref_store.keeps_write_rels [OF live0]) (simp add: delete_update_def)
  have ok: "\<forall>u \<in> set [delete_update ?a]. rel_ok (updRelationship u)"
    using sample_rel_ok by (simp add: delete_update_def)
  obtain t res where t: "write_rels ref_lib ref_ops ?t0 [delete_update ?a] = (t, res)"
    "spec_updates ref_lib (abs_store ref_lib (ref_view (rtView ?t0))) [delete_update ?a] =
      (abs_store ref_lib (ref_view (rtView t)), res)"
    using ref_store.write_rels_refines [OF ref_store.live_holds [OF live0] ok] by blast
  have refs: "rel_ref ?a \<noteq> rel_ref ?b" "rel_ref ?a \<noteq> rel_ref ?c" "rel_ref ?b \<noteq> rel_ref ?c"
    by (simp_all add: rel_ref_def sample_rel_def)
  have "sample_delete = t" using t(1) by (simp add: sample_delete_def)
  with t(2) refs have v: "abs_store ref_lib (ref_view (rtView sample_delete)) = [rel_ref ?b \<mapsto> ?b, rel_ref ?c \<mapsto> ?c]"
    by (auto simp: sample_store spec_update_def delete_update_def Let_def fun_eq_iff)
  have b: "ref_view (rtBase sample_delete) = ref_view (rtView sample_txn)"
    using k by (simp add: ref_store.keeps_def)
  have apart: "names_apart ref_lib {?a, ?b, ?c}"
    by (simp add: names_apart_def ref_lib_def show_rel_def sample_rel_def)
  have "names_apart ref_lib (ran (abs_store ref_lib (ref_view (rtBase sample_delete))) \<union>
      ran (abs_store ref_lib (ref_view (rtView sample_delete))))"
  proof -
    have "ran (abs_store ref_lib (ref_view (rtBase sample_delete))) \<union>
      ran (abs_store ref_lib (ref_view (rtView sample_delete))) \<subseteq> {?a, ?b, ?c}"
      unfolding b v sample_store by (auto simp: ran_def split: if_splits)
    with apart show ?thesis unfolding names_apart_def by blast
  qed
  from changelog_replays [OF ref_mdb.memdb_db_axioms _ _ _ _ this, of "[]" 7]
  show ?thesis using k live0 v sample_store by (auto simp: b ref_store.keeps_def ref_store.live_def)
qed

end
