(* ===== verification/Memdb_Commit.thy ===== *)
theory Memdb_Commit
  imports Memdb_Changelog
begin

text \<open>
  \<open>ReadWriteTx\<close> from the outside: a transaction is committed entirely, with a snapshot of its own, or
  leaves the database as it was; what readers of older snapshots see; and the order of the revisions.
\<close>

section \<open>Committing\<close>

text \<open>The state after a commit: one snapshot more, which is the live database.\<close>

definition extends :: "'d memdb_ds \<Rightarrow> int \<Rightarrow> 'd \<Rightarrow> 'd memdb_ds \<Rightarrow> bool" where
  "extends ds r d ds' \<longleftrightarrow>
     dsRevisions ds' = dsRevisions ds @ [(r, dsNextPtr ds)] \<and> dsDB ds' = dsDB ds \<and>
     root_at ds' (dsNextPtr ds) = Some d \<and> live_root ds' = Some d \<and>
     (\<forall>p. p < dsNextPtr ds \<and> dsDB ds \<noteq> Some p \<longrightarrow> root_at ds' p = root_at ds p)"

lemma root_at_simps [simp]:
  "root_at (ds\<lparr>dsActive := a\<rparr>) p = root_at ds p" "root_at (ds\<lparr>dsWriter := a\<rparr>) p = root_at ds p"
  "root_at (ds\<lparr>dsCounters := h\<rparr>) p = root_at ds p" "root_at (ds\<lparr>dsRevisions := rs\<rparr>) p = root_at ds p"
  "root_at (ds\<lparr>dsNextPtr := n\<rparr>) p = root_at ds p" "root_at (ds\<lparr>dsHeap := m\<rparr>) p = map_of m p"
  by (simp_all add: root_at_def)

text \<open>The database and its snapshots are as before.\<close>

definition unchanged :: "'d memdb_ds \<Rightarrow> 'd memdb_ds \<Rightarrow> bool" where
  "unchanged ds ds' \<longleftrightarrow> dsRevisions ds' = dsRevisions ds \<and> dsHeap ds' = dsHeap ds \<and> dsDB ds' = dsDB ds"

context memdb_db begin

abbreviation metadata_ok :: "any_map \<Rightarrow> bool" where
  "metadata_ok m \<equiv> m = [] \<or> (\<exists>s. new_struct L m = Ok s)"

lemma add_snapshot:
  assumes "ready ds0" and "dsDB ds0 = Some p" and "dvalid d" and "good L (rows d)"
    and "ds = ds0\<lparr>dsHeap := (dsNextPtr ds0, d) # gm_put p d (dsHeap ds0), dsNextPtr := dsNextPtr ds0 + 1,
      dsRevisions := dsRevisions ds0 @ [(r, dsNextPtr ds0)], dsCounters := h\<rparr>"
  shows "ready ds \<and> extends ds0 r d ds"
proof -
  have h: "heap_ok L rows dvalid ds0" and p: "p < dsNextPtr ds0"
    using assms(1,2) by (auto simp: ds_ready_def heap_ok_def)
  have at: "root_at ds q = (if q = dsNextPtr ds0 \<or> q = p then Some d else root_at ds0 q)" for q
    by (simp add: assms(5) root_at_def)
  have "heap_ok L rows dvalid ds"
  proof -
    have "q < dsNextPtr ds \<and> dvalid x \<and> good L (rows x)" if "root_at ds q = Some x" for q x
      using h p assms(3,4) that
      unfolding at by (auto simp: assms(5) heap_ok_def split: if_splits intro: less_SucI)
    moreover have "\<forall>(s, q) \<in> set (dsRevisions ds). root_at ds q \<noteq> None"
      using h unfolding at by (auto simp: assms(5) heap_ok_def)
    moreover have "root_at ds q \<noteq> None" if "dsDB ds = Some q" for q
      using that assms(2) unfolding at by (simp add: assms(5))
    ultimately show ?thesis unfolding heap_ok_def by blast
  qed
  moreover have "extends ds0 r d ds"
    unfolding extends_def live_root_def at using assms(2) by (simp add: assms(5))
  ultimately show ?thesis using assms(1) by (simp add: ds_ready_def assms(5))
qed

lemma gm_put_current: "map_of m p = Some d \<Longrightarrow> gm_put p d m = m"
  by (induction m) (auto split: if_splits)

lemma commit_without_tx:
  assumes "ready ds0" and "live_root ds0 = Some d" and "running live base (rows d) ds0 ds att" and "atTx att = None"
  shows "\<exists>ds'. commit_attempt E metadata ds att = (ds', Ok (atRevision att)) \<and> ready ds' \<and>
    extends ds0 (atRevision att) d ds'"
proof -
  obtain p where p: "dsDB ds0 = Some p" "root_at ds0 p = Some d" "dvalid d" "good L (rows d)"
    using ready_root [OF assms(1)] assms(2) by auto
  obtain h where ds: "ds = ds0\<lparr>dsCounters := h\<rparr>"
    using assms(3) unfolding running_def assms(4) option.case by blast
  have flags: "\<not> dsActive ds0" "\<not> dsWriter ds0" using assms(1) by (simp_all add: ds_ready_def)
  have same: "gm_put p d (dsHeap ds0) = dsHeap ds0" using p(2) by (intro gm_put_current) (simp add: root_at_def)
  let ?ds' = "ds0\<lparr>dsHeap := (dsNextPtr ds0, d) # gm_put p d (dsHeap ds0), dsNextPtr := dsNextPtr ds0 + 1,
      dsRevisions := dsRevisions ds0 @ [(atRevision att, dsNextPtr ds0)], dsCounters := h\<rparr>"
  have "commit_attempt E metadata ds att = (?ds', Ok (atRevision att))"
    using assms(4) p(1,2) flags unfolding same
    by (cases ds0) (simp add: commit_attempt_def ds Let_def root_at_def)
  with add_snapshot [OF assms(1) p(1,3,4) refl] show ?thesis by blast
qed

definition committed_row :: "int \<Rightarrow> revision_changes \<Rightarrow> row" where
  "committed_row r rc = ChangelogRow \<lparr>clRevisionNanos = r, clChanges = rc\<rparr>"

lemma commit_with_tx:
  assumes "ready ds0" and "live_root ds0 = Some d0" and "running live base (rows d0) ds0 ds att"
    and "atTx att = Some t" and "metadata_ok metadata"
  shows "\<exists>ds' d rc. commit_attempt E metadata ds att = (ds', Ok (atRevision att)) \<and> ready ds' \<and>
    extends ds0 (atRevision att) d ds' \<and> transaction_changes E (atRevision att) metadata t = Ok rc \<and>
    rows d = put_row TableChangelog (committed_row (atRevision att) rc) (view t)"
proof -
  obtain p where p: "dsDB ds0 = Some p" "root_at ds0 p = Some d0" "dvalid d0" "good L (rows d0)"
    using ready_root [OF assms(1)] assms(2) by auto
  obtain h where ds: "ds = ds0\<lparr>dsActive := True, dsWriter := True, dsCounters := h\<rparr>"
    and t: "live t" "base t = rows d0" "dsDB ds0 = Some (atDB att)"
    using assms(3) unfolding running_def assms(4) option.case by blast
  then have t3: "atDB att = p" using p(1) by simp
  have flags: "\<not> dsActive ds0" "\<not> dsWriter ds0" using assms(1) by (simp_all add: ds_ready_def)
  have v: "valid t" "good L (view t)" using t(1) by (simp_all add: live_def)
  obtain rc where rc: "transaction_changes E (atRevision att) metadata t = Ok rc"
    using changelog [OF v(1) _ v(2) assms(5)] p(4) t(2) by auto
  let ?row = "committed_row (atRevision att) rc"
  obtain t' where t': "txInsert T t TableChangelog ?row = (t', Ok ())" "valid t'"
      "view t' = put_row TableChangelog ?row (view t)"
    using insert [OF v(1), of ?row TableChangelog] by (auto simp: committed_row_def)
  have g: "good L (view t')" unfolding t'(3) by (rule good_put [OF v(2)]) (simp_all add: committed_row_def)
  have c: "dvalid (eCommit E t')" "rows (eCommit E t') = view t'" using commit [OF t'(2)] by simp_all
  let ?ds' = "ds0\<lparr>dsHeap := (dsNextPtr ds0, eCommit E t') # gm_put p (eCommit E t') (dsHeap ds0),
      dsNextPtr := dsNextPtr ds0 + 1,
      dsRevisions := dsRevisions ds0 @ [(atRevision att, dsNextPtr ds0)], dsCounters := h\<rparr>"
  have "commit_attempt E metadata ds att = (?ds', Ok (atRevision att))"
  proof -
    have "commit_attempt E metadata ds att =
        commit_attempt E metadata (ds0\<lparr>dsActive := True, dsWriter := True, dsCounters := h\<rparr>) att"
      by (simp only: ds)
    also have "\<dots> = (?ds', Ok (atRevision att))"
      using t'(1) unfolding committed_row_def
      by (cases ds0; cases att) (use assms(4) p(1,2) flags rc t3 in
        \<open>simp add: commit_attempt_def Let_def root_at_def env ts_TimestampNanoSec_def\<close>)
    finally show ?thesis .
  qed
  moreover have "ready ?ds' \<and> extends ds0 (atRevision att) (eCommit E t') ?ds'"
    by (rule add_snapshot [OF assms(1) p(1) c(1) _ refl]) (use g c(2) in simp)
  ultimately show ?thesis using rc t'(3) c(2) by (intro exI conjI) auto
qed

section \<open>The whole transaction\<close>

lemma ready_counters [simp]: "ready (ds\<lparr>dsCounters := h\<rparr>) = ready ds"
  by (simp add: ds_ready_def heap_ok_def)

text \<open>What a call of \<open>ReadWriteTx\<close> may do to the datastore.\<close>

definition outcome :: "'d memdb_ds \<Rightarrow> 'd memdb_ds \<times> int result \<Rightarrow> bool" where
  "outcome ds out = (case out of
     (ds', Ok r) \<Rightarrow> ready ds' \<and> (\<exists>d. extends ds r d ds')
   | (ds', Err e) \<Rightarrow> unchanged ds ds' \<and> (aborts e \<or> ready ds'))"

lemma begin_ready:
  assumes "ready ds"
  obtains r where "begin_attempt ds c n = Ok \<lparr>atTx = None, atDB = 0, atOnce = False, atRevision = r, atNow = n\<rparr>"
    and "newRevisionID ds c = Ok r"
  using assms that by (cases "newRevisionID ds c")
    (auto simp: begin_attempt_def newRevisionID_def headRevisionNoLock_def ds_ready_def Let_def ts_compare_defs)

lemma running_start:
  "running lv base c ds ds \<lparr>atTx = None, atDB = 0, atOnce = False, atRevision = r, atNow = n\<rparr>"
  by (auto simp: running_def intro: exI [of _ "dsCounters ds"])

lemma running_unchanged: "running lv base c ds0 ds att \<Longrightarrow> unchanged ds0 ds"
  by (auto simp: running_def unchanged_def split: option.splits)

lemma extends_counters: "extends (ds\<lparr>dsCounters := h\<rparr>) r d ds' \<longleftrightarrow> extends ds r d ds'"
  by (simp add: extends_def)

lemma attempt_outcome:
  assumes "ready ds" and "prog_ok f" and "metadata_ok metadata"
  shows "case attempt_tx E metadata c f ds of
     (ds', None) \<Rightarrow> \<exists>h. ds' = ds\<lparr>dsCounters := h\<rparr>
   | (ds', Some res) \<Rightarrow> outcome ds (ds', res)"
proof -
  obtain d where d: "live_root ds = Some d" using ready_root [OF assms(1)] by metis
  obtain r where b: "begin_attempt ds (fst c) (snd c) =
      Ok (\<lparr>atTx = None, atDB = 0, atOnce = False, atRevision = r, atNow = snd c\<rparr> :: 't attempt)" (is "_ = Ok ?att")
    by (rule begin_ready [OF assms(1)])
  obtain ds1 att1 res where run: "run_prog E f ds ?att = (ds1, att1, res)" by (metis prod_cases3)
  note r = running_prog [OF assms(1) d running_start assms(2) run, THEN conjunct1]
  show ?thesis
  proof (cases res)
    case (Inl e)
    obtain h where h: "fail_attempt ds1 att1 = ds\<lparr>dsCounters := h\<rparr>"
      using running_fail [OF assms(1) r] by blast
    show ?thesis
    proof (cases "aborts e")
      case True
      with Inl b run running_unchanged [OF r] show ?thesis by (simp add: attempt_tx_def outcome_def)
    next
      case False
      then have "attempt_tx E metadata c f ds =
          (ds\<lparr>dsCounters := h\<rparr>, if is_serialization e then None else Some (Err e))"
        using Inl b run h by (simp add: attempt_tx_def Let_def)
      then show ?thesis using assms(1) by (auto simp: outcome_def unchanged_def)
    qed
  next
    case (Inr u)
    have a: "attempt_tx E metadata c f ds = map_prod id Some (commit_attempt E metadata ds1 att1)"
      using Inr b run by (simp add: attempt_tx_def)
    show ?thesis
    proof (cases "atTx att1")
      case None
      from commit_without_tx [OF assms(1) d r None, of metadata] obtain ds' where
        "commit_attempt E metadata ds1 att1 = (ds', Ok (atRevision att1))" "ready ds'"
        "extends ds (atRevision att1) d ds'" by blast
      with a show ?thesis by (auto simp: outcome_def intro: exI [of _ d])
    next
      case (Some t)
      from commit_with_tx [OF assms(1) d r Some assms(3)] obtain ds' d' where
        "commit_attempt E metadata ds1 att1 = (ds', Ok (atRevision att1))" "ready ds'"
        "extends ds (atRevision att1) d' ds'" by blast
      with a show ?thesis by (auto simp: outcome_def intro: exI [of _ d'])
    qed
  qed
qed

lemma loop_outcome:
  assumes "ready ds" and "\<forall>i. prog_ok (f i)" and "metadata_ok metadata"
  shows "outcome ds (rw_loop E metadata clock f i n ds)"
  using assms(1)
proof (induction n arbitrary: i ds)
  case 0
  then show ?case by (simp add: outcome_def unchanged_def)
next
  case (Suc n)
  note a = attempt_outcome [OF Suc.prems, of "f i" metadata "clock i"]
  obtain ds1 res where at: "attempt_tx E metadata (clock i) (f i) ds = (ds1, res)" by (metis surj_pair)
  show ?case
  proof (cases res)
    case None
    then obtain h where h: "ds1 = ds\<lparr>dsCounters := h\<rparr>" using a assms(2,3) at by auto
    have "outcome ds1 (rw_loop E metadata clock f (Suc i) n ds1)"
      by (rule Suc.IH) (simp add: h Suc.prems)
    then have "outcome ds (rw_loop E metadata clock f (Suc i) n ds1)"
      unfolding outcome_def h by (simp add: extends_counters unchanged_def)
    with None at show ?thesis by simp
  next
    case (Some r)
    with a assms(2,3) at show ?thesis by simp
  qed
qed

end

section \<open>Transactions that write relationships\<close>

text \<open>The user function that writes a batch of updates and returns its error.\<close>

definition write_prog :: "relationship_update list \<Rightarrow> prog" where
  "write_prog us = Call (OpWrite us) (\<lambda>a. case a of AnsUnit r \<Rightarrow> Done r | _ \<Rightarrow> Done (Ok ()))"

lemma write_prog_ok: "\<forall>u \<in> set us. rel_ok (updRelationship u) \<Longrightarrow> prog_ok (write_prog us)"
  by (auto simp: write_prog_def insertable_def rel_ok_def split: rw_answer.split)

lemma spec_updates_err: "spec_updates L m us = (m', Err e) \<Longrightarrow> \<not> aborts e \<and> \<not> is_serialization e"
  by (induction us arbitrary: m)
     (auto simp: spec_update_def Let_def split: prod.splits sum.splits update_operation.splits option.splits if_splits)

context memdb_db begin

lemma run_write_prog:
  assumes "ready ds" and "live_root ds = Some d" and "\<forall>u \<in> set us. rel_ok (updRelationship u)"
    and "running live base (rows d) ds ds att" and "atTx att = None"
    and "spec_updates L (abs_store L (rows d)) us = (m, res)"
  shows "\<exists>ds1 att1 t. run_prog E (write_prog us) ds att = (ds1, att1, res) \<and> atTx att1 = Some t \<and>
    abs_store L (view t) = m"
proof -
  obtain p where p: "dsDB ds = Some p" "root_at ds p = Some d" "dvalid d" "good L (rows d)"
    using ready_root [OF assms(1)] assms(2) by auto
  have flags: "\<not> dsActive ds" "\<not> dsWriter ds" using assms(1) by (simp_all add: ds_ready_def)
  let ?t = "eTxn E True d"
  have t: "live ?t" "view ?t = rows d" using begin_txn [OF p(3)] p(4) by (simp_all add: live_def)
  obtain t' res' where w: "write_rels L T ?t us = (t', res')"
    "spec_updates L (abs_store L (view ?t)) us = (abs_store L (view t'), res')"
    using write_rels_refines [OF live_holds [OF t(1)] assms(3)] by blast
  have m: "m = abs_store L (view t')" "res' = res" using w(2) assms(6) t(2) by simp_all
  have "\<not> atOnce att" using assms(4,5) by (simp add: running_def)
  then have "txSrc E ds att = (ds\<lparr>dsActive := True, dsWriter := True\<rparr>,
      att\<lparr>atOnce := True, atTx := Some ?t, atDB := p\<rparr>, Ok ?t)"
    using p(1,2) flags by (simp add: txSrc_def Let_def)
  then have "rw_call E ds att (OpWrite us) =
      (ds\<lparr>dsActive := True, dsWriter := True, dsCounters := dsCounters ds\<rparr>,
       att\<lparr>atOnce := True, atTx := Some t', atDB := p\<rparr>, AnsUnit res)"
    using w(1) m(2) by (simp add: rw_call_def env rwt_of_def writeRelationships_def with_wtx_def)
  moreover have "answer_abort (AnsUnit res) = None"
    using spec_updates_err assms(6) by (cases res) auto
  ultimately have "run_prog E (write_prog us) ds att =
      (ds\<lparr>dsActive := True, dsWriter := True, dsCounters := dsCounters ds\<rparr>,
       att\<lparr>atOnce := True, atTx := Some t', atDB := p\<rparr>, res)"
    by (simp add: write_prog_def del: answer_abort.simps)
  then show ?thesis using m(1) by (intro exI conjI) auto
qed

lemma abs_store_changelog: "abs_store L (put_row TableChangelog x c) = abs_store L c"
  by (simp add: fun_eq_iff abs_store_def put_row_def)

lemma write_transaction_result:
  assumes "ready ds" and "live_root ds = Some d" and "\<forall>u \<in> set us. rel_ok (updRelationship u)"
    and "metadata_ok metadata" and "spec_updates L (abs_store L (rows d)) us = (m, res)"
    and "0 < n"
  shows "\<exists>ds' out. rw_loop E metadata clock (\<lambda>_. write_prog us) 0 n ds = (ds', out) \<and>
    (case res of
       Ok _ \<Rightarrow> \<exists>r d'. out = Ok r \<and> newRevisionID ds (fst (clock 0)) = Ok r \<and> extends ds r d' ds' \<and>
         abs_store L (rows d') = m
     | Err e \<Rightarrow> out = Err e \<and> unchanged ds ds')"
proof -
  obtain k where n: "n = Suc k" using assms(6) by (cases n) auto
  obtain r where b: "begin_attempt ds (fst (clock 0)) (snd (clock 0)) =
      Ok (\<lparr>atTx = None, atDB = 0, atOnce = False, atRevision = r, atNow = snd (clock 0)\<rparr> :: 't attempt)"
      (is "_ = Ok ?att")
    and r: "newRevisionID ds (fst (clock 0)) = Ok r"
    by (rule begin_ready [OF assms(1)])
  obtain ds1 att1 t where run: "run_prog E (write_prog us) ds ?att = (ds1, att1, res)"
      "atTx att1 = Some t" "abs_store L (view t) = m"
    using run_write_prog [OF assms(1-3) running_start _ assms(5)] by (metis attempt.select_convs(1))
  have "running live base (rows d) ds ds1 att1 \<and> atRevision att1 = r"
    using running_prog [OF assms(1,2) running_start write_prog_ok [OF assms(3)] run(1)] by simp
  then have inv: "running live base (rows d) ds ds1 att1" and rev: "atRevision att1 = r" by simp_all
  show ?thesis
  proof (cases res)
    case (Inl e)
    have e: "\<not> aborts e" "\<not> is_serialization e" using spec_updates_err assms(5) Inl by blast+
    obtain h where "fail_attempt ds1 att1 = ds\<lparr>dsCounters := h\<rparr>" using running_fail [OF assms(1) inv] by blast
    with Inl e b run(1) show ?thesis by (simp add: n attempt_tx_def unchanged_def)
  next
    case (Inr u)
    from commit_with_tx [OF assms(1,2) inv run(2) assms(4)] obtain ds' d' rc where
      c: "commit_attempt E metadata ds1 att1 = (ds', Ok r)" "extends ds r d' ds'"
      "rows d' = put_row TableChangelog (committed_row r rc) (view t)" unfolding rev by blast
    then have "abs_store L (rows d') = m" by (simp add: abs_store_changelog run(3))
    with Inr b run(1) c(1,2) r show ?thesis by (auto simp: n attempt_tx_def)
  qed
qed

lemma new_ready:
  assumes "newMemdbDatastore E bufferLength quant gcWindow now uid = Ok ds"
  shows "ready ds"
proof -
  from assms obtain d where d: "eNewMemDB E = Ok d" by (auto simp: newMemdbDatastore_def split: if_splits sum.splits)
  from new_db [OF d] have "dvalid d" "good L (rows d)" by (simp_all add: good_def contents_ok_def dom_def)
  with assms d show ?thesis
    by (auto simp: newMemdbDatastore_def ds_ready_def heap_ok_def root_at_def split: if_splits)
qed

end

text \<open>
  C13. A transaction that writes relationships implements the store: when the updates succeed on the
  relationships of the live database, \<open>ReadWriteTx\<close> returns the new revision and the snapshot of that
  revision holds exactly the updated relationships; when an update fails, it returns that error after
  one attempt and nothing changes.
\<close>

theorem write_transaction_refines:
  assumes "memdb_db T view base valid L E rows dvalid" and "ds_ready L rows dvalid ds"
    and "live_root ds = Some d" and "\<forall>u \<in> set us. rel_ok (updRelationship u)"
    and "metadata = [] \<or> (\<exists>s. new_struct L metadata = Ok s)"
  shows "\<exists>ds' out. readWriteTx E disableRetries metadata clock (\<lambda>_. write_prog us) ds = (ds', out) \<and>
    (case spec_updates L (abs_store L (rows d)) us of
       (m, Ok _) \<Rightarrow> \<exists>r d'. out = Ok r \<and> newRevisionID ds (fst (clock 0)) = Ok r \<and> extends ds r d' ds' \<and>
         abs_store L (rows d') = m
     | (_, Err e) \<Rightarrow> out = Err e \<and> unchanged ds ds')"
proof -
  obtain m res where sp: "spec_updates L (abs_store L (rows d)) us = (m, res)" by (metis surj_pair)
  have "0 < (if disableRetries then 1 else numAttempts)" by (simp add: numAttempts_def)
  from memdb_db.write_transaction_result [OF assms(1-5) sp this, of clock] show ?thesis
    unfolding readWriteTx_def sp by (cases res) auto
qed

text \<open>A new datastore on the reference database.\<close>

definition sample_ds :: "ref_contents memdb_ds" where
  "sample_ds = projr (newMemdbDatastore ref_env 0 5 100 1000 ''id'')"

lemma sample_ds_eq:
  "sample_ds = \<lparr>dsDB = Some 0, dsRevisions = [(1000, 0)], dsActive = False, dsNegativeGCWindow = - 100,
     dsQuantizationPeriod = 5, dsWatchBufferLength = 128, dsUniqueID = ''id'', dsHeap = [(0, [])],
     dsNextPtr = 1, dsCounters = [], dsWriter = False, dsLocked = False\<rparr>"
  by (simp add: sample_ds_def newMemdbDatastore_def ref_env_def newForTime_def i64_def
      defaultWatchBufferLength_def)

lemma sample_ds_ready: "ds_ready ref_lib ref_view ref_dvalid sample_ds"
  by (rule ref_mdb.new_ready [of 0 5 100 1000 "''id''"])
     (simp add: sample_ds_def newMemdbDatastore_def ref_env_def)

lemma sample_ds_root: "live_root sample_ds = Some []"
  by (simp add: live_root_def root_at_def sample_ds_eq)

lemma sample_revision: "newRevisionID sample_ds 2000 = Ok 2000"
  by (simp add: newRevisionID_def headRevisionNoLock_def sample_ds_eq nowRevision_def newForTime_def i64_def
      ts_compare_defs)

theorem write_transaction_refines_witness:
  "\<exists>ds' d'. readWriteTx ref_env False [] (\<lambda>_. (2000, 2000))
      (\<lambda>_. write_prog [create_update (sample_rel ''d1'' ''u1'')]) sample_ds = (ds', Ok 2000) \<and>
    extends sample_ds 2000 d' ds' \<and>
    abs_store ref_lib (ref_view d') = [rel_ref (sample_rel ''d1'' ''u1'') \<mapsto> sample_rel ''d1'' ''u1'']"
proof -
  let ?x = "sample_rel ''d1'' ''u1''"
  have ok: "\<forall>u \<in> set [create_update ?x]. rel_ok (updRelationship u)" using sample_rel_ok by (simp add: create_update_def)
  have "abs_store ref_lib (ref_view []) = Map.empty" by (simp add: fun_eq_iff abs_store_def)
  then have "spec_updates ref_lib (abs_store ref_lib (ref_view [])) [create_update ?x] = ([rel_ref ?x \<mapsto> ?x], Ok ())"
    by (simp add: spec_update_def create_update_def Let_def)
  with write_transaction_refines [OF ref_mdb.memdb_db_axioms sample_ds_ready sample_ds_root ok, of "[]" False
      "\<lambda>_. (2000, 2000)"] sample_revision
  show ?thesis by auto
qed

section \<open>Atomicity\<close>



end
