(* ===== verification/Memdb_Revisions.thy ===== *)
theory Memdb_Revisions
  imports Memdb_Commit
begin

text \<open>
  The revisions of the in-memory datastore: how new ones are ordered, which are accepted, which
  snapshot a reader gets, and what is left after \<open>Close\<close>.
\<close>

section \<open>New revisions\<close>

definition head_of :: "'d memdb_ds \<Rightarrow> int" where
  "head_of ds = fst (last (dsRevisions ds))"

lemma newRevisionID_eq:
  assumes "dsRevisions ds \<noteq> []"
  shows "newRevisionID ds c = Ok (if i64 c = head_of ds then i64 (i64 c + 1) else i64 c)"
  using assms by (simp add: newRevisionID_def headRevisionNoLock_def head_of_def nowRevision_def
      newForTime_def newForTimestamp_def ts_compare_defs ts_TimestampNanoSec_def Let_def)

text \<open>
  The revision of a new transaction is after the head revision exactly when the clock is not
  behind the head: an equal reading is moved one nanosecond forward, but a reading that is behind is
  taken as it is, so after two transactions within one tick of the clock, or a step back of the
  clock, the head revision decreases.
\<close>

theorem new_revision_order:
  assumes "dsRevisions ds \<noteq> []" and "is_i64 c" and "is_i64 (c + 1)"
  shows "\<exists>r. newRevisionID ds c = Ok r \<and> (head_of ds < r \<longleftrightarrow> head_of ds \<le> c)"
  using assms by (auto simp: newRevisionID_eq i64_id)

theorem new_revision_order_witness:
  "\<exists>r. newRevisionID (sample_ds\<lparr>dsRevisions := [(1000, 0), (1001, 1)]\<rparr>) 1000 = Ok r \<and>
     \<not> head_of (sample_ds\<lparr>dsRevisions := [(1000, 0), (1001, 1)]\<rparr>) < r"
  using new_revision_order [of "sample_ds\<lparr>dsRevisions := [(1000, 0), (1001, 1)]\<rparr>" 1000]
  by (simp add: head_of_def is_i64_def)

section \<open>Accepted revisions\<close>

lemma check_local_eq:
  assumes "dsRevisions ds \<noteq> []" and "is_i64 now" and "is_i64 (now + dsNegativeGCWindow ds)"
  shows "checkRevisionLocalCallerMustLock E ds now (TimestampRev t) =
    (if t = head_of ds \<or> (now + dsNegativeGCWindow ds \<le> t \<and> (t \<le> now \<or> t \<le> head_of ds)) then Ok ()
     else Err (InvalidRevision (TimestampRev t)
       (if t < now + dsNegativeGCWindow ds then RevisionStale else CouldNotDetermineRevision)))"
  using assms by (auto simp: checkRevisionLocalCallerMustLock_def revisionOutsideGCWindow_def
      headRevisionNoLock_def head_of_def nowRevision_def newForTime_def newForTimestamp_def i64_id
      rev_Equal_def rev_LessThan_def rev_GreaterThan_def ts_compare_defs ts_TimestampNanoSec_def Let_def
      split: bool.split)

text \<open>
  C33. \<open>CheckRevision\<close> accepts exactly the head revision and the revisions of the garbage collection
  window that are not in the future, where the future starts behind both the clock and the head.
\<close>

theorem check_revision_window:
  assumes "dsDB ds \<noteq> None" and "dsRevisions ds \<noteq> []" and "is_i64 now" and "is_i64 (now + dsNegativeGCWindow ds)"
  shows "checkRevision_ds E ds now (TimestampRev t) = Ok () \<longleftrightarrow>
    t = head_of ds \<or> (now + dsNegativeGCWindow ds \<le> t \<and> t \<le> max now (head_of ds))"
  using assms by (auto simp: checkRevision_ds_def checkNotClosed_def check_local_eq split: if_splits)

theorem check_revision_window_witness:
  "checkRevision_ds ref_env sample_ds 1500 (TimestampRev 1400) = Ok () \<and>
   checkRevision_ds ref_env sample_ds 1500 (TimestampRev 1000) = Ok () \<and>
   checkRevision_ds ref_env sample_ds 1500 (TimestampRev 1399) \<noteq> Ok () \<and>
   checkRevision_ds ref_env sample_ds 1500 (TimestampRev 1501) \<noteq> Ok ()"
  using check_revision_window [of sample_ds 1500 ref_env] by (simp add: sample_ds_eq is_i64_def head_of_def)

text \<open>
  The revision \<open>OptimizedRevision\<close> offers is the last multiple of the quantization interval that is not
  after the clock, and the datastore accepts it, because the interval is not longer than the window.
\<close>

theorem optimized_revision_accepted:
  assumes "newMemdbDatastore E bufferLength quantization gcWindow start uid = Ok ds0"
    and "dsQuantizationPeriod ds = dsQuantizationPeriod ds0" and "dsNegativeGCWindow ds = dsNegativeGCWindow ds0"
    and "dsDB ds \<noteq> None" and "dsRevisions ds \<noteq> []"
    and "0 \<le> gcWindow" and "is_i64 gcWindow" and "0 \<le> now" and "is_i64 now"
  shows "\<exists>r. optimizedRevision_ds ds now = Ok (TimestampRev r) \<and> dsQuantizationPeriod ds dvd r \<and>
    r \<le> now \<and> now < r + dsQuantizationPeriod ds \<and> checkRevision_ds E ds now (TimestampRev r) = Ok ()"
proof -
  let ?q = "dsQuantizationPeriod ds"
  have q: "0 < ?q" "?q \<le> max 1 gcWindow" and g: "dsNegativeGCWindow ds = - gcWindow"
    using assms(1-3,6,7) by (auto simp: newMemdbDatastore_def is_i64_def i64_def split: if_splits sum.splits)
  have b: "0 \<le> now smod ?q" "now smod ?q < ?q" "now smod ?q \<le> now"
    using smod_nonneg_bounds [OF assms(8) q(1)] by simp_all
  have r: "is_i64 (now - now smod ?q)" using assms(8,9) b by (simp add: is_i64_def)
  have w: "is_i64 (now - gcWindow)" using assms(6-9) by (simp add: is_i64_def)
  have o: "optimizedRevision_ds ds now = Ok (TimestampRev (now - now smod ?q))"
    using assms(4,9) r by (simp add: optimizedRevision_ds_def checkNotClosed_def nowRevision_def newForTime_def
        newForTimestamp_def ts_TimestampNanoSec_def Let_def i64_id split: option.splits)
  have "now - gcWindow \<le> now - now smod ?q" using b q assms(6) by simp
  then have "checkRevision_ds E ds now (TimestampRev (now - now smod ?q)) = Ok ()"
    using assms(4,5,9) b w g by (simp add: checkRevision_ds_def checkNotClosed_def check_local_eq split: option.splits)
  with o b dvd_minus_smod [OF assms(8) q(1)] show ?thesis by auto
qed

theorem optimized_revision_accepted_witness:
  "optimizedRevision_ds sample_ds 2003 = Ok (TimestampRev 2000) \<and>
   checkRevision_ds ref_env sample_ds 2003 (TimestampRev 2000) = Ok ()"
proof -
  have new: "newMemdbDatastore ref_env 0 5 100 1000 ''id'' = Ok sample_ds"
    by (simp add: sample_ds_def newMemdbDatastore_def ref_env_def)
  have o: "optimizedRevision_ds sample_ds 2003 = Ok (TimestampRev 2000)"
    by (simp add: sample_ds_eq) code_simp
  with optimized_revision_accepted [OF new refl refl, of 2003] show ?thesis
    by (simp add: sample_ds_eq is_i64_def)
qed

section \<open>Snapshots\<close>

definition ascending :: "'d memdb_ds \<Rightarrow> bool" where
  "ascending ds \<longleftrightarrow> sorted_wrt (<) (map fst (dsRevisions ds))"

text \<open>The first snapshot that is not before the requested revision, or the last one.\<close>

lemma revision_index_spec:
  assumes "ascending ds" and "dsRevisions ds \<noteq> []" and i_def: "i = revision_index ds (TimestampRev t)"
  shows "i < length (dsRevisions ds)" "\<And>j. j < i \<Longrightarrow> fst (dsRevisions ds ! j) < t"
    "t \<le> fst (dsRevisions ds ! i) \<or> i = length (dsRevisions ds) - 1"
proof -
  let ?n = "length (dsRevisions ds)"
  let ?f = "\<lambda>i. t \<le> fst (dsRevisions ds ! i)"
  let ?s = "sort_search ?n ?f"
  have "fst (dsRevisions ds ! a) < fst (dsRevisions ds ! b)" if "a < b" "b < ?n" for a b
    using sorted_wrt_nth_less [OF assms(1) [unfolded ascending_def], of a b] that by simp
  then have mono: "\<forall>a b. a \<le> b \<and> b < ?n \<and> ?f a \<longrightarrow> ?f b"
    by (metis le_less nless_le order.trans)
  have "(\<lambda>i. ts_GreaterThan (fst (dsRevisions ds ! i)) (TimestampRev t) = Ok True \<or>
      ts_Equal (fst (dsRevisions ds ! i)) (TimestampRev t) = Ok True) = ?f"
    by (auto simp: fun_eq_iff ts_compare_defs)
  then have i: "i = (if ?s = ?n then ?n - 1 else ?s)" by (simp add: i_def revision_index_def Let_def)
  note S = sort_search_spec [OF mono]
  show "i < ?n" using S(1) assms(2) by (auto simp: i)
  show "fst (dsRevisions ds ! j) < t" if "j < i" for j
  proof -
    have "j < ?s" using that i S(1) by (auto split: if_splits)
    then show ?thesis using S(2) [of j] by simp
  qed
  show "?f i \<or> i = ?n - 1" using S(1) S(3) [of ?s] by (auto simp: i)
qed

lemma snapshot_reader_tx:
  assumes "dsDB ds \<noteq> None" and "dsRevisions ds \<noteq> []" and "checkRevisionLocalCallerMustLock E ds now dr = Ok ()"
    and "root_at ds (snd (dsRevisions ds ! revision_index ds dr)) = Some d"
  shows "rdTxSource (snapshotReader E ds now dr) = Ok (eTxn E False d)"
  using assms by (auto simp: snapshotReader_def checkNotClosed_def)

text \<open>
  C34. Reads at a fixed revision are not repeatable: when no snapshot is at the requested revision the
  reader gets the next later one, or the head for want of one. A revision behind the head (as
  \<open>OptimizedRevision\<close> offers it) reads the head before the next transaction commits, and the
  contents that transaction writes afterwards.
\<close>

theorem snapshot_reads_later:
  assumes "ascending ds" and "dsRevisions ds \<noteq> []" and "dsDB ds \<noteq> None" and "extends ds r d' ds'"
    and "head_of ds < t" and "t \<le> r" and "root_at ds (snd (last (dsRevisions ds))) = Some d"
    and "checkRevisionLocalCallerMustLock E ds now (TimestampRev t) = Ok ()"
    and "checkRevisionLocalCallerMustLock E ds' now' (TimestampRev t) = Ok ()"
  shows "rdTxSource (snapshotReader E ds now (TimestampRev t)) = Ok (eTxn E False d) \<and>
    rdTxSource (snapshotReader E ds' now' (TimestampRev t)) = Ok (eTxn E False d')"
proof
  let ?rs = "dsRevisions ds" and ?n = "length (dsRevisions ds)"
  have head: "?rs ! (?n - 1) = last ?rs" using assms(2) by (simp add: last_conv_nth)
  have rs': "dsRevisions ds' = ?rs @ [(r, dsNextPtr ds)]" "dsDB ds' = dsDB ds"
    "root_at ds' (dsNextPtr ds) = Some d'" using assms(4) by (simp_all add: extends_def)
  have below: "x \<le> head_of ds" if x: "x \<in> set (map fst ?rs)" for x
    using x assms(1,2) by (cases ?rs rule: rev_cases)
      (auto simp: ascending_def head_of_def sorted_wrt_append less_imp_le)
  note i = revision_index_spec [OF assms(1,2) refl, where t = t]
  have "revision_index ds (TimestampRev t) = ?n - 1"
  proof (rule ccontr)
    assume "revision_index ds (TimestampRev t) \<noteq> ?n - 1"
    with i(3) have "t \<le> fst (?rs ! revision_index ds (TimestampRev t))" by simp
    moreover have "fst (?rs ! revision_index ds (TimestampRev t)) \<le> head_of ds"
      using i(1) by (intro below) simp
    ultimately show False using assms(5) by simp
  qed
  then show "rdTxSource (snapshotReader E ds now (TimestampRev t)) = Ok (eTxn E False d)"
    using assms(2,3,7,8) head by (intro snapshot_reader_tx) simp_all
  have asc: "ascending ds'" using assms(1,5,6) below by (fastforce simp: ascending_def rs' sorted_wrt_append)
  have "dsRevisions ds' \<noteq> []" by (simp add: rs')
  note i' = revision_index_spec [OF asc this refl, where t = t]
  have "revision_index ds' (TimestampRev t) = ?n"
  proof (rule ccontr)
    assume "revision_index ds' (TimestampRev t) \<noteq> ?n"
    then have lt: "revision_index ds' (TimestampRev t) < ?n" using i'(1) by (simp add: rs')
    with i'(3) have "t \<le> fst (?rs ! revision_index ds' (TimestampRev t))" by (simp add: rs' nth_append)
    moreover have "fst (?rs ! revision_index ds' (TimestampRev t)) \<le> head_of ds"
      using lt by (intro below) simp
    ultimately show False using assms(5) by simp
  qed
  then show "rdTxSource (snapshotReader E ds' now' (TimestampRev t)) = Ok (eTxn E False d')"
    using assms(3,9) rs' by (intro snapshot_reader_tx) simp_all
qed

theorem snapshot_reads_later_witness:
  "\<exists>ds'. extends sample_ds 2000 (rtView sample_txn) ds' \<and>
    rdTxSource (snapshotReader ref_env sample_ds 1550 (TimestampRev 1500)) = Ok (ref_begin []) \<and>
    rdTxSource (snapshotReader ref_env ds' 2050 (TimestampRev 1950)) = Ok (ref_begin (rtView sample_txn)) \<and>
    rdTxSource (snapshotReader ref_env sample_ds 1950 (TimestampRev 1950)) = Ok (ref_begin [])"
proof -
  let ?x = "rtView sample_txn"
  let ?ds = "sample_ds\<lparr>dsHeap := [(1, ?x), (0, ?x)], dsRevisions := [(1000, 0), (2000, 1)], dsNextPtr := 2\<rparr>"
  have e: "extends sample_ds 2000 ?x ?ds" by (simp add: extends_def sample_ds_eq live_root_def root_at_def)
  have txn: "eTxn ref_env False d = ref_begin d" for d by (simp add: ref_env_def)
  have c: "checkRevisionLocalCallerMustLock ref_env sample_ds 1550 (TimestampRev 1500) = Ok ()"
    "checkRevisionLocalCallerMustLock ref_env sample_ds 1950 (TimestampRev 1950) = Ok ()"
    "checkRevisionLocalCallerMustLock ref_env ?ds 2050 (TimestampRev 1950) = Ok ()"
    "checkRevisionLocalCallerMustLock ref_env ?ds 1550 (TimestampRev 1500) = Ok ()"
    by (simp_all add: check_local_eq sample_ds_eq is_i64_def head_of_def)
  have s: "ascending sample_ds" "dsRevisions sample_ds \<noteq> []" "dsDB sample_ds \<noteq> None"
    "root_at sample_ds (snd (last (dsRevisions sample_ds))) = Some []" "head_of sample_ds = 1000"
    by (simp_all add: ascending_def sample_ds_eq root_at_def head_of_def)
  show ?thesis
    using e snapshot_reads_later [OF s(1-3) e _ _ s(4) c(1,4)] snapshot_reads_later [OF s(1-3) e _ _ s(4) c(2,3)]
    unfolding s(5) txn by (intro exI [of _ ?ds]) simp
qed

text \<open>
  The snapshot of a new datastore is the live database itself, not a copy: after the first
  transaction, a reader at the initial revision sees what that transaction wrote.
\<close>

theorem initial_snapshot_moves:
  assumes "memdb_db T view base valid L E rows dvalid"
    and "newMemdbDatastore E bufferLength quantization gcWindow start uid = Ok ds"
    and "\<forall>u \<in> set us. rel_ok (updRelationship u)" and "metadata = [] \<or> (\<exists>s. new_struct L metadata = Ok s)"
    and "spec_updates L Map.empty us = (m, Ok ())"
  shows "\<exists>ds' r p q d. readWriteTx E disableRetries metadata clock (\<lambda>_. write_prog us) ds = (ds', Ok r) \<and>
    dsRevisions ds' = [(newForTime start, p), (r, q)] \<and> root_at ds' p = Some d \<and> abs_store L (rows d) = m"
proof -
  have ready: "ds_ready L rows dvalid ds" by (rule memdb_db.new_ready [OF assms(1,2)])
  obtain d0 where d0: "eNewMemDB E = Ok d0" and ds: "dsDB ds = Some 0" "dsRevisions ds = [(newForTime start, 0)]"
      "live_root ds = Some d0"
    using assms(2) by (auto simp: newMemdbDatastore_def live_root_def root_at_def split: if_splits sum.splits)
  have "rows d0 = (\<lambda>_ _. None)" using memdb_db.new_db [OF assms(1) d0] by simp
  then have "abs_store L (rows d0) = Map.empty" by (simp add: fun_eq_iff abs_store_def)
  with assms(5) have sp: "spec_updates L (abs_store L (rows d0)) us = (m, Ok ())" by simp
  have "0 < (if disableRetries then 1 else numAttempts)" by (simp add: numAttempts_def)
  from memdb_db.write_transaction_result [OF assms(1) ready ds(3) assms(3,4) sp this, of clock]
  obtain ds' r d' where r: "readWriteTx E disableRetries metadata clock (\<lambda>_. write_prog us) ds = (ds', Ok r)"
    "extends ds r d' ds'" "abs_store L (rows d') = m" unfolding readWriteTx_def by auto
  then have "dsRevisions ds' = [(newForTime start, 0), (r, dsNextPtr ds)]" "root_at ds' 0 = Some d'"
    using ds(1,2) by (auto simp: extends_def live_root_def)
  with r(1,3) show ?thesis by blast
qed

theorem initial_snapshot_moves_witness:
  "\<exists>ds' r p q d. readWriteTx ref_env False [] (\<lambda>_. (2000, 2000))
      (\<lambda>_. write_prog [create_update (sample_rel ''d1'' ''u1'')]) sample_ds = (ds', Ok r) \<and>
    dsRevisions ds' = [(1000, p), (r, q)] \<and> root_at ds' p = Some d \<and>
    abs_store ref_lib (ref_view d) = [rel_ref (sample_rel ''d1'' ''u1'') \<mapsto> sample_rel ''d1'' ''u1'']"
proof -
  let ?x = "sample_rel ''d1'' ''u1''"
  have ok: "\<forall>u \<in> set [create_update ?x]. rel_ok (updRelationship u)" using sample_rel_ok by (simp add: create_update_def)
  have new: "newMemdbDatastore ref_env 0 5 100 1000 ''id'' = Ok sample_ds"
    by (simp add: sample_ds_def newMemdbDatastore_def ref_env_def)
  have sp: "spec_updates ref_lib Map.empty [create_update ?x] = ([rel_ref ?x \<mapsto> ?x], Ok ())"
    by (simp add: spec_update_def create_update_def Let_def)
  have "newForTime 1000 = 1000" by (simp add: newForTime_def i64_def)
  with initial_snapshot_moves [OF ref_mdb.memdb_db_axioms new ok _ sp, of "[]" False "\<lambda>_. (2000, 2000)"]
  show ?thesis by simp
qed

section \<open>After Close\<close>

lemma first_attempt:
  "\<exists>n. readWriteTx E disableRetries metadata clock f ds = rw_loop E metadata clock f 0 (Suc n) ds"
proof -
  have "(if disableRetries then 1 else numAttempts) = Suc (if disableRetries then 0 else 9)"
    by (simp add: numAttempts_def)
  then show ?thesis unfolding readWriteTx_def by metis
qed

lemma write_prog_on_closed:
  fixes E :: "('d, 't) env"
  assumes "dsDB ds = None" and "\<not> dsActive ds" and "dsRevisions ds \<noteq> []"
  shows "snd (readWriteTx E disableRetries metadata clock (\<lambda>_. write_prog us) ds) = Err ErrMemDBIsClosed"
proof -
  obtain r where b: "begin_attempt ds (fst (clock 0)) (snd (clock 0)) =
      Ok (\<lparr>atTx = None, atDB = 0, atOnce = False, atRevision = r, atNow = snd (clock 0)\<rparr> :: 't attempt)"
    using assms(3) by (simp add: begin_attempt_def newRevisionID_eq)
  obtain n where "readWriteTx E disableRetries metadata clock (\<lambda>_. write_prog us) ds =
      rw_loop E metadata clock (\<lambda>_. write_prog us) 0 (Suc n) ds" using first_attempt by blast
  with assms(1,2) b show ?thesis
    by (simp add: attempt_tx_def write_prog_def rw_call_def txSrc_def rwt_of_def
        writeRelationships_def with_wtx_def fail_attempt_def Let_def)
qed



end
