(* ===== verification/Memdb_Concurrent.thy ===== *)
theory Memdb_Concurrent
  imports Memdb_Commit
begin

text \<open>
  Several callers of \<open>ReadWriteTx\<close> at once. A step is one critical section of the datastore, or one call
  on a transaction that is already begun; a caller that waits for the writer lock of the database
  while holding the datastore's mutex stops everybody who needs the mutex.
\<close>

section \<open>Steps\<close>

datatype 't client = Idle | Busy "'t attempt" prog | Waiting

text \<open>Whether the call takes the datastore's mutex.\<close>

definition locks :: "'t attempt \<Rightarrow> rw_op \<Rightarrow> bool" where
  "locks att op \<longleftrightarrow> asks_for_tx op \<and> \<not> atOnce att"

inductive sys_step ::
    "('d, 't) env \<Rightarrow> any_map \<Rightarrow> (prog \<Rightarrow> bool) \<Rightarrow> 'd memdb_ds \<times> (nat \<Rightarrow> 't client) \<Rightarrow>
     'd memdb_ds \<times> (nat \<Rightarrow> 't client) \<Rightarrow> bool"
  for E md P where
  sys_begin: "\<not> dsLocked ds \<Longrightarrow> cl i = Idle \<Longrightarrow> P p \<Longrightarrow> begin_attempt ds c n = Ok att \<Longrightarrow>
    sys_step E md P (ds, cl) (ds, cl(i := Busy att p))"
| sys_call: "cl i = Busy att (Call op k) \<Longrightarrow> (locks att op \<longrightarrow> \<not> dsLocked ds) \<Longrightarrow>
    rw_call E ds att op = (ds', att', ans) \<Longrightarrow> answer_abort ans = None \<Longrightarrow>
    sys_step E md P (ds, cl) (ds', cl(i := Busy att' (k ans)))"
| sys_block: "cl i = Busy att (Call op k) \<Longrightarrow> (locks att op \<longrightarrow> \<not> dsLocked ds) \<Longrightarrow>
    rw_call E ds att op = (ds', att', ans) \<Longrightarrow> answer_abort ans = Some (Blocks w) \<Longrightarrow>
    sys_step E md P (ds, cl) (ds', cl(i := Waiting))"
| sys_panic: "cl i = Busy att (Call op k) \<Longrightarrow> (locks att op \<longrightarrow> \<not> dsLocked ds) \<Longrightarrow>
    rw_call E ds att op = (ds', att', ans) \<Longrightarrow> answer_abort ans = Some (Panic w) \<Longrightarrow>
    sys_step E md P (ds, cl) (ds', cl(i := Idle))"
| sys_fail: "cl i = Busy att (Done (Err e)) \<Longrightarrow> \<not> dsLocked ds \<Longrightarrow>
    sys_step E md P (ds, cl) (fail_attempt ds att, cl(i := Idle))"
| sys_commit: "cl i = Busy att (Done (Ok u)) \<Longrightarrow> \<not> dsLocked ds \<Longrightarrow> commit_attempt E md ds att = (ds', res) \<Longrightarrow>
    sys_step E md P (ds, cl) (ds', cl(i := Idle))"

inductive sys_reach ::
    "('d, 't) env \<Rightarrow> any_map \<Rightarrow> (prog \<Rightarrow> bool) \<Rightarrow> 'd memdb_ds \<times> (nat \<Rightarrow> 't client) \<Rightarrow>
     'd memdb_ds \<times> (nat \<Rightarrow> 't client) \<Rightarrow> bool"
  for E md P s0 where
  reach_start: "sys_reach E md P s0 s0"
| reach_step: "sys_reach E md P s0 s \<Longrightarrow> sys_step E md P s s' \<Longrightarrow> sys_reach E md P s0 s'"

section \<open>Disciplined user functions\<close>

text \<open>
  A user function is disciplined when it does not succeed without having got the transaction: it
  returns the error of a failed call that may have tried to begin it.
\<close>

fun answer_err :: "rw_answer \<Rightarrow> go_error option" where
  "answer_err a = (case a of
       AnsUnit r \<Rightarrow> err_of r
     | AnsDelete r \<Rightarrow> err_of r
     | AnsBulkLoad _ r \<Rightarrow> err_of r
     | AnsRelationships r \<Rightarrow> err_of r
     | AnsCount r \<Rightarrow> err_of r
     | AnsCounters r \<Rightarrow> err_of r
     | AnsNamespace r \<Rightarrow> err_of r
     | AnsNamespaces r \<Rightarrow> err_of r
     | AnsCaveat r \<Rightarrow> err_of r
     | AnsCaveats r \<Rightarrow> err_of r)"

primrec disciplined :: "prog \<Rightarrow> bool" where
  "disciplined (Done r) \<longleftrightarrow> r \<noteq> Ok ()"
| "disciplined (Call op k) \<longleftrightarrow>
     (if asks_for_tx op then \<forall>a. answer_err a \<noteq> None \<longrightarrow> (\<exists>e. k a = Done (Err e))
      else \<forall>a. disciplined (k a))"

text \<open>A failed attempt to begin the transaction shows in the answer.\<close>

lemma failed_begin_answer:
  assumes "rwLocker w = MutexLocker False" and "rwTxSource w = Err e" and "asks_for_tx op"
  shows "answer_err (snd (do_op L T w op)) = Some e"
proof (cases op)
  case (OpBulkLoad src)
  then obtain nxt src' where "src = Ok nxt # src'" using assms(3) by (cases "OpBulkLoad src" rule: asks_for_tx.cases) auto
  then show ?thesis using OpBulkLoad assms(1,2) by (simp add: writeRelationships_def with_wtx_def)
qed (use assms in \<open>auto simp: writeRelationships_def deleteRelationships_def registerCounter_def
      unregisterCounter_def storeCounterValue_def writeNamespaces_def deleteNamespaces_def
      writeCaveats_def deleteCaveats_def with_wtx_def Let_def queryRelationships_def
      reverseQueryRelationships_def lookupCounters_def countRelationships_def readNamespaceByName_def
      listAllNamespaces_def lookupNamespacesWithNames_def readCaveatByName_def listAllCaveats_def
      lookupCaveatsWithNames_def with_init_def with_tx_def rwt_reader_def\<close>)

section \<open>The invariant\<close>

definition has_tx :: "(nat \<Rightarrow> 't client) \<Rightarrow> nat \<Rightarrow> 't \<Rightarrow> bool" where
  "has_tx cl i t \<longleftrightarrow> (\<exists>att q. cl i = Busy att q \<and> atTx att = Some t)"

definition client_ok ::
    "('t \<Rightarrow> bool) \<Rightarrow> ('t \<Rightarrow> contents) \<Rightarrow> ('d \<Rightarrow> contents) \<Rightarrow> 'd memdb_ds \<Rightarrow> 't client \<Rightarrow> bool" where
  "client_ok lv base rows ds c = (case c of
     Busy att q \<Rightarrow> prog_ok q \<and> (case atTx att of
        None \<Rightarrow> (\<not> atOnce att \<and> disciplined q) \<or> (\<exists>e. q = Done (Err e))
      | Some t \<Rightarrow> dsActive ds \<and> atOnce att \<and> lv t \<and> dsDB ds = Some (atDB att) \<and>
          (\<exists>d. live_root ds = Some d \<and> base t = rows d))
   | _ \<Rightarrow> True)"

definition sys_inv ::
    "spice_lib \<Rightarrow> ('t \<Rightarrow> bool) \<Rightarrow> ('t \<Rightarrow> contents) \<Rightarrow> ('d \<Rightarrow> contents) \<Rightarrow> ('d \<Rightarrow> bool) \<Rightarrow>
     'd memdb_ds \<times> (nat \<Rightarrow> 't client) \<Rightarrow> bool" where
  "sys_inv L lv base rows dvalid s = (case s of (ds, cl) \<Rightarrow>
     ds_ready L rows dvalid (ds\<lparr>dsActive := False, dsWriter := False\<rparr>) \<and> dsWriter ds = dsActive ds \<and>
     (\<forall>i. client_ok lv base rows ds (cl i)) \<and>
     (\<forall>i j t t'. has_tx cl i t \<and> has_tx cl j t' \<longrightarrow> i = j))"

lemma has_tx_upd: "has_tx (cl(i := c)) j t \<longleftrightarrow> (if j = i then has_tx (\<lambda>_. c) 0 t else has_tx cl j t)"
  by (simp add: has_tx_def)

lemma has_tx_const [simp]:
  "\<not> has_tx (\<lambda>_. Idle) k t" "\<not> has_tx (\<lambda>_. Waiting) k t" "has_tx (\<lambda>_. Busy att q) k t \<longleftrightarrow> atTx att = Some t"
  by (auto simp: has_tx_def)

lemma live_root_simps [simp]:
  "live_root (ds\<lparr>dsActive := a\<rparr>) = live_root ds" "live_root (ds\<lparr>dsWriter := a\<rparr>) = live_root ds"
  "live_root (ds\<lparr>dsCounters := h\<rparr>) = live_root ds"
  by (simp_all add: live_root_def split: option.split)

text \<open>Replacing one client.\<close>

lemma sys_inv_upd:
  assumes "ds_ready L rows dvalid (ds\<lparr>dsActive := False, dsWriter := False\<rparr>)" and "dsWriter ds = dsActive ds"
    and "\<And>j. j \<noteq> i \<Longrightarrow> client_ok lv base rows ds (cl j)" and "client_ok lv base rows ds c"
    and "\<And>j k t t'. has_tx cl j t \<Longrightarrow> has_tx cl k t' \<Longrightarrow> j = k"
    and "\<And>j t t'. j \<noteq> i \<Longrightarrow> has_tx cl j t \<Longrightarrow> \<not> has_tx (\<lambda>_. c) 0 t'"
  shows "sys_inv L lv base rows dvalid (ds, cl(i := c))"
  unfolding sys_inv_def prod.case
proof (intro conjI allI impI)
  show "ds_ready L rows dvalid (ds\<lparr>dsActive := False, dsWriter := False\<rparr>)" "dsWriter ds = dsActive ds"
    using assms(1,2) by simp_all
  show "client_ok lv base rows ds ((cl(i := c)) j)" for j
    using assms(3) [of j] assms(4) by simp
  show "j = k" if "has_tx (cl(i := c)) j t \<and> has_tx (cl(i := c)) k t'" for j k t t'
    using that assms(5) [of j t k t'] assms(6) [of j t] assms(6) [of k t'] unfolding has_tx_upd
    by (metis (full_types))
qed

context memdb_db begin

abbreviation inv :: "'d memdb_ds \<times> (nat \<Rightarrow> 't client) \<Rightarrow> bool" where
  "inv \<equiv> sys_inv L live base rows dvalid"

lemma failed_call:
  assumes "dsActive ds" and "\<not> atOnce att" and "asks_for_tx op" and "rw_call E ds att op = (ds', att', ans)"
  shows "ds' = ds \<and> att' = att\<lparr>atOnce := True\<rparr> \<and> answer_err ans = Some ErrSerialization"
proof -
  let ?w = "rwt_of ds (att\<lparr>atOnce := True\<rparr>) (Err ErrSerialization)"
  have src: "txSrc E ds att = (ds, att\<lparr>atOnce := True\<rparr>, Err ErrSerialization)"
    using assms(1,2) by (simp add: txSrc_def Let_def)
  have w: "rwLocker ?w = MutexLocker False" "rwTxSource ?w = Err ErrSerialization" "rwHeap ?w = dsCounters ds"
    by (simp_all add: rwt_of_def)
  have "answer_err (snd (do_op L T ?w op)) = Some ErrSerialization"
    by (rule failed_begin_answer [OF w(1,2) assms(3)])
  with do_op_without_tx [OF w(1,2), of L T op] w(3) show ?thesis
    using assms(3,4) by (auto simp: rw_call_def src env split_beta)
qed

text \<open>The state as if the open transaction had not begun.\<close>

lemma inv_running:
  assumes "inv (ds, cl)" and "cl i = Busy att q" and "atTx att \<noteq> None \<or> (\<not> dsActive ds \<and> \<not> atOnce att)"
  obtains d where "live_root ds = Some d" "ready (ds\<lparr>dsActive := False, dsWriter := False\<rparr>)"
    "running live base (rows d) (ds\<lparr>dsActive := False, dsWriter := False\<rparr>) ds att"
proof -
  have r: "ready (ds\<lparr>dsActive := False, dsWriter := False\<rparr>)" and w: "dsWriter ds = dsActive ds"
    and "client_ok live base rows ds (cl i)"
    using assms(1) by (simp_all add: sys_inv_def)
  then have c: "client_ok live base rows ds (Busy att q)" using assms(2) by simp
  obtain d where d: "live_root ds = Some d" using ready_root [OF r] by auto
  have "running live base (rows d) (ds\<lparr>dsActive := False, dsWriter := False\<rparr>) ds att"
  proof (cases "atTx att")
    case None
    then have "ds = (ds\<lparr>dsActive := False, dsWriter := False\<rparr>)\<lparr>dsCounters := dsCounters ds\<rparr>"
      using assms(3) w by (cases ds) auto
    with None assms(3) show ?thesis unfolding running_def None option.case by blast
  next
    case (Some t)
    with c have a: "dsActive ds" "atOnce att" "live t" "dsDB ds = Some (atDB att)" "base t = rows d"
      using d by (auto simp: client_ok_def)
    then have "ds = (ds\<lparr>dsActive := False, dsWriter := False\<rparr>)\<lparr>dsActive := True, dsWriter := True, dsCounters := dsCounters ds\<rparr>"
      using w by (cases ds) auto
    moreover have "dsDB (ds\<lparr>dsActive := False, dsWriter := False\<rparr>) = Some (atDB att)" using a(4) by simp
    ultimately show ?thesis using a unfolding running_def Some option.case by blast
  qed
  with d r that show ?thesis by blast
qed

lemma call_without_tx:
  assumes "rw_call E ds att op = (ds', att', ans)" and "\<not> asks_for_tx op"
  shows "ds' = ds \<and> att' = att"
proof -
  let ?w = "rwt_of ds att (Err (Panic ''no transaction''))"
  have w: "rwLocker ?w = MutexLocker False" "rwTxSource ?w = Err (Panic ''no transaction'')" "rwHeap ?w = dsCounters ds"
    by (simp_all add: rwt_of_def)
  with do_op_without_tx [OF w(1,2), of L T op] show ?thesis
    using assms by (auto simp: rw_call_def env split_beta)
qed

lemma call_keeps_once:
  assumes "rw_call E ds att op = (ds', att', ans)"
  shows "(asks_for_tx op \<longrightarrow> atOnce att') \<and> (atOnce att \<longrightarrow> atOnce att')"
proof (cases "asks_for_tx op")
  case True
  obtain ds1 att1 src where src: "txSrc E ds att = (ds1, att1, src)" by (metis prod_cases3)
  then have "atOnce att1"
    by (auto simp: txSrc_def Let_def split: if_splits option.splits)
  then show ?thesis using assms src True by (auto simp: rw_call_def split: prod.splits sum.splits)
next
  case False
  then show ?thesis using call_without_tx [OF assms] by simp
qed

text \<open>A call keeps the invariant, for the successor state of the caller that the step chooses.\<close>

lemma inv_call:
  assumes "inv (ds, cl)" and "cl i = Busy att (Call op k)" and "rw_call E ds att op = (ds', att', ans)"
    and "c = Busy att' (k ans) \<or> c = Idle \<or> c = Waiting"
  shows "inv (ds', cl(i := c))"
proof -
  have r: "ready (ds\<lparr>dsActive := False, dsWriter := False\<rparr>)" and w: "dsWriter ds = dsActive ds"
    and cls: "\<And>j. client_ok live base rows ds (cl j)"
    and ex: "\<And>i j t t'. has_tx cl i t \<Longrightarrow> has_tx cl j t' \<Longrightarrow> i = j"
    using assms(1) by (auto simp: sys_inv_def)
  have ci: "client_ok live base rows ds (Busy att (Call op k))" using cls [of i] assms(2) by simp
  then have op: "op_ok op" and ok: "prog_ok (k ans)" by (auto simp: client_ok_def)
  show ?thesis
  proof (cases "atTx att \<noteq> None \<or> (\<not> dsActive ds \<and> \<not> atOnce att)")
    case True
    let ?ds0 = "ds\<lparr>dsActive := False, dsWriter := False\<rparr>"
    obtain d where d: "live_root ds = Some d" and run: "running live base (rows d) ?ds0 ds att"
      by (rule inv_running [OF assms(1,2) True])
    have run': "running live base (rows d) ?ds0 ds' att'"
      using running_call [OF r _ run op assms(3)] d by simp
    show ?thesis
    proof (cases "atTx att'")
      case None
      then obtain h where n: "\<not> atOnce att'" and ds': "ds' = ?ds0\<lparr>dsCounters := h\<rparr>"
        using run' unfolding running_def by auto
      have asks: "\<not> asks_for_tx op" and once: "\<not> atOnce att"
        using call_keeps_once [OF assms(3)] n by auto
      then have q: "atTx att = None" "disciplined (k ans)" using ci by (auto simp: client_ok_def split: option.splits)
      have same: "ds' = ds" "att' = att" using call_without_tx [OF assms(3) asks] by simp_all
      show ?thesis
        using assms(4) w r n ok cls ex q unfolding same
        by (intro sys_inv_upd) (auto simp: client_ok_def)
    next
      case (Some t)
      then obtain h where a: "atOnce att'" "live t" "base t = rows d" "dsDB ds = Some (atDB att')"
        and ds': "ds' = ?ds0\<lparr>dsActive := True, dsWriter := True, dsCounters := h\<rparr>"
        using run' unfolding running_def by auto
      have no: "\<not> has_tx cl j t'" if "j \<noteq> i" for j t'
      proof
        assume h: "has_tx cl j t'"
        show False
        proof (cases "atTx att")
          case None
          then have "\<not> dsActive ds" using True by simp
          then show False using h cls [of j] by (auto simp: has_tx_def client_ok_def)
        next
          case (Some x)
          then have "has_tx cl i x" using assms(2) by (auto simp: has_tx_def)
          with ex h that show False by blast
        qed
      qed
      have cj: "client_ok live base rows ds' (cl j)" if "j \<noteq> i" for j
        using cls [of j] no [OF that] by (auto simp: client_ok_def has_tx_def split: client.split option.splits)
      have ds: "ds_ready L rows dvalid (ds'\<lparr>dsActive := False, dsWriter := False\<rparr>)"
        "dsWriter ds' = dsActive ds'"
        using r by (simp_all add: ds' ds_ready_def heap_ok_def)
      have "client_ok live base rows ds' c"
        using assms(4) a d ok Some by (auto simp: client_ok_def ds')
      with ds cj ex no show ?thesis by (intro sys_inv_upd) auto
    qed
  next
    case False
    have q: "atTx att = None" using False by simp
    then have n: "\<not> atOnce att" using ci by (auto simp: client_ok_def)
    then have act: "dsActive ds" using False by simp
    have "ds' = ds \<and> atTx att' = None \<and> (disciplined (k ans) \<and> \<not> atOnce att' \<or> (\<exists>e. k ans = Done (Err e)))"
    proof (cases "asks_for_tx op")
      case True
      from failed_call [OF act n True assms(3)] have f: "ds' = ds" "att' = att\<lparr>atOnce := True\<rparr>"
        "answer_err ans = Some ErrSerialization" by simp_all
      have "disciplined (Call op k)" using ci q n by (auto simp: client_ok_def)
      with True f(3) have "\<exists>e. k ans = Done (Err e)" by auto
      with f q show ?thesis by simp
    next
      case asks: False
      have "disciplined (Call op k)" using ci q n by (auto simp: client_ok_def)
      with asks have "disciplined (k ans)" by simp
      with call_without_tx [OF assms(3) asks] q n show ?thesis by simp
    qed
    with assms(4) r w cls ex ok q show ?thesis
      by (intro sys_inv_upd) (auto simp: client_ok_def)
  qed
qed

lemma inv_finish:
  assumes "inv (ds, cl)" and "cl i = Busy att q" and "ready ds'"
    and same: "dsActive ds \<longrightarrow> atTx att \<noteq> None"
  shows "inv (ds', cl(i := Idle))"
proof -
  have cls: "\<And>j. client_ok live base rows ds (cl j)"
    and ex: "\<And>i j t t'. has_tx cl i t \<Longrightarrow> has_tx cl j t' \<Longrightarrow> i = j"
    using assms(1) by (auto simp: sys_inv_def)
  have no: "\<not> has_tx cl j t'" if "j \<noteq> i" for j t'
  proof
    assume h: "has_tx cl j t'"
    then have "dsActive ds" using cls [of j] by (auto simp: has_tx_def client_ok_def)
    with same obtain x where "atTx att = Some x" by auto
    then have "has_tx cl i x" using assms(2) by (auto simp: has_tx_def)
    with ex h that show False by blast
  qed
  have "client_ok live base rows ds' (cl j)" if "j \<noteq> i" for j
    using cls [of j] no [OF that] by (auto simp: client_ok_def has_tx_def split: client.split option.splits)
  moreover have "ds_ready L rows dvalid (ds'\<lparr>dsActive := False, dsWriter := False\<rparr>)"
    using assms(3) by (simp add: ds_ready_def heap_ok_def)
  moreover have "dsWriter ds' = dsActive ds'" using assms(3) by (simp add: ds_ready_def)
  ultimately show ?thesis using ex no by (intro sys_inv_upd) (auto simp: client_ok_def)
qed

lemma inv_step:
  assumes "sys_step E metadata (\<lambda>p. prog_ok p \<and> disciplined p) s s'" and "inv s" and "metadata_ok metadata"
  shows "inv s'"
  using assms(1,2)
proof (cases rule: sys_step.cases)
  case (sys_begin ds cl i p c n att)
  have cls: "\<And>j. client_ok live base rows ds (cl j)"
    using assms(2) by (auto simp: sys_inv_def sys_begin)
  have "atTx att = None" "\<not> atOnce att"
    using sys_begin(6) by (auto simp: begin_attempt_def split: sum.splits)
  then show ?thesis
    using assms(2) sys_begin(5) cls unfolding sys_begin(1,2)
    by (intro sys_inv_upd) (auto simp: sys_inv_def client_ok_def)
next
  case (sys_call cl i att op k ds ds' att' ans)
  then show ?thesis using inv_call [of ds cl i att op k ds' att' ans] assms(2) by simp
next
  case (sys_block cl i att op k ds ds' att' ans w)
  then show ?thesis using inv_call [of ds cl i att op k ds' att' ans] assms(2) by simp
next
  case (sys_panic cl i att op k ds ds' att' ans w)
  then show ?thesis using inv_call [of ds cl i att op k ds' att' ans] assms(2) by simp
next
  case (sys_fail cl i att e ds)
  have i: "inv (ds, cl)" using assms(2) sys_fail(1) by simp
  then have r: "ready (ds\<lparr>dsActive := False, dsWriter := False\<rparr>)" by (simp add: sys_inv_def)
  show ?thesis
  proof (cases "atTx att")
    case None
    have "client_ok live base rows ds (cl j)" for j using i by (simp add: sys_inv_def)
    then show ?thesis
      using i None unfolding sys_fail(2) fail_attempt_def option.case
      by (simp, intro sys_inv_upd) (auto simp: sys_inv_def client_ok_def)
  next
    case (Some t)
    then have "fail_attempt ds att = ds\<lparr>dsActive := False, dsWriter := False\<rparr>" by (simp add: fail_attempt_def)
    with r inv_finish [OF i sys_fail(3), of "fail_attempt ds att"] Some show ?thesis by (simp add: sys_fail(2))
  qed
next
  case (sys_commit cl i att u ds ds' res)
  have i: "inv (ds, cl)" using assms(2) sys_commit(1) by simp
  then have "client_ok live base rows ds (Busy att (Done (Ok u)))"
    using sys_commit(3) by (metis (no_types, lifting) case_prodD sys_inv_def)
  then obtain t where t: "atTx att = Some t" by (auto simp: client_ok_def split: option.splits)
  then have some: "atTx att \<noteq> None \<or> (\<not> dsActive ds \<and> \<not> atOnce att)" by simp
  obtain d where d: "live_root ds = Some d" "ready (ds\<lparr>dsActive := False, dsWriter := False\<rparr>)"
    "running live base (rows d) (ds\<lparr>dsActive := False, dsWriter := False\<rparr>) ds att"
    by (rule inv_running [OF i sys_commit(3) some])
  have "live_root (ds\<lparr>dsActive := False, dsWriter := False\<rparr>) = Some d" using d(1) by simp
  from commit_with_tx [OF d(2) this d(3) t assms(3)] sys_commit(5) have "ready ds'" by auto
  with inv_finish [OF i sys_commit(3)] t show ?thesis by (simp add: sys_commit(2))
qed

lemma reach_inv:
  assumes "sys_reach E metadata (\<lambda>p. prog_ok p \<and> disciplined p) s s'" and "inv s" and "metadata_ok metadata"
  shows "inv s'"
  using assms(1,2) by (induction rule: sys_reach.induct) (auto intro: inv_step [OF _ _ assms(3)])

end


text \<open>A user function that makes one call and returns its error.\<close>

definition ask_once :: "rw_op \<Rightarrow> prog" where
  "ask_once op = Call op (\<lambda>a. Done (case answer_err a of None \<Rightarrow> Ok () | Some e \<Rightarrow> Err e))"

definition sample_attempt :: "ref_txn attempt" where
  "sample_attempt = \<lparr>atTx = None, atDB = 0, atOnce = False, atRevision = 2000, atNow = 2000\<rparr>"

definition sample_begun :: "ref_txn attempt" where
  "sample_begun = sample_attempt\<lparr>atTx := Some (ref_begin []), atOnce := True\<rparr>"

lemma sample_begin: "begin_attempt sample_ds 2000 2000 = Ok sample_attempt"
  by (simp add: begin_attempt_def sample_revision sample_attempt_def)

lemma sample_begin_writing:
  "begin_attempt (sample_ds\<lparr>dsActive := True, dsWriter := True\<rparr>) 2000 2000 = Ok sample_attempt"
proof -
  have "newRevisionID (sample_ds\<lparr>dsActive := True, dsWriter := True\<rparr>) 2000 = newRevisionID sample_ds 2000"
    by (simp add: newRevisionID_def headRevisionNoLock_def)
  then show ?thesis using sample_begin by (simp add: begin_attempt_def)
qed

lemma sample_open:
  "rw_call ref_env sample_ds sample_attempt (OpWrite []) =
     (sample_ds\<lparr>dsActive := True, dsWriter := True\<rparr>, sample_begun, AnsUnit (Ok ()))"
  by (simp add: rw_call_def txSrc_def sample_attempt_def sample_begun_def sample_ds_eq root_at_def rwt_of_def
      ref_env_def writeRelationships_def with_wtx_def Let_def)

lemma sample_opened:
  assumes "P (ask_once (OpWrite []))"
  shows "sys_reach ref_env [] P (sample_ds, \<lambda>_. Idle)
    (sample_ds\<lparr>dsActive := True, dsWriter := True\<rparr>, (\<lambda>_. Idle)(0 := Busy sample_begun (Done (Ok ()))))"
proof -
  let ?p = "ask_once (OpWrite [])"
  have "sys_step ref_env [] P (sample_ds, \<lambda>_. Idle) (sample_ds, (\<lambda>_. Idle)(0 := Busy sample_attempt ?p))"
    using sample_begin assms by (intro sys_begin) (simp_all add: sample_ds_eq)
  then have 1: "sys_reach ref_env [] P (sample_ds, \<lambda>_. Idle) (sample_ds, (\<lambda>_. Idle)(0 := Busy sample_attempt ?p))"
    by (rule reach_step [OF reach_start])
  have "sys_step ref_env [] P (sample_ds, (\<lambda>_. Idle)(0 := Busy sample_attempt ?p))
    (sample_ds\<lparr>dsActive := True, dsWriter := True\<rparr>, (\<lambda>_. Idle)(0 := Busy sample_attempt ?p,
      0 := Busy sample_begun ((\<lambda>a. Done (case answer_err a of None \<Rightarrow> Ok () | Some e \<Rightarrow> Err e)) (AnsUnit (Ok ())))))"
    using sample_open by (intro sys_call [where op = "OpWrite []" and att = sample_attempt])
      (simp_all add: ask_once_def sample_ds_eq)
  then show ?thesis using reach_step [OF 1] by simp
qed


section \<open>A user function that succeeds without its transaction\<close>

lemma answer_abort_err: "answer_err a = Some e \<Longrightarrow> aborts e \<Longrightarrow> answer_abort a = Some e"
  by (cases a) (auto split: sum.splits)

lemma blocked_call:
  assumes "\<not> dsActive ds" and "dsWriter ds" and "dsDB ds = Some p" and "root_at ds p = Some d"
    and "\<not> atOnce att" and "asks_for_tx op"
  shows "\<exists>att' ans. rw_call E ds att op = (ds\<lparr>dsLocked := True\<rparr>, att', ans) \<and>
    answer_abort ans = Some (Blocks ''writer lock'')"
proof -
  let ?ds = "ds\<lparr>dsLocked := True\<rparr>" and ?src = "Err (Blocks ''writer lock'')"
  let ?att = "att\<lparr>atOnce := True\<rparr>"
  let ?w = "rwt_of ?ds ?att ?src"
  have src: "txSrc E ds att = (?ds, ?att, ?src)" using assms(1-5) by (simp add: txSrc_def Let_def)
  have w: "rwLocker ?w = MutexLocker False" "rwTxSource ?w = ?src" "rwHeap ?w = dsCounters ds"
    by (simp_all add: rwt_of_def)
  have "answer_abort (snd (do_op (eLib E) (eTxnOps E) ?w op)) = Some (Blocks ''writer lock'')"
    by (rule answer_abort_err [OF failed_begin_answer [OF w(1,2) assms(6)]]) simp
  with do_op_without_tx [OF w(1,2), of "eLib E" "eTxnOps E" op] w(3) show ?thesis
    using assms(6) by (simp add: rw_call_def src split_beta)
qed

definition stuck_at :: "nat \<Rightarrow> 'd memdb_ds \<times> (nat \<Rightarrow> 't client) \<Rightarrow> 'd memdb_ds \<times> (nat \<Rightarrow> 't client) \<Rightarrow> bool" where
  "stuck_at j s s' \<longleftrightarrow> dsLocked (fst s') \<and> snd s' j = Waiting \<and> dsRevisions (fst s') = dsRevisions (fst s) \<and>
     dsHeap (fst s') = dsHeap (fst s)"

lemma unlocked_call:
  assumes "rw_call E ds att op = (ds', att', ans)" and "\<not> locks att op"
  shows "dsLocked ds' = dsLocked ds \<and> dsRevisions ds' = dsRevisions ds \<and> dsHeap ds' = dsHeap ds"
  using assms by (auto simp: rw_call_def locks_def txSrc_def split_beta split: if_splits)

lemma stuck_step: "sys_step E md P s1 s2 \<Longrightarrow> stuck_at j s s1 \<Longrightarrow> stuck_at j s s2"
  by (erule sys_step.cases) (auto simp: stuck_at_def dest: unlocked_call)

lemma stuck_forever: "sys_reach E md P s0 s' \<Longrightarrow> stuck_at j s s0 \<Longrightarrow> stuck_at j s s'"
  by (induction rule: sys_reach.induct) (auto intro: stuck_step)

text \<open>
  C18. A user function that returns without an error and without having got its transaction breaks the
  exclusion: the datastore forgets the transaction another caller has open, so the next caller waits
  for the database's writer lock while it holds the datastore's mutex, and from then on, whatever
  anybody does, that caller waits, the mutex stays taken and no transaction is ever committed.
\<close>

theorem empty_transaction_deadlocks:
  fixes cl :: "nat \<Rightarrow> 't client"
  assumes "dsActive ds" and "dsWriter ds" and "\<not> dsLocked ds" and "dsDB ds = Some p" and "root_at ds p = Some d"
    and "cl i = Busy att1 (Done (Ok ()))" and "atTx att1 = None"
    and "cl j = Busy att2 (Call op k)" and "\<not> atOnce att2" and "asks_for_tx op" and "i \<noteq> j"
  shows "\<exists>s. sys_reach E md P (ds, cl) s \<and> dsLocked (fst s) \<and>
    (\<forall>s'. sys_reach E md P s s' \<longrightarrow>
       dsLocked (fst s') \<and> snd s' j = Waiting \<and> dsRevisions (fst s') = dsRevisions (fst s) \<and>
       dsHeap (fst s') = dsHeap (fst s))"
proof -
  obtain ds1 res where c: "commit_attempt E md ds att1 = (ds1, res)" by fastforce
  then have ds1: "\<not> dsActive ds1" "dsWriter ds1" "\<not> dsLocked ds1" "dsDB ds1 = Some p" "root_at ds1 p \<noteq> None"
    using assms(2-5,7) by (auto simp: commit_attempt_def root_at_def Let_def)
  then obtain d1 where d1: "root_at ds1 p = Some d1" by auto
  let ?cl1 = "cl(i := Idle)"
  have 1: "sys_reach E md P (ds, cl) (ds1, ?cl1)"
    using assms(3,6) c by (intro reach_step [OF reach_start] sys_commit)
  obtain att' ans where b: "rw_call E ds1 att2 op = (ds1\<lparr>dsLocked := True\<rparr>, att', ans)"
    "answer_abort ans = Some (Blocks ''writer lock'')"
    using blocked_call [OF ds1(1,2,4) d1 assms(9,10), of E] by blast
  let ?s = "(ds1\<lparr>dsLocked := True\<rparr>, ?cl1(j := Waiting))"
  have cj: "?cl1 j = Busy att2 (Call op k)" using assms(8,11) by simp
  have "sys_step E md P (ds1, ?cl1) ?s" using cj b ds1 by (intro sys_block) simp_all
  then have 2: "sys_reach E md P (ds, cl) ?s" by (rule reach_step [OF 1])
  have "stuck_at j ?s ?s" by (simp add: stuck_at_def)
  with 2 stuck_forever [of E md P ?s _ j ?s] show ?thesis unfolding stuck_at_def by (metis fst_conv)
qed

theorem empty_transaction_deadlocks_witness:
  "\<exists>s s1. sys_reach ref_env [] (\<lambda>_. True) (sample_ds, \<lambda>_. Idle) s1 \<and> dsRevisions (fst s1) = [(1000, 0)] \<and>
     sys_reach ref_env [] (\<lambda>_. True) s1 s \<and> dsLocked (fst s) \<and>
     (\<forall>s'. sys_reach ref_env [] (\<lambda>_. True) s s' \<longrightarrow> dsLocked (fst s') \<and> snd s' 2 = Waiting)"
proof -
  let ?ds = "sample_ds\<lparr>dsActive := True, dsWriter := True\<rparr>" and ?p = "ask_once (OpWrite [])"
  let ?cl = "(\<lambda>_. Idle)(0 := Busy sample_begun (Done (Ok ())))"
  let ?R = "sys_reach ref_env [] (\<lambda>_. True) (sample_ds, \<lambda>_. Idle)"
  have 0: "?R (?ds, ?cl)" by (rule sample_opened) simp
  have "sys_step ref_env [] (\<lambda>_. True) (?ds, ?cl) (?ds, ?cl(1 := Busy sample_attempt (Done (Ok ()))))"
    using sample_begin_writing by (intro sys_begin) (simp_all add: sample_ds_eq)
  then have 1: "?R (?ds, ?cl(1 := Busy sample_attempt (Done (Ok ()))))" by (rule reach_step [OF 0])
  have "sys_step ref_env [] (\<lambda>_. True) (?ds, ?cl(1 := Busy sample_attempt (Done (Ok ()))))
     (?ds, ?cl(1 := Busy sample_attempt (Done (Ok ())), 2 := Busy sample_attempt ?p))"
    using sample_begin_writing by (intro sys_begin) (simp_all add: sample_ds_eq)
  then have 2: "?R (?ds, ?cl(1 := Busy sample_attempt (Done (Ok ())), 2 := Busy sample_attempt ?p))"
    by (rule reach_step [OF 1])
  let ?cl2 = "?cl(1 := Busy sample_attempt (Done (Ok ())), 2 := Busy sample_attempt ?p)"
  have "\<exists>s. sys_reach ref_env [] (\<lambda>_. True) (?ds, ?cl2) s \<and> dsLocked (fst s) \<and>
    (\<forall>s'. sys_reach ref_env [] (\<lambda>_. True) s s' \<longrightarrow> dsLocked (fst s') \<and> snd s' 2 = Waiting \<and>
       dsRevisions (fst s') = dsRevisions (fst s) \<and> dsHeap (fst s') = dsHeap (fst s))"
    by (rule empty_transaction_deadlocks [where i = 1 and p = 0 and d = "[]" and ?att1.0 = sample_attempt
          and ?att2.0 = sample_attempt and op = "OpWrite []"
          and k = "\<lambda>a. Done (case answer_err a of None \<Rightarrow> Ok () | Some e \<Rightarrow> Err e)"])
       (simp_all add: sample_ds_eq root_at_def sample_attempt_def ask_once_def)
  moreover have "dsRevisions ?ds = [(1000, 0)]" by (simp add: sample_ds_eq)
  ultimately show ?thesis using 2 by (metis fst_conv)
qed

end
