(* ===== verification/Memdb_Watch.thy ===== *)
theory Memdb_Watch
  imports Memdb_Concurrent
begin

text \<open>
  \<open>memdb/watch.go\<close>, \<open>memdb/stats.go\<close> and \<open>memdb/errors.go\<close>: the change feed of the in-memory datastore
  as a state machine over its two channels, the statistics, and the status of the retry error.
\<close>

section \<open>Loading changes\<close>

text \<open>What one changelog entry adds to the staged updates; \<open>lastRevision\<close> is the entry before it.\<close>

definition emit_entry :: "watch_content \<Rightarrow> int \<Rightarrow> changelog_row \<Rightarrow> revision_changes list" where
  "emit_entry content lastRevision change =
     (let ch = clChanges change in
      (if watchRelationships content \<and> relationshipChanges ch \<noteq> [] then [ch] else []) @
      (if watchSchema content \<and> changedDefinitions ch \<noteq> [] \<or> deletedCaveats ch \<noteq> [] \<or> deletedNamespaces ch \<noteq> []
       then [ch] else []) @
      (if watchCheckpoints content \<and> clRevisionNanos change > lastRevision
       then [\<lparr>chRevision = TimestampRev (newForTimestamp (clRevisionNanos change)), relationshipChanges = [],
           changedDefinitions = [], deletedNamespaces = [], deletedCaveats = [], isCheckpoint = True,
           chMetadatas = []\<rparr>] else []))"

fun load_loop ::
    "watch_content \<Rightarrow> int \<Rightarrow> revision_changes list \<Rightarrow> row list \<Rightarrow> (revision_changes list \<times> int) result" where
  "load_loop content lastRevision changes [] = Ok (changes, lastRevision)"
| "load_loop content lastRevision changes (ChangelogRow change # rows) =
     load_loop content (clRevisionNanos change) (changes @ emit_entry content lastRevision change) rows"
| "load_loop content lastRevision changes (_ # rows) = Err (Panic ''interface conversion'')"

definition errWatchError :: string where "errWatchError = ''watch error''"

definition loadChanges ::
    "('d, 't) env \<Rightarrow> 'd memdb_ds \<Rightarrow> int \<Rightarrow> watch_content \<Rightarrow> (revision_changes list \<times> int) result" where
  "loadChanges E ds currentTxn content = (case checkNotClosed ds of
     Err e \<Rightarrow> Err e
   | Ok _ \<Rightarrow>
       (case live_root ds of
          None \<Rightarrow> Err (Panic ''dangling database'')
        | Some d \<Rightarrow>
            (case txLowerBound (eTxnOps E) (eTxn E False d) TableChangelog (Some (i64 (currentTxn + 1))) of
               Err e \<Rightarrow> Err (Wrap errWatchError e)
             | Ok it \<Rightarrow> load_loop content currentTxn [] it)))"

section \<open>The watcher\<close>

record watch_options =
  woContent :: watch_content
  woBufferLength :: nat
  woEmitImmediately :: bool

text \<open>Where the goroutine is; \<open>Waiting\<close> is \<open>ws.WatchCtx\<close>.\<close>

datatype watch_phase = Loading | Sending "revision_changes list" | WaitingForChange | Ended

record watcher =
  waCurrent :: int
  waPhase :: watch_phase
  waCap :: nat
  waContent :: watch_content
  waUpdates :: "revision_changes list"    \<comment> \<open>what is in the buffer of \<open>updates\<close>\<close>
  waErrs :: "go_error list"               \<comment> \<open>what is in the buffer of \<open>errs\<close>\<close>
  waUpdatesClosed :: bool
  waErrsClosed :: bool

text \<open>The type assertion in the goroutine panics on a revision of another kind.\<close>

definition watch_ds :: "'d memdb_ds \<Rightarrow> revision \<Rightarrow> watch_options \<Rightarrow> watcher result" where
  "watch_ds ds ar options =
     (let cap = (if woBufferLength options = 0 then dsWatchBufferLength ds else woBufferLength options);
          w = \<lparr>waCurrent = 0, waPhase = Ended, waCap = cap, waContent = woContent options, waUpdates = [],
            waErrs = [], waUpdatesClosed = False, waErrsClosed = False\<rparr>
      in if woEmitImmediately options
         then Ok (w\<lparr>waUpdatesClosed := True,
           waErrs := [ErrorString ''emit immediately strategy is unsupported in MemDB'']\<rparr>)
         else (case ar of
             TimestampRev r \<Rightarrow> Ok (w\<lparr>waCurrent := ts_TimestampNanoSec r, waPhase := Loading\<rparr>)
           | _ \<Rightarrow> Err (Panic ''interface conversion'')))"

text \<open>\<open>errs <- e; return\<close>, with the deferred closing of both channels.\<close>

definition watch_end :: "watcher \<Rightarrow> go_error \<Rightarrow> watcher" where
  "watch_end w e = w\<lparr>waPhase := Ended, waErrs := waErrs w @ [e], waUpdatesClosed := True, waErrsClosed := True\<rparr>"

text \<open>
  The steps of the goroutine, and of its consumer, who takes one update from the channel. A send on a
  full buffer waits for the consumer or for the timer.
\<close>

inductive watch_step ::
    "('d, 't) env \<Rightarrow> 'd memdb_ds \<Rightarrow> watcher \<times> revision_changes list \<Rightarrow> watcher \<times> revision_changes list \<Rightarrow> bool"
  for E ds where
  watch_load: "waPhase w = Loading \<Longrightarrow> \<not> dsLocked ds \<Longrightarrow>
    loadChanges E ds (waCurrent w) (waContent w) = Ok (staged, cur) \<Longrightarrow>
    watch_step E ds (w, got) (w\<lparr>waCurrent := cur, waPhase := Sending staged\<rparr>, got)"
| watch_load_err: "waPhase w = Loading \<Longrightarrow> \<not> dsLocked ds \<Longrightarrow>
    loadChanges E ds (waCurrent w) (waContent w) = Err e \<Longrightarrow>
    watch_step E ds (w, got) (watch_end w e, got)"
| watch_send: "waPhase w = Sending (ch # staged) \<Longrightarrow> length (waUpdates w) < waCap w \<Longrightarrow>
    watch_step E ds (w, got) (w\<lparr>waPhase := Sending staged, waUpdates := waUpdates w @ [ch]\<rparr>, got)"
| watch_timeout: "waPhase w = Sending (ch # staged) \<Longrightarrow> waCap w \<le> length (waUpdates w) \<Longrightarrow>
    watch_step E ds (w, got) (watch_end w WatchDisconnected, got)"
| watch_sent: "waPhase w = Sending [] \<Longrightarrow> watch_step E ds (w, got) (w\<lparr>waPhase := WaitingForChange\<rparr>, got)"
| watch_change: "waPhase w = WaitingForChange \<Longrightarrow> watch_step E ds (w, got) (w\<lparr>waPhase := Loading\<rparr>, got)"
| watch_cancel: "waPhase w = WaitingForChange \<Longrightarrow>
    watch_step E ds (w, got) (watch_end w WatchCanceled, got)"
| watch_ctx_err: "waPhase w = WaitingForChange \<Longrightarrow>
    watch_step E ds (w, got) (watch_end w (Wrap errWatchError e), got)"
| watch_receive: "waUpdates w = ch # rest \<Longrightarrow>
    watch_step E ds (w, got) (w\<lparr>waUpdates := rest\<rparr>, got @ [ch])"

text \<open>The watcher beside a datastore that moves.\<close>

inductive watch_run ::
    "('d, 't) env \<Rightarrow> ('d memdb_ds \<Rightarrow> 'd memdb_ds \<Rightarrow> bool) \<Rightarrow> 'd memdb_ds \<Rightarrow> watcher \<Rightarrow>
     'd memdb_ds \<Rightarrow> watcher \<Rightarrow> revision_changes list \<Rightarrow> bool"
  for E moves ds0 w0 where
  run_start: "watch_run E moves ds0 w0 ds0 w0 []"
| run_watch: "watch_run E moves ds0 w0 ds w got \<Longrightarrow> watch_step E ds (w, got) (w', got') \<Longrightarrow>
    watch_run E moves ds0 w0 ds w' got'"
| run_move: "watch_run E moves ds0 w0 ds w got \<Longrightarrow> moves ds ds' \<Longrightarrow> watch_run E moves ds0 w0 ds' w got"

section \<open>Statistics and errors\<close>

text \<open>\<open>ComputeObjectTypeStats\<close> belongs to the library; the definitions it is given are returned.\<close>

record memdb_stats =
  stUniqueID :: string
  stEstimatedRelationshipCount :: nat
  stObjectTypes :: "(ns_definition \<times> revision) list"

definition countRelationships_ds :: "('d, 't) env \<Rightarrow> 'd memdb_ds \<Rightarrow> nat result" where
  "countRelationships_ds E ds = (case live_root ds of
     None \<Rightarrow> Err (Panic ''nil pointer'')
   | Some d \<Rightarrow>
       (case txLowerBound (eTxnOps E) (eTxn E False d) TableRelationship None of
          Err e \<Rightarrow> Err e
        | Ok it \<Rightarrow> Ok (length it)))"

text \<open>The three steps each take the mutex on their own: another call may come between them.\<close>

definition statistics ::
    "('d, 't) env \<Rightarrow> nanotime \<Rightarrow> 'd memdb_ds \<Rightarrow> 'd memdb_ds \<Rightarrow> 'd memdb_ds \<Rightarrow> memdb_stats result" where
  "statistics E now ds1 ds2 ds3 = (case headRevision ds1 of
     Err e \<Rightarrow> Err (Wrap ''unable to compute head revision'' e)
   | Ok head \<Rightarrow>
       (case countRelationships_ds E ds2 of
          Err e \<Rightarrow> (if aborts e then Err e else Err (Wrap ''unable to count relationships'' e))
        | Ok n \<Rightarrow>
            (case listAllNamespaces (eLib E) (eTxnOps E) (snapshotReader E ds3 now head) of
               Err e \<Rightarrow> Err (Wrap ''unable to list object types'' e)
             | Ok objTypes \<Rightarrow> Ok \<lparr>stUniqueID = dsUniqueID ds3, stEstimatedRelationshipCount = n,
                 stObjectTypes = objTypes\<rparr>)))"

definition newSerializationMaxRetriesReachedErr :: "go_error \<Rightarrow> go_error" where
  "newSerializationMaxRetriesReachedErr baseErr = SerializationMaxRetriesReached baseErr"

datatype grpc_code = DeadlineExceeded | InvalidArgument | NotFound | FailedPrecondition | Aborted | Unimplemented | AlreadyExists

definition grpc_status :: "go_error \<Rightarrow> (grpc_code \<times> (string \<times> string) list) option" where
  "grpc_status e = (case e of
     SerializationMaxRetriesReached _ \<Rightarrow> Some (DeadlineExceeded, [(''details'',
       ''too many updates were made to the in-memory datastore at once; this datastore has limited write throughput capability'')])
   | _ \<Rightarrow> None)"

section \<open>The changelog\<close>

fun entry_of :: "row \<Rightarrow> changelog_row" where
  "entry_of (ChangelogRow c) = c"
| "entry_of _ = \<lparr>clRevisionNanos = 0, clChanges = no_changes\<rparr>"

definition changelog_of :: "('d \<Rightarrow> contents) \<Rightarrow> 'd memdb_ds \<Rightarrow> changelog_row list" where
  "changelog_of rows ds = (case live_root ds of
     None \<Rightarrow> [] | Some d \<Rightarrow> map entry_of (sorted_rows (rows d TableChangelog)))"

text \<open>What an entry contributes when the entries come in order.\<close>

definition emitted :: "watch_content \<Rightarrow> changelog_row \<Rightarrow> revision_changes list" where
  "emitted content e = emit_entry content (clRevisionNanos e - 1) e"

definition delivered :: "watch_content \<Rightarrow> int \<Rightarrow> int \<Rightarrow> changelog_row list \<Rightarrow> revision_changes list" where
  "delivered content a b es =
     concat (map (emitted content) (filter (\<lambda>e. a < clRevisionNanos e \<and> clRevisionNanos e \<le> b) es))"

abbreviation in_order :: "changelog_row list \<Rightarrow> bool" where
  "in_order \<equiv> sorted_wrt (\<lambda>a b. clRevisionNanos a < clRevisionNanos b)"

lemma changelog_rows:
  assumes "contents_ok c"
  shows "sorted_rows (c TableChangelog) = map (ChangelogRow \<circ> entry_of) (sorted_rows (c TableChangelog))"
    and "in_order (map entry_of (sorted_rows (c TableChangelog)))"
proof -
  have r: "r = ChangelogRow (entry_of r)" if "r \<in> set (sorted_rows (c TableChangelog))" for r
  proof -
    have "row_table r = TableChangelog" using that assms by (simp add: in_sorted_rows)
    then show ?thesis by (cases r) simp_all
  qed
  show "sorted_rows (c TableChangelog) = map (ChangelogRow \<circ> entry_of) (sorted_rows (c TableChangelog))"
    using r by (intro map_idI [symmetric]) (simp flip: r)
  have "row_key a < row_key b \<longleftrightarrow> clRevisionNanos (entry_of a) < clRevisionNanos (entry_of b)"
    if "a \<in> set (sorted_rows (c TableChangelog))" "b \<in> set (sorted_rows (c TableChangelog))" for a b
    using r [OF that(1)] r [OF that(2)] by (metis less_key_simps(4) row_key.simps(5))
  with sorted_rows_sorted [OF assms, of TableChangelog]
  show "in_order (map entry_of (sorted_rows (c TableChangelog)))"
    unfolding sorted_wrt_map by (elim sorted_wrt_mono_rel [rotated]) blast
qed

definition last_revision :: "int \<Rightarrow> changelog_row list \<Rightarrow> int" where
  "last_revision cur es = (if es = [] then cur else clRevisionNanos (last es))"

lemma load_loop_in_order:
  assumes "in_order es" and "\<forall>e \<in> set es. cur < clRevisionNanos e"
  shows "load_loop content cur acc (map ChangelogRow es) =
    Ok (acc @ concat (map (emitted content) es), last_revision cur es)"
  using assms
proof (induction es arbitrary: cur acc)
  case (Cons e es)
  have "emit_entry content cur e = emitted content e"
    using Cons.prems(2) by (simp add: emitted_def emit_entry_def Let_def)
  then show ?case using Cons.IH [of "clRevisionNanos e"] Cons.prems by (simp add: last_revision_def)
qed (simp add: last_revision_def)

context memdb_db begin

lemma load_changes:
  assumes "heap_ok L rows dvalid ds" and "dsDB ds \<noteq> None" and "is_i64 cur" and "cur < 2 ^ 63 - 1"
  shows "loadChanges E ds cur content =
    Ok (concat (map (emitted content) (filter (\<lambda>e. cur < clRevisionNanos e) (changelog_of rows ds))),
        last_revision cur (filter (\<lambda>e. cur < clRevisionNanos e) (changelog_of rows ds)))"
proof -
  obtain p d where d: "dsDB ds = Some p" "live_root ds = Some d" "dvalid d" "contents_ok (rows d)"
    using assms(1,2) by (fastforce simp: heap_ok_def live_root_def good_def)
  let ?rs = "sorted_rows (rows d TableChangelog)" and ?es = "map entry_of (sorted_rows (rows d TableChangelog))"
  have cur: "i64 (cur + 1) = cur + 1" using assms(3,4) by (intro i64_id) (simp add: is_i64_def)
  have rs: "?rs = map ChangelogRow ?es" using changelog_rows(1) [OF d(4)] by simp
  have "txLowerBound T (eTxn E False d) TableChangelog (Some (cur + 1)) =
      Ok (filter (\<lambda>r. key_from (Some (cur + 1)) (row_key r)) (map ChangelogRow ?es))"
    using lower_bound [of "eTxn E False d"] begin_txn [OF d(3), of False] rs by simp
  also have "filter (\<lambda>r. key_from (Some (cur + 1)) (row_key r)) (map ChangelogRow ?es) =
      map ChangelogRow (filter (\<lambda>e. cur < clRevisionNanos e) ?es)"
    by (auto simp: filter_map key_from_def comp_def add1_zle_eq intro!: arg_cong [where f = "map ChangelogRow"] filter_cong)
  finally have low: "txLowerBound T (eTxn E False d) TableChangelog (Some (i64 (cur + 1))) =
      Ok (map ChangelogRow (filter (\<lambda>e. cur < clRevisionNanos e) ?es))"
    unfolding cur .
  have "in_order (filter (\<lambda>e. cur < clRevisionNanos e) ?es)"
    using changelog_rows(2) [OF d(4)] by (rule sorted_wrt_filter)
  from load_loop_in_order [OF this, of cur content "[]"] show ?thesis
    using low d(1,2) by (simp add: loadChanges_def checkNotClosed_def env changelog_of_def del: map_map)
qed

end

section \<open>What a load returns\<close>

definition deletes_schema :: "changelog_row \<Rightarrow> bool" where
  "deletes_schema e \<longleftrightarrow> deletedCaveats (clChanges e) \<noteq> [] \<or> deletedNamespaces (clChanges e) \<noteq> []"

text \<open>What the content asks for: relationship changes, and changed or deleted definitions.\<close>

definition wants_relationships :: "watch_content \<Rightarrow> changelog_row \<Rightarrow> bool" where
  "wants_relationships content e \<longleftrightarrow> watchRelationships content \<and> relationshipChanges (clChanges e) \<noteq> []"

definition wants_schema :: "watch_content \<Rightarrow> changelog_row \<Rightarrow> bool" where
  "wants_schema content e \<longleftrightarrow> watchSchema content \<and> (changedDefinitions (clChanges e) \<noteq> [] \<or> deletes_schema e)"

definition checkpoint_of :: "changelog_row \<Rightarrow> revision_changes" where
  "checkpoint_of e = no_changes\<lparr>chRevision := TimestampRev (clRevisionNanos e), isCheckpoint := True\<rparr>"

lemma emitted_eq:
  "emitted content e =
    (if wants_relationships content e then [clChanges e] else []) @
    (if watchSchema content \<and> changedDefinitions (clChanges e) \<noteq> [] \<or> deletes_schema e then [clChanges e] else []) @
    (if watchCheckpoints content then [checkpoint_of e] else [])"
  by (auto simp: emitted_def emit_entry_def Let_def wants_relationships_def deletes_schema_def checkpoint_of_def
      no_changes_def newForTimestamp_def)

text \<open>
  A load returns the changes after the watcher's revision in the order of their revisions, and
  the last of these revisions. A change that is asked for is sent, and a change nobody asked for is not,
  with two exceptions: deleted definitions are sent to watchers that did not ask for schema changes, and
  a change that is asked for both for its relationships and its schema is sent twice.
\<close>

theorem load_changes_exact:
  assumes "memdb_db T view base valid L E rows dvalid" and "ds_ready L rows dvalid ds"
    and "is_i64 cur" and "cur < 2 ^ 63 - 1"
  shows "\<exists>es sent. es = filter (\<lambda>e. cur < clRevisionNanos e) (changelog_of rows ds) \<and>
    loadChanges E ds cur content = Ok (concat (map (\<lambda>e. replicate (sent e) (clChanges e) @
        (if watchCheckpoints content then [checkpoint_of e] else [])) es), last_revision cur es) \<and>
    (\<forall>e. (wants_relationships content e \<or> wants_schema content e \<longrightarrow> 0 < sent e) \<and>
      (0 < sent e \<longrightarrow> wants_relationships content e \<or> wants_schema content e \<or> deletes_schema e) \<and>
      (1 < sent e \<longleftrightarrow> wants_relationships content e \<and> (wants_schema content e \<or> deletes_schema e)) \<and> sent e \<le> 2)"
proof -
  let ?es = "filter (\<lambda>e. cur < clRevisionNanos e) (changelog_of rows ds)"
  let ?sent = "\<lambda>e. (if wants_relationships content e then 1 else 0) +
    (if watchSchema content \<and> changedDefinitions (clChanges e) \<noteq> [] \<or> deletes_schema e then 1 else (0::nat))"
  have "heap_ok L rows dvalid ds" "dsDB ds \<noteq> None" using assms(2) by (auto simp: ds_ready_def)
  from memdb_db.load_changes [OF assms(1) this assms(3,4)]
  have load: "loadChanges E ds cur content = Ok (concat (map (emitted content) ?es), last_revision cur ?es)" .
  have em: "emitted content = (\<lambda>e. replicate (?sent e) (clChanges e) @
      (if watchCheckpoints content then [checkpoint_of e] else []))"
    by (simp add: emitted_eq numeral_2_eq_2 fun_eq_iff)
  have "loadChanges E ds cur content = Ok (concat (map (\<lambda>e. replicate (?sent e) (clChanges e) @
        (if watchCheckpoints content then [checkpoint_of e] else [])) ?es), last_revision cur ?es)"
    using load unfolding em .
  moreover have "(wants_relationships content e \<or> wants_schema content e \<longrightarrow> 0 < ?sent e) \<and>
      (0 < ?sent e \<longrightarrow> wants_relationships content e \<or> wants_schema content e \<or> deletes_schema e) \<and>
      (1 < ?sent e \<longleftrightarrow> wants_relationships content e \<and> (wants_schema content e \<or> deletes_schema e)) \<and> ?sent e \<le> 2" for e
    by (auto simp: wants_schema_def)
  ultimately show ?thesis by (intro exI [of _ ?es] exI [of _ ?sent]) simp
qed

section \<open>A watcher sees every change once and in order\<close>

text \<open>
  The datastore stays open and its changelog grows at its end; revisions stay below the largest
  64-bit integer.
\<close>

definition watchable :: "spice_lib \<Rightarrow> ('d \<Rightarrow> contents) \<Rightarrow> ('d \<Rightarrow> bool) \<Rightarrow> 'd memdb_ds \<Rightarrow> bool" where
  "watchable L rows dvalid ds \<longleftrightarrow> heap_ok L rows dvalid ds \<and> dsDB ds \<noteq> None \<and>
     (\<forall>e \<in> set (changelog_of rows ds). is_i64 (clRevisionNanos e) \<and> clRevisionNanos e < 2 ^ 63 - 1)"

definition appends ::
    "spice_lib \<Rightarrow> ('d \<Rightarrow> contents) \<Rightarrow> ('d \<Rightarrow> bool) \<Rightarrow> 'd memdb_ds \<Rightarrow> 'd memdb_ds \<Rightarrow> bool" where
  "appends L rows dvalid ds ds' \<longleftrightarrow> watchable L rows dvalid ds' \<and>
     (\<exists>new. changelog_of rows ds' = changelog_of rows ds @ new)"

fun pending :: "watch_phase \<Rightarrow> revision_changes list" where
  "pending (Sending staged) = staged"
| "pending _ = []"

definition watch_inv ::
    "spice_lib \<Rightarrow> ('d \<Rightarrow> contents) \<Rightarrow> ('d \<Rightarrow> bool) \<Rightarrow> watch_content \<Rightarrow> int \<Rightarrow> 'd memdb_ds \<Rightarrow> watcher \<Rightarrow>
     revision_changes list \<Rightarrow> bool" where
  "watch_inv L rows dvalid content r ds w got \<longleftrightarrow> watchable L rows dvalid ds \<and> waContent w = content \<and>
     (waCurrent w = r \<or> (\<exists>e \<in> set (changelog_of rows ds). clRevisionNanos e = waCurrent w)) \<and> r \<le> waCurrent w \<and>
     prefix (got @ waUpdates w @ pending (waPhase w)) (delivered content r (waCurrent w) (changelog_of rows ds)) \<and>
     (if waPhase w = Ended then length (waErrs w) = 1 \<and> waUpdatesClosed w \<and> waErrsClosed w
      else got @ waUpdates w @ pending (waPhase w) = delivered content r (waCurrent w) (changelog_of rows ds) \<and>
        waErrs w = [] \<and> \<not> waUpdatesClosed w \<and> \<not> waErrsClosed w)"

lemma in_order_changelog: "heap_ok L rows dvalid ds \<Longrightarrow> in_order (changelog_of rows ds)"
  using changelog_rows(2) by (fastforce simp: heap_ok_def changelog_of_def live_root_def good_def split: option.split)

lemma delivered_append:
  assumes "in_order (es @ new)" and "b = a \<or> (\<exists>e \<in> set es. clRevisionNanos e = b)"
  shows "delivered content a b (es @ new) = delivered content a b es"
proof -
  have "filter (\<lambda>e. a < clRevisionNanos e \<and> clRevisionNanos e \<le> b) new = []"
    using assms by (force simp: filter_empty_conv sorted_wrt_append)
  then show ?thesis by (simp add: delivered_def)
qed

lemma in_order_last: "in_order es \<Longrightarrow> e \<in> set es \<Longrightarrow> clRevisionNanos e \<le> clRevisionNanos (last es)"
proof (induction es)
  case (Cons x es)
  have "es \<noteq> [] \<Longrightarrow> last es \<in> set es" by simp
  then show ?case using Cons by fastforce
qed simp

lemma in_order_unique:
  assumes "in_order es" and "in_order fs" and "set es = set fs"
  shows "es = fs"
  using assms
proof (induction es arbitrary: fs)
  case (Cons e es)
  then obtain f fs' where fs: "fs = f # fs'" by (cases fs) auto
  have "e \<in> insert f (set fs')" "f \<in> insert e (set es)" using Cons.prems(3) unfolding fs by auto
  then have "e = f" using Cons.prems(1,2) unfolding fs by fastforce
  moreover have "e \<notin> set es" "f \<notin> set fs'" using Cons.prems unfolding fs by auto
  ultimately have "set es = set fs'" using Cons.prems(3) unfolding fs by auto
  then show ?case using Cons.IH [of fs'] Cons.prems \<open>e = f\<close> unfolding fs by simp
qed simp

lemma filter_split_at:
  assumes "in_order es" and "a \<le> (b :: int)"
  shows "filter (\<lambda>e. a < clRevisionNanos e) es =
    filter (\<lambda>e. a < clRevisionNanos e \<and> clRevisionNanos e \<le> b) es @ filter (\<lambda>e. b < clRevisionNanos e) es"
  using assms(1)
proof (induction es)
  case (Cons e es)
  show ?case
  proof (cases "b < clRevisionNanos e")
    case True
    then have "filter (\<lambda>e. a < clRevisionNanos e \<and> clRevisionNanos e \<le> b) es = []"
      using Cons.prems by (force simp: filter_empty_conv)
    then show ?thesis using True Cons assms(2) by simp
  next
    case False
    then show ?thesis using Cons by simp
  qed
qed simp

lemma delivered_load:
  fixes es :: "changelog_row list"
  assumes "in_order es" and "r \<le> cur"
  defines "new \<equiv> filter (\<lambda>e. cur < clRevisionNanos e) es"
  shows "delivered content r (last_revision cur new) es = delivered content r cur es @ concat (map (emitted content) new)"
    and "cur \<le> last_revision cur new"
    and "last_revision cur new = cur \<or> (\<exists>e \<in> set es. clRevisionNanos e = last_revision cur new)"
proof -
  have new: "in_order new" unfolding new_def by (rule sorted_wrt_filter [OF assms(1)])
  have le: "clRevisionNanos e \<le> last_revision cur new" if "e \<in> set es" for e
  proof (cases "cur < clRevisionNanos e")
    case True
    then have "e \<in> set new" using that by (simp add: new_def)
    then show ?thesis using in_order_last [OF new] by (auto simp: last_revision_def)
  next
    case False
    have "last new \<in> set new" if "new \<noteq> []" using that by simp
    then show ?thesis using False by (fastforce simp: last_revision_def new_def)
  qed
  have "filter (\<lambda>e. r < clRevisionNanos e \<and> clRevisionNanos e \<le> last_revision cur new) es =
      filter (\<lambda>e. r < clRevisionNanos e) es"
    using le by (intro filter_cong) auto
  also have "\<dots> = filter (\<lambda>e. r < clRevisionNanos e \<and> clRevisionNanos e \<le> cur) es @ new"
    unfolding new_def by (rule filter_split_at [OF assms(1,2)])
  finally show "delivered content r (last_revision cur new) es =
      delivered content r cur es @ concat (map (emitted content) new)"
    by (simp add: delivered_def)
  have "new \<noteq> [] \<Longrightarrow> last new \<in> set new" by simp
  then show "cur \<le> last_revision cur new"
    "last_revision cur new = cur \<or> (\<exists>e \<in> set es. clRevisionNanos e = last_revision cur new)"
    by (auto simp: last_revision_def new_def)
qed

context memdb_db begin

abbreviation winv :: "watch_content \<Rightarrow> int \<Rightarrow> 'd memdb_ds \<Rightarrow> watcher \<Rightarrow> revision_changes list \<Rightarrow> bool" where
  "winv \<equiv> watch_inv L rows dvalid"

lemma winv_current:
  assumes "winv content r ds w got" and "is_i64 r" and "r < 2 ^ 63 - 1"
  shows "is_i64 (waCurrent w)" "waCurrent w < 2 ^ 63 - 1"
  using assms by (auto simp: watch_inv_def watchable_def)

lemma winv_load:
  assumes "winv content r ds w got" and "is_i64 r" and "r < 2 ^ 63 - 1" and "waPhase w = Loading"
  shows "\<exists>staged cur. loadChanges E ds (waCurrent w) (waContent w) = Ok (staged, cur) \<and>
    winv content r ds (w\<lparr>waCurrent := cur, waPhase := Sending staged\<rparr>) got"
proof -
  let ?es = "changelog_of rows ds"
  let ?new = "filter (\<lambda>e. waCurrent w < clRevisionNanos e) ?es"
  have w: "heap_ok L rows dvalid ds" "dsDB ds \<noteq> None" "waContent w = content" "r \<le> waCurrent w"
    "got @ waUpdates w = delivered content r (waCurrent w) ?es"
    using assms(1,4) by (auto simp: watch_inv_def watchable_def)
  have "loadChanges E ds (waCurrent w) content =
      Ok (concat (map (emitted content) ?new), last_revision (waCurrent w) ?new)"
    by (rule load_changes [OF w(1,2) winv_current [OF assms(1-3)]])
  moreover have "got @ waUpdates w @ concat (map (emitted content) ?new) =
      delivered content r (last_revision (waCurrent w) ?new) ?es"
    using w(5) delivered_load(1) [OF in_order_changelog [OF w(1)] w(4), of content] by (metis append_assoc)
  then have "winv content r ds
      (w\<lparr>waCurrent := last_revision (waCurrent w) ?new, waPhase := Sending (concat (map (emitted content) ?new))\<rparr>) got"
    using assms(1,4) delivered_load(2,3) [OF in_order_changelog [OF w(1)] w(4)]
    by (auto simp: watch_inv_def)
  ultimately show ?thesis using w(3) by blast
qed

lemma winv_ended: "winv content r ds w got \<Longrightarrow> waPhase w \<noteq> Ended \<Longrightarrow> winv content r ds (watch_end w e) got"
  by (auto simp: watch_inv_def watch_end_def prefix_def)

lemma winv_step:
  assumes "watch_step E ds (w, got) (w', got')" and "winv content r ds w got" and "is_i64 r" and "r < 2 ^ 63 - 1"
  shows "winv content r ds w' got'"
  using assms(1)
proof (cases rule: watch_step.cases)
  case watch_load
  then show ?thesis using winv_load [OF assms(2-4)] by auto
next
  case watch_load_err
  then show ?thesis using winv_load [OF assms(2-4)] by auto
next
  case watch_send
  then show ?thesis using assms(2) by (auto simp: watch_inv_def)
next
  case watch_receive
  then show ?thesis using assms(2) by (auto simp: watch_inv_def)
qed (use winv_ended [OF assms(2)] assms(2) in \<open>auto simp: watch_inv_def\<close>)

lemma winv_move:
  assumes "appends L rows dvalid ds ds'" and "winv content r ds w got"
  shows "winv content r ds' w got"
proof -
  obtain new where new: "changelog_of rows ds' = changelog_of rows ds @ new" "watchable L rows dvalid ds'"
    using assms(1) by (auto simp: appends_def)
  then have "in_order (changelog_of rows ds @ new)"
    using in_order_changelog [of L rows dvalid ds'] by (simp add: watchable_def)
  then have "delivered content r (waCurrent w) (changelog_of rows ds') =
      delivered content r (waCurrent w) (changelog_of rows ds)"
    unfolding new(1) by (rule delivered_append) (use assms(2) in \<open>simp add: watch_inv_def\<close>)
  then show ?thesis using assms(2) new unfolding watch_inv_def by auto
qed

lemma winv_run:
  assumes "watch_run E (appends L rows dvalid) ds0 w0 ds w got" and "winv content r ds0 w0 []"
    and "is_i64 r" and "r < 2 ^ 63 - 1"
  shows "winv content r ds w got"
  using assms(1,2)
proof (induction rule: watch_run.induct)
  case (run_watch ds w got w' got')
  then show ?case using winv_step [OF _ _ assms(3,4)] by blast
next
  case (run_move ds w got ds')
  then show ?case using winv_move by blast
qed simp

lemma commit_changelog:
  assumes "ready ds0" and "live_root ds0 = Some d0" and "running live base (rows d0) ds0 ds att"
    and "atTx att = Some t" and "metadata_ok metadata" and "commit_attempt E metadata ds att = (ds', res)"
  shows "ready ds' \<and> dsDB ds' = dsDB ds0 \<and> (\<exists>rc d. live_root ds' = Some d \<and>
    rows d TableChangelog = (rows d0 TableChangelog)(IntKey (atRevision att) \<mapsto> ChangelogRow \<lparr>clRevisionNanos = atRevision att, clChanges = rc\<rparr>))"
proof -
  have t: "live t" "base t = rows d0" using assms(3) unfolding running_def assms(4) option.case by blast+
  obtain d rc where c: "ready ds'" "extends ds0 (atRevision att) d ds'"
    "rows d = put_row TableChangelog (ChangelogRow \<lparr>clRevisionNanos = atRevision att, clChanges = rc\<rparr>) (view t)"
    using commit_with_tx [OF assms(1-5)] assms(6) by (auto simp: committed_row_def)
  moreover have "view t TableChangelog = rows d0 TableChangelog" using t by (simp add: live_def)
  ultimately show ?thesis by (auto simp: extends_def put_row_def committed_row_def)
qed

end



section \<open>Instances\<close>

definition sample_entry :: changelog_row where
  "sample_entry = \<lparr>clRevisionNanos = 2000, clChanges = no_changes\<lparr>chRevision := TimestampRev 2000,
     relationshipChanges := [(UpdateOperationTouch, sample_rel ''d1'' ''u1'')], deletedNamespaces := [''user'']\<rparr>\<rparr>"

definition sample_log_ds :: "ref_contents memdb_ds" where
  "sample_log_ds = sample_ds\<lparr>dsHeap := [(0, [((TableChangelog, IntKey 2000), ChangelogRow sample_entry)])]\<rparr>"

lemma sample_log_contents:
  "ref_view [((TableChangelog, IntKey 2000), ChangelogRow sample_entry)] = put_row TableChangelog (ChangelogRow sample_entry) (\<lambda>_ _. None)"
  by (auto simp: ref_view_def put_row_def sample_entry_def fun_eq_iff)

lemma sample_log_good: "good ref_lib (ref_view [((TableChangelog, IntKey 2000), ChangelogRow sample_entry)])"
  unfolding sample_log_contents by (intro good_put good_empty) simp_all

lemma sample_log_ready: "ds_ready ref_lib ref_view ref_dvalid sample_log_ds"
  using sample_log_good
  by (auto simp: ds_ready_def heap_ok_def sample_log_ds_def sample_ds_eq root_at_def ref_dvalid_def good_def
      split: if_splits)

lemma sample_log: "changelog_of ref_view sample_log_ds = [sample_entry]"
  by (simp add: changelog_of_def live_root_def root_at_def sample_log_ds_def sample_ds_eq sample_log_contents
      sorted_rows_def put_row_def)

theorem load_changes_exact_witness:
  "loadChanges ref_env sample_log_ds 1000 \<lparr>watchRelationships = True, watchSchema = False, watchCheckpoints = False\<rparr> =
     Ok ([clChanges sample_entry, clChanges sample_entry], 2000)"
proof -
  let ?c = "\<lparr>watchRelationships = True, watchSchema = False, watchCheckpoints = False\<rparr>"
  have "is_i64 1000" "(1000::int) < 2 ^ 63 - 1" by (simp_all add: is_i64_def)
  from load_changes_exact [OF ref_mdb.memdb_db_axioms sample_log_ready this, of ?c]
  obtain es sent where es: "es = filter (\<lambda>e. 1000 < clRevisionNanos e) [sample_entry]"
    and l: "loadChanges ref_env sample_log_ds 1000 ?c = Ok (concat (map (\<lambda>e. replicate (sent e) (clChanges e) @
        (if watchCheckpoints ?c then [checkpoint_of e] else [])) es), last_revision 1000 es)"
    and s: "\<And>e. (1 < sent e \<longleftrightarrow> wants_relationships ?c e \<and> (wants_schema ?c e \<or> deletes_schema e)) \<and> sent e \<le> 2"
    unfolding sample_log by blast
  have "sent sample_entry = 2"
    using s [of sample_entry] by (simp add: wants_relationships_def deletes_schema_def sample_entry_def)
  with es l show ?thesis by (simp add: last_revision_def sample_entry_def numeral_2_eq_2)
qed

lemma sample_watchable: "watchable ref_lib ref_view ref_dvalid sample_log_ds"
  using sample_log_ready by (simp add: watchable_def ds_ready_def sample_log sample_entry_def is_i64_def)



end
