(* ===== verification/Chunk_Bytes.thy ===== *)
theory Chunk_Bytes
  imports Spice_Types
begin

text \<open>
  \<open>common/chunkbytes.go\<close>: byte strings that are stored in a SQL table, cut into chunks. The statements
  are the data the code gives to the query builder, in the order of its calls; what executes them is
  the interface \<open>ChunkedBytesExecutor\<close>, a parameter whose laws are the locale \<open>chunk_table\<close>.
\<close>

section \<open>Statements\<close>

text \<open>The values the code binds: \<open>'v\<close> is the type parameter \<open>T\<close> of the columns with creation and deletion.\<close>

datatype 'v sql_value = SqlString string | SqlInt int | SqlBytes bytes | SqlStamp 'v

record 'v delete_builder =
  dbTable :: string
  dbWhere :: "(string \<times> 'v sql_value) list"

record 'v update_builder =
  ubTable :: string
  ubSet :: "(string \<times> 'v sql_value) list"
  ubWhere :: "(string \<times> 'v sql_value) list"

record 'v insert_builder =
  ibTable :: string
  ibColumns :: "string list"
  ibValues :: "'v sql_value list list"

record 'v select_builder =
  sbColumns :: "string list"
  sbTable :: string
  sbWhere :: "(string \<times> 'v sql_value) list"
  sbOrderBy :: "string list"

text \<open>\<open>ChunkedBytesExecutor\<close> and \<open>ChunkedBytesTransaction\<close> over a state \<open>'s\<close> of the database.\<close>

record ('s, 'v) chunk_executor =
  beginTransaction :: "'s \<Rightarrow> 's \<times> unit result"
  executeWrite :: "'s \<Rightarrow> 'v insert_builder \<Rightarrow> 's \<times> unit result"
  executeDelete :: "'s \<Rightarrow> 'v delete_builder \<Rightarrow> 's \<times> unit result"
  executeUpdate :: "'s \<Rightarrow> 'v update_builder \<Rightarrow> 's \<times> unit result"
  executeRead :: "'s \<Rightarrow> 'v select_builder \<Rightarrow> (int \<times> bytes) list result"

section \<open>The configuration\<close>

datatype write_mode = WriteModeInsertWithTombstones | WriteModeDeleteAndInsert | WriteModeOther int

record ('s, 'v) chunker =
  tableName :: string
  nameColumn :: string
  chunkIndexColumn :: string
  chunkDataColumn :: string
  maxChunkSize :: int
  placeholderFormat :: "opaque option"
  executor :: "('s, 'v) chunk_executor option"
  writeMode :: write_mode
  createdAtColumn :: string
  deletedAtColumn :: string
  aliveValue :: 'v

definition mustNewSQLByteChunker :: "('s, 'v) chunker \<Rightarrow> ('s, 'v) chunker result" where
  "mustNewSQLByteChunker config =
     (if maxChunkSize config \<le> 0 then Err (Panic ''maxChunkSize must be greater than 0'')
      else if tableName config = [] then Err (Panic ''tableName cannot be empty'')
      else if nameColumn config = [] then Err (Panic ''nameColumn cannot be empty'')
      else if chunkIndexColumn config = [] then Err (Panic ''chunkIndexColumn cannot be empty'')
      else if chunkDataColumn config = [] then Err (Panic ''chunkDataColumn cannot be empty'')
      else if placeholderFormat config = None then Err (Panic ''placeholderFormat cannot be nil'')
      else if executor config = None then Err (Panic ''executor cannot be nil'')
      else if writeMode config = WriteModeInsertWithTombstones \<and> createdAtColumn config = [] then
        Err (Panic ''createdAtColumn is required when using WriteModeInsertWithTombstones'')
      else if writeMode config = WriteModeInsertWithTombstones \<and> deletedAtColumn config = [] then
        Err (Panic ''deletedAtColumn is required when using WriteModeInsertWithTombstones'')
      else Ok config)"

section \<open>Cutting and joining\<close>

text \<open>
  The loop of \<open>chunkData\<close>, with the additions at 64 bits. A slice expression with its stop before its
  start panics; a step of zero would not stop.
\<close>

definition slice :: "'a list \<Rightarrow> int \<Rightarrow> int \<Rightarrow> 'a list" where
  "slice xs a b = take (nat b - nat a) (drop (nat a) xs)"

function chunk_loop :: "int \<Rightarrow> 'a list \<Rightarrow> int \<Rightarrow> 'a list list result" where
  "chunk_loop maxSize data i =
     (if int (length data) \<le> i then Ok []
      else let next = i64 (i + maxSize);
               stop = (if next > int (length data) then int (length data) else next)
           in if stop < i then Err (Panic ''slice bounds out of range'')
              else if next = i then Err (Blocks ''for'')
              else (case chunk_loop maxSize data next of
                      Err e \<Rightarrow> Err e
                    | Ok chunks \<Rightarrow> Ok (slice data i stop # chunks)))"
  by auto
termination
  by (relation "measure (\<lambda>(_, data, i). nat (int (length data) - i))") (auto split: if_splits)

declare chunk_loop.simps [simp del]

definition chunkData :: "int \<Rightarrow> 'a list \<Rightarrow> 'a list list result" where
  "chunkData maxSize data =
     (if data = [] then Ok []
      else if maxSize = 0 then Err (Panic ''integer divide by zero'')
      else if i64 (i64 (int (length data) + maxSize) - 1) sdiv maxSize < 0
        then Err (Panic ''makeslice: cap out of range'')
      else chunk_loop maxSize data 0)"

text \<open>\<open>totalSize\<close> is only the capacity of the result and is left out.\<close>

function reassemble_loop :: "(int \<times> bytes) list \<Rightarrow> int \<Rightarrow> int \<Rightarrow> bytes \<Rightarrow> bytes result" where
  "reassemble_loop chunks maxIndex i res =
     (if i \<le> maxIndex
      then (case map_of chunks i of
              None \<Rightarrow> Err (ErrorString (''missing chunk at index '' @ format_int i))
            | Some c \<Rightarrow> reassemble_loop chunks maxIndex (i + 1) (res @ c))
      else Ok res)"
  by auto
termination
  by (relation "measure (\<lambda>(_, maxIndex, i, _). nat (maxIndex + 1 - i))") auto

declare reassemble_loop.simps [simp del]

definition reassembleChunks :: "(int \<times> bytes) list \<Rightarrow> bytes result" where
  "reassembleChunks chunks =
     (if chunks = [] then Err (ErrorString ''no chunks found'')
      else reassemble_loop chunks (foldl max (- 1) (gm_keys chunks)) 0 [])"

section \<open>Operations\<close>

definition with_executor :: "('s, 'v) chunker \<Rightarrow> 's \<Rightarrow> (('s, 'v) chunk_executor \<Rightarrow> 's \<times> 'a result) \<Rightarrow>
     's \<times> 'a result" where
  "with_executor c s f = (case executor c of None \<Rightarrow> (s, Err (Panic ''nil pointer'')) | Some X \<Rightarrow> f X)"

definition wrap_err :: "string \<Rightarrow> 's \<times> unit result \<Rightarrow> ('s \<Rightarrow> 's \<times> 'a result) \<Rightarrow> 's \<times> 'a result" where
  "wrap_err msg r k = (case r of (s, Err e) \<Rightarrow> (s, Err (Wrap msg e)) | (s, Ok _) \<Rightarrow> k s)"

text \<open>The statement that removes what is stored under the name, or marks it.\<close>

definition clear_name ::
    "('s, 'v) chunker \<Rightarrow> ('s, 'v) chunk_executor \<Rightarrow> string \<Rightarrow> string \<Rightarrow> 's \<Rightarrow> string \<Rightarrow> 'v \<Rightarrow>
     ('s \<Rightarrow> 's \<times> unit result) \<Rightarrow> 's \<times> unit result" where
  "clear_name c X delMsg updMsg s name at k = (case writeMode c of
     WriteModeDeleteAndInsert \<Rightarrow>
       wrap_err delMsg (executeDelete X s \<lparr>dbTable = tableName c,
         dbWhere = [(nameColumn c, SqlString name)]\<rparr>) k
   | WriteModeInsertWithTombstones \<Rightarrow>
       wrap_err updMsg (executeUpdate X s \<lparr>ubTable = tableName c,
         ubSet = [(deletedAtColumn c, SqlStamp at)],
         ubWhere = [(nameColumn c, SqlString name), (deletedAtColumn c, SqlStamp (aliveValue c))]\<rparr>) k
   | WriteModeOther _ \<Rightarrow> k s)"

definition insert_statement :: "('s, 'v) chunker \<Rightarrow> string \<Rightarrow> 'v \<Rightarrow> bytes list \<Rightarrow> 'v insert_builder" where
  "insert_statement c name createdAtValue chunks =
     (let tomb = writeMode c = WriteModeInsertWithTombstones
      in \<lparr>ibTable = tableName c,
          ibColumns = [nameColumn c, chunkIndexColumn c, chunkDataColumn c] @
            (if tomb then [createdAtColumn c] else []),
          ibValues = map (\<lambda>(index, chunk). [SqlString name, SqlInt (int index), SqlBytes chunk] @
            (if tomb then [SqlStamp createdAtValue] else [])) (zip [0..<length chunks] chunks)\<rparr>)"

definition insert_chunks ::
    "('s, 'v) chunker \<Rightarrow> ('s, 'v) chunk_executor \<Rightarrow> string \<Rightarrow> bytes \<Rightarrow> 'v \<Rightarrow> 's \<Rightarrow> 's \<times> unit result" where
  "insert_chunks c X name data createdAtValue s = (case chunkData (maxChunkSize c) data of
     Err e \<Rightarrow> (s, Err e)
   | Ok chunks \<Rightarrow> wrap_err ''failed to insert chunks''
       (executeWrite X s (insert_statement c name createdAtValue (if chunks = [] then [[]] else chunks)))
       (\<lambda>s1. (s1, Ok ())))"

definition writeChunkedBytes :: "('s, 'v) chunker \<Rightarrow> 's \<Rightarrow> string \<Rightarrow> bytes \<Rightarrow> 'v \<Rightarrow> 's \<times> unit result" where
  "writeChunkedBytes c s name data createdAtValue =
     (if name = [] then (s, Err (ErrorString ''name cannot be empty''))
      else with_executor c s (\<lambda>X.
        wrap_err ''failed to begin transaction'' (beginTransaction X s) (\<lambda>s1.
        clear_name c X ''failed to delete existing chunks'' ''failed to tombstone existing chunks''
          s1 name createdAtValue (insert_chunks c X name data createdAtValue))))"

definition deleteChunkedBytes :: "('s, 'v) chunker \<Rightarrow> 's \<Rightarrow> string \<Rightarrow> 'v \<Rightarrow> 's \<times> unit result" where
  "deleteChunkedBytes c s name deletedAtValue =
     (if name = [] then (s, Err (ErrorString ''name cannot be empty''))
      else with_executor c s (\<lambda>X.
        wrap_err ''failed to begin transaction'' (beginTransaction X s) (\<lambda>s1.
        clear_name c X ''failed to delete chunks'' ''failed to tombstone chunks''
          s1 name deletedAtValue (\<lambda>s2. (s2, Ok ())))))"

definition select_statement :: "('s, 'v) chunker \<Rightarrow> string \<Rightarrow> 'v select_builder" where
  "select_statement c name = \<lparr>sbColumns = [chunkIndexColumn c, chunkDataColumn c], sbTable = tableName c,
     sbWhere = [(nameColumn c, SqlString name)], sbOrderBy = [chunkIndexColumn c @ '' ASC'']\<rparr>"

definition readChunkedBytes :: "('s, 'v) chunker \<Rightarrow> 's \<Rightarrow> string \<Rightarrow> bytes result" where
  "readChunkedBytes c s name =
     (if name = [] then Err (ErrorString ''name cannot be empty'')
      else (case executor c of
        None \<Rightarrow> Err (Panic ''nil pointer'')
      | Some X \<Rightarrow>
          (case executeRead X s (select_statement c name) of
             Err e \<Rightarrow> Err (Wrap ''failed to read chunks'' e)
           | Ok chunks \<Rightarrow>
               (case reassembleChunks chunks of
                  Err e \<Rightarrow> Err (Wrap ''failed to reassemble chunks'' e)
                | Ok data \<Rightarrow> Ok data))))"

section \<open>Lemmas on cutting and joining\<close>

lemma chunk_step_no_wrap:
  assumes "0 < maxSize" and "is_i64 maxSize" and "0 \<le> i" and "i < 2 ^ 63" and "i \<le> i64 (i + maxSize)"
  shows "i64 (i + maxSize) = i + maxSize"
proof -
  have "\<not> 2 ^ 63 \<le> i + maxSize"
  proof
    assume "2 ^ 63 \<le> i + maxSize"
    then have "0 \<le> i + maxSize - 2 ^ 63" "i + maxSize - 2 ^ 63 < 2 ^ 64" using assms(2,4) by (simp_all add: is_i64_def)
    then have "(i + maxSize + 2 ^ 63) mod 2 ^ 64 = i + maxSize - 2 ^ 63"
      using mod_add_self2 [of "i + maxSize - 2 ^ 63" "2 ^ 64 :: int"] by (simp add: add.commute)
    with assms(2,5) show False by (simp add: i64_def is_i64_def)
  qed
  with assms(1,3) show ?thesis by (intro i64_id) (simp add: is_i64_def)
qed

lemma chunk_loop_Ok:
  assumes "0 < maxSize" and "is_i64 maxSize" and "int (length data) < 2 ^ 63"
    and "chunk_loop maxSize data i = Ok cs" and "0 \<le> i"
  shows "concat cs = drop (nat i) data \<and> (\<forall>c \<in> set cs. c \<noteq> [] \<and> int (length c) \<le> maxSize) \<and>
    (\<forall>c \<in> set (butlast cs). int (length c) = maxSize)"
  using assms(4,5)
proof (induction "nat (int (length data) - i)" arbitrary: i cs rule: less_induct)
  case less
  let ?n = "int (length data)"
  show ?case
  proof (cases "?n \<le> i")
    case True
    then show ?thesis using less.prems by (simp add: chunk_loop.simps [of _ _ i])
  next
    case False
    let ?c = "slice data i (if i + maxSize > ?n then ?n else i + maxSize)"
    have "i \<le> i64 (i + maxSize)"
      using less.prems False by (auto simp: chunk_loop.simps [of _ _ i] Let_def split: if_splits)
    then have nxt: "i64 (i + maxSize) = i + maxSize"
      by (intro chunk_step_no_wrap) (use assms(1-3) False less.prems in simp_all)
    obtain cs' where cs': "chunk_loop maxSize data (i + maxSize) = Ok cs'" and cs: "cs = ?c # cs'"
      using less.prems False assms(1)
      by (auto simp: chunk_loop.simps [of _ _ i] nxt Let_def split: if_splits sum.splits)
    have "nat (?n - (i + maxSize)) < nat (?n - i)" using assms(1) False by simp
    from less.hyps [OF this cs'] less.prems assms(1) have
      ih: "concat cs' = drop (nat (i + maxSize)) data" "\<forall>c \<in> set cs'. c \<noteq> [] \<and> int (length c) \<le> maxSize"
        "\<forall>c \<in> set (butlast cs'). int (length c) = maxSize"
      by auto
    have len: "int (length ?c) = (if i + maxSize > ?n then ?n - i else maxSize)"
      using False less.prems assms(1) by (auto simp: slice_def)
    have c: "?c = take (nat maxSize) (drop (nat i) data)"
      using False less.prems assms(1) by (auto simp: slice_def nat_add_distrib min_def)
    have d: "drop (nat (i + maxSize)) data = drop (nat maxSize) (drop (nat i) data)"
      using less.prems assms(1) by (simp add: nat_add_distrib add.commute)
    have "concat cs = drop (nat i) data" unfolding cs concat.simps ih(1) c d by (rule append_take_drop_id)
    moreover have "\<forall>d \<in> set cs. d \<noteq> [] \<and> int (length d) \<le> maxSize"
      using ih(2) len False assms(1) unfolding cs by (cases "?c = []") (auto split: if_splits)
    moreover have "\<forall>d \<in> set (butlast cs). int (length d) = maxSize"
    proof (cases "cs' = []")
      case more: False
      then have "i + maxSize < ?n"
        using cs' by (auto simp: chunk_loop.simps [of _ _ "i + maxSize"] split: if_splits)
      then show ?thesis using ih(3) len more unfolding cs by auto
    qed (simp add: cs)
    ultimately show ?thesis by blast
  qed
qed

lemma chunk_loop_total:
  assumes "0 < maxSize" and "int (length data) + maxSize - 1 < 2 ^ 63" and "0 \<le> i"
  shows "\<exists>cs. chunk_loop maxSize data i = Ok cs"
  using assms(3)
proof (induction "nat (int (length data) - i)" arbitrary: i rule: less_induct)
  case less
  show ?case
  proof (cases "int (length data) \<le> i")
    case True
    then show ?thesis by (simp add: chunk_loop.simps [of _ _ i])
  next
    case False
    have nxt: "i64 (i + maxSize) = i + maxSize"
      using False assms(1,2) less.prems by (intro i64_id) (simp add: is_i64_def)
    obtain cs where "chunk_loop maxSize data (i + maxSize) = Ok cs"
      using less.hyps [of "i + maxSize"] False assms(1) less.prems by auto
    then show ?thesis using False assms(1) by (simp add: chunk_loop.simps [of _ _ i] nxt Let_def)
  qed
qed

lemma chunks_count:
  assumes "0 < m" and "\<forall>c \<in> set cs. c \<noteq> [] \<and> int (length c) \<le> m" and "\<forall>c \<in> set (butlast cs). int (length c) = m"
  shows "int (length cs) = (int (length (concat cs)) + m - 1) div m"
  using assms(2,3)
proof (induction cs)
  case Nil
  then show ?case using assms(1) by simp
next
  case (Cons c cs)
  show ?case
  proof (cases "cs = []")
    case True
    have "0 \<le> int (length c) - 1" "int (length c) - 1 < m" using Cons.prems(1) by (cases c; simp)+
    then have "(int (length c) - 1) div m = 0" by (rule div_pos_pos_trivial)
    then show ?thesis using True assms(1) div_add_self2 [of m "int (length c) - 1"] by (simp add: algebra_simps)
  next
    case False
    then have "int (length c) = m" using Cons.prems(2) by simp
    moreover have "int (length cs) = (int (length (concat cs)) + m - 1) div m"
      using Cons False by (auto split: if_splits)
    ultimately show ?thesis
      using assms(1) div_add_self2 [of m "int (length (concat cs)) + m - 1"] by (simp add: algebra_simps)
  qed
qed

text \<open>
  Cutting never loses or reorders a byte: whenever \<open>chunkData\<close> returns, the chunks joined are the
  data, each has between one and \<open>maxChunkSize\<close> bytes, all but the last exactly \<open>maxChunkSize\<close>, and there
  are \<open>(n + maxChunkSize - 1) / maxChunkSize\<close> of them; it does return, without a panic, when that
  numerator fits in 64 bits.
\<close>

theorem chunks_partition:
  assumes "0 < maxSize" and "is_i64 maxSize" and "int (length data) < 2 ^ 63"
  shows "(\<forall>cs. chunkData maxSize data = Ok cs \<longrightarrow> concat cs = data \<and>
      (\<forall>c \<in> set cs. c \<noteq> [] \<and> int (length c) \<le> maxSize) \<and> (\<forall>c \<in> set (butlast cs). int (length c) = maxSize) \<and>
      int (length cs) = (int (length data) + maxSize - 1) div maxSize) \<and>
    (int (length data) + maxSize - 1 < 2 ^ 63 \<longrightarrow> (\<exists>cs. chunkData maxSize data = Ok cs))"
proof (intro conjI allI impI)
  fix cs
  assume a: "chunkData maxSize data = Ok cs"
  show p: "concat cs = data" "\<forall>c \<in> set cs. c \<noteq> [] \<and> int (length c) \<le> maxSize"
    "\<forall>c \<in> set (butlast cs). int (length c) = maxSize"
    using a chunk_loop_Ok [OF assms, of 0 cs] by (auto simp: chunkData_def split: if_splits)
  show "int (length cs) = (int (length data) + maxSize - 1) div maxSize"
    using chunks_count [OF assms(1) p(2,3)] unfolding p(1) .
next
  assume a: "int (length data) + maxSize - 1 < 2 ^ 63"
  show "\<exists>cs. chunkData maxSize data = Ok cs"
  proof (cases "data = []")
    case False
    have "i64 (i64 (int (length data) + maxSize) - 1) = int (length data) + maxSize - 1"
      using a assms(1) by (cases "int (length data) + maxSize = 2 ^ 63") (simp_all add: i64_def)
    moreover have "0 \<le> (int (length data) + maxSize - 1) sdiv maxSize"
      using assms(1) by (simp add: signed_divide_int_def sgn_if pos_imp_zdiv_nonneg_iff)
    ultimately show ?thesis using chunk_loop_total [OF assms(1) a, of 0] False assms(1) by (simp add: chunkData_def)
  qed (simp add: chunkData_def)
qed

theorem chunks_partition_witness:
  "\<exists>cs. chunkData 2 ''hello'' = Ok cs \<and> concat cs = ''hello'' \<and> length cs = 3 \<and>
     (\<forall>c \<in> set (butlast cs). length c = 2)"
proof -
  have "0 < (2 :: int)" "is_i64 2" "int (length ''hello'') < 2 ^ 63" by (simp_all add: is_i64_def)
  from chunks_partition [OF this] obtain cs where "chunkData 2 ''hello'' = Ok cs" "concat cs = ''hello''"
    "int (length cs) = (int (length ''hello'') + 2 - 1) div 2" "\<forall>c \<in> set (butlast cs). int (length c) = 2"
    by auto
  then show ?thesis by auto
qed

text \<open>Joining.\<close>

lemma reassemble_loop_Ok:
  assumes "\<forall>j. i \<le> j \<and> j \<le> mx \<longrightarrow> map_of m j \<noteq> None" and "0 \<le> i"
  shows "reassemble_loop m mx i res = Ok (res @ concat (map (\<lambda>j. the (map_of m j)) [i..mx]))"
  using assms
proof (induction "nat (mx + 1 - i)" arbitrary: i res rule: less_induct)
  case less
  show ?case
  proof (cases "i \<le> mx")
    case True
    then obtain c where c: "map_of m i = Some c" using less.prems by blast
    have "reassemble_loop m mx (i + 1) (res @ c) =
        Ok ((res @ c) @ concat (map (\<lambda>j. the (map_of m j)) [i + 1..mx]))"
      using less.hyps [of "i + 1"] less.prems True by auto
    then show ?thesis using c True by (simp add: reassemble_loop.simps [of _ _ i] upto_rec1)
  qed (simp add: reassemble_loop.simps)
qed

lemma reassemble_loop_Err:
  assumes "\<forall>j. i \<le> j \<and> j < k \<longrightarrow> map_of m j \<noteq> None" and "map_of m k = None" and "i \<le> k" and "k \<le> mx"
  shows "reassemble_loop m mx i res = Err (ErrorString (''missing chunk at index '' @ format_int k))"
  using assms(1,3)
proof (induction "nat (k - i)" arbitrary: i res rule: less_induct)
  case less
  show ?case
  proof (cases "i = k")
    case True
    then show ?thesis using assms(2,4) by (simp add: reassemble_loop.simps [of _ _ k])
  next
    case False
    then obtain c where "map_of m i = Some c" using less.prems by (meson order_refl order_le_less not_None_eq)
    then show ?thesis
      using less.hyps [of "i + 1"] less.prems False assms(4) by (simp add: reassemble_loop.simps [of _ _ i])
  qed
qed

lemma foldl_max_ge: "(a :: int) \<le> foldl max a xs" "x \<in> set xs \<Longrightarrow> x \<le> foldl max a xs"
proof -
  show *: "a \<le> foldl max a xs" for a and xs :: "int list"
    by (induction xs arbitrary: a) (auto intro: order_trans [OF max.cobounded1])
  show "x \<in> set xs \<Longrightarrow> x \<le> foldl max a xs"
    by (induction xs arbitrary: a) (auto intro: order_trans [OF max.cobounded2 *])
qed

lemma foldl_max_in: "foldl max (a :: int) xs \<in> insert a (set xs)"
  by (induction xs arbitrary: a) (auto simp: max_def)

text \<open>
  Joining checks that nothing is missing: the chunks of a map are joined in the order of their
  indices exactly when the map is not empty and its non-negative indices are those from zero up to the
  largest; otherwise the first missing index is reported.
\<close>

theorem reassemble_exact:
  "reassembleChunks chunks =
     (if chunks = [] then Err (ErrorString ''no chunks found'')
      else if \<exists>k j. 0 \<le> k \<and> k \<le> j \<and> map_of chunks k = None \<and> map_of chunks j \<noteq> None
      then Err (ErrorString (''missing chunk at index '' @
        format_int (int (LEAST k. map_of chunks (int k) = None))))
      else Ok (concat (map (\<lambda>j. the (map_of chunks j)) [0..foldl max (- 1) (gm_keys chunks)])))"
proof -
  let ?m = "map_of chunks" and ?mx = "foldl max (- 1) (gm_keys chunks)"
  have known: "?m j \<noteq> None \<longleftrightarrow> j \<in> set (gm_keys chunks)" for j by (simp add: map_of_eq_None_iff)
  show ?thesis
  proof (cases "\<exists>k j. 0 \<le> k \<and> k \<le> j \<and> ?m k = None \<and> ?m j \<noteq> None")
    case True
    then obtain k j where kj: "0 \<le> k" "k \<le> j" "?m k = None" "?m j \<noteq> None" by blast
    let ?k = "LEAST k. ?m (int k) = None"
    have none: "?m (int (nat k)) = None" using kj(1,3) by simp
    have least: "?m (int ?k) = None" by (rule LeastI [of "\<lambda>k. ?m (int k) = None", OF none])
    have "?k \<le> nat k" by (rule Least_le [of "\<lambda>k. ?m (int k) = None", OF none])
    moreover have "j \<le> ?mx" using kj(4) foldl_max_ge(2) [of j "gm_keys chunks"] unfolding known by blast
    ultimately have le: "int ?k \<le> ?mx" using kj(1,2) by linarith
    have before: "\<forall>i. 0 \<le> i \<and> i < int ?k \<longrightarrow> ?m i \<noteq> None"
    proof (intro allI impI)
      fix i assume i: "0 \<le> i \<and> i < int ?k"
      then have "nat i < ?k" by linarith
      then have "?m (int (nat i)) \<noteq> None" by (rule not_less_Least)
      with i show "?m i \<noteq> None" by simp
    qed
    have loop: "reassemble_loop chunks ?mx 0 [] = Err (ErrorString (''missing chunk at index '' @ format_int (int ?k)))"
      by (rule reassemble_loop_Err [OF before least of_nat_0_le_iff le])
    have ne: "chunks \<noteq> []" using kj(4) by auto
    show ?thesis unfolding reassembleChunks_def if_not_P [OF ne] if_P [OF True] by (rule loop)
  next
    case False
    have "?m i \<noteq> None" if "0 \<le> i \<and> i \<le> ?mx" for i
      using False that foldl_max_in [of "- 1" "gm_keys chunks"] known [of ?mx] by force
    then have "reassemble_loop chunks ?mx 0 [] = Ok ([] @ concat (map (\<lambda>j. the (?m j)) [0..?mx]))"
      by (intro reassemble_loop_Ok) simp_all
    then show ?thesis unfolding if_not_P [OF False] reassembleChunks_def by simp
  qed
qed

lemma reassemble_chunks:
  assumes "cs \<noteq> []" and "\<And>i c. map_of m i = Some c \<longleftrightarrow> 0 \<le> i \<and> i < int (length cs) \<and> c = cs ! nat i"
  shows "reassembleChunks m = Ok (concat cs)"
proof -
  have known: "map_of m i \<noteq> None \<longleftrightarrow> 0 \<le> i \<and> i < int (length cs)" for i using assms(2) [of i] by auto
  have keys: "i \<in> set (gm_keys m) \<longleftrightarrow> 0 \<le> i \<and> i < int (length cs)" for i
    using known [of i] by (simp add: map_of_eq_None_iff)
  have n: "0 < int (length cs)" using assms(1) by simp
  then have "0 \<in> set (gm_keys m)" unfolding keys by simp
  then have ne: "m \<noteq> []" by auto
  have mx: "foldl max (- 1) (gm_keys m) = int (length cs) - 1"
  proof (rule antisym)
    show "foldl max (- 1) (gm_keys m) \<le> int (length cs) - 1"
      using foldl_max_in [of "- 1" "gm_keys m"] n keys [of "foldl max (- 1) (gm_keys m)"] by auto
    show "int (length cs) - 1 \<le> foldl max (- 1) (gm_keys m)"
      using keys [of "int (length cs) - 1"] n by (intro foldl_max_ge(2)) simp
  qed
  have "reassembleChunks m = Ok ([] @ concat (map (\<lambda>j. the (map_of m j)) [0..int (length cs) - 1]))"
    using ne known unfolding reassembleChunks_def mx by (simp only: if_False, intro reassemble_loop_Ok) auto
  moreover have "map (\<lambda>j. the (map_of m j)) [0..int (length cs) - 1] = cs"
  proof (rule nth_equalityI)
    show "length (map (\<lambda>j. the (map_of m j)) [0..int (length cs) - 1]) = length cs" by simp
    fix i assume "i < length (map (\<lambda>j. the (map_of m j)) [0..int (length cs) - 1])"
    then have i: "i < length cs" by simp
    then have "[0..int (length cs) - 1] ! i = int i" by (simp add: nth_upto)
    moreover have "map_of m (int i) = Some (cs ! i)" using assms(2) [of "int i"] i by simp
    ultimately show "map (\<lambda>j. the (map_of m j)) [0..int (length cs) - 1] ! i = cs ! i" using i by simp
  qed
  ultimately show ?thesis by simp
qed

section \<open>The table\<close>

text \<open>
  What an executor does with the statements, as SQL defines them: a row gives the values of its columns, a
  table is a multiset of rows. \<open>defaults\<close> are the column defaults of the table, \<open>visible\<close> the rows that
  \<open>ExecuteRead\<close> considers (an executor may restrict its reads to the rows alive at a revision). What
  happens when a statement fails is left open.
\<close>

type_synonym 'v db_row = "string \<Rightarrow> 'v sql_value option"

definition matches_all :: "(string \<times> 'v sql_value) list \<Rightarrow> 'v db_row \<Rightarrow> bool" where
  "matches_all w r \<longleftrightarrow> (\<forall>(col, v) \<in> set w. r col = Some v)"

definition inserted_row :: "'v db_row \<Rightarrow> string list \<Rightarrow> 'v sql_value list \<Rightarrow> 'v db_row" where
  "inserted_row dflt cols vals = dflt ++ map_of (zip cols vals)"

definition updated_row :: "'v update_builder \<Rightarrow> 'v db_row \<Rightarrow> 'v db_row" where
  "updated_row b r = (if matches_all (ubWhere b) r then r ++ map_of (ubSet b) else r)"

locale chunk_table =
  fixes X :: "('s, 'v) chunk_executor"
    and rows :: "'s \<Rightarrow> string \<Rightarrow> 'v db_row multiset"
    and defaults :: "string \<Rightarrow> 'v db_row"
    and visible :: "'v db_row \<Rightarrow> bool"
  assumes begin_rows: "beginTransaction X s = (s', Ok ()) \<Longrightarrow> rows s' = rows s"
    and write_rows: "executeWrite X s ib = (s', Ok ()) \<Longrightarrow>
      rows s' = (rows s)(ibTable ib := rows s (ibTable ib) +
        mset (map (inserted_row (defaults (ibTable ib)) (ibColumns ib)) (ibValues ib)))"
    and delete_rows: "executeDelete X s db = (s', Ok ()) \<Longrightarrow>
      rows s' = (rows s)(dbTable db := filter_mset (\<lambda>r. \<not> matches_all (dbWhere db) r) (rows s (dbTable db)))"
    and update_rows: "executeUpdate X s ub = (s', Ok ()) \<Longrightarrow>
      rows s' = (rows s)(ubTable ub := image_mset (updated_row ub) (rows s (ubTable ub)))"
    and read_rows: "executeRead X s sb = Ok m \<Longrightarrow> sbColumns sb = [ic, dc] \<Longrightarrow>
      image_mset (\<lambda>r. (r ic, r dc)) (filter_mset (\<lambda>r. matches_all (sbWhere sb) r \<and> visible r) (rows s (sbTable sb))) =
        mset (map (\<lambda>(i, d). (Some (SqlInt i), Some (SqlBytes d))) ics) \<Longrightarrow>
      distinct (map fst ics) \<Longrightarrow> map_of m = map_of ics"

text \<open>A configuration for the executor, with columns that are told apart.\<close>

definition config_ok :: "('s, 'v) chunk_executor \<Rightarrow> ('s, 'v) chunker \<Rightarrow> bool" where
  "config_ok X c \<longleftrightarrow> mustNewSQLByteChunker c = Ok c \<and> executor c = Some X \<and> is_i64 (maxChunkSize c) \<and>
     distinct [nameColumn c, chunkIndexColumn c, chunkDataColumn c] \<and>
     (writeMode c = WriteModeInsertWithTombstones \<longrightarrow>
       distinct [nameColumn c, chunkIndexColumn c, chunkDataColumn c, createdAtColumn c, deletedAtColumn c])"

text \<open>
  What the executor shows in the mode of the configuration: everything, or the rows without a tombstone,
  which is how new rows are created.
\<close>

definition shows_alive :: "(string \<Rightarrow> 'v db_row) \<Rightarrow> ('v db_row \<Rightarrow> bool) \<Rightarrow> ('s, 'v) chunker \<Rightarrow> bool" where
  "shows_alive defaults visible c \<longleftrightarrow> (case writeMode c of
     WriteModeDeleteAndInsert \<Rightarrow> \<forall>r. visible r
   | WriteModeInsertWithTombstones \<Rightarrow>
       (\<forall>r. visible r \<longleftrightarrow> r (deletedAtColumn c) = Some (SqlStamp (aliveValue c))) \<and>
       defaults (tableName c) (deletedAtColumn c) = Some (SqlStamp (aliveValue c))
   | WriteModeOther _ \<Rightarrow> False)"

text \<open>The rows of a name.\<close>

definition named :: "('s, 'v) chunker \<Rightarrow> string \<Rightarrow> 'v db_row \<Rightarrow> bool" where
  "named c name r \<longleftrightarrow> r (nameColumn c) = Some (SqlString name)"

lemma wrap_err_Ok: "wrap_err msg r k = (s', Ok x) \<longleftrightarrow> (\<exists>s1. r = (s1, Ok ()) \<and> k s1 = (s', Ok x))"
  by (auto simp: wrap_err_def split: prod.splits sum.splits)

context chunk_table begin

text \<open>Other names and other tables.\<close>

definition frame :: "('s, 'v) chunker \<Rightarrow> string \<Rightarrow> 's \<Rightarrow> 's \<Rightarrow> bool" where
  "frame c name s s' \<longleftrightarrow> (\<forall>t. t \<noteq> tableName c \<longrightarrow> rows s' t = rows s t) \<and>
     (\<forall>other. other \<noteq> name \<longrightarrow> filter_mset (named c other) (rows s' (tableName c)) =
       filter_mset (named c other) (rows s (tableName c)))"

definition seen :: "('s, 'v) chunker \<Rightarrow> string \<Rightarrow> 's \<Rightarrow> 'v db_row multiset" where
  "seen c name s = filter_mset (\<lambda>r. named c name r \<and> visible r) (rows s (tableName c))"

lemma clear_name_Ok:
  assumes "config_ok X c" and "shows_alive defaults visible c"
    and "writeMode c = WriteModeInsertWithTombstones \<longrightarrow> at \<noteq> aliveValue c"
    and "clear_name c X m1 m2 s name at k = (s', Ok ())"
  shows "\<exists>s1. k s1 = (s', Ok ()) \<and> frame c name s s1 \<and> seen c name s1 = {#}"
proof (cases "writeMode c")
  case WriteModeDeleteAndInsert
  then obtain s1 where "k s1 = (s', Ok ())" and d: "executeDelete X s \<lparr>dbTable = tableName c,
      dbWhere = [(nameColumn c, SqlString name)]\<rparr> = (s1, Ok ())"
    using assms(4) by (auto simp: clear_name_def wrap_err_Ok)
  moreover have "rows s1 = (rows s)(tableName c := filter_mset (\<lambda>r. \<not> named c name r) (rows s (tableName c)))"
    using delete_rows [OF d] by (simp add: matches_all_def named_def)
  moreover have "filter_mset (\<lambda>r. \<not> named c name r \<and> named c other r) M = filter_mset (named c other) M"
    if "other \<noteq> name" for other M
    using that by (intro filter_mset_cong) (auto simp: named_def)
  moreover have "filter_mset (\<lambda>r. \<not> named c name r \<and> named c name r \<and> visible r) M = {#}" for M
    by simp
  ultimately show ?thesis
    by (intro exI [of _ s1]) (simp add: frame_def seen_def filter_filter_mset conj_commute)
next
  case WriteModeInsertWithTombstones
  let ?ub = "\<lparr>ubTable = tableName c, ubSet = [(deletedAtColumn c, SqlStamp at)],
    ubWhere = [(nameColumn c, SqlString name), (deletedAtColumn c, SqlStamp (aliveValue c))]\<rparr>"
  obtain s1 where k: "k s1 = (s', Ok ())" and u: "executeUpdate X s ?ub = (s1, Ok ())"
    using assms(4) WriteModeInsertWithTombstones by (auto simp: clear_name_def wrap_err_Ok)
  have rows: "rows s1 = (rows s)(tableName c := image_mset (updated_row ?ub) (rows s (tableName c)))"
    using update_rows [OF u] by simp
  have vis: "visible r \<longleftrightarrow> r (deletedAtColumn c) = Some (SqlStamp (aliveValue c))" for r
    using assms(2) WriteModeInsertWithTombstones by (simp add: shows_alive_def)
  have ne: "nameColumn c \<noteq> deletedAtColumn c" "at \<noteq> aliveValue c"
    using assms(1,3) WriteModeInsertWithTombstones by (auto simp: config_ok_def)
  have named: "named c n (updated_row ?ub r) \<longleftrightarrow> named c n r" for n r
    using ne(1) by (simp add: updated_row_def named_def)
  have same: "updated_row ?ub r = r" if "named c other r" "other \<noteq> name" for r other
    using that by (auto simp: updated_row_def matches_all_def named_def)
  have hidden: "\<not> (named c name (updated_row ?ub r) \<and> visible (updated_row ?ub r))" for r
    using ne by (auto simp: updated_row_def matches_all_def named_def vis)
  have "filter_mset (named c other) (rows s1 (tableName c)) = filter_mset (named c other) (rows s (tableName c))"
    if "other \<noteq> name" for other
  proof -
    have "filter_mset (named c other) (rows s1 (tableName c)) =
        image_mset (updated_row ?ub) (filter_mset (named c other) (rows s (tableName c)))"
      by (simp add: rows filter_mset_image_mset named)
    also have "\<dots> = image_mset (\<lambda>r. r) (filter_mset (named c other) (rows s (tableName c)))"
      by (rule image_mset_cong) (use same that in auto)
    finally show ?thesis by simp
  qed
  moreover have "seen c name s1 = {#}"
    using hidden by (simp add: seen_def rows filter_mset_image_mset)
  ultimately show ?thesis using k rows by (auto simp: frame_def)
next
  case (WriteModeOther n)
  then show ?thesis using assms(2) by (simp add: shows_alive_def)
qed

lemma inserted_row_columns:
  assumes "config_ok X c"
  shows "inserted_row dflt (ibColumns (insert_statement c name at cs))
      ([SqlString name, SqlInt i, SqlBytes ch] @
        (if writeMode c = WriteModeInsertWithTombstones then [SqlStamp at] else [])) = r \<Longrightarrow>
    r (nameColumn c) = Some (SqlString name) \<and> r (chunkIndexColumn c) = Some (SqlInt i) \<and>
    r (chunkDataColumn c) = Some (SqlBytes ch) \<and>
    (writeMode c = WriteModeInsertWithTombstones \<longrightarrow> r (deletedAtColumn c) = dflt (deletedAtColumn c))"
  using assms by (auto simp: config_ok_def insert_statement_def inserted_row_def map_add_def Let_def)

lemma written_rows:
  assumes "config_ok X c"
    and "\<And>r. (writeMode c = WriteModeInsertWithTombstones \<Longrightarrow>
      r (deletedAtColumn c) = defaults (tableName c) (deletedAtColumn c)) \<Longrightarrow> visible r"
    and "executeWrite X s (insert_statement c name at cs) = (s', Ok ())" and "seen c name s = {#}"
  shows "frame c name s s' \<and> image_mset (\<lambda>r. (r (chunkIndexColumn c), r (chunkDataColumn c))) (seen c name s') =
    mset (map (\<lambda>(i, d). (Some (SqlInt i), Some (SqlBytes d))) (zip (map int [0..<length cs]) cs))"
proof -
  let ?ins = "insert_statement c name at cs" and ?dflt = "defaults (tableName c)"
  let ?row = "\<lambda>(i, d). inserted_row ?dflt (ibColumns ?ins) ([SqlString name, SqlInt (int i), SqlBytes d] @
    (if writeMode c = WriteModeInsertWithTombstones then [SqlStamp at] else []))"
  let ?new = "mset (map ?row (zip [0..<length cs] cs))"
  have cols: "?row (i, d) (nameColumn c) = Some (SqlString name)" "?row (i, d) (chunkIndexColumn c) = Some (SqlInt (int i))"
    "?row (i, d) (chunkDataColumn c) = Some (SqlBytes d)"
    "writeMode c = WriteModeInsertWithTombstones \<Longrightarrow> ?row (i, d) (deletedAtColumn c) = ?dflt (deletedAtColumn c)" for i d
    using inserted_row_columns [OF assms(1), of ?dflt name at cs "int i" d] by auto
  have "ibTable ?ins = tableName c" "map (inserted_row ?dflt (ibColumns ?ins)) (ibValues ?ins) =
      map ?row (zip [0..<length cs] cs)"
    by (auto simp: insert_statement_def Let_def)
  then have rows: "rows s' = (rows s)(tableName c := rows s (tableName c) + ?new)"
    using write_rows [OF assms(3)] by simp
  have named: "r \<in># ?new \<Longrightarrow> named c n r \<longleftrightarrow> n = name" for r n
    using cols(1) by (auto simp: named_def)
  have vis: "visible (?row (i, d))" for i d
    by (rule assms(2)) (rule cols(4))
  have "frame c name s s'"
    using named unfolding frame_def rows by (auto simp: filter_mset_eq_conv)
  moreover have "filter_mset (\<lambda>r. named c name r \<and> visible r) ?new = ?new"
    using named vis by (auto simp: filter_mset_eq_conv)
  then have "seen c name s' = ?new" using assms(4) by (simp add: seen_def rows)
  moreover have "map (\<lambda>r. (r (chunkIndexColumn c), r (chunkDataColumn c))) (map ?row (zip [0..<length cs] cs)) =
      map (\<lambda>(i, d). (Some (SqlInt i), Some (SqlBytes d))) (zip (map int [0..<length cs]) cs)"
    using cols(2,3) by (simp add: zip_map1 case_prod_unfold)
  ultimately show ?thesis by (metis (no_types, lifting) mset_map)
qed

lemma read_seen:
  assumes "executeRead X s (select_statement c name) = Ok m" and "cs \<noteq> []"
    and "image_mset (\<lambda>r. (r (chunkIndexColumn c), r (chunkDataColumn c))) (seen c name s) =
      mset (map (\<lambda>(i, d). (Some (SqlInt i), Some (SqlBytes d))) (zip (map int [0..<length cs]) cs))"
  shows "reassembleChunks m = Ok (concat cs)"
proof (rule reassemble_chunks [OF assms(2)])
  fix i c'
  have "map_of m = map_of (zip (map int [0..<length cs]) cs)"
    by (rule read_rows [OF assms(1)])
       (use assms(3) in \<open>simp_all add: select_statement_def seen_def named_def matches_all_def distinct_map\<close>)
  moreover have "map_of (zip (map int [0..<length cs]) cs) i = Some c' \<longleftrightarrow>
      0 \<le> i \<and> i < int (length cs) \<and> c' = cs ! nat i"
    by (subst map_of_eq_Some_iff) (force simp: distinct_map set_zip)+
  ultimately show "map_of m i = Some c' \<longleftrightarrow> 0 \<le> i \<and> i < int (length cs) \<and> c' = cs ! nat i" by simp
qed

lemma shows_new_rows:
  assumes "shows_alive defaults visible c"
    and "writeMode c = WriteModeInsertWithTombstones \<Longrightarrow>
      r (deletedAtColumn c) = defaults (tableName c) (deletedAtColumn c)"
  shows "visible r"
  using assms by (auto simp: shows_alive_def split: write_mode.splits)

lemma frame_trans: "frame c name s1 s2 \<Longrightarrow> frame c name s2 s3 \<Longrightarrow> frame c name s1 s3"
  by (simp add: frame_def)

lemma begin_seen:
  assumes "beginTransaction X s = (s1, Ok ())"
  shows "frame c name s s1" "seen c name s1 = seen c name s"
  using begin_rows [OF assms] by (simp_all add: frame_def seen_def)

text \<open>The part of a write after the old rows are gone.\<close>

lemma write_cleared:
  assumes "config_ok X c"
    and "\<And>r. (writeMode c = WriteModeInsertWithTombstones \<Longrightarrow>
      r (deletedAtColumn c) = defaults (tableName c) (deletedAtColumn c)) \<Longrightarrow> visible r"
    and "int (length data) < 2 ^ 63" and "seen c name s2 = {#}" and "insert_chunks c X name data at s2 = (s', Ok ())"
  shows "frame c name s2 s' \<and> (\<exists>cs'. cs' \<noteq> [] \<and> concat cs' = data \<and>
    image_mset (\<lambda>r. (r (chunkIndexColumn c), r (chunkDataColumn c))) (seen c name s') =
      mset (map (\<lambda>(i, d). (Some (SqlInt i), Some (SqlBytes d))) (zip (map int [0..<length cs']) cs')))"
proof -
  have "0 < maxChunkSize c" "is_i64 (maxChunkSize c)"
    using assms(1) by (auto simp: config_ok_def mustNewSQLByteChunker_def split: if_splits)
  moreover obtain cs where cs: "chunkData (maxChunkSize c) data = Ok cs"
    "executeWrite X s2 (insert_statement c name at (if cs = [] then [[]] else cs)) = (s', Ok ())"
    using assms(5) by (auto simp: insert_chunks_def wrap_err_Ok split: sum.splits)
  ultimately have "concat cs = data" using assms(3) chunk_loop_Ok [of "maxChunkSize c" data 0 cs]
    by (auto simp: chunkData_def split: if_splits)
  moreover have "(if cs = [] then [[]] else cs) \<noteq> []" "concat (if cs = [] then [[]] else cs) = concat cs" by auto
  ultimately show ?thesis using written_rows [OF assms(1,2) cs(2) assms(4)] by blast
qed

lemma read_chunks:
  assumes "executor c = Some X" and "name \<noteq> []" and "executeRead X s (select_statement c name) = Ok m" and "cs \<noteq> []"
    and "image_mset (\<lambda>r. (r (chunkIndexColumn c), r (chunkDataColumn c))) (seen c name s) =
      mset (map (\<lambda>(i, d). (Some (SqlInt i), Some (SqlBytes d))) (zip (map int [0..<length cs]) cs))"
  shows "readChunkedBytes c s name = Ok (concat cs)"
  using assms read_seen [OF assms(3-5)] by (simp add: readChunkedBytes_def)

lemma write_Ok:
  assumes "executor c = Some X" and "writeChunkedBytes c s name data at = (s', Ok ())"
  obtains s1 where "name \<noteq> []" "beginTransaction X s = (s1, Ok ())"
    "clear_name c X ''failed to delete existing chunks'' ''failed to tombstone existing chunks'' s1 name at
      (insert_chunks c X name data at) = (s', Ok ())"
  using assms by (auto simp: writeChunkedBytes_def with_executor_def wrap_err_Ok Let_def split: if_splits)

lemma delete_Ok:
  assumes "executor c = Some X" and "deleteChunkedBytes c s name at = (s', Ok ())"
  obtains s1 where "name \<noteq> []" "beginTransaction X s = (s1, Ok ())"
    "clear_name c X ''failed to delete chunks'' ''failed to tombstone chunks'' s1 name at (\<lambda>s2. (s2, Ok ())) = (s', Ok ())"
  using assms by (auto simp: deleteChunkedBytes_def with_executor_def wrap_err_Ok split: if_splits)

lemma write_read:
  assumes "config_ok X c" and "shows_alive defaults visible c"
    and "writeMode c = WriteModeInsertWithTombstones \<longrightarrow> at \<noteq> aliveValue c" and "int (length data) < 2 ^ 63"
    and "writeChunkedBytes c s name data at = (s', Ok ())"
  shows "(\<forall>m. executeRead X s' (select_statement c name) = Ok m \<longrightarrow> readChunkedBytes c s' name = Ok data) \<and> frame c name s s'"
proof -
  have X: "executor c = Some X" using assms(1) by (simp add: config_ok_def)
  obtain s1 where n: "name \<noteq> []" and b: "beginTransaction X s = (s1, Ok ())"
    and cl: "clear_name c X ''failed to delete existing chunks'' ''failed to tombstone existing chunks'' s1 name at
      (insert_chunks c X name data at) = (s', Ok ())"
    by (rule write_Ok [OF X assms(5)])
  obtain s2 where s2: "frame c name s1 s2" "seen c name s2 = {#}" and
    w: "insert_chunks c X name data at s2 = (s', Ok ())"
    using clear_name_Ok [OF assms(1-3) cl] by blast
  from write_cleared [OF assms(1) shows_new_rows [OF assms(2)] assms(4) s2(2) w]
  obtain cs' where "frame c name s2 s'" "cs' \<noteq> []" "concat cs' = data"
    "image_mset (\<lambda>r. (r (chunkIndexColumn c), r (chunkDataColumn c))) (seen c name s') =
      mset (map (\<lambda>(i, d). (Some (SqlInt i), Some (SqlBytes d))) (zip (map int [0..<length cs']) cs'))"
    by blast
  then show ?thesis using read_chunks [OF X n _ \<open>cs' \<noteq> []\<close>] begin_seen(1) [OF b] s2(1) by (blast intro: frame_trans)
qed

lemma read_empty:
  assumes "executor c = Some X" and "name \<noteq> []" and "seen c name s = {#}"
    and "executeRead X s (select_statement c name) = Ok m"
  shows "readChunkedBytes c s name = Err (Wrap ''failed to reassemble chunks'' (ErrorString ''no chunks found''))"
proof -
  have "map_of m = map_of []"
    by (rule read_rows [OF assms(4)])
      (use assms(3) in \<open>simp_all add: select_statement_def seen_def named_def matches_all_def\<close>)
  then have "m = []" by (metis map_of.simps(1) map_of_eq_empty_iff)
  then show ?thesis using assms by (simp add: readChunkedBytes_def reassembleChunks_def)
qed

lemma delete_read:
  assumes "config_ok X c" and "shows_alive defaults visible c"
    and "writeMode c = WriteModeInsertWithTombstones \<longrightarrow> at \<noteq> aliveValue c"
    and "deleteChunkedBytes c s name at = (s', Ok ())"
  shows "(\<forall>m. executeRead X s' (select_statement c name) = Ok m \<longrightarrow> readChunkedBytes c s' name =
      Err (Wrap ''failed to reassemble chunks'' (ErrorString ''no chunks found''))) \<and> frame c name s s'"
proof -
  have X: "executor c = Some X" using assms(1) by (simp add: config_ok_def)
  obtain s1 where n: "name \<noteq> []" and b: "beginTransaction X s = (s1, Ok ())"
    and cl: "clear_name c X ''failed to delete chunks'' ''failed to tombstone chunks'' s1 name at (\<lambda>s2. (s2, Ok ())) = (s', Ok ())"
    by (rule delete_Ok [OF X assms(4)])
  have "frame c name s1 s'" "seen c name s' = {#}" using clear_name_Ok [OF assms(1-3) cl] by auto
  then show ?thesis using read_empty [OF X n] begin_seen(1) [OF b] by (blast intro: frame_trans)
qed

text \<open>An executor that shows every row: tombstones do not hide anything from the statement of the read.\<close>

lemma tombstone_keeps_seen:
  assumes "config_ok X c" and "writeMode c = WriteModeInsertWithTombstones" and "\<And>r. visible r"
    and "clear_name c X m1 m2 s name at k = (s', Ok ())"
  shows "\<exists>s1. k s1 = (s', Ok ()) \<and> (seen c name s = {#} \<longrightarrow> seen c name s1 = {#}) \<and>
    image_mset (\<lambda>r. (r (chunkIndexColumn c), r (chunkDataColumn c))) (seen c name s1) =
    image_mset (\<lambda>r. (r (chunkIndexColumn c), r (chunkDataColumn c))) (seen c name s)"
proof -
  let ?ub = "\<lparr>ubTable = tableName c, ubSet = [(deletedAtColumn c, SqlStamp at)],
    ubWhere = [(nameColumn c, SqlString name), (deletedAtColumn c, SqlStamp (aliveValue c))]\<rparr>"
  obtain s1 where k: "k s1 = (s', Ok ())" and u: "executeUpdate X s ?ub = (s1, Ok ())"
    using assms(2,4) by (auto simp: clear_name_def wrap_err_Ok)
  have ne: "nameColumn c \<noteq> deletedAtColumn c" "chunkIndexColumn c \<noteq> deletedAtColumn c"
    "chunkDataColumn c \<noteq> deletedAtColumn c"
    using assms(1,2) by (auto simp: config_ok_def)
  then have cols: "updated_row ?ub r (nameColumn c) = r (nameColumn c)"
    "updated_row ?ub r (chunkIndexColumn c) = r (chunkIndexColumn c)"
    "updated_row ?ub r (chunkDataColumn c) = r (chunkDataColumn c)" for r
    by (simp_all add: updated_row_def)
  have "seen c name s1 = image_mset (updated_row ?ub) (seen c name s)"
    using assms(3) cols(1) by (simp add: seen_def named_def update_rows [OF u] filter_mset_image_mset)
  then show ?thesis using k cols(2,3) by (auto simp: multiset.map_comp comp_def)
qed

lemma tombstoned_read:
  assumes "config_ok X c" and "writeMode c = WriteModeInsertWithTombstones" and "\<And>r. visible r"
    and "int (length data) < 2 ^ 63" and "filter_mset (named c name) (rows s (tableName c)) = {#}"
    and "writeChunkedBytes c s name data at = (s1, Ok ())" and "deleteChunkedBytes c s1 name at' = (s2, Ok ())"
    and "executeRead X s2 (select_statement c name) = Ok m"
  shows "readChunkedBytes c s2 name = Ok data"
proof -
  have X: "executor c = Some X" using assms(1) by (simp add: config_ok_def)
  obtain t1 where b: "beginTransaction X s = (t1, Ok ())" and
    c1: "clear_name c X ''failed to delete existing chunks'' ''failed to tombstone existing chunks'' t1 name at
      (insert_chunks c X name data at) = (s1, Ok ())"
    by (rule write_Ok [OF X assms(6)])
  have "seen c name t1 = {#}" using assms(3,5) begin_seen(2) [OF b] by (simp add: seen_def)
  then obtain t2 where t2: "seen c name t2 = {#}" "insert_chunks c X name data at t2 = (s1, Ok ())"
    using tombstone_keeps_seen [OF assms(1-3) c1] by blast
  obtain cs where cs: "cs \<noteq> []" "concat cs = data" and
    seen: "image_mset (\<lambda>r. (r (chunkIndexColumn c), r (chunkDataColumn c))) (seen c name s1) =
      mset (map (\<lambda>(i, d). (Some (SqlInt i), Some (SqlBytes d))) (zip (map int [0..<length cs]) cs))"
    using write_cleared [OF assms(1,3,4) t2] by blast
  obtain t3 where n: "name \<noteq> []" and b': "beginTransaction X s1 = (t3, Ok ())" and
    c2: "clear_name c X ''failed to delete chunks'' ''failed to tombstone chunks'' t3 name at' (\<lambda>s. (s, Ok ())) = (s2, Ok ())"
    by (rule delete_Ok [OF X assms(7)])
  have "image_mset (\<lambda>r. (r (chunkIndexColumn c), r (chunkDataColumn c))) (seen c name s2) =
      image_mset (\<lambda>r. (r (chunkIndexColumn c), r (chunkDataColumn c))) (seen c name s1)"
    using tombstone_keeps_seen [OF assms(1-3) c2] begin_seen(2) [OF b'] by auto
  from read_chunks [OF X n assms(8) cs(1) this [unfolded seen]] cs(2) show ?thesis by simp
qed

end

section \<open>A reference executor\<close>

text \<open>Tables as lists of rows, rows as lists of columns; \<open>dflt\<close> are the defaults of every table.\<close>

type_synonym 'v ref_db = "(string \<times> (string \<times> 'v sql_value) list list) list"

definition ref_table :: "'v ref_db \<Rightarrow> string \<Rightarrow> (string \<times> 'v sql_value) list list" where
  "ref_table s t = (case map_of s t of None \<Rightarrow> [] | Some rs \<Rightarrow> rs)"

definition ref_rows :: "'v ref_db \<Rightarrow> string \<Rightarrow> 'v db_row multiset" where
  "ref_rows s t = mset (map map_of (ref_table s t))"

fun chunk_of_row :: "string list \<Rightarrow> 'v db_row \<Rightarrow> (int \<times> bytes) option" where
  "chunk_of_row [ic, dc] r = (case (r ic, r dc) of (Some (SqlInt i), Some (SqlBytes d)) \<Rightarrow> Some (i, d) | _ \<Rightarrow> None)"
| "chunk_of_row _ r = None"

definition ref_chunk_executor ::
    "(string \<times> 'v sql_value) list \<Rightarrow> ('v db_row \<Rightarrow> bool) \<Rightarrow> ('v ref_db, 'v) chunk_executor" where
  "ref_chunk_executor dflt vis = \<lparr>
     beginTransaction = (\<lambda>s. (s, Ok ())),
     executeWrite = (\<lambda>s ib. (gm_put (ibTable ib) (ref_table s (ibTable ib) @
       map (\<lambda>vals. zip (ibColumns ib) vals @ dflt) (ibValues ib)) s, Ok ())),
     executeDelete = (\<lambda>s db. (gm_put (dbTable db)
       (filter (\<lambda>r. \<not> matches_all (dbWhere db) (map_of r)) (ref_table s (dbTable db))) s, Ok ())),
     executeUpdate = (\<lambda>s ub. (gm_put (ubTable ub)
       (map (\<lambda>r. if matches_all (ubWhere ub) (map_of r) then ubSet ub @ r else r) (ref_table s (ubTable ub))) s, Ok ())),
     executeRead = (\<lambda>s sb.
       (let rs = filter (\<lambda>r. matches_all (sbWhere sb) r \<and> vis r) (map map_of (ref_table s (sbTable sb)));
            cs = map (chunk_of_row (sbColumns sb)) rs
        in if None \<in> set cs then Err (LibError ''scan'')
           else Ok (foldl (\<lambda>m (i, d). gm_put i d m) [] (map the cs))))\<rparr>"

lemma ref_rows_put: "ref_rows (gm_put t rs s) = (ref_rows s)(t := mset (map map_of rs))"
  by (auto simp: ref_rows_def ref_table_def fun_eq_iff)

lemma foldl_gm_put: "distinct (map fst xs) \<Longrightarrow> map_of (foldl (\<lambda>m (i, d). gm_put i d m) m0 xs) = map_of m0 ++ map_of xs"
proof (induction xs arbitrary: m0)
  case (Cons x xs)
  obtain i d where x: "x = (i, d)" by (cases x)
  have "map_of xs i = None" using Cons.prems x by (simp add: map_of_eq_None_iff)
  then show ?case using Cons x by (auto simp: fun_eq_iff map_add_def split: option.split)
qed simp

interpretation ref_chunks: chunk_table "ref_chunk_executor dflt vis" ref_rows "\<lambda>_. map_of dflt" vis
  for dflt :: "(string \<times> 'v sql_value) list" and vis
proof
  show "ref_rows s' = ref_rows s" if "beginTransaction (ref_chunk_executor dflt vis) s = (s', Ok ())" for s s'
    using that by (simp add: ref_chunk_executor_def)
  show "ref_rows s' = (ref_rows s)(ibTable ib := ref_rows s (ibTable ib) +
      mset (map (inserted_row (map_of dflt) (ibColumns ib)) (ibValues ib)))"
    if "executeWrite (ref_chunk_executor dflt vis) s ib = (s', Ok ())" for s s' ib
  proof -
    have "map_of \<circ> (\<lambda>vals. zip (ibColumns ib) vals @ dflt) = inserted_row (map_of dflt) (ibColumns ib)"
      by (simp add: inserted_row_def fun_eq_iff)
    moreover have "s' = gm_put (ibTable ib) (ref_table s (ibTable ib) @
        map (\<lambda>vals. zip (ibColumns ib) vals @ dflt) (ibValues ib)) s"
      using that by (simp add: ref_chunk_executor_def)
    ultimately show ?thesis by (simp add: ref_rows_put) (simp add: ref_rows_def)
  qed
  show "ref_rows s' = (ref_rows s)(dbTable db :=
      filter_mset (\<lambda>r. \<not> matches_all (dbWhere db) r) (ref_rows s (dbTable db)))"
    if "executeDelete (ref_chunk_executor dflt vis) s db = (s', Ok ())" for s s' db
    using that by (auto simp: ref_chunk_executor_def ref_rows_put)
      (simp add: ref_rows_def filter_mset_image_mset comp_def flip: mset_filter)
  show "ref_rows s' = (ref_rows s)(ubTable ub := image_mset (updated_row ub) (ref_rows s (ubTable ub)))"
    if "executeUpdate (ref_chunk_executor dflt vis) s ub = (s', Ok ())" for s s' ub
  proof -
    have "map_of (if matches_all (ubWhere ub) (map_of r) then ubSet ub @ r else r) = updated_row ub (map_of r)" for r
      by (simp add: updated_row_def)
    then show ?thesis
      using that by (auto simp: ref_chunk_executor_def ref_rows_put)
        (simp add: ref_rows_def multiset.map_comp comp_def flip: mset_map)
  qed
  show "map_of m = map_of ics"
    if r: "executeRead (ref_chunk_executor dflt vis) s sb = Ok m" and c: "sbColumns sb = [ic, dc]"
      and e: "image_mset (\<lambda>r. (r ic, r dc)) (filter_mset (\<lambda>r. matches_all (sbWhere sb) r \<and> vis r)
        (ref_rows s (sbTable sb))) = mset (map (\<lambda>(i, d). (Some (SqlInt i), Some (SqlBytes d))) ics)"
      and d: "distinct (map fst ics)" for s sb m ic dc ics
  proof -
    let ?rs = "filter (\<lambda>r. matches_all (sbWhere sb) r \<and> vis r) (map map_of (ref_table s (sbTable sb)))"
    let ?f = "\<lambda>p. case p of (Some (SqlInt i), Some (SqlBytes d)) \<Rightarrow> Some (i, d) | _ \<Rightarrow> None"
    have e': "mset (map (\<lambda>r. (r ic, r dc)) ?rs) = mset (map (\<lambda>(i, d). (Some (SqlInt i), Some (SqlBytes d))) ics)"
      using e by (simp add: ref_rows_def flip: mset_map mset_filter)
    have "map (chunk_of_row (sbColumns sb)) ?rs = map ?f (map (\<lambda>r. (r ic, r dc)) ?rs)"
      by (simp add: c)
    then have "mset (map (chunk_of_row (sbColumns sb)) ?rs) = image_mset ?f (mset (map (\<lambda>r. (r ic, r dc)) ?rs))"
      by (metis mset_map)
    also have "\<dots> = mset (map Some ics)"
      unfolding e' by (simp add: multiset.map_comp comp_def case_prod_unfold)
    finally have cs: "mset (map (chunk_of_row (sbColumns sb)) ?rs) = mset (map Some ics)" .
    let ?xs = "map the (map (chunk_of_row (sbColumns sb)) ?rs)"
    have xs: "mset ?xs = mset ics"
      using arg_cong [OF cs, of "image_mset the"] by (simp add: multiset.map_comp comp_def)
    have "None \<notin> set (map (chunk_of_row (sbColumns sb)) ?rs)"
      using mset_eq_setD [OF cs] by auto
    then have ok: "executeRead (ref_chunk_executor dflt vis) s sb = Ok (foldl (\<lambda>m (i, d). gm_put i d m) [] ?xs)"
      unfolding ref_chunk_executor_def chunk_executor.select_convs Let_def by (rule if_not_P)
    have m: "m = foldl (\<lambda>m (i, d). gm_put i d m) [] ?xs"
      by (rule sum.inject(2) [THEN iffD1, OF trans [OF r [symmetric] ok]])
    have dx: "distinct (map fst ?xs)"
      by (rule mset_eq_imp_distinct_iff [THEN iffD2, OF _ d])
         (use arg_cong [OF xs, of "image_mset fst"] in \<open>simp only: mset_map\<close>)
    have "map_of m = map_of [] ++ map_of ?xs" unfolding m by (rule foldl_gm_put [OF dx])
    also have "\<dots> = map_of ?xs" by simp
    also have "\<dots> = map_of ics" by (rule map_of_inject_set [THEN iffD2, OF dx d mset_eq_setD [OF xs]])
    finally show ?thesis .
  qed
qed

section \<open>Properties\<close>

text \<open>
  C36. What is written reads back: after a successful write under a name, in either mode, a read of the
  name returns the data if the executor can run the statement at all, and the rows of other names and
  other tables are as before. With tombstones this needs an executor that shows only the rows alive.
\<close>

theorem chunked_roundtrip:
  assumes "chunk_table X rows defaults visible" and "config_ok X c" and "shows_alive defaults visible c"
    and "writeMode c = WriteModeInsertWithTombstones \<longrightarrow> at \<noteq> aliveValue c" and "int (length data) < 2 ^ 63"
    and "writeChunkedBytes c s name data at = (s', Ok ())"
  shows "(\<forall>m. executeRead X s' (select_statement c name) = Ok m \<longrightarrow> readChunkedBytes c s' name = Ok data) \<and>
    (\<forall>t. t \<noteq> tableName c \<longrightarrow> rows s' t = rows s t) \<and>
    (\<forall>other. other \<noteq> name \<longrightarrow> filter_mset (named c other) (rows s' (tableName c)) =
      filter_mset (named c other) (rows s (tableName c)))"
  using chunk_table.write_read [OF assms] by (auto simp: chunk_table.frame_def [OF assms(1)])

definition sample_chunker :: "write_mode \<Rightarrow> (int db_row \<Rightarrow> bool) \<Rightarrow> (int ref_db, int) chunker" where
  "sample_chunker mode vis = \<lparr>tableName = ''schema'', nameColumn = ''name'', chunkIndexColumn = ''chunk_index'',
     chunkDataColumn = ''chunk_data'', maxChunkSize = 2, placeholderFormat = Some ''?'',
     executor = Some (ref_chunk_executor [(''deleted_at'', SqlStamp 0)] vis), writeMode = mode,
     createdAtColumn = ''created_at'', deletedAtColumn = ''deleted_at'', aliveValue = 0\<rparr>"

definition sample_alive :: "int db_row \<Rightarrow> bool" where
  "sample_alive r \<longleftrightarrow> r ''deleted_at'' = Some (SqlStamp 0)"

definition sample_chunk_db :: "int ref_db" where
  "sample_chunk_db = [(''schema'', [[(''name'', SqlString ''a''), (''chunk_index'', SqlInt 0),
     (''chunk_data'', SqlBytes ''old''), (''deleted_at'', SqlStamp 0)]])]"

lemma sample_config_ok:
  "config_ok (ref_chunk_executor [(''deleted_at'', SqlStamp 0)] vis) (sample_chunker WriteModeInsertWithTombstones vis)"
  by (simp add: config_ok_def sample_chunker_def mustNewSQLByteChunker_def is_i64_def)

lemma sample_shows_alive:
  "shows_alive (\<lambda>_. map_of [(''deleted_at'', SqlStamp 0)]) sample_alive
    (sample_chunker WriteModeInsertWithTombstones sample_alive)"
  by (simp add: shows_alive_def sample_chunker_def sample_alive_def)

lemmas chunk_eval = writeChunkedBytes_def deleteChunkedBytes_def with_executor_def wrap_err_def clear_name_def
  insert_chunks_def insert_statement_def chunkData_def sample_chunker_def ref_chunk_executor_def
  chunk_loop.simps i64_def slice_def ref_table_def matches_all_def sample_chunk_db_def

lemma sample_write:
  "\<exists>s'. writeChunkedBytes (sample_chunker WriteModeInsertWithTombstones vis) s ''a'' ''hello'' 7 = (s', Ok ())"
  by (simp add: chunk_eval signed_divide_int_def upt_rec)

theorem chunked_roundtrip_witness:
  "\<exists>s'. writeChunkedBytes (sample_chunker WriteModeInsertWithTombstones sample_alive) sample_chunk_db ''a'' ''hello'' 7 = (s', Ok ()) \<and>
     (\<forall>m. executeRead (ref_chunk_executor [(''deleted_at'', SqlStamp 0)] sample_alive) s'
        (select_statement (sample_chunker WriteModeInsertWithTombstones sample_alive) ''a'') = Ok m \<longrightarrow>
      readChunkedBytes (sample_chunker WriteModeInsertWithTombstones sample_alive) s' ''a'' = Ok ''hello'')"
proof -
  let ?c = "sample_chunker WriteModeInsertWithTombstones sample_alive"
  obtain s' where w: "writeChunkedBytes ?c sample_chunk_db ''a'' ''hello'' 7 = (s', Ok ())"
    using sample_write by blast
  have "writeMode ?c = WriteModeInsertWithTombstones \<longrightarrow> 7 \<noteq> aliveValue ?c" "int (length ''hello'') < 2 ^ 63"
    by (simp_all add: sample_chunker_def)
  from chunked_roundtrip [OF ref_chunks.chunk_table_axioms sample_config_ok sample_shows_alive this w] w
  show ?thesis by blast
qed

text \<open>
  What is deleted does not read back: after a successful deletion, in either mode, a read of the name
  fails because it finds no chunks, and the rows of other names and other tables are as before. With
  tombstones this needs an executor that shows only the rows alive.
\<close>

theorem chunked_delete:
  assumes "chunk_table X rows defaults visible" and "config_ok X c" and "shows_alive defaults visible c"
    and "writeMode c = WriteModeInsertWithTombstones \<longrightarrow> at \<noteq> aliveValue c"
    and "deleteChunkedBytes c s name at = (s', Ok ())"
  shows "(\<forall>m. executeRead X s' (select_statement c name) = Ok m \<longrightarrow> readChunkedBytes c s' name =
      Err (Wrap ''failed to reassemble chunks'' (ErrorString ''no chunks found''))) \<and>
    (\<forall>t. t \<noteq> tableName c \<longrightarrow> rows s' t = rows s t) \<and>
    (\<forall>other. other \<noteq> name \<longrightarrow> filter_mset (named c other) (rows s' (tableName c)) =
      filter_mset (named c other) (rows s (tableName c)))"
  using chunk_table.delete_read [OF assms] by (auto simp: chunk_table.frame_def [OF assms(1)])

lemma sample_delete_chunks:
  "\<exists>s'. deleteChunkedBytes (sample_chunker WriteModeInsertWithTombstones vis) s ''a'' 9 = (s', Ok ())"
  by (simp add: chunk_eval)

theorem chunked_delete_witness:
  "\<exists>s'. deleteChunkedBytes (sample_chunker WriteModeInsertWithTombstones sample_alive) sample_chunk_db ''a'' 9 = (s', Ok ()) \<and>
     (\<forall>m. executeRead (ref_chunk_executor [(''deleted_at'', SqlStamp 0)] sample_alive) s'
        (select_statement (sample_chunker WriteModeInsertWithTombstones sample_alive) ''a'') = Ok m \<longrightarrow>
      readChunkedBytes (sample_chunker WriteModeInsertWithTombstones sample_alive) s' ''a'' =
        Err (Wrap ''failed to reassemble chunks'' (ErrorString ''no chunks found'')))"
proof -
  let ?c = "sample_chunker WriteModeInsertWithTombstones sample_alive"
  obtain s' where w: "deleteChunkedBytes ?c sample_chunk_db ''a'' 9 = (s', Ok ())"
    using sample_delete_chunks by blast
  have "writeMode ?c = WriteModeInsertWithTombstones \<longrightarrow> 9 \<noteq> aliveValue ?c" by (simp add: sample_chunker_def)
  from chunked_delete [OF ref_chunks.chunk_table_axioms sample_config_ok sample_shows_alive this w] w
  show ?thesis by blast
qed

text \<open>
  The statement of a read does not mention tombstones: with an executor that runs the statements as
  they are given, what was written under a fresh name and then deleted is still read back.
\<close>

theorem tombstones_not_filtered:
  assumes "chunk_table X rows defaults visible" and "config_ok X c"
    and "writeMode c = WriteModeInsertWithTombstones" and "\<forall>r. visible r" and "int (length data) < 2 ^ 63"
    and "filter_mset (named c name) (rows s (tableName c)) = {#}"
    and "writeChunkedBytes c s name data at = (s1, Ok ())" and "deleteChunkedBytes c s1 name at' = (s2, Ok ())"
    and "executeRead X s2 (select_statement c name) = Ok m"
  shows "readChunkedBytes c s2 name = Ok data"
  by (rule chunk_table.tombstoned_read [OF assms(1-3) _ assms(5-9)]) (use assms(4) in simp)

theorem tombstones_not_filtered_witness:
  "\<exists>s1 s2. writeChunkedBytes (sample_chunker WriteModeInsertWithTombstones (\<lambda>_. True)) [] ''a'' ''hello'' 7 = (s1, Ok ()) \<and>
     deleteChunkedBytes (sample_chunker WriteModeInsertWithTombstones (\<lambda>_. True)) s1 ''a'' 9 = (s2, Ok ()) \<and>
     readChunkedBytes (sample_chunker WriteModeInsertWithTombstones (\<lambda>_. True)) s2 ''a'' = Ok ''hello''"
proof -
  let ?c = "sample_chunker WriteModeInsertWithTombstones (\<lambda>_. True)"
    and ?X = "ref_chunk_executor [(''deleted_at'', SqlStamp 0)] (\<lambda>_. True)"
  have s1: "writeChunkedBytes ?c [] ''a'' ''hello'' 7 = (fst (writeChunkedBytes ?c [] ''a'' ''hello'' 7), Ok ())"
    using sample_write [of "\<lambda>_. True" "[]"] by auto
  let ?s1 = "fst (writeChunkedBytes ?c [] ''a'' ''hello'' 7)"
  have s2: "deleteChunkedBytes ?c ?s1 ''a'' 9 = (fst (deleteChunkedBytes ?c ?s1 ''a'' 9), Ok ())"
    using sample_delete_chunks [of "\<lambda>_. True" ?s1] by auto
  have m: "executeRead ?X (fst (deleteChunkedBytes ?c ?s1 ''a'' 9)) (select_statement ?c ''a'') =
      Ok [(0, ''he''), (1, ''ll''), (2, ''o'')]"
    by (simp add: chunk_eval signed_divide_int_def upt_rec select_statement_def del: set_map set_filter)
  have h: "writeMode ?c = WriteModeInsertWithTombstones" "\<forall>r. (\<lambda>_. True) r" "int (length ''hello'') < 2 ^ 63"
    "filter_mset (named ?c ''a'') (ref_rows [] (tableName ?c)) = {#}"
    by (simp_all add: sample_chunker_def ref_rows_def ref_table_def)
  from tombstones_not_filtered [OF ref_chunks.chunk_table_axioms sample_config_ok h s1 s2 m] s1 s2
  show ?thesis by blast
qed

end
