(* ===== verification/Sql_Schema.thy ===== *)
theory Sql_Schema
  imports Spice_Types
begin

text \<open>
  \<open>common/schema.go\<close> and \<open>common/index.go\<close>: what a SQL datastore tells the shared query code about its
  relationship table. Assertions that exist in debug builds only are left out.
\<close>

type_synonym shape = string   \<comment> \<open>\<open>queryshape.Shape\<close>\<close>

record index_definition =
  idxName :: string
  idxColumnsSQL :: string
  idxShapes :: "shape list"
  idxIsDeprecated :: bool
  idxPreferredSortOrder :: sort_order

fun shape_among :: "shape \<Rightarrow> shape list \<Rightarrow> bool" where
  "shape_among shp [] = False"
| "shape_among shp (s # ss) = (if s = shp then True else shape_among shp ss)"

definition matchesShape :: "index_definition \<Rightarrow> shape \<Rightarrow> bool" where
  "matchesShape idx shp = shape_among shp (idxShapes idx)"

datatype pagination_filter_type =
  PaginationFilterTypeUnknown | TupleComparison | ExpandedLogicComparison | PaginationFilterTypeOther nat

datatype column_optimization =
  ColumnOptimizationOptionUnknown | ColumnOptimizationOptionNone | ColumnOptimizationOptionStaticValues
  | ColumnOptimizationOptionOther int

record schema_information =
  relationshipTableName :: string
  colNamespace :: string
  colObjectID :: string
  colRelation :: string
  colUsersetNamespace :: string
  colUsersetObjectID :: string
  colUsersetRelation :: string
  colCaveatName :: string
  colCaveatContext :: string
  colExpiration :: string
  colIntegrityKeyID :: string
  colIntegrityHash :: string
  colIntegrityTimestamp :: string
  indexes :: "index_definition list"
  paginationFilterType :: pagination_filter_type
  schPlaceholderFormat :: "opaque option"
  nowFunction :: string
  columnOptimization :: column_optimization
  schIntegrityEnabled :: bool
  expirationDisabled :: bool
  sortByResourceColumnOrder :: "string list"
  sortBySubjectColumnOrder :: "string list"

definition relationshipStandardColumnCount :: nat where "relationshipStandardColumnCount = 6"
definition relationshipCaveatColumnCount :: nat where "relationshipCaveatColumnCount = 2"
definition relationshipExpirationColumnCount :: nat where "relationshipExpirationColumnCount = 1"
definition relationshipIntegrityColumnCount :: nat where "relationshipIntegrityColumnCount = 3"

fun expected_indexes :: "shape \<Rightarrow> index_definition list \<Rightarrow> string list \<Rightarrow> string list" where
  "expected_indexes shp [] names = names"
| "expected_indexes shp (idx # idxs) names =
     expected_indexes shp idxs (if matchesShape idx shp then names @ [idxName idx] else names)"

definition expectedIndexesForShape :: "schema_information \<Rightarrow> shape \<Rightarrow> string list" where
  "expectedIndexesForShape si shp = expected_indexes shp (indexes si) []"

definition sortByResourceColumnOrderColumns :: "schema_information \<Rightarrow> string list" where
  "sortByResourceColumnOrderColumns si =
     (if sortByResourceColumnOrder si \<noteq> [] then sortByResourceColumnOrder si
      else [colNamespace si, colObjectID si, colRelation si, colUsersetNamespace si, colUsersetObjectID si,
        colUsersetRelation si])"

definition sortBySubjectColumnOrderColumns :: "schema_information \<Rightarrow> string list" where
  "sortBySubjectColumnOrderColumns si =
     (if sortBySubjectColumnOrder si \<noteq> [] then sortBySubjectColumnOrder si
      else [colUsersetNamespace si, colUsersetObjectID si, colUsersetRelation si, colNamespace si, colObjectID si,
        colRelation si])"

fun first_panic :: "(bool \<times> string) list \<Rightarrow> unit result" where
  "first_panic [] = Ok ()"
| "first_panic ((bad, msg) # cs) = (if bad then Err (Panic msg) else first_panic cs)"

definition mustValidate :: "schema_information \<Rightarrow> unit result" where
  "mustValidate si = first_panic (
     [(relationshipTableName si = [], ''RelationshipTableName is required''),
      (colNamespace si = [], ''ColNamespace is required''),
      (colObjectID si = [], ''ColObjectID is required''),
      (colRelation si = [], ''ColRelation is required''),
      (colUsersetNamespace si = [], ''ColUsersetNamespace is required''),
      (colUsersetObjectID si = [], ''ColUsersetObjectID is required''),
      (colUsersetRelation si = [], ''ColUsersetRelation is required''),
      (colCaveatName si = [], ''ColCaveatName is required''),
      (colCaveatContext si = [], ''ColCaveatContext is required''),
      (colExpiration si = [], ''ColExpiration is required'')] @
     (if schIntegrityEnabled si then
       [(colIntegrityKeyID si = [], ''ColIntegrityKeyID is required''),
        (colIntegrityHash si = [], ''ColIntegrityHash is required''),
        (colIntegrityTimestamp si = [], ''ColIntegrityTimestamp is required'')] else []) @
     [(nowFunction si = [], ''NowFunction is required''),
      (columnOptimization si = ColumnOptimizationOptionUnknown, ''ColumnOptimization is required''),
      (paginationFilterType si = PaginationFilterTypeUnknown, ''PaginationFilterType is required''),
      (schPlaceholderFormat si = None, ''PlaceholderFormat is required'')])"

lemma first_panic_Ok: "first_panic cs = Ok () \<longleftrightarrow> (\<forall>(bad, _) \<in> set cs. \<not> bad)"
  by (induction cs rule: first_panic.induct) auto

lemma shape_among_iff [simp]: "shape_among s ss \<longleftrightarrow> s \<in> set ss"
  by (induction ss) auto

lemma expectedIndexesForShape_eq:
  "expectedIndexesForShape si shp = map idxName (filter (\<lambda>i. shp \<in> set (idxShapes i)) (indexes si))"
proof -
  have "expected_indexes shp is ns = ns @ map idxName (filter (\<lambda>i. shp \<in> set (idxShapes i)) is)" for "is" ns
    by (induction "is" arbitrary: ns) (simp_all add: matchesShape_def)
  then show ?thesis by (simp add: expectedIndexesForShape_def)
qed

end
