(* ===== verification/Sql_Filter.thy ===== *)
theory Sql_Filter
  imports Sql_Schema
begin

text \<open>
  \<open>common/sql.go\<close>, first half: \<open>SchemaQueryFilterer\<close>, which collects the clauses of a query for
  relationships. A clause is the term of constructors of the query builder that the code makes; the raw
  fragments are the strings it builds, with their arguments. The map \<open>filteringColumnTracker\<close> is shared
  by all copies of a filterer, so it is not a field of the filterer but a state of its own that every
  operation takes and returns.
\<close>

section \<open>Clauses and queries\<close>

datatype sql_pred =
    SqEq string string            \<comment> \<open>\<open>sq.Eq{column: value}\<close>\<close>
  | SqEqNil string                \<comment> \<open>\<open>sq.Eq{column: nil}\<close>\<close>
  | SqNotEq string string
  | SqNotEqNil string
  | SqGt string string
  | SqLike string string
  | SqAnd "sql_pred list"
  | SqOr "sql_pred list"
  | SqExpr string "string list"   \<comment> \<open>a fragment with placeholders and its arguments\<close>

record sql_select =
  selPrefixes :: "string list"
  selColumns :: "string list"
  selFrom :: "string option"
  selWhere :: "sql_pred list"
  selOrderBy :: "string list"
  selLimit :: "nat option"

definition empty_select :: sql_select where
  "empty_select = \<lparr>selPrefixes = [], selColumns = [], selFrom = None, selWhere = [], selOrderBy = [],
     selLimit = None\<rparr>"

text \<open>The interface \<open>IndexingHint\<close>.\<close>

record indexing_hint =
  hintSQLPrefix :: "string result"
  hintFromTable :: "string \<Rightarrow> string result"
  hintFromSQLSuffix :: "string result"
  hintSortOrder :: sort_order

text \<open>\<open>columnTracker\<close>: the single value, or nil when the column varies.\<close>

type_synonym tracker = "(string \<times> string option) list"

definition hasStaticValue :: "tracker \<Rightarrow> string \<Rightarrow> bool" where
  "hasStaticValue ctm columnName = (case map_of ctm columnName of Some (Some _) \<Rightarrow> True | _ \<Rightarrow> False)"

record sqf =
  sqSchema :: schema_information
  queryBuilder :: sql_select
  filterMaximumIDCount :: nat
  isCustomQuery :: bool
  extraFields :: "string list"
  fromSuffix :: string
  fromTable :: string
  indexingHint :: "indexing_hint option"

definition newSchemaQueryFiltererForRelationshipsSelect ::
    "schema_information \<Rightarrow> nat \<Rightarrow> string list \<Rightarrow> tracker \<times> sqf" where
  "newSchemaQueryFiltererForRelationshipsSelect schema maxIDs extra = ([],
     \<lparr>sqSchema = schema, queryBuilder = empty_select,
      filterMaximumIDCount = (if maxIDs = 0 then 100 else maxIDs), isCustomQuery = False,
      extraFields = extra, fromSuffix = [], fromTable = [], indexingHint = None\<rparr>)"

definition newSchemaQueryFiltererWithStartingQuery ::
    "schema_information \<Rightarrow> sql_select \<Rightarrow> nat \<Rightarrow> tracker \<times> sqf" where
  "newSchemaQueryFiltererWithStartingQuery schema startingQuery maxIDs = ([],
     \<lparr>sqSchema = schema, queryBuilder = startingQuery,
      filterMaximumIDCount = (if maxIDs = 0 then 100 else maxIDs), isCustomQuery = True,
      extraFields = [], fromSuffix = [], fromTable = [], indexingHint = None\<rparr>)"

definition withAdditionalFilter :: "sqf \<Rightarrow> (sql_select \<Rightarrow> sql_select) \<Rightarrow> sqf" where
  "withAdditionalFilter q fltr = q\<lparr>queryBuilder := fltr (queryBuilder q)\<rparr>"

definition withFromTable :: "sqf \<Rightarrow> string \<Rightarrow> sqf" where
  "withFromTable q t = q\<lparr>fromTable := t\<rparr>"

definition withFromSuffix :: "sqf \<Rightarrow> string \<Rightarrow> sqf" where
  "withFromSuffix q s = q\<lparr>fromSuffix := s\<rparr>"

definition withIndexingHint :: "sqf \<Rightarrow> indexing_hint \<Rightarrow> sqf" where
  "withIndexingHint q h = q\<lparr>indexingHint := Some h\<rparr>"

definition sq_where :: "sql_pred \<Rightarrow> sqf \<Rightarrow> sqf" where
  "sq_where p q = q\<lparr>queryBuilder := (queryBuilder q)\<lparr>selWhere := selWhere (queryBuilder q) @ [p]\<rparr>\<rparr>"

definition queryBuilderWithMaybeExpirationFilter :: "sqf \<Rightarrow> bool \<Rightarrow> sql_select" where
  "queryBuilderWithMaybeExpirationFilter q skipExpiration =
     (if expirationDisabled (sqSchema q) \<or> skipExpiration then queryBuilder q
      else queryBuilder (sq_where (SqOr [SqEqNil (colExpiration (sqSchema q)),
        SqExpr (colExpiration (sqSchema q) @ '' > '' @ nowFunction (sqSchema q) @ ''()'') []]) q))"

definition underlyingQueryBuilder :: "sqf \<Rightarrow> sql_select" where
  "underlyingQueryBuilder q = queryBuilderWithMaybeExpirationFilter q False"

definition sq_order_by :: "string list \<Rightarrow> sqf \<Rightarrow> sqf" where
  "sq_order_by cols q =
     q\<lparr>queryBuilder := (queryBuilder q)\<lparr>selOrderBy := selOrderBy (queryBuilder q) @ cols\<rparr>\<rparr>"

definition tupleOrder :: "sort_order \<Rightarrow> sqf \<Rightarrow> sqf" where
  "tupleOrder order q = (case order of
     ByResource \<Rightarrow> sq_order_by (sortByResourceColumnOrderColumns (sqSchema q)) q
   | BySubject \<Rightarrow> sq_order_by (sortBySubjectColumnOrderColumns (sqSchema q)) q
   | _ \<Rightarrow> q)"

section \<open>Cursors\<close>

fun columns_and_values ::
    "schema_information \<Rightarrow> tuple_relationship \<Rightarrow> string list \<Rightarrow> (string \<times> string) list result" where
  "columns_and_values schema cursor [] = Ok []"
| "columns_and_values schema cursor (c # cs) =
     (let value =
        (if c = colNamespace schema then Some (objectType (resource cursor))
         else if c = colObjectID schema then Some (objectID (resource cursor))
         else if c = colRelation schema then Some (objRelation (resource cursor))
         else if c = colUsersetNamespace schema then Some (objectType (subject cursor))
         else if c = colUsersetObjectID schema then Some (objectID (subject cursor))
         else if c = colUsersetRelation schema then Some (objRelation (subject cursor))
         else None)
      in case value of
           None \<Rightarrow> Err (MustBug ''invalid column name'')
         | Some v \<Rightarrow>
             (case columns_and_values schema cursor cs of
                Err e \<Rightarrow> Err e | Ok rest \<Rightarrow> Ok ((c, v) # rest)))"

definition columnsAndValuesForSort ::
    "sort_order \<Rightarrow> schema_information \<Rightarrow> tuple_relationship \<Rightarrow> (string \<times> string) list result" where
  "columnsAndValuesForSort order schema cursor = (case order of
     ByResource \<Rightarrow> columns_and_values schema cursor (sortByResourceColumnOrderColumns schema)
   | BySubject \<Rightarrow> columns_and_values schema cursor (sortBySubjectColumnOrderColumns schema)
   | _ \<Rightarrow> Err (MustBug ''invalid sort order''))"

definition comma_join :: "string list \<Rightarrow> string" where
  "comma_join cs = concat (case cs of [] \<Rightarrow> [] | c # cs' \<Rightarrow> c # map (\<lambda>x. '','' @ x) cs')"

text \<open>\<open>strings.Repeat(",?", n)[1:]\<close>, for a positive \<open>n\<close>.\<close>

definition placeholders :: "nat \<Rightarrow> string" where
  "placeholders n = tl (concat (replicate n '',?''))"

definition tuple_comparison :: "(string \<times> string) list \<Rightarrow> sql_pred" where
  "tuple_comparison cvs = SqExpr (''('' @ comma_join (map fst cvs) @ '') > ('' @ placeholders (length cvs) @ '')'')
     (map snd cvs)"

text \<open>The loop of the expanded comparison; \<open>prev\<close> are the columns before.\<close>

fun expanded_comparison :: "tracker \<Rightarrow> (string \<times> string) list \<Rightarrow> (string \<times> string) list \<Rightarrow> sql_pred list" where
  "expanded_comparison ctm prev [] = []"
| "expanded_comparison ctm prev ((c, v) # cvs) =
     (if hasStaticValue ctm c then []
      else [SqAnd (map (\<lambda>(pc, pv). SqEq pc pv) (filter (\<lambda>(pc, _). \<not> hasStaticValue ctm pc) prev) @ [SqGt c v])]) @
     expanded_comparison ctm (prev @ [(c, v)]) cvs"

definition after :: "tracker \<Rightarrow> tuple_relationship \<Rightarrow> sort_order \<Rightarrow> sqf \<Rightarrow> sqf result" where
  "after ctm cursor order q = (case columnsAndValuesForSort order (sqSchema q) cursor of
     Err e \<Rightarrow> Err e
   | Ok cvs \<Rightarrow> Ok (case paginationFilterType (sqSchema q) of
       TupleComparison \<Rightarrow>
         (let free = filter (\<lambda>(c, _). \<not> hasStaticValue ctm c) cvs
          in if free \<noteq> [] then sq_where (tuple_comparison free) q else q)
     | ExpandedLogicComparison \<Rightarrow>
         (let orClause = expanded_comparison ctm [] cvs
          in if orClause \<noteq> [] then sq_where (SqOr orClause) q else q)
     | _ \<Rightarrow> q))"

definition or_panic :: "'a result \<Rightarrow> 'a result" where
  "or_panic r = (case r of Err e \<Rightarrow> Err (Panic ''panic'') | Ok x \<Rightarrow> Ok x)"

definition mustAfter :: "tracker \<Rightarrow> tuple_relationship \<Rightarrow> sort_order \<Rightarrow> sqf \<Rightarrow> sqf result" where
  "mustAfter ctm cursor order q = or_panic (after ctm cursor order q)"

section \<open>Filters\<close>

definition recordColumnValue :: "string \<Rightarrow> string \<Rightarrow> tracker \<Rightarrow> tracker" where
  "recordColumnValue colName colValue ctm = (case map_of ctm colName of
     Some existing \<Rightarrow>
       (case existing of
          Some v \<Rightarrow> if v \<noteq> colValue then gm_put colName None ctm else ctm
        | None \<Rightarrow> ctm)
   | None \<Rightarrow> gm_put colName (Some colValue) ctm)"

definition recordVaryingColumnValue :: "string \<Rightarrow> tracker \<Rightarrow> tracker" where
  "recordVaryingColumnValue colName ctm = gm_put colName None ctm"

text \<open>An operation on a filterer and the map it shares; the map keeps what was recorded before an error.\<close>

type_synonym sqf_op = "tracker \<times> sqf \<Rightarrow> tracker \<times> sqf result"

definition sq_then :: "tracker \<times> sqf result \<Rightarrow> sqf_op \<Rightarrow> tracker \<times> sqf result" where
  "sq_then r k = (case r of (ctm, Err e) \<Rightarrow> (ctm, Err e) | (ctm, Ok q) \<Rightarrow> k (ctm, q))"

definition sq_when :: "bool \<Rightarrow> sqf_op \<Rightarrow> sqf_op" where
  "sq_when b k s = (if b then k s else (fst s, Ok (snd s)))"

definition sq_must :: "sqf_op \<Rightarrow> sqf_op" where
  "sq_must k s = (case k s of (ctm, r) \<Rightarrow> (ctm, or_panic r))"

definition filter_column :: "(schema_information \<Rightarrow> string) \<Rightarrow> string \<Rightarrow> sqf_op" where
  "filter_column col v s = (case s of (ctm, q) \<Rightarrow>
     (recordColumnValue (col (sqSchema q)) v ctm, Ok (sq_where (SqEq (col (sqSchema q)) v) q)))"

definition filterToResourceType :: "string \<Rightarrow> sqf_op" where
  "filterToResourceType resourceType = filter_column colNamespace resourceType"

definition filterToResourceID :: "string \<Rightarrow> sqf_op" where
  "filterToResourceID oid = filter_column colObjectID oid"

definition filterToRelation :: "string \<Rightarrow> sqf_op" where
  "filterToRelation relation = filter_column colRelation relation"

definition filterWithCaveatName :: "string \<Rightarrow> sqf_op" where
  "filterWithCaveatName nm = filter_column colCaveatName nm"

definition filterWithNoCaveat :: sqf_op where
  "filterWithNoCaveat s = (case s of (ctm, q) \<Rightarrow>
     (let col = colCaveatName (sqSchema q)
      in (recordVaryingColumnValue col ctm, Ok (sq_where (SqOr [SqEqNil col, SqEq col []]) q))))"

text \<open>\<open>BuildLikePrefixClause\<close>: the two calls of \<open>ReplaceAll\<close> escape the backslash and the underscore.\<close>

definition replaceAll :: "char \<Rightarrow> string \<Rightarrow> string \<Rightarrow> string" where
  "replaceAll c new s = concat (map (\<lambda>x. if x = c then new else [x]) s)"

definition buildLikePrefixClause :: "string \<Rightarrow> string \<Rightarrow> sql_pred result" where
  "buildLikePrefixClause columnName pre =
     (if pre = [] then Err (MustBug ''prefix cannot be empty'')
      else if CHR ''%'' \<in> set pre then Err (ErrorString ''prefix cannot contain the percent sign'')
      else Ok (SqLike columnName
        (replaceAll (CHR ''_'') [CHR 0x5C, CHR ''_''] (replaceAll (CHR 0x5C) [CHR 0x5C, CHR 0x5C] pre) @ ''%'')))"

definition filterWithResourceIDPrefix :: "string \<Rightarrow> sqf_op" where
  "filterWithResourceIDPrefix pre s = (case s of (ctm, q) \<Rightarrow>
     (ctm, (case buildLikePrefixClause (colObjectID (sqSchema q)) pre of
        Err e \<Rightarrow> Err e | Ok clause \<Rightarrow> Ok (sq_where clause q))))"

definition mustFilterWithResourceIDPrefix :: "string \<Rightarrow> sqf_op" where
  "mustFilterWithResourceIDPrefix pre = sq_must (filterWithResourceIDPrefix pre)"

text \<open>The loop that records the identifiers of an \<open>IN\<close> list, up to an empty one.\<close>

fun record_ids :: "string \<Rightarrow> string list \<Rightarrow> tracker \<Rightarrow> tracker \<times> bool" where
  "record_ids col [] ctm = (ctm, True)"
| "record_ids col (i # is) ctm = (if i = [] then (ctm, False) else record_ids col is (recordColumnValue col i ctm))"

definition in_clause :: "string \<Rightarrow> string list \<Rightarrow> sql_pred" where
  "in_clause col ids = SqExpr (col @ '' IN ('' @ ''?'' @
     (if length ids > 1 then concat (replicate (length ids - 1) '',?'') else []) @ '')'') ids"

definition filterToResourceIDs :: "string list \<Rightarrow> sqf_op" where
  "filterToResourceIDs ids s = (case s of (ctm, q) \<Rightarrow>
     (case record_ids (colObjectID (sqSchema q)) ids ctm of
        (ctm1, False) \<Rightarrow> (ctm1, Err (MustBug ''got empty resource ID''))
      | (ctm1, True) \<Rightarrow> (ctm1, Ok (sq_where (in_clause (colObjectID (sqSchema q)) ids) q))))"

definition mustFilterToResourceIDs :: "string list \<Rightarrow> sqf_op" where
  "mustFilterToResourceIDs ids = sq_must (filterToResourceIDs ids)"

text \<open>
  From the library: \<open>SubjectRelationFilter.IsEmpty\<close> and \<open>datastore.Ellipsis\<close>. \<open>cmp.Or\<close> is the first of
  two strings that is not empty.
\<close>

record sql_lib =
  relFilterIsEmpty :: "subject_relation_filter \<Rightarrow> bool"
  sqlEllipsis :: string

definition cmp_or :: "string \<Rightarrow> string \<Rightarrow> string" where
  "cmp_or a b = (if a \<noteq> [] then a else b)"

definition relation_clause ::
    "sql_lib \<Rightarrow> schema_information \<Rightarrow> subject_relation_filter \<Rightarrow> tracker \<Rightarrow> sql_pred list \<times> tracker" where
  "relation_clause SL schema rf ctm =
     (let col = colUsersetRelation schema in
      if relFilterIsEmpty SL rf then ([], ctm)
      else if onlyNonEllipsisRelations rf
        then ([SqNotEq col (sqlEllipsis SL)], recordVaryingColumnValue col ctm)
      else
        (let relations = (if includeEllipsisRelation rf then [sqlEllipsis SL] else []) @
               (if nonEllipsisRelation rf \<noteq> [] then [nonEllipsisRelation rf] else [])
         in case relations of
              [relName] \<Rightarrow> ([SqEq col relName], recordColumnValue col relName ctm)
            | _ \<Rightarrow>
                (let names = map (\<lambda>r. cmp_or r (sqlEllipsis SL)) relations
                 in ([SqOr (map (SqEq col) names)], fold (recordColumnValue col) names ctm))))"

definition selector_clause ::
    "sql_lib \<Rightarrow> schema_information \<Rightarrow> subjects_selector \<Rightarrow> tracker \<Rightarrow> tracker \<times> sql_pred result" where
  "selector_clause SL schema selector ctm =
     (let (tyClause, ctm1) =
            (if optionalSubjectType selector \<noteq> []
             then ([SqEq (colUsersetNamespace schema) (optionalSubjectType selector)],
                   recordColumnValue (colUsersetNamespace schema) (optionalSubjectType selector) ctm)
             else ([], ctm));
          (ctm2, ok) =
            (if optionalSubjectIds selector \<noteq> []
             then record_ids (colUsersetObjectID schema) (optionalSubjectIds selector) ctm1
             else (ctm1, True))
      in if \<not> ok then (ctm2, Err (MustBug ''got empty subject ID''))
         else
           (let idClause = (if optionalSubjectIds selector \<noteq> []
                  then [in_clause (colUsersetObjectID schema) (optionalSubjectIds selector)] else []);
                (relClause, ctm3) = relation_clause SL schema (relationFilter selector) ctm2
            in (ctm3, Ok (SqAnd (tyClause @ idClause @ relClause)))))"

fun selector_clauses ::
    "sql_lib \<Rightarrow> schema_information \<Rightarrow> subjects_selector list \<Rightarrow> tracker \<Rightarrow> tracker \<times> sql_pred list result" where
  "selector_clauses SL schema [] ctm = (ctm, Ok [])"
| "selector_clauses SL schema (s # ss) ctm =
     (case selector_clause SL schema s ctm of
        (ctm1, Err e) \<Rightarrow> (ctm1, Err e)
      | (ctm1, Ok p) \<Rightarrow>
          (case selector_clauses SL schema ss ctm1 of
             (ctm2, Err e) \<Rightarrow> (ctm2, Err e)
           | (ctm2, Ok ps) \<Rightarrow> (ctm2, Ok (p # ps))))"

definition filterWithSubjectsSelectors :: "sql_lib \<Rightarrow> subjects_selector list \<Rightarrow> sqf_op" where
  "filterWithSubjectsSelectors SL selectors s = (case s of (ctm, q) \<Rightarrow>
     (let schema = sqSchema q;
          ctm1 = (if length selectors > 1
            then recordVaryingColumnValue (colUsersetRelation schema)
              (recordVaryingColumnValue (colUsersetObjectID schema)
                (recordVaryingColumnValue (colUsersetNamespace schema) ctm))
            else ctm)
      in case selector_clauses SL schema selectors ctm1 of
           (ctm2, Err e) \<Rightarrow> (ctm2, Err e)
         | (ctm2, Ok ps) \<Rightarrow> (ctm2, Ok (sq_where (SqOr ps) q))))"

definition mustFilterWithSubjectsSelectors :: "sql_lib \<Rightarrow> subjects_selector list \<Rightarrow> sqf_op" where
  "mustFilterWithSubjectsSelectors SL selectors = sq_must (filterWithSubjectsSelectors SL selectors)"

text \<open>The relation of the filter is compared, but the ellipsis is what is recorded.\<close>

definition filterToSubjectFilter :: "sql_lib \<Rightarrow> subject_filter_v1 \<Rightarrow> sqf_op" where
  "filterToSubjectFilter SL fltr s =
     sq_then (sq_then (filter_column colUsersetNamespace (subjectTypeV1 fltr) s)
       (sq_when (optionalSubjectIdV1 fltr \<noteq> []) (filter_column colUsersetObjectID (optionalSubjectIdV1 fltr))))
       (\<lambda>(ctm, q). case optionalRelationV1 fltr of
          None \<Rightarrow> (ctm, Ok q)
        | Some relation \<Rightarrow>
            (recordColumnValue (colUsersetRelation (sqSchema q)) (sqlEllipsis SL) ctm,
             Ok (sq_where (SqEq (colUsersetRelation (sqSchema q)) (cmp_or relation (sqlEllipsis SL))) q)))"

definition filter_caveat :: "caveat_name_filter \<Rightarrow> sqf_op" where
  "filter_caveat f = (case cavFilterOption f of
     CaveatFilterOptionHasMatchingCaveat \<Rightarrow> filterWithCaveatName (cavFilterName f)
   | CaveatFilterOptionNoCaveat \<Rightarrow> filterWithNoCaveat
   | CaveatFilterOptionNone \<Rightarrow> (\<lambda>(ctm, q). (ctm, Ok q)))"

definition filter_expiration :: "expiration_filter_option \<Rightarrow> sqf_op" where
  "filter_expiration f s = (case s of (ctm, q) \<Rightarrow> (ctm, Ok (case f of
     ExpirationFilterOptionHasExpiration \<Rightarrow> sq_where (SqNotEqNil (colExpiration (sqSchema q))) q
   | ExpirationFilterOptionNoExpiration \<Rightarrow> sq_where (SqEqNil (colExpiration (sqSchema q))) q
   | ExpirationFilterOptionNone \<Rightarrow> q)))"

definition filterWithRelationshipsFilter :: "sql_lib \<Rightarrow> relationships_filter \<Rightarrow> sqf_op" where
  "filterWithRelationshipsFilter SL f s =
     (let s2 = sq_then
            (sq_when (optionalResourceType f \<noteq> []) (filterToResourceType (optionalResourceType f)) s)
            (sq_when (optionalResourceRelation f \<noteq> []) (filterToRelation (optionalResourceRelation f)))
      in if optionalResourceIds f \<noteq> [] \<and> optionalResourceIDPrefix f \<noteq> []
         then (fst s2, Err (MustBug ''cannot filter by both resource IDs and ID prefix''))
         else sq_then (sq_then (sq_then (sq_then (sq_then s2
           (sq_when (optionalResourceIds f \<noteq> []) (filterToResourceIDs (optionalResourceIds f))))
           (sq_when (optionalResourceIDPrefix f \<noteq> [])
             (filterWithResourceIDPrefix (optionalResourceIDPrefix f))))
           (sq_when (optionalSubjectsSelectors f \<noteq> [])
             (filterWithSubjectsSelectors SL (optionalSubjectsSelectors f))))
           (filter_caveat (optionalCaveatNameFilter f)))
           (filter_expiration (optionalExpirationOption f)))"

definition mustFilterWithRelationshipsFilter :: "sql_lib \<Rightarrow> relationships_filter \<Rightarrow> sqf_op" where
  "mustFilterWithRelationshipsFilter SL f = sq_must (filterWithRelationshipsFilter SL f)"

definition sq_limit :: "nat \<Rightarrow> sqf \<Rightarrow> sqf" where
  "sq_limit n q = q\<lparr>queryBuilder := (queryBuilder q)\<lparr>selLimit := Some n\<rparr>\<rparr>"

end
