(* ===== verification/Sql_Query.thy ===== *)
theory Sql_Query
  imports Sql_Filter
begin

text \<open>
  \<open>common/sql.go\<close>, second half, \<open>common/relationships.go\<close> and \<open>ContextualizedCaveatFrom\<close> of
  \<open>common/helpers.go\<close>: from a filterer to a statement, and from the rows of its result back to
  relationships. Rendering the statement and running it belong to the query builder and the driver.
  The callbacks that only tests set are left out.
\<close>

section \<open>From the filterer to the statement\<close>

record rel_query_builder =
  rqSchema :: schema_information
  rqSkipCaveats :: bool
  rqSkipExpiration :: bool
  rqFilteringValues :: tracker
  rqBase :: sqf

text \<open>The largest limit the databases accept.\<close>

definition maxInt64 :: nat where "maxInt64 = 2 ^ 63 - 1"

definition effective_sort :: "sqf \<Rightarrow> sort_order \<Rightarrow> sort_order" where
  "effective_sort q srt =
     (if srt = ChooseEfficient
      then let srt1 = (case indexingHint q of
                 None \<Rightarrow> srt
               | Some h \<Rightarrow> if hintSortOrder h \<noteq> Unsorted then hintSortOrder h else srt)
           in if srt1 = ChooseEfficient then ByResource else srt1
      else srt)"

definition sq_prefix :: "string \<Rightarrow> sqf \<Rightarrow> sqf" where
  "sq_prefix p q = q\<lparr>queryBuilder := (queryBuilder q)\<lparr>selPrefixes := selPrefixes (queryBuilder q) @ [p]\<rparr>\<rparr>"

definition sq_from :: "string \<Rightarrow> sqf \<Rightarrow> sqf" where
  "sq_from t q = q\<lparr>queryBuilder := (queryBuilder q)\<lparr>selFrom := Some t\<rparr>\<rparr>"

text \<open>The hints: an optional prefix of the statement, the table, an optional suffix of the table.\<close>

definition apply_hints :: "sqf \<Rightarrow> string \<Rightarrow> (sqf \<times> string) result" where
  "apply_hints q from_table = (case indexingHint q of
     None \<Rightarrow> Ok (q, from_table)
   | Some h \<Rightarrow>
       (case hintSQLPrefix h of
          Err e \<Rightarrow> Err (Wrap ''error getting SQL prefix for indexing hint'' e)
        | Ok sqlPrefix \<Rightarrow>
            (let q1 = (if sqlPrefix \<noteq> [] then sq_prefix sqlPrefix q else q)
             in case hintFromTable h from_table of
                  Err e \<Rightarrow> Err (Wrap ''error getting FROM table name for indexing hint'' e)
                | Ok table \<Rightarrow>
                    (case hintFromSQLSuffix h of
                       Err e \<Rightarrow> Err (Wrap ''error getting SQL suffix for indexing hint'' e)
                     | Ok suff \<Rightarrow> Ok (q1, if suff \<noteq> [] then table @ '' '' @ suff else table)))))"

text \<open>\<open>ExecuteQuery\<close> up to the call of the executor.\<close>

definition prepareQuery :: "tracker \<Rightarrow> sqf \<Rightarrow> query_options \<Rightarrow> rel_query_builder result" where
  "prepareQuery ctm query opts =
     (if isCustomQuery query then Err (MustBug ''ExecuteQuery should not be called on custom queries'')
      else
        (let srt = effective_sort query (qSort opts);
             q1 = tupleOrder srt query
         in case (case qAfter opts of
                    None \<Rightarrow> Ok q1
                  | Some cursor \<Rightarrow>
                      if srt = Unsorted then Err CursorsWithoutSorting else after ctm cursor srt q1) of
              Err e \<Rightarrow> Err e
            | Ok q2 \<Rightarrow>
                (let lim = (case qLimit opts of None \<Rightarrow> maxInt64 | Some n \<Rightarrow> n);
                     q3 = (if lim < maxInt64 then sq_limit lim q2 else q2);
                     from_table = (if fromTable q3 \<noteq> [] then fromTable q3 else relationshipTableName (sqSchema q3))
                 in case apply_hints q3 from_table of
                      Err e \<Rightarrow> Err e
                    | Ok (q4, table) \<Rightarrow>
                        (let table1 = (if fromSuffix q4 \<noteq> [] then table @ '' '' @ fromSuffix q4 else table);
                             q5 = sq_from table1 q4
                         in Ok \<lparr>rqSchema = sqSchema q5, rqSkipCaveats = qSkipCaveats opts,
                              rqSkipExpiration = qSkipExpiration opts, rqFilteringValues = ctm, rqBase = q5\<rparr>))))"

definition executeQuery ::
    "(rel_query_builder \<Rightarrow> 'a result) \<Rightarrow> tracker \<Rightarrow> sqf \<Rightarrow> query_options \<Rightarrow> 'a result" where
  "executeQuery executor ctm query opts = (case prepareQuery ctm query opts of
     Err e \<Rightarrow> Err e | Ok b \<Rightarrow> executor b)"

section \<open>Columns\<close>

definition withCaveats :: "rel_query_builder \<Rightarrow> bool" where
  "withCaveats b \<longleftrightarrow> \<not> rqSkipCaveats b \<or> columnOptimization (rqSchema b) = ColumnOptimizationOptionNone"

definition withExpiration :: "rel_query_builder \<Rightarrow> bool" where
  "withExpiration b \<longleftrightarrow> \<not> rqSkipExpiration b \<and> \<not> expirationDisabled (rqSchema b)"

definition integrityEnabled :: "rel_query_builder \<Rightarrow> bool" where
  "integrityEnabled b = schIntegrityEnabled (rqSchema b)"

definition columnCount :: "rel_query_builder \<Rightarrow> nat" where
  "columnCount b = relationshipStandardColumnCount +
     (if withCaveats b then relationshipCaveatColumnCount else 0) +
     (if withExpiration b then relationshipExpirationColumnCount else 0) +
     (if integrityEnabled b then relationshipIntegrityColumnCount else 0)"

definition checkColumn :: "rel_query_builder \<Rightarrow> string list \<Rightarrow> string \<Rightarrow> string list" where
  "checkColumn b columns colName =
     (if columnOptimization (rqSchema b) = ColumnOptimizationOptionNone then columns @ [colName]
      else if \<not> hasStaticValue (rqFilteringValues b) colName then columns @ [colName]
      else columns)"

definition columns_of_query :: "rel_query_builder \<Rightarrow> string list" where
  "columns_of_query b =
     (let s = rqSchema b;
          c0 = foldl (checkColumn b) [] [colNamespace s, colObjectID s, colRelation s, colUsersetNamespace s,
            colUsersetObjectID s, colUsersetRelation s];
          c1 = (if withCaveats b then c0 @ [colCaveatName s, colCaveatContext s] else c0);
          c2 = (if withExpiration b then c1 @ [colExpiration s] else c1);
          c3 = (if integrityEnabled b then c2 @ [colIntegrityKeyID s, colIntegrityHash s, colIntegrityTimestamp s]
                else c2)
      in if c3 = [] then [''1''] else c3)"

text \<open>\<open>toSql\<close> renders a query: the statement \<open>'s\<close> is its string and its arguments.\<close>

definition selectSQL :: "(sql_select \<Rightarrow> 's result) \<Rightarrow> rel_query_builder \<Rightarrow> 's result" where
  "selectSQL toSql b =
     (let sel = queryBuilderWithMaybeExpirationFilter (rqBase b) (rqSkipExpiration b)
      in toSql (sel\<lparr>selColumns := selColumns sel @ columns_of_query b\<rparr>))"

section \<open>Reading rows\<close>

text \<open>The variables of \<open>QueryRelationships\<close> that a row is scanned into.\<close>

record scan_vars =
  vResourceType :: string
  vResourceID :: string
  vResourceRelation :: string
  vSubjectType :: string
  vSubjectID :: string
  vSubjectRelation :: string
  vCaveatName :: "string option"          \<comment> \<open>\<open>sql.NullString\<close>\<close>
  vCaveatCtx :: any_map
  vExpiration :: "nanotime option"
  vIntegrityKeyID :: string
  vIntegrityHash :: bytes
  vTimestamp :: nanotime

definition zero_vars :: scan_vars where
  "zero_vars = \<lparr>vResourceType = [], vResourceID = [], vResourceRelation = [], vSubjectType = [], vSubjectID = [],
     vSubjectRelation = [], vCaveatName = None, vCaveatCtx = [], vExpiration = None, vIntegrityKeyID = [],
     vIntegrityHash = [], vTimestamp = 0\<rparr>"

text \<open>The references to these variables that a scan gets, and the values in the columns of a row.\<close>

datatype slot =
    SlResourceType | SlResourceID | SlResourceRelation | SlSubjectType | SlSubjectID | SlSubjectRelation
  | SlCaveatName | SlCaveatCtx | SlExpiration | SlIntegrityKeyID | SlIntegrityHash | SlTimestamp | SlUnused

datatype cell = CNull | CText string | CMap any_map | CTime nanotime | CBytes bytes | CInt int

fun set_text :: "slot \<Rightarrow> string \<Rightarrow> scan_vars \<Rightarrow> scan_vars" where
  "set_text SlResourceType v vs = vs\<lparr>vResourceType := v\<rparr>"
| "set_text SlResourceID v vs = vs\<lparr>vResourceID := v\<rparr>"
| "set_text SlResourceRelation v vs = vs\<lparr>vResourceRelation := v\<rparr>"
| "set_text SlSubjectType v vs = vs\<lparr>vSubjectType := v\<rparr>"
| "set_text SlSubjectID v vs = vs\<lparr>vSubjectID := v\<rparr>"
| "set_text SlSubjectRelation v vs = vs\<lparr>vSubjectRelation := v\<rparr>"
| "set_text SlIntegrityKeyID v vs = vs\<lparr>vIntegrityKeyID := v\<rparr>"
| "set_text _ v vs = vs"

definition staticValueOrAddColumnForSelect ::
    "rel_query_builder \<Rightarrow> slot list \<times> scan_vars \<Rightarrow> string \<times> slot \<Rightarrow> slot list \<times> scan_vars" where
  "staticValueOrAddColumnForSelect b st cs = (case (st, cs) of ((colsToSelect, vs), (colName, field)) \<Rightarrow>
     if columnOptimization (rqSchema b) = ColumnOptimizationOptionNone then (colsToSelect @ [field], vs)
     else (case map_of (rqFilteringValues b) colName of
             Some (Some v) \<Rightarrow> (colsToSelect, set_text field v vs)
           | _ \<Rightarrow> (colsToSelect @ [field], vs)))"

definition columnsToSelect :: "rel_query_builder \<Rightarrow> scan_vars \<Rightarrow> slot list \<times> scan_vars" where
  "columnsToSelect b vs =
     (let s = rqSchema b;
          (c0, vs1) = foldl (staticValueOrAddColumnForSelect b) ([], vs)
            [(colNamespace s, SlResourceType), (colObjectID s, SlResourceID), (colRelation s, SlResourceRelation),
             (colUsersetNamespace s, SlSubjectType), (colUsersetObjectID s, SlSubjectID),
             (colUsersetRelation s, SlSubjectRelation)];
          c1 = (if withCaveats b then c0 @ [SlCaveatName, SlCaveatCtx] else c0);
          c2 = (if withExpiration b then c1 @ [SlExpiration] else c1);
          c3 = (if schIntegrityEnabled s then c2 @ [SlIntegrityKeyID, SlIntegrityHash, SlTimestamp] else c2)
      in (if c3 = [] then [SlUnused] else c3, vs1))"

text \<open>
  What a driver stores into a reference: a column of another kind, or NULL into a variable that cannot
  hold it, is an error.
\<close>

definition scan_text :: "slot \<Rightarrow> cell \<Rightarrow> scan_vars \<Rightarrow> scan_vars option" where
  "scan_text sl c vs = (case c of CText v \<Rightarrow> Some (set_text sl v vs) | _ \<Rightarrow> None)"

definition scan_cell :: "slot \<Rightarrow> cell \<Rightarrow> scan_vars \<Rightarrow> scan_vars option" where
  "scan_cell sl c vs = (case sl of
     SlCaveatName \<Rightarrow> (case c of CNull \<Rightarrow> Some (vs\<lparr>vCaveatName := None\<rparr>)
       | CText v \<Rightarrow> Some (vs\<lparr>vCaveatName := Some v\<rparr>) | _ \<Rightarrow> None)
   | SlCaveatCtx \<Rightarrow> (case c of CNull \<Rightarrow> Some (vs\<lparr>vCaveatCtx := []\<rparr>) | CMap m \<Rightarrow> Some (vs\<lparr>vCaveatCtx := m\<rparr>) | _ \<Rightarrow> None)
   | SlExpiration \<Rightarrow> (case c of CNull \<Rightarrow> Some (vs\<lparr>vExpiration := None\<rparr>)
       | CTime t \<Rightarrow> Some (vs\<lparr>vExpiration := Some t\<rparr>) | _ \<Rightarrow> None)
   | SlIntegrityHash \<Rightarrow> (case c of CBytes x \<Rightarrow> Some (vs\<lparr>vIntegrityHash := x\<rparr>) | _ \<Rightarrow> None)
   | SlTimestamp \<Rightarrow> (case c of CTime t \<Rightarrow> Some (vs\<lparr>vTimestamp := t\<rparr>) | _ \<Rightarrow> None)
   | SlUnused \<Rightarrow> (case c of CInt _ \<Rightarrow> Some vs | _ \<Rightarrow> None)
   | _ \<Rightarrow> scan_text sl c vs)"

fun scan_row :: "slot list \<Rightarrow> cell list \<Rightarrow> scan_vars \<Rightarrow> scan_vars result" where
  "scan_row [] [] vs = Ok vs"
| "scan_row (sl # sls) (c # cs) vs = (case scan_cell sl c vs of
     None \<Rightarrow> Err (LibError ''cannot scan'') | Some vs' \<Rightarrow> scan_row sls cs vs')"
| "scan_row _ _ vs = Err (LibError ''number of field descriptions must equal number of destinations'')"

definition contextualizedCaveatFrom :: "spice_lib \<Rightarrow> string \<Rightarrow> any_map \<Rightarrow> ctx_caveat option result" where
  "contextualizedCaveatFrom L name context =
     (if name \<noteq> [] then
        (case new_struct L context of
           Err e \<Rightarrow> Err (Wrap ''malformed caveat context'' e)
         | Ok strct \<Rightarrow> Ok (Some \<lparr>caveatName = name, caveatContext = strct\<rparr>))
      else Ok None)"

definition errUnableToQueryRels :: string where
  "errUnableToQueryRels = ''unable to query relationships''"

text \<open>A time is an instant here, so \<open>expiration.UTC()\<close> is the same time.\<close>

definition row_to_relationship ::
    "spice_lib \<Rightarrow> rel_query_builder \<Rightarrow> scan_vars \<Rightarrow> tuple_relationship result" where
  "row_to_relationship L b vs =
     (case (if withCaveats b
            then (case vCaveatName vs of None \<Rightarrow> Ok None | Some n \<Rightarrow> contextualizedCaveatFrom L n (vCaveatCtx vs))
            else Ok None) of
        Err e \<Rightarrow> Err (Wrap errUnableToQueryRels (Wrap ''unable to fetch caveat context'' e))
      | Ok cav \<Rightarrow> Ok \<lparr>resource = \<lparr>objectType = vResourceType vs, objectID = vResourceID vs,
            objRelation = vResourceRelation vs\<rparr>,
          subject = \<lparr>objectType = vSubjectType vs, objectID = vSubjectID vs, objRelation = vSubjectRelation vs\<rparr>,
          optionalCaveat = cav,
          optionalIntegrity = (if vIntegrityKeyID vs \<noteq> []
            then Some \<lparr>keyId = vIntegrityKeyID vs, hashBytes = vIntegrityHash vs,
              hashedAt = timestamp_new L (vTimestamp vs)\<rparr> else None),
          optionalExpiration = vExpiration vs\<rparr>)"

text \<open>
  The loop over the rows: the relationships yielded and the error it ends with. A driver gives the rows
  and, after the last one, \<open>rows.Err\<close>.
\<close>

fun read_rows ::
    "spice_lib \<Rightarrow> rel_query_builder \<Rightarrow> slot list \<Rightarrow> scan_vars \<Rightarrow> cell list list \<Rightarrow> go_error option \<Rightarrow>
     tuple_relationship result list" where
  "read_rows L b cols vs [] rowsErr = (case rowsErr of
     None \<Rightarrow> [] | Some e \<Rightarrow> [Err (Wrap errUnableToQueryRels (Wrap ''rows err'' e))])"
| "read_rows L b cols vs (row # rows) rowsErr = (case scan_row cols row vs of
     Err e \<Rightarrow> [Err (Wrap errUnableToQueryRels (Wrap ''scan err'' e))]
   | Ok vs1 \<Rightarrow>
       (case row_to_relationship L b vs1 of
          Err e \<Rightarrow> [Err e]
        | Ok rel \<Rightarrow> Ok rel # read_rows L b cols vs1 rows rowsErr))"

text \<open>\<open>queryFunc\<close> runs the statement: it fails, or gives the rows to the function.\<close>

definition queryRelationships_sql ::
    "spice_lib \<Rightarrow> (sql_select \<Rightarrow> 's result) \<Rightarrow> ('s \<Rightarrow> (cell list list \<times> go_error option) result) \<Rightarrow>
     rel_query_builder \<Rightarrow> tuple_relationship result list result" where
  "queryRelationships_sql L toSql queryFunc b = (case selectSQL toSql b of
     Err e \<Rightarrow> Err (Wrap errUnableToQueryRels e)
   | Ok statement \<Rightarrow>
       (let (colsToSelect, vs) = columnsToSelect b zero_vars
        in Ok (case queryFunc statement of
             Err e \<Rightarrow> [Err e]
           | Ok (rows, rowsErr) \<Rightarrow> read_rows L b colsToSelect vs rows rowsErr)))"

end
