(* ===== verification/Sql_Semantics.thy ===== *)
theory Sql_Semantics
  imports Sql_Query
begin

text \<open>
  What the clauses mean: the contract of a database that runs them, as SQL and the query builder document
  it, and an executable model of the contract. A row gives the value of every column; a clause selects a
  row when it is true on it, so a comparison with NULL selects nothing.
\<close>

type_synonym sql_row = "string \<Rightarrow> cell"

section \<open>Plain column names\<close>

definition ident_char :: "char \<Rightarrow> bool" where
  "ident_char x \<longleftrightarrow> (let n = (of_char x :: nat) in
     (48 \<le> n \<and> n \<le> 57) \<or> (65 \<le> n \<and> n \<le> 90) \<or> n = 95 \<or> (97 \<le> n \<and> n \<le> 122))"

definition ident :: "string \<Rightarrow> bool" where
  "ident s \<longleftrightarrow> s \<noteq> [] \<and> list_all ident_char s"

lemma not_ident_char: "\<not> ident_char (CHR '' '')" "\<not> ident_char (CHR ''('')" "\<not> ident_char (CHR '')'')" "\<not> ident_char (CHR '','')"
  by (simp_all add: ident_char_def)

lemma ident_takeWhile:
  assumes "ident c" and "rest = [] \<or> \<not> ident_char (hd rest)"
  shows "takeWhile ident_char (c @ rest) = c" "dropWhile ident_char (c @ rest) = rest"
  using assms by (cases rest; auto simp: ident_def list_all_iff takeWhile_append dropWhile_append)+

section \<open>Patterns\<close>

text \<open>\<open>LIKE\<close> with the backslash as its escape character.\<close>

fun like_match :: "string \<Rightarrow> string \<Rightarrow> bool" where
  "like_match [] v = (v = [])"
| "like_match (p # ps) v =
     (if p = CHR ''%'' then list_ex (like_match ps) (suffixes v)
      else if p = CHR ''_'' then v \<noteq> [] \<and> like_match ps (tl v)
      else if p = CHR 0x5C then (case ps of [] \<Rightarrow> False | q # qs \<Rightarrow> v \<noteq> [] \<and> hd v = q \<and> like_match qs (tl v))
      else v \<noteq> [] \<and> hd v = p \<and> like_match ps (tl v))"

lemma like_any: "like_match ''%'' v"
  by (auto simp: list_ex_iff)

definition escape_char :: "char \<Rightarrow> string" where
  "escape_char x = (if x = CHR 0x5C then [CHR 0x5C, CHR 0x5C] else if x = CHR ''_'' then [CHR 0x5C, CHR ''_''] else [x])"

lemma escape_pattern:
  "replaceAll (CHR ''_'') [CHR 0x5C, CHR ''_''] (replaceAll (CHR 0x5C) [CHR 0x5C, CHR 0x5C] s) = concat (map escape_char s)"
  by (induction s) (simp_all add: replaceAll_def escape_char_def)

lemma like_escaped:
  assumes "CHR ''%'' \<notin> set s"
  shows "like_match (concat (map escape_char s) @ ''%'') v \<longleftrightarrow> prefix s v"
  using assms
proof (induction s arbitrary: v)
  case Nil
  then show ?case using like_any by simp
next
  case (Cons x s)
  then show ?case by (cases v) (auto simp: escape_char_def)
qed

section \<open>The contract\<close>

text \<open>Lexicographic order of some columns of a row after given values.\<close>

fun lex_after :: "(string \<Rightarrow> string \<Rightarrow> bool) \<Rightarrow> (string \<times> string) list \<Rightarrow> sql_row \<Rightarrow> bool" where
  "lex_after lt [] r = False"
| "lex_after lt ((c, v) # cvs) r \<longleftrightarrow> (\<exists>w. r c = CText w \<and> lt v w) \<or> (r c = CText v \<and> lex_after lt cvs r)"

locale sql_semantics =
  fixes holds :: "sql_pred \<Rightarrow> sql_row \<Rightarrow> bool"
    and lt :: "string \<Rightarrow> string \<Rightarrow> bool"          \<comment> \<open>the collation of the database\<close>
    and future :: "string \<Rightarrow> nanotime \<Rightarrow> bool"    \<comment> \<open>after what the function for the current time returns\<close>
  assumes eq: "holds (SqEq c v) r \<longleftrightarrow> r c = CText v"
    and eq_nil: "holds (SqEqNil c) r \<longleftrightarrow> r c = CNull"
    and not_eq: "holds (SqNotEq c v) r \<longleftrightarrow> (\<exists>w. r c = CText w \<and> w \<noteq> v)"
    and not_eq_nil: "holds (SqNotEqNil c) r \<longleftrightarrow> r c \<noteq> CNull"
    and gt: "holds (SqGt c v) r \<longleftrightarrow> (\<exists>w. r c = CText w \<and> lt v w)"
    and like: "holds (SqLike c p) r \<longleftrightarrow> (\<exists>w. r c = CText w \<and> like_match p w)"
    and conj: "holds (SqAnd ps) r \<longleftrightarrow> (\<forall>p \<in> set ps. holds p r)"
    and disj: "holds (SqOr ps) r \<longleftrightarrow> (\<exists>p \<in> set ps. holds p r)"
    and in_list: "ident c \<Longrightarrow> ids \<noteq> [] \<Longrightarrow>
      holds (SqExpr (c @ '' IN ('' @ placeholders (length ids) @ '')'') ids) r \<longleftrightarrow> (\<exists>w \<in> set ids. r c = CText w)"
    and tuple_after: "cvs \<noteq> [] \<Longrightarrow> list_all ident (map fst cvs) \<Longrightarrow> holds (tuple_comparison cvs) r \<longleftrightarrow> lex_after lt cvs r"
    and unexpired: "ident c \<Longrightarrow> ident f \<Longrightarrow>
      holds (SqExpr (c @ '' > '' @ f @ ''()'') []) r \<longleftrightarrow> (\<exists>t. r c = CTime t \<and> future f t)"
    and lt_irrefl: "\<not> lt v v"
    and lt_trans: "lt u v \<Longrightarrow> lt v w \<Longrightarrow> lt u w"
    and lt_total: "lt v w \<or> v = w \<or> lt w v"

section \<open>An executable database\<close>

definition eval_expr :: "nanotime \<Rightarrow> string \<Rightarrow> string list \<Rightarrow> sql_row \<Rightarrow> bool" where
  "eval_expr now s args r =
     (let c = takeWhile ident_char s; rest = dropWhile ident_char s
      in if c \<noteq> [] then
           (if args = []
            then take 3 rest = '' > '' \<and> (case r c of CTime t \<Rightarrow> now < t | _ \<Rightarrow> False)
            else rest = '' IN ('' @ placeholders (length args) @ '')'' \<and> list_ex (\<lambda>w. r c = CText w) args)
         else (let cvs = zip (split_char (CHR '','') (takeWhile (\<lambda>x. x \<noteq> CHR '')'') (tl s))) args
               in SqExpr s args = tuple_comparison cvs \<and> lex_after (<) cvs r))"

fun eval_pred :: "nanotime \<Rightarrow> sql_pred \<Rightarrow> sql_row \<Rightarrow> bool" where
  "eval_pred now (SqEq c v) r = (r c = CText v)"
| "eval_pred now (SqEqNil c) r = (r c = CNull)"
| "eval_pred now (SqNotEq c v) r = (case r c of CText w \<Rightarrow> w \<noteq> v | _ \<Rightarrow> False)"
| "eval_pred now (SqNotEqNil c) r = (r c \<noteq> CNull)"
| "eval_pred now (SqGt c v) r = (case r c of CText w \<Rightarrow> v < w | _ \<Rightarrow> False)"
| "eval_pred now (SqLike c p) r = (case r c of CText w \<Rightarrow> like_match p w | _ \<Rightarrow> False)"
| "eval_pred now (SqAnd ps) r = list_all (\<lambda>p. eval_pred now p r) ps"
| "eval_pred now (SqOr ps) r = list_ex (\<lambda>p. eval_pred now p r) ps"
| "eval_pred now (SqExpr s args) r = eval_expr now s args r"

lemma comma_join_simps [simp]:
  "comma_join [] = []" "comma_join [c] = c" "comma_join (c # d # cs) = c @ CHR '','' # comma_join (d # cs)"
  by (simp_all add: comma_join_def)

lemma split_char_append: "x \<notin> set c \<Longrightarrow> split_char x (c @ x # s) = c # split_char x s"
  by (induction c) auto

lemma split_comma_join:
  "cs \<noteq> [] \<Longrightarrow> list_all ident cs \<Longrightarrow> split_char (CHR '','') (comma_join cs) = cs"
proof (induction cs)
  case (Cons c cs)
  then have c: "CHR '','' \<notin> set c" using not_ident_char(4) by (auto simp: ident_def list_all_iff)
  show ?case
  proof (cases cs)
    case Nil
    then show ?thesis using c by (simp add: split_char_no_sep)
  next
    case (Cons d ds)
    then show ?thesis using c Cons.IH Cons.prems by (simp add: split_char_append)
  qed
qed simp

lemma no_paren_comma_join: "list_all ident cs \<Longrightarrow> CHR '')'' \<notin> set (comma_join cs)"
proof (induction cs)
  case (Cons c cs)
  then have "CHR '')'' \<notin> set c" using not_ident_char(3) by (auto simp: ident_def list_all_iff)
  then show ?case using Cons by (cases cs) simp_all
qed simp

lemma eval_tuple:
  assumes "cvs \<noteq> []" and "list_all ident (map fst cvs)"
  shows "eval_pred now (tuple_comparison cvs) r \<longleftrightarrow> lex_after (<) cvs r"
proof -
  let ?j = "comma_join (map fst cvs)" and ?p = "placeholders (length cvs)"
  have "takeWhile (\<lambda>x. x \<noteq> CHR '')'') (?j @ CHR '')'' # '' > ('' @ ?p @ '')'') = ?j"
    using no_paren_comma_join [OF assms(2)] by (subst takeWhile_append2) auto
  moreover have "split_char (CHR '','') ?j = map fst cvs"
    using split_comma_join [of "map fst cvs"] assms by simp
  moreover have "zip (map fst cvs) (map snd cvs) = cvs" by (simp add: zip_map_fst_snd)
  ultimately show ?thesis
    by (simp add: tuple_comparison_def eval_expr_def not_ident_char Let_def)
qed

interpretation ref_sql: sql_semantics "eval_pred now" "(<)" "\<lambda>_ t. now < t" for now
proof
  fix c v w r p ps ids cvs f u and t :: nanotime
  show "eval_pred now (SqEq c v) r \<longleftrightarrow> r c = CText v" "eval_pred now (SqEqNil c) r \<longleftrightarrow> r c = CNull"
    "eval_pred now (SqNotEqNil c) r \<longleftrightarrow> r c \<noteq> CNull"
    "eval_pred now (SqAnd ps) r \<longleftrightarrow> (\<forall>p \<in> set ps. eval_pred now p r)"
    "eval_pred now (SqOr ps) r \<longleftrightarrow> (\<exists>p \<in> set ps. eval_pred now p r)"
    by (simp_all add: list_all_iff list_ex_iff)
  show "eval_pred now (SqNotEq c v) r \<longleftrightarrow> (\<exists>w. r c = CText w \<and> w \<noteq> v)"
    "eval_pred now (SqGt c v) r \<longleftrightarrow> (\<exists>w. r c = CText w \<and> v < w)"
    "eval_pred now (SqLike c p) r \<longleftrightarrow> (\<exists>w. r c = CText w \<and> like_match p w)"
    by (simp_all split: cell.split)
  show "eval_pred now (SqExpr (c @ '' IN ('' @ placeholders (length ids) @ '')'') ids) r \<longleftrightarrow>
      (\<exists>w \<in> set ids. r c = CText w)" if "ident c" "ids \<noteq> []"
  proof -
    have "c \<noteq> []" using that(1) by (simp add: ident_def)
    then show ?thesis
      using ident_takeWhile [OF that(1), of "'' IN ('' @ placeholders (length ids) @ '')''"] that(2) not_ident_char
      by (simp add: eval_expr_def Let_def list_ex_iff)
  qed
  show "eval_pred now (tuple_comparison cvs) r \<longleftrightarrow> lex_after (<) cvs r"
    if "cvs \<noteq> []" "list_all ident (map fst cvs)"
    by (rule eval_tuple [OF that])
  show "eval_pred now (SqExpr (c @ '' > '' @ f @ ''()'') []) r \<longleftrightarrow> (\<exists>t. r c = CTime t \<and> now < t)"
    if "ident c" "ident f"
  proof -
    have "c \<noteq> []" using that(1) by (simp add: ident_def)
    then show ?thesis
      using ident_takeWhile [OF that(1), of "'' > '' @ f @ ''()''"] not_ident_char
      by (simp add: eval_expr_def Let_def split: cell.split)
  qed
  show "\<not> v < v" for v :: string by simp
  show "u < v \<Longrightarrow> v < w \<Longrightarrow> u < w" for u v w :: string by simp
  show "v < w \<or> v = w \<or> w < v" for v w :: string by auto
qed

end
