(* ===== verification/Sql_Sound.thy ===== *)
theory Sql_Sound
  imports Sql_Semantics Memdb_Store
begin

text \<open>
  What the filterer's operations mean. Every operation appends clauses and records column values;
  \<open>op_spec\<close> states at once that the clauses select exactly the rows of a given specification, and that a
  value recorded for a column is the value of that column in every selected row.
\<close>

section \<open>Appending clauses\<close>

definition add_where :: "sql_pred list \<Rightarrow> sqf \<Rightarrow> sqf" where
  "add_where ps q = q\<lparr>queryBuilder := (queryBuilder q)\<lparr>selWhere := selWhere (queryBuilder q) @ ps\<rparr>\<rparr>"

lemma sq_where_add: "sq_where p q = add_where [p] q"
  by (simp add: sq_where_def add_where_def)

lemma add_where_simps [simp]:
  "sqSchema (add_where ps q) = sqSchema q" "add_where ps (add_where qs q) = add_where (qs @ ps) q"
  "add_where [] q = q" "isCustomQuery (add_where ps q) = isCustomQuery q" "fromTable (add_where ps q) = fromTable q"
  "fromSuffix (add_where ps q) = fromSuffix q" "indexingHint (add_where ps q) = indexingHint q"
  "selWhere (queryBuilder (add_where ps q)) = selWhere (queryBuilder q) @ ps"
  "selOrderBy (queryBuilder (add_where ps q)) = selOrderBy (queryBuilder q)"
  "selLimit (queryBuilder (add_where ps q)) = selLimit (queryBuilder q)"
  "selColumns (queryBuilder (add_where ps q)) = selColumns (queryBuilder q)"
  by (simp_all add: add_where_def)

section \<open>The tracker\<close>

abbreviation static :: "tracker \<Rightarrow> string \<Rightarrow> string \<Rightarrow> bool" where
  "static ctm c v \<equiv> map_of ctm c = Some (Some v)"

lemma hasStaticValue_iff: "hasStaticValue ctm c \<longleftrightarrow> (\<exists>v. static ctm c v)"
  by (simp add: hasStaticValue_def split: option.splits)

lemma record_lookup: "map_of (recordColumnValue c v ctm) d =
   (if d = c then (case map_of ctm c of None \<Rightarrow> Some (Some v)
      | Some w \<Rightarrow> Some (if w = Some v then Some v else None))
    else map_of ctm d)"
  by (auto simp: recordColumnValue_def split: option.splits)

lemma record_varying_lookup [simp]:
  "map_of (recordVaryingColumnValue c ctm) d = (if d = c then Some None else map_of ctm d)"
  by (simp add: recordVaryingColumnValue_def)

lemma record_fold_other: "d \<noteq> c \<Longrightarrow> map_of (fold (recordColumnValue c) vs ctm) d = map_of ctm d"
  by (induction vs arbitrary: ctm) (simp_all add: record_lookup)

text \<open>Recording touches only the columns in \<open>cs\<close>, and a varying column stays varying.\<close>

definition tracks :: "string set \<Rightarrow> tracker \<Rightarrow> tracker \<Rightarrow> bool" where
  "tracks cs ctm ctm' \<longleftrightarrow>
     (\<forall>c. (c \<notin> cs \<longrightarrow> map_of ctm' c = map_of ctm c) \<and> (map_of ctm c = Some None \<longrightarrow> map_of ctm' c = Some None))"

lemma tracks_refl [simp]: "tracks cs ctm ctm"
  by (simp add: tracks_def)

lemma tracks_trans: "tracks cs a b \<Longrightarrow> tracks cs b c \<Longrightarrow> tracks cs a c"
  by (simp add: tracks_def)

lemma tracks_record [simp]: "c \<in> cs \<Longrightarrow> tracks cs ctm ctm' \<Longrightarrow> tracks cs ctm (recordColumnValue c v ctm')"
  by (auto simp: tracks_def record_lookup)

lemma tracks_varying [simp]: "c \<in> cs \<Longrightarrow> tracks cs ctm ctm' \<Longrightarrow> tracks cs ctm (recordVaryingColumnValue c ctm')"
  by (auto simp: tracks_def)

lemma tracks_fold [simp]: "c \<in> cs \<Longrightarrow> tracks cs ctm ctm' \<Longrightarrow> tracks cs ctm (fold (recordColumnValue c) vs ctm')"
  by (induction vs arbitrary: ctm') simp_all

lemma record_fold_same:
  "static (fold (recordColumnValue c) vs ctm) c v \<Longrightarrow>
     (map_of ctm c = None \<or> static ctm c v) \<and> (\<forall>w \<in> set vs. w = v)"
proof (induction vs arbitrary: ctm)
  case (Cons x vs)
  then have "map_of (recordColumnValue c x ctm) c = None \<or> static (recordColumnValue c x ctm) c v"
    "\<forall>w \<in> set vs. w = v" by simp_all
  then show ?case by (auto simp: record_lookup split: option.splits if_splits)
qed simp

lemma record_fold_static:
  assumes "static (fold (recordColumnValue c) vs ctm) d v" and "vs \<noteq> []"
  shows "static ctm d v \<or> (d = c \<and> set vs = {v})"
proof (cases "d = c")
  case True
  then have "\<forall>w \<in> set vs. w = v" using assms(1) record_fold_same by blast
  with assms(2) True show ?thesis by (cases vs) auto
next
  case False
  then show ?thesis using assms(1) by (simp add: record_fold_other)
qed

lemma record_static: "static (recordColumnValue c w ctm) d v \<Longrightarrow> static ctm d v \<or> (d = c \<and> v = w)"
  using record_fold_static [of c "[w]" ctm d v] by auto

lemma record_ids_fold: "record_ids c ids ctm = (ctm', True) \<Longrightarrow> ctm' = fold (recordColumnValue c) ids ctm"
  by (induction ids arbitrary: ctm) (auto split: if_splits)

section \<open>What the clauses of a filter mean, on rows\<close>

definition relation_row :: "sql_lib \<Rightarrow> schema_information \<Rightarrow> subject_relation_filter \<Rightarrow> sql_row \<Rightarrow> bool" where
  "relation_row SL s rf r \<longleftrightarrow>
     (if relFilterIsEmpty SL rf then True
      else if onlyNonEllipsisRelations rf then \<exists>w. r (colUsersetRelation s) = CText w \<and> w \<noteq> sqlEllipsis SL
      else (includeEllipsisRelation rf \<and> r (colUsersetRelation s) = CText (sqlEllipsis SL)) \<or>
           (nonEllipsisRelation rf \<noteq> [] \<and> r (colUsersetRelation s) = CText (nonEllipsisRelation rf)))"

definition selector_row :: "sql_lib \<Rightarrow> schema_information \<Rightarrow> subjects_selector \<Rightarrow> sql_row \<Rightarrow> bool" where
  "selector_row SL s sel r \<longleftrightarrow>
     (optionalSubjectType sel \<noteq> [] \<longrightarrow> r (colUsersetNamespace s) = CText (optionalSubjectType sel)) \<and>
     (optionalSubjectIds sel \<noteq> [] \<longrightarrow> (\<exists>w \<in> set (optionalSubjectIds sel). r (colUsersetObjectID s) = CText w)) \<and>
     relation_row SL s (relationFilter sel) r"

definition caveat_row_matches :: "schema_information \<Rightarrow> caveat_name_filter \<Rightarrow> sql_row \<Rightarrow> bool" where
  "caveat_row_matches s f r \<longleftrightarrow> (case cavFilterOption f of
     CaveatFilterOptionNone \<Rightarrow> True
   | CaveatFilterOptionHasMatchingCaveat \<Rightarrow> r (colCaveatName s) = CText (cavFilterName f)
   | CaveatFilterOptionNoCaveat \<Rightarrow> r (colCaveatName s) = CNull \<or> r (colCaveatName s) = CText [])"

definition expiration_row_matches :: "schema_information \<Rightarrow> expiration_filter_option \<Rightarrow> sql_row \<Rightarrow> bool" where
  "expiration_row_matches s f r \<longleftrightarrow> (case f of
     ExpirationFilterOptionNone \<Rightarrow> True
   | ExpirationFilterOptionHasExpiration \<Rightarrow> r (colExpiration s) \<noteq> CNull
   | ExpirationFilterOptionNoExpiration \<Rightarrow> r (colExpiration s) = CNull)"

definition filter_row_matches :: "sql_lib \<Rightarrow> relationships_filter \<Rightarrow> schema_information \<Rightarrow> sql_row \<Rightarrow> bool" where
  "filter_row_matches SL f s r \<longleftrightarrow>
     (optionalResourceType f \<noteq> [] \<longrightarrow> r (colNamespace s) = CText (optionalResourceType f)) \<and>
     (optionalResourceRelation f \<noteq> [] \<longrightarrow> r (colRelation s) = CText (optionalResourceRelation f)) \<and>
     (optionalResourceIds f \<noteq> [] \<longrightarrow> (\<exists>w \<in> set (optionalResourceIds f). r (colObjectID s) = CText w)) \<and>
     (optionalResourceIDPrefix f \<noteq> [] \<longrightarrow>
       (\<exists>w. r (colObjectID s) = CText w \<and> prefix (optionalResourceIDPrefix f) w)) \<and>
     (optionalSubjectsSelectors f \<noteq> [] \<longrightarrow> (\<exists>sel \<in> set (optionalSubjectsSelectors f). selector_row SL s sel r)) \<and>
     caveat_row_matches s (optionalCaveatNameFilter f) r \<and>
     expiration_row_matches s (optionalExpirationOption f) r"

section \<open>Specified operations\<close>

definition plain_columns :: "schema_information \<Rightarrow> bool" where
  "plain_columns s \<longleftrightarrow> list_all ident [colNamespace s, colObjectID s, colRelation s, colUsersetNamespace s,
     colUsersetObjectID s, colUsersetRelation s, colCaveatName s, colCaveatContext s, colExpiration s, nowFunction s]"

definition implied :: "(sql_row \<Rightarrow> bool) \<Rightarrow> tracker \<Rightarrow> tracker \<Rightarrow> bool" where
  "implied S ctm ctm' \<longleftrightarrow> (\<forall>c v. static ctm' c v \<longrightarrow> static ctm c v \<or> (\<forall>r. S r \<longrightarrow> r c = CText v))"

definition op_spec :: "(sql_pred \<Rightarrow> sql_row \<Rightarrow> bool) \<Rightarrow> sqf_op \<Rightarrow> (schema_information \<Rightarrow> sql_row \<Rightarrow> bool) \<Rightarrow> bool" where
  "op_spec holds f S \<longleftrightarrow> (\<forall>ctm q ctm' q'. plain_columns (sqSchema q) \<longrightarrow> f (ctm, q) = (ctm', Ok q') \<longrightarrow>
     (\<exists>ps. q' = add_where ps q \<and> (\<forall>r. (\<forall>p \<in> set ps. holds p r) \<longleftrightarrow> S (sqSchema q) r)) \<and>
     implied (S (sqSchema q)) ctm ctm')"

lemma op_specI:
  assumes "\<And>ctm q ctm' q'. plain_columns (sqSchema q) \<Longrightarrow> f (ctm, q) = (ctm', Ok q') \<Longrightarrow>
    \<exists>ps. q' = add_where ps q \<and> (\<forall>r. (\<forall>p \<in> set ps. holds p r) \<longleftrightarrow> S (sqSchema q) r)"
    and "\<And>ctm q ctm' q'. plain_columns (sqSchema q) \<Longrightarrow> f (ctm, q) = (ctm', Ok q') \<Longrightarrow>
      implied (S (sqSchema q)) ctm ctm'"
  shows "op_spec holds f S"
  using assms unfolding op_spec_def by blast

lemma op_specD:
  assumes "op_spec holds f S" and "plain_columns (sqSchema q)" and "f (ctm, q) = (ctm', Ok q')"
  obtains ps where "q' = add_where ps q" "\<And>r. (\<forall>p \<in> set ps. holds p r) \<longleftrightarrow> S (sqSchema q) r"
    "implied (S (sqSchema q)) ctm ctm'"
  using assms unfolding op_spec_def by blast

lemma implied_refl [simp]: "implied S ctm ctm"
  by (simp add: implied_def)

lemma implied_trans:
  "implied S1 ctm ctm1 \<Longrightarrow> implied S2 ctm1 ctm2 \<Longrightarrow> implied (\<lambda>r. S1 r \<and> S2 r) ctm ctm2"
  unfolding implied_def by blast

lemma op_spec_id: "op_spec holds (\<lambda>(ctm, q). (ctm, Ok q)) (\<lambda>_ _. True)"
  by (rule op_specI) (auto intro: exI [of _ "[]"])

lemma op_spec_then:
  assumes "op_spec holds f S" and "op_spec holds g S'"
  shows "op_spec holds (\<lambda>s. sq_then (f s) g) (\<lambda>sch r. S sch r \<and> S' sch r)"
  unfolding op_spec_def
proof (intro allI impI)
  fix ctm q ctm2 q2
  assume pc: "plain_columns (sqSchema q)" and "sq_then (f (ctm, q)) g = (ctm2, Ok q2)"
  then obtain ctm1 q1 where f: "f (ctm, q) = (ctm1, Ok q1)" and g: "g (ctm1, q1) = (ctm2, Ok q2)"
    by (auto simp: sq_then_def split: prod.splits sum.splits)
  obtain ps where ps: "q1 = add_where ps q" "\<And>r. (\<forall>p \<in> set ps. holds p r) \<longleftrightarrow> S (sqSchema q) r"
    "implied (S (sqSchema q)) ctm ctm1" using op_specD [OF assms(1) pc f] by blast
  then have pc1: "plain_columns (sqSchema q1)" using pc by simp
  obtain qs where qs: "q2 = add_where qs q1" "\<And>r. (\<forall>p \<in> set qs. holds p r) \<longleftrightarrow> S' (sqSchema q1) r"
    "implied (S' (sqSchema q1)) ctm1 ctm2" using op_specD [OF assms(2) pc1 g] by blast
  have "q2 = add_where (ps @ qs) q" using ps(1) qs(1) by simp
  moreover have "(\<forall>p \<in> set (ps @ qs). holds p r) \<longleftrightarrow> S (sqSchema q) r \<and> S' (sqSchema q) r" for r
    using ps(1,2) qs(2) by (auto simp: ball_Un)
  moreover have "implied (\<lambda>r. S (sqSchema q) r \<and> S' (sqSchema q) r) ctm ctm2"
    using implied_trans [OF ps(3) qs(3)] ps(1) by simp
  ultimately show "(\<exists>ps. q2 = add_where ps q \<and>
      (\<forall>r. (\<forall>p \<in> set ps. holds p r) \<longleftrightarrow> S (sqSchema q) r \<and> S' (sqSchema q) r)) \<and>
    implied (\<lambda>r. S (sqSchema q) r \<and> S' (sqSchema q) r) ctm ctm2" by blast
qed

lemma op_spec_when:
  assumes "b \<Longrightarrow> op_spec holds f S"
  shows "op_spec holds (sq_when b f) (\<lambda>sch r. b \<longrightarrow> S sch r)"
proof (cases b)
  case True
  then show ?thesis using assms by (simp add: op_spec_def sq_when_def)
next
  case False
  have "op_spec holds (sq_when False f) (\<lambda>_ _. True)"
    by (rule op_specI) (auto simp: sq_when_def intro: exI [of _ "[]"])
  with False show ?thesis by simp
qed

lemma op_spec_must: "op_spec holds f S \<Longrightarrow> op_spec holds (sq_must f) S"
  by (auto simp: op_spec_def sq_must_def or_panic_def split: prod.splits sum.splits)

section \<open>The operations under the contract\<close>

lemma placeholders_Suc: "placeholders (Suc n) = CHR ''?'' # concat (replicate n '',?'')"
  by (simp add: placeholders_def)

lemma in_clause_eq: "ids \<noteq> [] \<Longrightarrow> in_clause c ids = SqExpr (c @ '' IN ('' @ placeholders (length ids) @ '')'') ids"
  by (cases ids) (simp_all add: in_clause_def placeholders_Suc)

lemma plain_columnsD:
  assumes "plain_columns s"
  shows "ident (colNamespace s)" "ident (colObjectID s)" "ident (colRelation s)" "ident (colUsersetNamespace s)"
    "ident (colUsersetObjectID s)" "ident (colUsersetRelation s)" "ident (colCaveatName s)"
    "ident (colCaveatContext s)" "ident (colExpiration s)" "ident (nowFunction s)"
  using assms by (simp_all add: plain_columns_def)

definition subject_columns :: "schema_information \<Rightarrow> string set" where
  "subject_columns s = {colUsersetNamespace s, colUsersetObjectID s, colUsersetRelation s}"

lemma relation_clause_tracks:
  "relation_clause SL s rf ctm = (ps, ctm') \<Longrightarrow> tracks (subject_columns s) ctm ctm'"
  by (auto simp: relation_clause_def Let_def subject_columns_def split: if_splits list.splits)

text \<open>The two parts of a selector before its relation.\<close>

lemma selector_clause_parts:
  assumes "selector_clause SL s sel ctm = (ctm', Ok p)"
  obtains ctm1 ctm2 tc ic rc where
    "(optionalSubjectType sel = [] \<and> tc = [] \<and> ctm1 = ctm) \<or>
     (optionalSubjectType sel \<noteq> [] \<and> tc = [SqEq (colUsersetNamespace s) (optionalSubjectType sel)] \<and>
      ctm1 = recordColumnValue (colUsersetNamespace s) (optionalSubjectType sel) ctm)"
    "(optionalSubjectIds sel = [] \<and> ic = [] \<and> ctm2 = ctm1) \<or>
     (optionalSubjectIds sel \<noteq> [] \<and> ic = [in_clause (colUsersetObjectID s) (optionalSubjectIds sel)] \<and>
      ctm2 = fold (recordColumnValue (colUsersetObjectID s)) (optionalSubjectIds sel) ctm1)"
    "relation_clause SL s (relationFilter sel) ctm2 = (rc, ctm')" "p = SqAnd (tc @ ic @ rc)"
  using assms
  by (auto simp: selector_clause_def Let_def split: if_splits prod.splits dest!: record_ids_fold)

lemma selector_clause_tracks:
  assumes "selector_clause SL s sel ctm = (ctm', Ok p)"
  shows "tracks (subject_columns s) ctm ctm'"
proof -
  obtain ctm1 ctm2 rc where
    "ctm1 = ctm \<or> ctm1 = recordColumnValue (colUsersetNamespace s) (optionalSubjectType sel) ctm"
    "ctm2 = ctm1 \<or> ctm2 = fold (recordColumnValue (colUsersetObjectID s)) (optionalSubjectIds sel) ctm1"
    and 3: "relation_clause SL s (relationFilter sel) ctm2 = (rc, ctm')"
    using selector_clause_parts [OF assms] by metis
  then have "tracks (subject_columns s) ctm ctm1" "tracks (subject_columns s) ctm1 ctm2"
    by (auto simp: subject_columns_def)
  then show ?thesis using relation_clause_tracks [OF 3] tracks_trans by blast
qed

lemma selector_clauses_tracks:
  "selector_clauses SL s sels ctm = (ctm', Ok ps) \<Longrightarrow> tracks (subject_columns s) ctm ctm'"
proof (induction sels arbitrary: ctm ps)
  case (Cons sel sels)
  then obtain ctm1 p qs where "selector_clause SL s sel ctm = (ctm1, Ok p)"
    "selector_clauses SL s sels ctm1 = (ctm', Ok qs)"
    by (auto split: prod.splits sum.splits)
  then show ?case using Cons.IH selector_clause_tracks tracks_trans by blast
qed simp

context sql_semantics begin

lemma filter_column_spec: "op_spec holds (filter_column col v) (\<lambda>s r. r (col s) = CText v)"
proof (rule op_specI)
  fix ctm q ctm' q' assume f: "filter_column col v (ctm, q) = (ctm', Ok q')"
  then show "\<exists>ps. q' = add_where ps q \<and> (\<forall>r. (\<forall>p \<in> set ps. holds p r) \<longleftrightarrow> r (col (sqSchema q)) = CText v)"
    by (intro exI [of _ "[SqEq (col (sqSchema q)) v]"]) (simp add: filter_column_def sq_where_add eq)
  show "implied (\<lambda>r. r (col (sqSchema q)) = CText v) ctm ctm'"
    using f record_static by (fastforce simp: implied_def filter_column_def)
qed

lemma resource_ids_spec:
  assumes "ids \<noteq> []"
  shows "op_spec holds (filterToResourceIDs ids) (\<lambda>s r. \<exists>w \<in> set ids. r (colObjectID s) = CText w)"
proof (rule op_specI)
  fix ctm q ctm' q' assume pc: "plain_columns (sqSchema q)" and f: "filterToResourceIDs ids (ctm, q) = (ctm', Ok q')"
  let ?c = "colObjectID (sqSchema q)"
  have q': "q' = add_where [in_clause ?c ids] q" and ctm': "ctm' = fold (recordColumnValue ?c) ids ctm"
    using f by (auto simp: filterToResourceIDs_def sq_where_add split: prod.splits bool.splits dest!: record_ids_fold)
  show "\<exists>ps. q' = add_where ps q \<and> (\<forall>r. (\<forall>p \<in> set ps. holds p r) \<longleftrightarrow> (\<exists>w \<in> set ids. r ?c = CText w))"
    using q' in_list [OF plain_columnsD(2) [OF pc] assms] by (auto simp: in_clause_eq [OF assms])
  show "implied (\<lambda>r. \<exists>w \<in> set ids. r ?c = CText w) ctm ctm'"
    using record_fold_static [of ?c ids ctm, OF _ assms] ctm' by (fastforce simp: implied_def)
qed

lemma prefix_spec:
  "op_spec holds (filterWithResourceIDPrefix pre) (\<lambda>s r. \<exists>w. r (colObjectID s) = CText w \<and> prefix pre w)"
proof (rule op_specI)
  fix ctm q ctm' q' assume f: "filterWithResourceIDPrefix pre (ctm, q) = (ctm', Ok q')"
  let ?c = "colObjectID (sqSchema q)" and ?p = "concat (map escape_char pre) @ ''%''"
  have "CHR ''%'' \<notin> set pre" and "q' = add_where [SqLike ?c ?p] q" and ctm': "ctm' = ctm"
    using f by (auto simp: filterWithResourceIDPrefix_def buildLikePrefixClause_def sq_where_add escape_pattern
        split: if_splits)
  then show "\<exists>ps. q' = add_where ps q \<and>
      (\<forall>r. (\<forall>p \<in> set ps. holds p r) \<longleftrightarrow> (\<exists>w. r ?c = CText w \<and> prefix pre w))"
    by (intro exI [of _ "[SqLike ?c ?p]"]) (simp add: like like_escaped del: like_match.simps)
  show "implied (\<lambda>r. \<exists>w. r ?c = CText w \<and> prefix pre w) ctm ctm'" using ctm' by simp
qed

lemma no_caveat_spec: "op_spec holds filterWithNoCaveat (\<lambda>s r. r (colCaveatName s) = CNull \<or> r (colCaveatName s) = CText [])"
proof (rule op_specI)
  fix ctm q ctm' q' assume f: "filterWithNoCaveat (ctm, q) = (ctm', Ok q')"
  let ?c = "colCaveatName (sqSchema q)"
  show "\<exists>ps. q' = add_where ps q \<and> (\<forall>r. (\<forall>p \<in> set ps. holds p r) \<longleftrightarrow> r ?c = CNull \<or> r ?c = CText [])"
    using f by (intro exI [of _ "[SqOr [SqEqNil ?c, SqEq ?c []]]"])
      (auto simp: filterWithNoCaveat_def sq_where_add disj eq eq_nil Let_def)
  show "implied (\<lambda>r. r ?c = CNull \<or> r ?c = CText []) ctm ctm'"
    using f by (auto simp: filterWithNoCaveat_def implied_def Let_def split: if_splits)
qed

lemma filter_caveat_spec: "op_spec holds (filter_caveat f) (\<lambda>s. caveat_row_matches s f)"
  by (cases "cavFilterOption f")
    (simp_all add: filter_caveat_def filterWithCaveatName_def caveat_row_matches_def [abs_def] op_spec_id filter_column_spec
      no_caveat_spec)

lemma filter_expiration_spec: "op_spec holds (filter_expiration f) (\<lambda>s. expiration_row_matches s f)"
proof (rule op_specI)
  fix ctm q ctm' q' assume e: "filter_expiration f (ctm, q) = (ctm', Ok q')"
  let ?c = "colExpiration (sqSchema q)"
  let ?ps = "case f of ExpirationFilterOptionHasExpiration \<Rightarrow> [SqNotEqNil ?c]
     | ExpirationFilterOptionNoExpiration \<Rightarrow> [SqEqNil ?c] | ExpirationFilterOptionNone \<Rightarrow> []"
  show "\<exists>ps. q' = add_where ps q \<and> (\<forall>r. (\<forall>p \<in> set ps. holds p r) \<longleftrightarrow> expiration_row_matches (sqSchema q) f r)"
    using e by (intro exI [of _ ?ps])
      (cases f; simp add: filter_expiration_def sq_where_add expiration_row_matches_def eq_nil not_eq_nil)
  show "implied (expiration_row_matches (sqSchema q) f) ctm ctm'"
    using e by (simp add: filter_expiration_def)
qed

lemma relation_clause_holds:
  assumes "\<And>rf. relFilterIsEmpty SL rf \<longleftrightarrow> \<not> onlyNonEllipsisRelations rf \<and> \<not> includeEllipsisRelation rf \<and> nonEllipsisRelation rf = []"
    and "relation_clause SL s rf ctm = (ps, ctm')"
  shows "(\<forall>p \<in> set ps. holds p r) \<longleftrightarrow> relation_row SL s rf r" and "implied (relation_row SL s rf) ctm ctm'"
proof -
  show "(\<forall>p \<in> set ps. holds p r) \<longleftrightarrow> relation_row SL s rf r"
    using assms(2)
    by (auto simp: relation_clause_def relation_row_def assms(1) Let_def eq not_eq disj cmp_or_def split: if_splits)
  show "implied (relation_row SL s rf) ctm ctm'"
    using assms(2)
    by (auto simp: relation_clause_def relation_row_def implied_def assms(1) Let_def record_lookup cmp_or_def
        split: if_splits option.splits)
qed

lemma selector_clause_holds:
  assumes "\<And>rf. relFilterIsEmpty SL rf \<longleftrightarrow> \<not> onlyNonEllipsisRelations rf \<and> \<not> includeEllipsisRelation rf \<and> nonEllipsisRelation rf = []"
    and "plain_columns s" and "selector_clause SL s sel ctm = (ctm', Ok p)"
  shows "holds p r \<longleftrightarrow> selector_row SL s sel r" and "implied (selector_row SL s sel) ctm ctm'"
proof -
  obtain ctm1 ctm2 tc ic rc where
    1: "(optionalSubjectType sel = [] \<and> tc = [] \<and> ctm1 = ctm) \<or>
     (optionalSubjectType sel \<noteq> [] \<and> tc = [SqEq (colUsersetNamespace s) (optionalSubjectType sel)] \<and>
      ctm1 = recordColumnValue (colUsersetNamespace s) (optionalSubjectType sel) ctm)"
    and 2: "(optionalSubjectIds sel = [] \<and> ic = [] \<and> ctm2 = ctm1) \<or>
     (optionalSubjectIds sel \<noteq> [] \<and> ic = [in_clause (colUsersetObjectID s) (optionalSubjectIds sel)] \<and>
      ctm2 = fold (recordColumnValue (colUsersetObjectID s)) (optionalSubjectIds sel) ctm1)"
    and 3: "relation_clause SL s (relationFilter sel) ctm2 = (rc, ctm')" and p: "p = SqAnd (tc @ ic @ rc)"
    by (rule selector_clause_parts [OF assms(3)]) blast
  note rel = relation_clause_holds [OF assms(1) 3]
  have "(\<forall>q \<in> set tc. holds q r) \<longleftrightarrow> (optionalSubjectType sel \<noteq> [] \<longrightarrow> r (colUsersetNamespace s) = CText (optionalSubjectType sel))"
    using 1 by (auto simp: eq)
  moreover have "(\<forall>q \<in> set ic. holds q r) \<longleftrightarrow>
      (optionalSubjectIds sel \<noteq> [] \<longrightarrow> (\<exists>w \<in> set (optionalSubjectIds sel). r (colUsersetObjectID s) = CText w))"
    using 2 in_list [OF plain_columnsD(5) [OF assms(2)]] by (auto simp: in_clause_eq)
  ultimately show "holds p r \<longleftrightarrow> selector_row SL s sel r"
    using rel(1) by (auto simp: p conj selector_row_def ball_Un)
  have "implied (\<lambda>r. optionalSubjectType sel \<noteq> [] \<longrightarrow> r (colUsersetNamespace s) = CText (optionalSubjectType sel)) ctm ctm1"
    using 1 record_static by (fastforce simp: implied_def)
  moreover have "implied (\<lambda>r. optionalSubjectIds sel \<noteq> [] \<longrightarrow>
      (\<exists>w \<in> set (optionalSubjectIds sel). r (colUsersetObjectID s) = CText w)) ctm1 ctm2"
    using 2 record_fold_static by (fastforce simp: implied_def)
  ultimately show "implied (selector_row SL s sel) ctm ctm'"
    using rel(2) unfolding implied_def selector_row_def by blast
qed

lemma selector_clauses_holds:
  assumes "\<And>rf. relFilterIsEmpty SL rf \<longleftrightarrow> \<not> onlyNonEllipsisRelations rf \<and> \<not> includeEllipsisRelation rf \<and> nonEllipsisRelation rf = []"
    and "plain_columns s"
  shows "selector_clauses SL s sels ctm = (ctm', Ok ps) \<Longrightarrow>
    (\<exists>p \<in> set ps. holds p r) \<longleftrightarrow> (\<exists>sel \<in> set sels. selector_row SL s sel r)"
proof (induction sels arbitrary: ctm ps)
  case (Cons sel sels)
  then obtain ctm1 p qs where 1: "selector_clause SL s sel ctm = (ctm1, Ok p)"
    and 2: "selector_clauses SL s sels ctm1 = (ctm', Ok qs)" and "ps = p # qs"
    by (auto split: prod.splits sum.splits)
  then show ?case using Cons.IH [OF 2] selector_clause_holds(1) [OF assms 1] by simp
qed simp

text \<open>With more than one selector all columns of the subject vary; with one, its own values are recorded.\<close>

lemma subjects_selectors_spec:
  assumes "\<And>rf. relFilterIsEmpty SL rf \<longleftrightarrow> \<not> onlyNonEllipsisRelations rf \<and> \<not> includeEllipsisRelation rf \<and> nonEllipsisRelation rf = []"
  shows "op_spec holds (filterWithSubjectsSelectors SL sels) (\<lambda>s r. \<exists>sel \<in> set sels. selector_row SL s sel r)"
proof (rule op_specI)
  fix ctm q ctm' q' assume pc: "plain_columns (sqSchema q)"
    and f: "filterWithSubjectsSelectors SL sels (ctm, q) = (ctm', Ok q')"
  let ?s = "sqSchema q"
  let ?v = "recordVaryingColumnValue (colUsersetRelation ?s)
      (recordVaryingColumnValue (colUsersetObjectID ?s) (recordVaryingColumnValue (colUsersetNamespace ?s) ctm))"
  obtain ps where ps: "selector_clauses SL ?s sels (if length sels > 1 then ?v else ctm) = (ctm', Ok ps)"
    and q': "q' = add_where [SqOr ps] q"
    using f by (auto simp: filterWithSubjectsSelectors_def Let_def sq_where_add split: prod.splits sum.splits)
  show "\<exists>ps. q' = add_where ps q \<and>
      (\<forall>r. (\<forall>p \<in> set ps. holds p r) \<longleftrightarrow> (\<exists>sel \<in> set sels. selector_row SL ?s sel r))"
    using q' selector_clauses_holds [OF assms pc ps] by (intro exI [of _ "[SqOr ps]"]) (simp add: disj)
  show "implied (\<lambda>r. \<exists>sel \<in> set sels. selector_row SL ?s sel r) ctm ctm'"
  proof (cases "length sels > 1")
    case True
    then have t: "tracks (subject_columns ?s) ?v ctm'" using ps selector_clauses_tracks by simp
    have "static ctm c v" if st: "static ctm' c v" for c v
    proof -
      have "c \<notin> subject_columns ?s"
        using t st by (auto simp: tracks_def subject_columns_def dest: spec [of _ c])
      then show ?thesis using t st by (auto simp: tracks_def subject_columns_def dest: spec [of _ c])
    qed
    then show ?thesis by (simp add: implied_def)
  next
    case False
    show ?thesis
    proof (cases sels)
      case Nil
      then show ?thesis using ps by simp
    next
      case (Cons sel rest)
      then have sels: "sels = [sel]" using False by simp
      obtain p where "selector_clause SL ?s sel ctm = (ctm', Ok p)"
        using ps sels by (auto split: prod.splits sum.splits)
      from selector_clause_holds(2) [OF assms pc this] show ?thesis by (simp add: sels)
    qed
  qed
qed

lemma relationships_filter_spec:
  assumes "\<And>rf. relFilterIsEmpty SL rf \<longleftrightarrow> \<not> onlyNonEllipsisRelations rf \<and> \<not> includeEllipsisRelation rf \<and> nonEllipsisRelation rf = []"
  shows "op_spec holds (filterWithRelationshipsFilter SL f) (filter_row_matches SL f)"
proof -
  let ?a = "sq_when (optionalResourceType f \<noteq> []) (filterToResourceType (optionalResourceType f))"
  let ?b = "sq_when (optionalResourceRelation f \<noteq> []) (filterToRelation (optionalResourceRelation f))"
  let ?c = "sq_when (optionalResourceIds f \<noteq> []) (filterToResourceIDs (optionalResourceIds f))"
  let ?d = "sq_when (optionalResourceIDPrefix f \<noteq> []) (filterWithResourceIDPrefix (optionalResourceIDPrefix f))"
  let ?e = "sq_when (optionalSubjectsSelectors f \<noteq> []) (filterWithSubjectsSelectors SL (optionalSubjectsSelectors f))"
  let ?g = "\<lambda>s. sq_then (sq_then (sq_then (sq_then (sq_then (sq_then (?a s) ?b) ?c) ?d) ?e)
      (filter_caveat (optionalCaveatNameFilter f))) (filter_expiration (optionalExpirationOption f))"
  have "op_spec holds ?g (\<lambda>s r. ((((((optionalResourceType f \<noteq> [] \<longrightarrow> r (colNamespace s) = CText (optionalResourceType f)) \<and>
      (optionalResourceRelation f \<noteq> [] \<longrightarrow> r (colRelation s) = CText (optionalResourceRelation f))) \<and>
      (optionalResourceIds f \<noteq> [] \<longrightarrow> (\<exists>w \<in> set (optionalResourceIds f). r (colObjectID s) = CText w))) \<and>
      (optionalResourceIDPrefix f \<noteq> [] \<longrightarrow> (\<exists>w. r (colObjectID s) = CText w \<and> prefix (optionalResourceIDPrefix f) w))) \<and>
      (optionalSubjectsSelectors f \<noteq> [] \<longrightarrow> (\<exists>sel \<in> set (optionalSubjectsSelectors f). selector_row SL s sel r))) \<and>
      caveat_row_matches s (optionalCaveatNameFilter f) r) \<and> expiration_row_matches s (optionalExpirationOption f) r)"
    by (intro op_spec_then op_spec_when filter_caveat_spec filter_expiration_spec subjects_selectors_spec [OF assms]
        prefix_spec resource_ids_spec)
      (simp_all add: filterToResourceType_def filterToRelation_def filter_column_spec)
  then have "op_spec holds ?g (filter_row_matches SL f)"
    unfolding filter_row_matches_def [abs_def] by (simp only: conj_assoc)
  then show ?thesis
    by (auto simp: op_spec_def filterWithRelationshipsFilter_def Let_def split: if_splits)
qed

text \<open>A subject filter: sound when it names no relation, or the ellipsis.\<close>

lemma subject_filter_spec:
  assumes "optionalRelationV1 f = None \<or> optionalRelationV1 f = Some [] \<or> optionalRelationV1 f = Some (sqlEllipsis SL)"
  shows "op_spec holds (filterToSubjectFilter SL f) (\<lambda>s r. r (colUsersetNamespace s) = CText (subjectTypeV1 f) \<and>
    (optionalSubjectIdV1 f \<noteq> [] \<longrightarrow> r (colUsersetObjectID s) = CText (optionalSubjectIdV1 f)) \<and>
    (optionalRelationV1 f \<noteq> None \<longrightarrow> r (colUsersetRelation s) = CText (sqlEllipsis SL)))"
proof -
  let ?k = "\<lambda>(ctm, q). case optionalRelationV1 f of None \<Rightarrow> (ctm, Ok q)
        | Some relation \<Rightarrow>
            (recordColumnValue (colUsersetRelation (sqSchema q)) (sqlEllipsis SL) ctm,
             Ok (sq_where (SqEq (colUsersetRelation (sqSchema q)) (cmp_or relation (sqlEllipsis SL))) q))"
  have "?k = sq_when (optionalRelationV1 f \<noteq> None) (filter_column colUsersetRelation (sqlEllipsis SL))"
    using assms by (auto simp: fun_eq_iff sq_when_def filter_column_def cmp_or_def split: option.splits)
  then have "filterToSubjectFilter SL f = (\<lambda>s. sq_then (sq_then (filter_column colUsersetNamespace (subjectTypeV1 f) s)
       (sq_when (optionalSubjectIdV1 f \<noteq> []) (filter_column colUsersetObjectID (optionalSubjectIdV1 f))))
       (sq_when (optionalRelationV1 f \<noteq> None) (filter_column colUsersetRelation (sqlEllipsis SL))))"
    by (simp add: fun_eq_iff filterToSubjectFilter_def)
  moreover have "op_spec holds (\<lambda>s. sq_then (sq_then (filter_column colUsersetNamespace (subjectTypeV1 f) s)
       (sq_when (optionalSubjectIdV1 f \<noteq> []) (filter_column colUsersetObjectID (optionalSubjectIdV1 f))))
       (sq_when (optionalRelationV1 f \<noteq> None) (filter_column colUsersetRelation (sqlEllipsis SL))))
     (\<lambda>s r. (r (colUsersetNamespace s) = CText (subjectTypeV1 f) \<and>
       (optionalSubjectIdV1 f \<noteq> [] \<longrightarrow> r (colUsersetObjectID s) = CText (optionalSubjectIdV1 f))) \<and>
       (optionalRelationV1 f \<noteq> None \<longrightarrow> r (colUsersetRelation s) = CText (sqlEllipsis SL)))"
    by (intro op_spec_then op_spec_when filter_column_spec)
  ultimately show ?thesis by (simp only: conj_assoc)
qed

end

section \<open>Sequences of calls\<close>

text \<open>\<open>SubjectRelationFilter.IsEmpty\<close>, and the ellipsis of both parameters.\<close>

locale sql_lib_laws =
  fixes SL :: sql_lib and L :: spice_lib
  assumes same_ellipsis: "sqlEllipsis SL = ellipsis L"
    and is_empty: "relFilterIsEmpty SL rf \<longleftrightarrow>
      \<not> onlyNonEllipsisRelations rf \<and> \<not> includeEllipsisRelation rf \<and> nonEllipsisRelation rf = []"

definition ref_sql_lib :: sql_lib where
  "ref_sql_lib = \<lparr>relFilterIsEmpty = (\<lambda>rf. rf = no_subject_filter), sqlEllipsis = ''...''\<rparr>"

interpretation ref_sql_lib: sql_lib_laws ref_sql_lib ref_lib
  by unfold_locales (auto simp: ref_sql_lib_def ref_lib_def no_subject_filter_def)

datatype filter_call =
    CallResourceType string | CallResourceID string | CallResourceIDs "string list" | CallResourceIDPrefix string
  | CallRelation string | CallCaveatName string | CallNoCaveat | CallSubjectsSelectors "subjects_selector list"
  | CallSubjectFilter subject_filter_v1 | CallRelationshipsFilter relationships_filter

fun apply_call :: "sql_lib \<Rightarrow> filter_call \<Rightarrow> sqf_op" where
  "apply_call SL (CallResourceType t) = filterToResourceType t"
| "apply_call SL (CallResourceID i) = filterToResourceID i"
| "apply_call SL (CallResourceIDs ids) = filterToResourceIDs ids"
| "apply_call SL (CallResourceIDPrefix p) = filterWithResourceIDPrefix p"
| "apply_call SL (CallRelation rl) = filterToRelation rl"
| "apply_call SL (CallCaveatName n) = filterWithCaveatName n"
| "apply_call SL CallNoCaveat = filterWithNoCaveat"
| "apply_call SL (CallSubjectsSelectors sels) = filterWithSubjectsSelectors SL sels"
| "apply_call SL (CallSubjectFilter f) = filterToSubjectFilter SL f"
| "apply_call SL (CallRelationshipsFilter f) = filterWithRelationshipsFilter SL f"

fun run_calls :: "sql_lib \<Rightarrow> filter_call list \<Rightarrow> sqf_op" where
  "run_calls SL [] = (\<lambda>(ctm, q). (ctm, Ok q))"
| "run_calls SL (c # cs) = (\<lambda>s. sq_then (apply_call SL c s) (run_calls SL cs))"

text \<open>An empty \<open>IN\<close> list is no clause; a subject filter with a relation of its own is the case below.\<close>

fun call_ok :: "sql_lib \<Rightarrow> filter_call \<Rightarrow> bool" where
  "call_ok SL (CallResourceIDs ids) \<longleftrightarrow> ids \<noteq> []"
| "call_ok SL (CallSubjectFilter f) \<longleftrightarrow>
     optionalRelationV1 f = None \<or> optionalRelationV1 f = Some [] \<or> optionalRelationV1 f = Some (sqlEllipsis SL)"
| "call_ok SL _ \<longleftrightarrow> True"

lemma calls_spec:
  assumes "sql_semantics holds lt future" and "sql_lib_laws SL L" and "list_all (call_ok SL) calls"
  shows "\<exists>S. op_spec holds (run_calls SL calls) S"
  using assms(3)
proof (induction calls)
  case Nil
  then show ?case using op_spec_id by auto
next
  case (Cons c cs)
  then obtain S' where S': "op_spec holds (run_calls SL cs) S'" by auto
  note sem = assms(1) and lib = sql_lib_laws.is_empty [OF assms(2)]
  have "\<exists>S. op_spec holds (apply_call SL c) S"
    using Cons.prems sql_semantics.filter_column_spec [OF sem] sql_semantics.resource_ids_spec [OF sem]
      sql_semantics.prefix_spec [OF sem] sql_semantics.no_caveat_spec [OF sem]
      sql_semantics.subjects_selectors_spec [OF sem lib] sql_semantics.relationships_filter_spec [OF sem lib]
      sql_semantics.subject_filter_spec [OF sem]
    by (cases c) (simp_all add: filterToResourceType_def filterToResourceID_def filterToRelation_def
        filterWithCaveatName_def; blast)+
  then obtain S where "op_spec holds (apply_call SL c) S" by blast
  from op_spec_then [OF this S'] show ?case by auto
qed

definition filterer :: "schema_information \<Rightarrow> nat \<Rightarrow> string list \<Rightarrow> sqf" where
  "filterer s maxIDs extra = snd (newSchemaQueryFiltererForRelationshipsSelect s maxIDs extra)"

lemma filterer_simps [simp]:
  "newSchemaQueryFiltererForRelationshipsSelect s maxIDs extra = ([], filterer s maxIDs extra)"
  "sqSchema (filterer s maxIDs extra) = s" "isCustomQuery (filterer s maxIDs extra) = False"
  "fromSuffix (filterer s maxIDs extra) = []" "fromTable (filterer s maxIDs extra) = []"
  "indexingHint (filterer s maxIDs extra) = None" "queryBuilder (filterer s maxIDs extra) = empty_select"
  by (simp_all add: filterer_def newSchemaQueryFiltererForRelationshipsSelect_def)

lemma filterer_schema: "(filterer s maxIDs extra)\<lparr>sqSchema := s'\<rparr> = filterer s' maxIDs extra"
  unfolding filterer_def newSchemaQueryFiltererForRelationshipsSelect_def snd_conv sqf.update_convs ..

section \<open>Properties\<close>

definition sample_schema :: schema_information where
  "sample_schema = \<lparr>relationshipTableName = ''tuples'', colNamespace = ''namespace'', colObjectID = ''object_id'',
     colRelation = ''relation'', colUsersetNamespace = ''userset_namespace'',
     colUsersetObjectID = ''userset_object_id'', colUsersetRelation = ''userset_relation'',
     colCaveatName = ''caveat_name'', colCaveatContext = ''caveat_context'', colExpiration = ''expiration'',
     colIntegrityKeyID = [], colIntegrityHash = [], colIntegrityTimestamp = [], indexes = [],
     paginationFilterType = TupleComparison, schPlaceholderFormat = Some [], nowFunction = ''now'',
     columnOptimization = ColumnOptimizationOptionStaticValues, schIntegrityEnabled = False,
     expirationDisabled = False, sortByResourceColumnOrder = [], sortBySubjectColumnOrder = []\<rparr>"

lemma sample_schema_plain: "plain_columns sample_schema"
  by (simp add: plain_columns_def sample_schema_def ident_def ident_char_def Let_def)



text \<open>
  C9. A subject filter that names a relation compares the column with that relation, but records the
  ellipsis for it: the selected rows have the relation, and the recorded value is another.
\<close>

theorem subject_filter_misrecords:
  assumes "optionalRelationV1 f = Some e" and "e \<noteq> []" and "e \<noteq> sqlEllipsis SL"
    and "colUsersetRelation s \<noteq> colUsersetNamespace s" and "colUsersetRelation s \<noteq> colUsersetObjectID s"
  shows "\<exists>ctm q. filterToSubjectFilter SL f (newSchemaQueryFiltererForRelationshipsSelect s maxIDs extra) = (ctm, Ok q) \<and>
    SqEq (colUsersetRelation s) e \<in> set (selWhere (queryBuilder q)) \<and>
    map_of ctm (colUsersetRelation s) = Some (Some (sqlEllipsis SL))"
  using assms
  by (simp add: filterToSubjectFilter_def sq_then_def sq_when_def filter_column_def sq_where_add cmp_or_def record_lookup)

theorem subject_filter_misrecords_witness:
  "\<exists>ctm q. filterToSubjectFilter ref_sql_lib
       \<lparr>subjectTypeV1 = ''group'', optionalSubjectIdV1 = ''eng'', optionalRelationV1 = Some ''member''\<rparr>
       (newSchemaQueryFiltererForRelationshipsSelect sample_schema 0 []) = (ctm, Ok q) \<and>
    SqEq ''userset_relation'' ''member'' \<in> set (selWhere (queryBuilder q)) \<and>
    map_of ctm ''userset_relation'' = Some (Some ''...'')"
  using subject_filter_misrecords [of "\<lparr>subjectTypeV1 = ''group'', optionalSubjectIdV1 = ''eng'',
      optionalRelationV1 = Some ''member''\<rparr>" "''member''" ref_sql_lib sample_schema 0 "[]"]
  by (simp add: sample_schema_def ref_sql_lib_def)

end
