(* ===== verification/Sql_Result.thy ===== *)
theory Sql_Result
  imports Sql_Sound
begin

text \<open>
  The query builder end to end: which rows stand for which relationships, that a filter selects the
  relationships the in-memory datastore selects for it, that a cursor cuts behind its relationship, and
  that the selected columns, together with the recorded values, read back the relationships.
\<close>

section \<open>Rows that stand for relationships\<close>

definition represents :: "schema_information \<Rightarrow> spice_lib \<Rightarrow> tuple_relationship \<Rightarrow> sql_row \<Rightarrow> bool" where
  "represents s L rel r \<longleftrightarrow>
     r (colNamespace s) = CText (objectType (resource rel)) \<and> r (colObjectID s) = CText (objectID (resource rel)) \<and>
     r (colRelation s) = CText (objRelation (resource rel)) \<and>
     r (colUsersetNamespace s) = CText (objectType (subject rel)) \<and>
     r (colUsersetObjectID s) = CText (objectID (subject rel)) \<and>
     r (colUsersetRelation s) = CText (objRelation (subject rel)) \<and>
     (case optionalCaveat rel of
        None \<Rightarrow> r (colCaveatName s) \<in> {CNull, CText []} \<and> (\<exists>m. r (colCaveatContext s) \<in> {CNull, CMap m})
      | Some c \<Rightarrow> caveatName c \<noteq> [] \<and> r (colCaveatName s) = CText (caveatName c) \<and>
          (\<exists>m. r (colCaveatContext s) = CMap m \<and> new_struct L m = Ok (caveatContext c))) \<and>
     r (colExpiration s) = (case optionalExpiration rel of None \<Rightarrow> CNull | Some t \<Rightarrow> CTime t) \<and>
     (if schIntegrityEnabled s
      then (case optionalIntegrity rel of
          None \<Rightarrow> r (colIntegrityKeyID s) = CText [] \<and> (\<exists>x. r (colIntegrityHash s) = CBytes x) \<and>
            (\<exists>t. r (colIntegrityTimestamp s) = CTime t)
        | Some i \<Rightarrow> keyId i \<noteq> [] \<and> r (colIntegrityKeyID s) = CText (keyId i) \<and>
            r (colIntegrityHash s) = CBytes (hashBytes i) \<and>
            (\<exists>t. r (colIntegrityTimestamp s) = CTime t \<and> timestamp_new L t = hashedAt i))
      else optionalIntegrity rel = None) \<and>
     r ''1'' = CInt 1"

definition cursor_value :: "schema_information \<Rightarrow> tuple_relationship \<Rightarrow> string \<Rightarrow> string option" where
  "cursor_value s rel c =
     (if c = colNamespace s then Some (objectType (resource rel))
      else if c = colObjectID s then Some (objectID (resource rel))
      else if c = colRelation s then Some (objRelation (resource rel))
      else if c = colUsersetNamespace s then Some (objectType (subject rel))
      else if c = colUsersetObjectID s then Some (objectID (subject rel))
      else if c = colUsersetRelation s then Some (objRelation (subject rel))
      else None)"

lemma represents_value: "represents s L rel r \<Longrightarrow> cursor_value s rel c = Some v \<Longrightarrow> r c = CText v"
  by (auto simp: represents_def cursor_value_def split: if_splits)

lemma columns_and_values_Ok:
  "columns_and_values s rel cs = Ok cvs \<longleftrightarrow> map fst cvs = cs \<and> (\<forall>(c, v) \<in> set cvs. cursor_value s rel c = Some v)"
proof (induction cs arbitrary: cvs)
  case (Cons c cs)
  have step: "columns_and_values s rel (c # cs) = (case cursor_value s rel c of
      None \<Rightarrow> Err (MustBug ''invalid column name'')
    | Some v \<Rightarrow> (case columns_and_values s rel cs of Err e \<Rightarrow> Err e | Ok rest \<Rightarrow> Ok ((c, v) # rest)))"
    by (simp add: cursor_value_def Let_def)
  show ?case
  proof (cases "columns_and_values s rel cs")
    case (Inl e)
    then have "\<not> (map fst xs = cs \<and> (\<forall>(c, v) \<in> set xs. cursor_value s rel c = Some v))" for xs
      using Cons.IH [of xs] by simp
    from this [of "tl cvs"] Inl show ?thesis
      unfolding step by (cases cvs) (auto split: option.splits)
  next
    case (Inr rest)
    then have "xs = rest \<longleftrightarrow> map fst xs = cs \<and> (\<forall>(c, v) \<in> set xs. cursor_value s rel c = Some v)" for xs
      using Cons.IH [of xs] by auto
    from this [of "tl cvs"] Inr show ?thesis
      unfolding step by (cases cvs) (auto split: option.splits)
  qed
qed auto

lemma default_columns_Ok:
  assumes "sortByResourceColumnOrder s = []"
  shows "\<exists>cvs. columnsAndValuesForSort ByResource s rel = Ok cvs"
proof -
  let ?cs = "sortByResourceColumnOrderColumns s"
  have "\<forall>c \<in> set ?cs. \<exists>v. cursor_value s rel c = Some v"
    using assms by (simp add: sortByResourceColumnOrderColumns_def cursor_value_def)
  then have "columns_and_values s rel ?cs = Ok (map (\<lambda>c. (c, the (cursor_value s rel c))) ?cs)"
    unfolding columns_and_values_Ok by (auto simp: comp_def)
  then show ?thesis by (simp add: columnsAndValuesForSort_def)
qed

lemma cursor_value_ident: "plain_columns s \<Longrightarrow> cursor_value s rel c = Some v \<Longrightarrow> ident c"
  by (auto simp: plain_columns_def cursor_value_def split: if_splits)

section \<open>Filters select what the in-memory datastore selects\<close>

lemma selector_row_matches:
  assumes "sqlEllipsis SL = ellipsis L"
    and "\<And>rf. relFilterIsEmpty SL rf \<longleftrightarrow> \<not> onlyNonEllipsisRelations rf \<and> \<not> includeEllipsisRelation rf \<and> nonEllipsisRelation rf = []"
    and "represents s L rel r"
  shows "selector_row SL s sel r \<longleftrightarrow> selector_matches L sel rel"
  using assms(3)
  by (auto simp: selector_row_def selector_matches_def relation_row_def relation_matches_def assms(1,2) represents_def)

lemma filter_row_matches_iff:
  assumes "sqlEllipsis SL = ellipsis L"
    and "\<And>rf. relFilterIsEmpty SL rf \<longleftrightarrow> \<not> onlyNonEllipsisRelations rf \<and> \<not> includeEllipsisRelation rf \<and> nonEllipsisRelation rf = []"
    and "represents s L rel r"
    and "cavFilterOption (optionalCaveatNameFilter f) = CaveatFilterOptionHasMatchingCaveat \<Longrightarrow>
      cavFilterName (optionalCaveatNameFilter f) \<noteq> []"
  shows "filter_row_matches SL f s r \<longleftrightarrow> matches L f rel"
proof -
  have "caveat_row_matches s (optionalCaveatNameFilter f) r \<longleftrightarrow> caveat_matches (optionalCaveatNameFilter f) rel"
    using assms(3,4)
    by (cases "cavFilterOption (optionalCaveatNameFilter f)"; cases "optionalCaveat rel")
      (auto simp: caveat_row_matches_def caveat_matches_def represents_def)
  moreover have "expiration_row_matches s (optionalExpirationOption f) r \<longleftrightarrow>
      expiration_matches (optionalExpirationOption f) rel"
    using assms(3)
    by (cases "optionalExpirationOption f"; cases "optionalExpiration rel")
      (auto simp: expiration_row_matches_def expiration_matches_def represents_def)
  moreover have "r (colNamespace s) = CText (objectType (resource rel))"
    "r (colObjectID s) = CText (objectID (resource rel))" "r (colRelation s) = CText (objRelation (resource rel))"
    using assms(3) by (simp_all add: represents_def)
  ultimately show ?thesis
    using selector_row_matches [OF assms(1-3)]
    by (auto simp: filter_row_matches_def matches_def resource_matches_def)
qed

section \<open>Cursors\<close>

lemma lex_after_free:
  assumes "\<And>v. \<not> lt v v" and "\<forall>(c, v) \<in> set cvs. P (c, v) \<or> r c = CText v"
  shows "lex_after lt (filter P cvs) r = lex_after lt cvs r"
  using assms(2) by (induction cvs) (auto simp: assms(1))

lemma lex_after_key:
  assumes "\<forall>(c, w) \<in> set ws. r c = CText w" and "map fst cvs = map fst ws"
  shows "lex_after (<) cvs r \<longleftrightarrow> map snd cvs < map snd ws"
  using assms by (induction cvs ws rule: list_induct2') auto

context sql_semantics begin

lemma expanded_comparison_holds:
  "(\<exists>p \<in> set (expanded_comparison ctm prev cvs). holds p r) \<longleftrightarrow>
     (\<forall>(c, v) \<in> set prev. hasStaticValue ctm c \<or> r c = CText v) \<and>
     lex_after lt (filter (\<lambda>(c, _). \<not> hasStaticValue ctm c) cvs) r"
proof (induction cvs arbitrary: prev)
  case (Cons cv cvs)
  obtain c v where cv: "cv = (c, v)" by fastforce
  have prev: "(\<forall>p \<in> set (map (\<lambda>(pc, pv). SqEq pc pv) (filter (\<lambda>(pc, _). \<not> hasStaticValue ctm pc) prev)). holds p r) \<longleftrightarrow>
      (\<forall>(c, v) \<in> set prev. hasStaticValue ctm c \<or> r c = CText v)"
    by (auto simp: eq)
  have snoc: "(\<forall>(c, v) \<in> set (prev @ [(c, v)]). hasStaticValue ctm c \<or> r c = CText v) \<longleftrightarrow>
      (\<forall>(c, v) \<in> set prev. hasStaticValue ctm c \<or> r c = CText v) \<and> (hasStaticValue ctm c \<or> r c = CText v)" by auto
  show ?case
  proof (cases "hasStaticValue ctm c")
    case True
    then show ?thesis using Cons.IH [of "prev @ [(c, v)]"] snoc by (simp add: cv)
  next
    case False
    have "holds (SqAnd (map (\<lambda>(pc, pv). SqEq pc pv) (filter (\<lambda>(pc, _). \<not> hasStaticValue ctm pc) prev) @ [SqGt c v])) r \<longleftrightarrow>
        (\<forall>(c, v) \<in> set prev. hasStaticValue ctm c \<or> r c = CText v) \<and> (\<exists>w. r c = CText w \<and> lt v w)"
      using prev by (auto simp: conj gt ball_Un)
    then show ?thesis using False Cons.IH [of "prev @ [(c, v)]"] snoc by (auto simp: cv)
  qed
qed simp

text \<open>Both comparisons mean the same: the columns without a recorded value come after the cursor.\<close>

lemma after_spec:
  assumes "plain_columns (sqSchema q)" and "after ctm cursor order q = Ok q'"
    and "paginationFilterType (sqSchema q) \<in> {TupleComparison, ExpandedLogicComparison}"
    and "columnsAndValuesForSort order (sqSchema q) cursor = Ok cvs"
  shows "\<exists>ps. q' = add_where ps q \<and> (\<forall>r. (\<forall>p \<in> set ps. holds p r) \<longleftrightarrow>
    (\<forall>(c, v) \<in> set cvs. hasStaticValue ctm c) \<or> lex_after lt (filter (\<lambda>(c, _). \<not> hasStaticValue ctm c) cvs) r)"
proof -
  let ?free = "filter (\<lambda>(c, _). \<not> hasStaticValue ctm c) cvs"
  let ?or = "expanded_comparison ctm [] cvs"
  have none: "?free = [] \<longleftrightarrow> (\<forall>(c, v) \<in> set cvs. hasStaticValue ctm c)" by (auto simp: filter_empty_conv)
  have or_none: "expanded_comparison ctm prev xs = [] \<longleftrightarrow> filter (\<lambda>(c, _). \<not> hasStaticValue ctm c) xs = []" for prev xs
    by (induction xs arbitrary: prev) auto
  have "list_all ident (map fst ?free)"
  proof -
    obtain cs where "columns_and_values (sqSchema q) cursor cs = Ok cvs"
      using assms(4) by (auto simp: columnsAndValuesForSort_def split: sort_order.splits)
    then have "\<forall>(c, v) \<in> set cvs. ident c"
      using cursor_value_ident [OF assms(1)] unfolding columns_and_values_Ok by blast
    then show ?thesis by (auto simp: list_all_iff)
  qed
  note tuple = tuple_after [OF _ this]
  show ?thesis
  proof (cases "?free = []")
    case True
    then have "q' = q" using assms(2-4) or_none by (auto simp: after_def Let_def)
    with True none show ?thesis by (intro exI [of _ "[]"]) auto
  next
    case False
    let ?p = "if paginationFilterType (sqSchema q) = TupleComparison then tuple_comparison ?free else SqOr ?or"
    have "q' = add_where [?p] q"
      using assms(2-4) False or_none by (auto simp: after_def Let_def sq_where_add)
    moreover have "holds ?p r \<longleftrightarrow> lex_after lt ?free r" for r
      using tuple [OF False] expanded_comparison_holds [of ctm "[]" cvs r] by (simp add: disj)
    ultimately show ?thesis using False none by (intro exI [of _ "[?p]"]) auto
  qed
qed

end

text \<open>
  The two ways to compare with a cursor select the same rows: the tuple comparison and its expansion
  into equalities and comparisons agree on every row, for every collation of the database.
\<close>

theorem cursor_comparisons_agree:
  assumes "sql_semantics holds lt future" and "plain_columns s"
    and "sqSchema q = s\<lparr>paginationFilterType := TupleComparison\<rparr>"
    and "after ctm cursor order q = Ok qt"
    and "after ctm cursor order (q\<lparr>sqSchema := s\<lparr>paginationFilterType := ExpandedLogicComparison\<rparr>\<rparr>) = Ok qe"
  shows "list_all (\<lambda>p. holds p r) (selWhere (queryBuilder qt)) \<longleftrightarrow> list_all (\<lambda>p. holds p r) (selWhere (queryBuilder qe))"
proof -
  let ?st = "s\<lparr>paginationFilterType := TupleComparison\<rparr>" and ?se = "s\<lparr>paginationFilterType := ExpandedLogicComparison\<rparr>"
  have pc: "plain_columns ?st" "plain_columns ?se" using assms(2) by (simp_all add: plain_columns_def)
  have sort: "columns_and_values (s\<lparr>paginationFilterType := p\<rparr>) cursor cs = columns_and_values s cursor cs" for p cs
    by (induction cs) (simp_all cong: sum.case_cong)
  have same: "columnsAndValuesForSort order (s\<lparr>paginationFilterType := p\<rparr>) cursor = columnsAndValuesForSort order s cursor" for p
    by (simp add: columnsAndValuesForSort_def sort sortByResourceColumnOrderColumns_def
        sortBySubjectColumnOrderColumns_def split: sort_order.split)
  obtain cvs where cvs: "columnsAndValuesForSort order s cursor = Ok cvs"
    using assms(3,4) same [of TupleComparison] by (auto simp: after_def split: sum.splits)
  note spec = sql_semantics.after_spec [OF assms(1)]
  from spec [of q ctm cursor order qt cvs] obtain ps where "qt = add_where ps q"
    "\<And>r. (\<forall>p \<in> set ps. holds p r) \<longleftrightarrow> (\<forall>(c, v) \<in> set cvs. hasStaticValue ctm c) \<or>
      lex_after lt (filter (\<lambda>(c, _). \<not> hasStaticValue ctm c) cvs) r"
    using assms(3,4) pc(1) cvs same by auto
  moreover from spec [of "q\<lparr>sqSchema := ?se\<rparr>" ctm cursor order qe cvs] obtain ps' where
    "qe = add_where ps' (q\<lparr>sqSchema := ?se\<rparr>)"
    "\<And>r. (\<forall>p \<in> set ps'. holds p r) \<longleftrightarrow> (\<forall>(c, v) \<in> set cvs. hasStaticValue ctm c) \<or>
      lex_after lt (filter (\<lambda>(c, _). \<not> hasStaticValue ctm c) cvs) r"
    using assms(5) pc(2) cvs same by auto
  ultimately show ?thesis by (simp add: list_all_iff ball_Un)
qed

theorem cursor_comparisons_agree_witness:
  "\<exists>qt qe. after [(''namespace'', Some ''document'')] (sample_rel ''d1'' ''u1'') ByResource (filterer sample_schema 0 []) = Ok qt \<and>
    after [(''namespace'', Some ''document'')] (sample_rel ''d1'' ''u1'') ByResource
      (filterer (sample_schema\<lparr>paginationFilterType := ExpandedLogicComparison\<rparr>) 0 []) = Ok qe \<and>
    (list_all (\<lambda>p. eval_pred 0 p (\<lambda>_. CText ''e'')) (selWhere (queryBuilder qt)) \<longleftrightarrow>
     list_all (\<lambda>p. eval_pred 0 p (\<lambda>_. CText ''e'')) (selWhere (queryBuilder qe)))"
proof -
  let ?ctm = "[(''namespace'', Some ''document'')]" and ?a = "sample_rel ''d1'' ''u1''"
  let ?se = "sample_schema\<lparr>paginationFilterType := ExpandedLogicComparison\<rparr>"
  have s: "sqSchema (filterer sample_schema 0 []) = sample_schema\<lparr>paginationFilterType := TupleComparison\<rparr>"
    by (simp add: sample_schema_def)
  have e: "(filterer sample_schema 0 [])\<lparr>sqSchema := ?se\<rparr> = filterer ?se 0 []"
    by (rule filterer_schema)
  have "\<exists>cvs. columnsAndValuesForSort ByResource sample_schema ?a = Ok cvs"
    "\<exists>cvs. columnsAndValuesForSort ByResource ?se ?a = Ok cvs"
    by (rule default_columns_Ok; simp add: sample_schema_def)+
  then obtain cvs cvs' where "columnsAndValuesForSort ByResource sample_schema ?a = Ok cvs"
    "columnsAndValuesForSort ByResource ?se ?a = Ok cvs'" by blast
  then obtain qt qe where t: "after ?ctm ?a ByResource (filterer sample_schema 0 []) = Ok qt"
    and x: "after ?ctm ?a ByResource (filterer ?se 0 []) = Ok qe"
    unfolding after_def filterer_simps by (metis sum.case(2))
  from cursor_comparisons_agree [OF ref_sql.sql_semantics_axioms sample_schema_plain s t] x
  show ?thesis unfolding e using t by blast
qed

text \<open>
  When a value is recorded for every column of the order, as after a filter on one relationship, the
  cursor adds no clause: the query behind a relationship returns this relationship again.
\<close>

theorem static_cursor_ignored:
  assumes "columnsAndValuesForSort order (sqSchema q) cursor = Ok cvs" and "list_all (hasStaticValue ctm) (map fst cvs)"
  shows "after ctm cursor order q = Ok q"
proof -
  have "filter (\<lambda>(c, _). \<not> hasStaticValue ctm c) cvs = []" using assms(2) by (auto simp: filter_empty_conv list_all_iff)
  moreover have "expanded_comparison ctm prev cvs = []" for prev
    using assms(2) by (induction cvs arbitrary: prev) auto
  ultimately show ?thesis using assms(1) by (simp add: after_def split: pagination_filter_type.split)
qed

theorem static_cursor_ignored_witness:
  "after [(''a'', Some ''x'')] (sample_rel ''d1'' ''u1'') ByResource
     (filterer (sample_schema\<lparr>colNamespace := ''a'', sortByResourceColumnOrder := [''a'']\<rparr>) 0 []) =
   Ok (filterer (sample_schema\<lparr>colNamespace := ''a'', sortByResourceColumnOrder := [''a'']\<rparr>) 0 [])"
  by (rule static_cursor_ignored [of _ _ _ "[(''a'', ''document'')]"])
    (simp_all add: columnsAndValuesForSort_def sortByResourceColumnOrderColumns_def hasStaticValue_def sample_rel_def)

end
