(* ===== verification/Sql_Read.thy ===== *)
theory Sql_Read
  imports Sql_Result
begin

text \<open>
  Reading rows back: the columns a statement selects and the variables its rows are scanned into are the
  same selection of one list, and a variable that is not scanned into holds the recorded value.
\<close>

section \<open>Variables\<close>

definition text_columns :: "schema_information \<Rightarrow> (string \<times> slot) list" where
  "text_columns s = [(colNamespace s, SlResourceType), (colObjectID s, SlResourceID), (colRelation s, SlResourceRelation),
     (colUsersetNamespace s, SlSubjectType), (colUsersetObjectID s, SlSubjectID), (colUsersetRelation s, SlSubjectRelation)]"

fun get_text :: "slot \<Rightarrow> scan_vars \<Rightarrow> string" where
  "get_text SlResourceType vs = vResourceType vs"
| "get_text SlResourceID vs = vResourceID vs"
| "get_text SlResourceRelation vs = vResourceRelation vs"
| "get_text SlSubjectType vs = vSubjectType vs"
| "get_text SlSubjectID vs = vSubjectID vs"
| "get_text SlSubjectRelation vs = vSubjectRelation vs"
| "get_text SlIntegrityKeyID vs = vIntegrityKeyID vs"
| "get_text _ vs = []"

definition text_slots :: "slot set" where
  "text_slots = {SlResourceType, SlResourceID, SlResourceRelation, SlSubjectType, SlSubjectID, SlSubjectRelation}"

definition rest_vars :: "scan_vars \<Rightarrow> string option \<times> any_map \<times> nanotime option \<times> bytes \<times> nanotime" where
  "rest_vars vs = (vCaveatName vs, vCaveatCtx vs, vExpiration vs, vIntegrityHash vs, vTimestamp vs)"

lemma get_set_text: "sl \<in> text_slots \<Longrightarrow> get_text sl' (set_text sl v vs) = (if sl' = sl then v else get_text sl' vs)"
  by (cases sl; cases sl') (simp_all add: text_slots_def)

lemma rest_set_text [simp]: "rest_vars (set_text sl v vs) = rest_vars vs"
  by (cases sl) (simp_all add: rest_vars_def)

lemma scan_text_slot: "sl \<in> text_slots \<Longrightarrow> scan_cell sl (CText v) vs = Some (set_text sl v vs)"
  by (auto simp: text_slots_def scan_cell_def scan_text_def)

section \<open>One selection of columns\<close>

definition read_column :: "rel_query_builder \<Rightarrow> string \<Rightarrow> bool" where
  "read_column b c \<longleftrightarrow>
     columnOptimization (rqSchema b) = ColumnOptimizationOptionNone \<or> \<not> hasStaticValue (rqFilteringValues b) c"

lemma checkColumn_foldl: "foldl (checkColumn b) acc cs = acc @ filter (read_column b) cs"
  by (induction cs arbitrary: acc) (simp_all add: checkColumn_def read_column_def)

lemma static_foldl:
  assumes "distinct (map snd ps)" and "snd ` set ps \<subseteq> text_slots"
    and "foldl (staticValueOrAddColumnForSelect b) (acc, vs) ps = (cols, vs')"
  shows "cols = acc @ map snd (filter (\<lambda>(c, _). read_column b c) ps)" and "rest_vars vs' = rest_vars vs"
    and "\<forall>sl. sl \<notin> snd ` set ps \<longrightarrow> get_text sl vs' = get_text sl vs"
    and "\<forall>(c, sl) \<in> set ps. \<not> read_column b c \<longrightarrow> static (rqFilteringValues b) c (get_text sl vs')"
proof -
  have "cols = acc @ map snd (filter (\<lambda>(c, _). read_column b c) ps) \<and> rest_vars vs' = rest_vars vs \<and>
    (\<forall>sl. sl \<notin> snd ` set ps \<longrightarrow> get_text sl vs' = get_text sl vs) \<and>
    (\<forall>(c, sl) \<in> set ps. \<not> read_column b c \<longrightarrow> static (rqFilteringValues b) c (get_text sl vs'))"
    using assms
  proof (induction ps arbitrary: acc vs)
    case (Cons p ps)
    obtain c sl where p: "p = (c, sl)" by fastforce
    have d: "sl \<notin> snd ` set ps" "distinct (map snd ps)" "sl \<in> text_slots" "snd ` set ps \<subseteq> text_slots"
      using Cons.prems(1,2) by (auto simp: p image_iff)
    show ?case
    proof (cases "read_column b c")
      case True
      then have "staticValueOrAddColumnForSelect b (acc, vs) (c, sl) = (acc @ [sl], vs)"
        by (auto simp: staticValueOrAddColumnForSelect_def read_column_def hasStaticValue_def split: option.splits)
      then have "foldl (staticValueOrAddColumnForSelect b) (acc @ [sl], vs) ps = (cols, vs')"
        using Cons.prems(3) by (simp add: p)
      from Cons.IH [OF d(2,4) this] True show ?thesis by (auto simp: p)
    next
      case False
      then obtain v where v: "static (rqFilteringValues b) c v" by (auto simp: read_column_def hasStaticValue_iff)
      then have "staticValueOrAddColumnForSelect b (acc, vs) (c, sl) = (acc, set_text sl v vs)"
        using False by (simp add: staticValueOrAddColumnForSelect_def read_column_def)
      then have "foldl (staticValueOrAddColumnForSelect b) (acc, set_text sl v vs) ps = (cols, vs')"
        using Cons.prems(3) by (simp add: p)
      from Cons.IH [OF d(2,4) this] False v d(1,3) show ?thesis by (auto simp: p get_set_text)
    qed
  qed simp
  then show "cols = acc @ map snd (filter (\<lambda>(c, _). read_column b c) ps)" "rest_vars vs' = rest_vars vs"
    "\<forall>sl. sl \<notin> snd ` set ps \<longrightarrow> get_text sl vs' = get_text sl vs"
    "\<forall>(c, sl) \<in> set ps. \<not> read_column b c \<longrightarrow> static (rqFilteringValues b) c (get_text sl vs')" by simp_all
qed

section \<open>Scanning\<close>

lemma scan_append:
  "length sls = length cs \<Longrightarrow>
     scan_row (sls @ sls') (cs @ cs') vs = (case scan_row sls cs vs of Err e \<Rightarrow> Err e | Ok vs1 \<Rightarrow> scan_row sls' cs' vs1)"
  by (induction sls cs arbitrary: vs rule: list_induct2) (simp_all split: option.split)

lemma scan_texts:
  assumes "distinct (map snd ps)" and "snd ` set ps \<subseteq> text_slots" and "\<forall>(c, sl) \<in> set ps. \<exists>v. r c = CText v"
  shows "\<exists>vs'. scan_row (map snd ps) (map (\<lambda>(c, _). r c) ps) vs = Ok vs' \<and> rest_vars vs' = rest_vars vs \<and>
    (\<forall>sl. sl \<notin> snd ` set ps \<longrightarrow> get_text sl vs' = get_text sl vs) \<and>
    (\<forall>(c, sl) \<in> set ps. r c = CText (get_text sl vs'))"
  using assms
proof (induction ps arbitrary: vs)
  case (Cons p ps)
  obtain c sl where p: "p = (c, sl)" by fastforce
  obtain v where v: "r c = CText v" using Cons.prems(3) by (auto simp: p)
  have d: "sl \<notin> snd ` set ps" "distinct (map snd ps)" "sl \<in> text_slots" "snd ` set ps \<subseteq> text_slots"
    "\<forall>(c, sl) \<in> set ps. \<exists>v. r c = CText v"
    using Cons.prems by (auto simp: p image_iff)
  from Cons.IH [OF d(2,4,5), of "set_text sl v vs"] obtain vs' where
    vs': "scan_row (map snd ps) (map (\<lambda>(c, _). r c) ps) (set_text sl v vs) = Ok vs'" "rest_vars vs' = rest_vars vs"
      "\<forall>sl'. sl' \<notin> snd ` set ps \<longrightarrow> get_text sl' vs' = get_text sl' (set_text sl v vs)"
      "\<forall>(c, sl) \<in> set ps. r c = CText (get_text sl vs')" by auto
  then show ?case using d v by (intro exI [of _ vs']) (auto simp: p scan_text_slot get_set_text)
qed simp

section \<open>Rows and relationships\<close>

definition returned :: "rel_query_builder \<Rightarrow> tuple_relationship \<Rightarrow> tuple_relationship" where
  "returned b rel = rel\<lparr>optionalCaveat := (if withCaveats b then optionalCaveat rel else None),
     optionalExpiration := (if withExpiration b then optionalExpiration rel else None)\<rparr>"

definition vars_ok :: "rel_query_builder \<Rightarrow> scan_vars \<Rightarrow> bool" where
  "vars_ok b vs \<longleftrightarrow>
     (\<forall>(c, sl) \<in> set (text_columns (rqSchema b)). \<not> read_column b c \<longrightarrow>
       static (rqFilteringValues b) c (get_text sl vs)) \<and>
     (\<not> withExpiration b \<longrightarrow> vExpiration vs = None) \<and> (\<not> integrityEnabled b \<longrightarrow> vIntegrityKeyID vs = [])"

definition agrees :: "tracker \<Rightarrow> sql_row \<Rightarrow> bool" where
  "agrees ctm r \<longleftrightarrow> (\<forall>c v. static ctm c v \<longrightarrow> r c = CText v)"

lemma text_columns_slots: "distinct (map snd (text_columns s))" "snd ` set (text_columns s) = text_slots"
  by (auto simp: text_columns_def text_slots_def)

text \<open>The columns after the first six.\<close>

definition other_columns :: "rel_query_builder \<Rightarrow> (string \<times> slot) list" where
  "other_columns b = (let s = rqSchema b in
     (if withCaveats b then [(colCaveatName s, SlCaveatName), (colCaveatContext s, SlCaveatCtx)] else []) @
     (if withExpiration b then [(colExpiration s, SlExpiration)] else []) @
     (if integrityEnabled b then [(colIntegrityKeyID s, SlIntegrityKeyID), (colIntegrityHash s, SlIntegrityHash),
        (colIntegrityTimestamp s, SlTimestamp)] else []))"

definition all_columns :: "rel_query_builder \<Rightarrow> (string \<times> slot) list" where
  "all_columns b = (let cs = filter (\<lambda>(c, _). read_column b c) (text_columns (rqSchema b)) @ other_columns b
     in if cs = [] then [(''1'', SlUnused)] else cs)"

lemma columns_of_query_eq: "columns_of_query b = map fst (all_columns b)"
proof -
  let ?cs = "filter (\<lambda>(c, _). read_column b c) (text_columns (rqSchema b))"
  have "map fst ?cs = filter (read_column b) (map fst (text_columns (rqSchema b)))"
    by (simp add: filter_map comp_def case_prod_beta')
  also have "\<dots> = foldl (checkColumn b) [] [colNamespace (rqSchema b), colObjectID (rqSchema b),
      colRelation (rqSchema b), colUsersetNamespace (rqSchema b), colUsersetObjectID (rqSchema b),
      colUsersetRelation (rqSchema b)]"
    by (simp only: checkColumn_foldl text_columns_def list.map fst_conv append.simps)
  finally have fold: "foldl (checkColumn b) [] [colNamespace (rqSchema b), colObjectID (rqSchema b),
      colRelation (rqSchema b), colUsersetNamespace (rqSchema b), colUsersetObjectID (rqSchema b),
      colUsersetRelation (rqSchema b)] = map fst ?cs" by (rule sym)
  show ?thesis
    unfolding columns_of_query_def Let_def fold by (auto simp: all_columns_def other_columns_def Let_def)
qed

lemma columnsToSelect_eq:
  obtains vs where "columnsToSelect b zero_vars = (map snd (all_columns b), vs)" "vars_ok b vs"
proof -
  obtain cols vs where f: "foldl (staticValueOrAddColumnForSelect b) ([], zero_vars) (text_columns (rqSchema b)) = (cols, vs)"
    by fastforce
  have "snd ` set (text_columns (rqSchema b)) \<subseteq> text_slots" using text_columns_slots(2) by simp
  note st = static_foldl [OF text_columns_slots(1) this f]
  have "vExpiration vs = None" using st(2) by (simp add: rest_vars_def zero_vars_def)
  moreover have "vIntegrityKeyID vs = []"
    using st(3) text_columns_slots(2) [of "rqSchema b"]
    by (simp add: text_slots_def zero_vars_def) (metis get_text.simps(7) scan_vars.select_convs(10) slot.distinct)
  ultimately have "vars_ok b vs" using st(4) by (simp add: vars_ok_def)
  moreover have "columnsToSelect b zero_vars = (map snd (all_columns b), vs)"
    using f st(1)
    by (auto simp: columnsToSelect_def text_columns_def [symmetric] all_columns_def other_columns_def integrityEnabled_def Let_def)
  ultimately show thesis using that by blast
qed

abbreviation cells :: "(string \<times> slot) list \<Rightarrow> sql_row \<Rightarrow> cell list" where
  "cells ps r \<equiv> map (\<lambda>(c, _). r c) ps"

definition same_text :: "scan_vars \<Rightarrow> scan_vars \<Rightarrow> bool" where
  "same_text vs vs' \<longleftrightarrow> (\<forall>sl \<in> text_slots. get_text sl vs' = get_text sl vs)"

lemma same_text_updates [simp]:
  "same_text vs vs" "same_text vs (vs'\<lparr>vCaveatName := n\<rparr>) = same_text vs vs'"
  "same_text vs (vs'\<lparr>vCaveatCtx := m\<rparr>) = same_text vs vs'" "same_text vs (vs'\<lparr>vExpiration := t\<rparr>) = same_text vs vs'"
  "same_text vs (vs'\<lparr>vIntegrityKeyID := k\<rparr>) = same_text vs vs'"
  "same_text vs (vs'\<lparr>vIntegrityHash := h\<rparr>) = same_text vs vs'" "same_text vs (vs'\<lparr>vTimestamp := u\<rparr>) = same_text vs vs'"
  by (simp_all add: same_text_def text_slots_def)

lemma scan_caveat:
  assumes "represents s L rel r"
  shows "\<exists>n m. scan_row [SlCaveatName, SlCaveatCtx] [r (colCaveatName s), r (colCaveatContext s)] vs =
      Ok (vs\<lparr>vCaveatName := n, vCaveatCtx := m\<rparr>) \<and>
    (case n of None \<Rightarrow> Ok None | Some n \<Rightarrow> contextualizedCaveatFrom L n m) = Ok (optionalCaveat rel)"
proof (cases "optionalCaveat rel")
  case None
  then obtain m where nm: "r (colCaveatName s) = CNull \<or> r (colCaveatName s) = CText []"
    and cx: "r (colCaveatContext s) = CNull \<or> r (colCaveatContext s) = CMap m"
    using assms by (auto simp: represents_def)
  let ?n = "if r (colCaveatName s) = CNull then None else Some []"
  let ?m = "if r (colCaveatContext s) = CNull then [] else m"
  have "scan_row [SlCaveatName, SlCaveatCtx] [r (colCaveatName s), r (colCaveatContext s)] vs =
      Ok (vs\<lparr>vCaveatName := ?n, vCaveatCtx := ?m\<rparr>)"
    using nm cx by (auto simp: scan_cell_def)
  then show ?thesis using None by (intro exI [of _ ?n] exI [of _ ?m]) (simp add: contextualizedCaveatFrom_def)
next
  case (Some c)
  then obtain m where "caveatName c \<noteq> []" "r (colCaveatName s) = CText (caveatName c)"
    "r (colCaveatContext s) = CMap m" "new_struct L m = Ok (caveatContext c)"
    using assms by (auto simp: represents_def)
  with Some show ?thesis
    by (intro exI [of _ "Some (caveatName c)"] exI [of _ m]) (simp add: scan_cell_def contextualizedCaveatFrom_def)
qed

lemma scan_expiration:
  assumes "represents s L rel r"
  shows "scan_row [SlExpiration] [r (colExpiration s)] vs = Ok (vs\<lparr>vExpiration := optionalExpiration rel\<rparr>)"
  using assms by (auto simp: represents_def scan_cell_def split: option.splits)

lemma scan_integrity:
  assumes "represents s L rel r" and "schIntegrityEnabled s"
  shows "\<exists>k h t. scan_row [SlIntegrityKeyID, SlIntegrityHash, SlTimestamp]
      [r (colIntegrityKeyID s), r (colIntegrityHash s), r (colIntegrityTimestamp s)] vs =
      Ok (vs\<lparr>vIntegrityKeyID := k, vIntegrityHash := h, vTimestamp := t\<rparr>) \<and>
    (if k \<noteq> [] then Some \<lparr>keyId = k, hashBytes = h, hashedAt = timestamp_new L t\<rparr> else None) = optionalIntegrity rel"
proof -
  obtain k h t where "r (colIntegrityKeyID s) = CText k" "r (colIntegrityHash s) = CBytes h"
    "r (colIntegrityTimestamp s) = CTime t"
    "(if k \<noteq> [] then Some \<lparr>keyId = k, hashBytes = h, hashedAt = timestamp_new L t\<rparr> else None) = optionalIntegrity rel"
    using assms by (cases "optionalIntegrity rel") (auto simp: represents_def)
  then show ?thesis by (intro exI [of _ k] exI [of _ h] exI [of _ t]) (simp add: scan_cell_def scan_text_def)
qed

lemma scan_others:
  assumes "represents (rqSchema b) L rel r"
  obtains vs' where "scan_row (map snd (other_columns b)) (cells (other_columns b) r) vs = Ok vs'" "same_text vs vs'"
    "withCaveats b \<longrightarrow> (case vCaveatName vs' of None \<Rightarrow> Ok None | Some n \<Rightarrow> contextualizedCaveatFrom L n (vCaveatCtx vs')) =
       Ok (optionalCaveat rel)"
    "vExpiration vs' = (if withExpiration b then optionalExpiration rel else vExpiration vs)"
    "integrityEnabled b \<longrightarrow> (if vIntegrityKeyID vs' \<noteq> [] then Some \<lparr>keyId = vIntegrityKeyID vs',
       hashBytes = vIntegrityHash vs', hashedAt = timestamp_new L (vTimestamp vs')\<rparr> else None) = optionalIntegrity rel"
    "\<not> integrityEnabled b \<longrightarrow> vIntegrityKeyID vs' = vIntegrityKeyID vs"
proof -
  let ?s = "rqSchema b"
  obtain n m where cav: "scan_row [SlCaveatName, SlCaveatCtx] [r (colCaveatName ?s), r (colCaveatContext ?s)] vs =
      Ok (vs\<lparr>vCaveatName := n, vCaveatCtx := m\<rparr>)"
    "(case n of None \<Rightarrow> Ok None | Some n \<Rightarrow> contextualizedCaveatFrom L n m) = Ok (optionalCaveat rel)"
    using scan_caveat [OF assms] by blast
  let ?v1 = "if withCaveats b then vs\<lparr>vCaveatName := n, vCaveatCtx := m\<rparr> else vs"
  let ?v2 = "if withExpiration b then ?v1\<lparr>vExpiration := optionalExpiration rel\<rparr> else ?v1"
  obtain k h t where ig: "integrityEnabled b \<Longrightarrow> scan_row [SlIntegrityKeyID, SlIntegrityHash, SlTimestamp]
      [r (colIntegrityKeyID ?s), r (colIntegrityHash ?s), r (colIntegrityTimestamp ?s)] ?v2 =
      Ok (?v2\<lparr>vIntegrityKeyID := k, vIntegrityHash := h, vTimestamp := t\<rparr>)"
    "integrityEnabled b \<Longrightarrow> (if k \<noteq> [] then Some \<lparr>keyId = k, hashBytes = h, hashedAt = timestamp_new L t\<rparr> else None) =
      optionalIntegrity rel"
    using scan_integrity [OF assms] unfolding integrityEnabled_def by metis
  let ?v3 = "if integrityEnabled b then ?v2\<lparr>vIntegrityKeyID := k, vIntegrityHash := h, vTimestamp := t\<rparr> else ?v2"
  let ?c = "if withCaveats b then [(colCaveatName ?s, SlCaveatName), (colCaveatContext ?s, SlCaveatCtx)] else []"
  let ?e = "if withExpiration b then [(colExpiration ?s, SlExpiration)] else []"
  let ?i = "if integrityEnabled b then [(colIntegrityKeyID ?s, SlIntegrityKeyID), (colIntegrityHash ?s, SlIntegrityHash),
        (colIntegrityTimestamp ?s, SlTimestamp)] else []"
  have 1: "scan_row (map snd ?c) (cells ?c r) vs = Ok ?v1" using cav(1) by simp
  have 2: "scan_row (map snd ?e) (cells ?e r) ?v1 = Ok ?v2" using scan_expiration [OF assms, of ?v1] by simp
  have 3: "scan_row (map snd ?i) (cells ?i r) ?v2 = Ok ?v3" using ig(1) by simp
  have "other_columns b = ?c @ ?e @ ?i" by (simp only: other_columns_def Let_def)
  then have "scan_row (map snd (other_columns b)) (cells (other_columns b) r) vs = Ok ?v3"
    by (simp only: map_append scan_append length_map 1 2 3 sum.case)
  then show thesis
    by (rule that; cases n; cases "k = []") (use cav(2) ig(2) in auto)
qed

text \<open>One row: it is scanned, becomes its relationship, and the variables stay as the next row needs them.\<close>

lemma scan_represents:
  assumes "represents (rqSchema b) L rel r" and "agrees (rqFilteringValues b) r" and "vars_ok b vs"
  obtains vs1 where "scan_row (map snd (all_columns b)) (cells (all_columns b) r) vs = Ok vs1"
    "row_to_relationship L b vs1 = Ok (returned b rel)" "vars_ok b vs1"
proof -
  let ?s = "rqSchema b"
  let ?t = "filter (\<lambda>(c, _). read_column b c) (text_columns ?s)"
  have cell: "\<exists>v. r c = CText v" if "(c, sl) \<in> set (text_columns ?s)" for c sl
    using that assms(1) by (auto simp: text_columns_def represents_def)
  have "distinct (map snd ?t)" "snd ` set ?t \<subseteq> text_slots" "\<forall>(c, sl) \<in> set ?t. \<exists>v. r c = CText v"
    using text_columns_slots [of ?s] cell by (auto simp: distinct_map_filter)
  from scan_texts [OF this, of vs] obtain va where va: "scan_row (map snd ?t) (cells ?t r) vs = Ok va"
    "rest_vars va = rest_vars vs" "\<forall>sl. sl \<notin> snd ` set ?t \<longrightarrow> get_text sl va = get_text sl vs"
    "\<forall>(c, sl) \<in> set ?t. r c = CText (get_text sl va)" by blast
  obtain vb where vb: "scan_row (map snd (other_columns b)) (cells (other_columns b) r) va = Ok vb" "same_text va vb"
    "withCaveats b \<longrightarrow> (case vCaveatName vb of None \<Rightarrow> Ok None | Some n \<Rightarrow> contextualizedCaveatFrom L n (vCaveatCtx vb)) =
       Ok (optionalCaveat rel)"
    "vExpiration vb = (if withExpiration b then optionalExpiration rel else vExpiration va)"
    "integrityEnabled b \<longrightarrow> (if vIntegrityKeyID vb \<noteq> [] then Some \<lparr>keyId = vIntegrityKeyID vb,
       hashBytes = vIntegrityHash vb, hashedAt = timestamp_new L (vTimestamp vb)\<rparr> else None) = optionalIntegrity rel"
    "\<not> integrityEnabled b \<longrightarrow> vIntegrityKeyID vb = vIntegrityKeyID va"
    by (rule scan_others [OF assms(1), of va]) blast
  have scan: "scan_row (map snd (all_columns b)) (cells (all_columns b) r) vs = Ok vb"
  proof (cases "?t @ other_columns b = []")
    case True
    then have "all_columns b = [(''1'', SlUnused)]" by (simp add: all_columns_def Let_def)
    moreover have "vb = vs" using True va(1) vb(1) by simp
    moreover have "r ''1'' = CInt 1" using assms(1) by (simp add: represents_def)
    ultimately show ?thesis by (simp add: scan_cell_def)
  next
    case False
    then have "all_columns b = ?t @ other_columns b" by (auto simp: all_columns_def Let_def)
    then show ?thesis using va(1) vb(1) by (simp only: map_append scan_append length_map sum.case)
  qed
  have texts: "r c = CText (get_text sl vb)" if "(c, sl) \<in> set (text_columns ?s)" for c sl
  proof -
    have sl: "sl \<in> text_slots" using that text_columns_slots(2) [of ?s] by force
    then have eq: "get_text sl vb = get_text sl va" using vb(2) by (simp add: same_text_def)
    show ?thesis
    proof (cases "read_column b c")
      case True
      then show ?thesis using va(4) that eq by auto
    next
      case False
      have "sl \<notin> snd ` set ?t"
      proof
        assume "sl \<in> snd ` set ?t"
        then obtain d where "(d, sl) \<in> set (text_columns ?s)" "read_column b d" by auto
        moreover have "inj_on snd (set (text_columns ?s))" using text_columns_slots(1) [of ?s] by (simp add: distinct_map)
        ultimately have "(d, sl) = (c, sl)" using that by (metis inj_onD snd_conv)
        then show False using \<open>read_column b d\<close> False by simp
      qed
      then have "get_text sl va = get_text sl vs" using va(3) by blast
      moreover have "static (rqFilteringValues b) c (get_text sl vs)"
        using assms(3) False that unfolding vars_ok_def by blast
      ultimately show ?thesis using assms(2) eq by (simp add: agrees_def)
    qed
  qed
  have ref: "resource rel = \<lparr>objectType = vResourceType vb, objectID = vResourceID vb, objRelation = vResourceRelation vb\<rparr>"
    "subject rel = \<lparr>objectType = vSubjectType vb, objectID = vSubjectID vb, objRelation = vSubjectRelation vb\<rparr>"
  proof -
    have "r (colNamespace ?s) = CText (vResourceType vb)" "r (colObjectID ?s) = CText (vResourceID vb)"
      "r (colRelation ?s) = CText (vResourceRelation vb)" "r (colUsersetNamespace ?s) = CText (vSubjectType vb)"
      "r (colUsersetObjectID ?s) = CText (vSubjectID vb)" "r (colUsersetRelation ?s) = CText (vSubjectRelation vb)"
      using texts [of _ SlResourceType] texts [of _ SlResourceID] texts [of _ SlResourceRelation]
        texts [of _ SlSubjectType] texts [of _ SlSubjectID] texts [of _ SlSubjectRelation]
      by (simp_all add: text_columns_def)
    then show "resource rel = \<lparr>objectType = vResourceType vb, objectID = vResourceID vb, objRelation = vResourceRelation vb\<rparr>"
      "subject rel = \<lparr>objectType = vSubjectType vb, objectID = vSubjectID vb, objRelation = vSubjectRelation vb\<rparr>"
      using assms(1) by (simp_all add: represents_def)
  qed
  have rest: "vExpiration va = vExpiration vs" using va(2) by (simp add: rest_vars_def)
  have key: "vIntegrityKeyID va = vIntegrityKeyID vs"
  proof -
    have "SlIntegrityKeyID \<notin> snd ` set (text_columns ?s)"
      unfolding text_columns_slots(2) by (simp add: text_slots_def)
    then have "SlIntegrityKeyID \<notin> snd ` set ?t" by auto
    then have "get_text SlIntegrityKeyID va = get_text SlIntegrityKeyID vs" using va(3) by blast
    then show ?thesis by simp
  qed
  have ex: "vExpiration vb = (if withExpiration b then optionalExpiration rel else None)"
    using vb(4) rest assms(3) by (simp add: vars_ok_def)
  have ig: "(if vIntegrityKeyID vb \<noteq> [] then Some \<lparr>keyId = vIntegrityKeyID vb, hashBytes = vIntegrityHash vb,
      hashedAt = timestamp_new L (vTimestamp vb)\<rparr> else None) = optionalIntegrity rel"
  proof (cases "integrityEnabled b")
    case True
    then show ?thesis using vb(5) by blast
  next
    case False
    then show ?thesis
      using vb(6) key assms(1,3) by (simp add: vars_ok_def represents_def integrityEnabled_def)
  qed
  have row: "row_to_relationship L b vb = Ok (returned b rel)"
    using vb(3) by (simp add: row_to_relationship_def returned_def ref ex ig [symmetric] Let_def)
  have "vars_ok b vb"
  proof -
    have "static (rqFilteringValues b) c (get_text sl vb)"
      if "(c, sl) \<in> set (text_columns ?s)" "\<not> read_column b c" for c sl
    proof -
      have st: "static (rqFilteringValues b) c (get_text sl vs)"
        using assms(3) that unfolding vars_ok_def by blast
      then have "r c = CText (get_text sl vs)" using assms(2) by (simp add: agrees_def)
      then show ?thesis using st texts [OF that(1)] by simp
    qed
    moreover have "\<not> integrityEnabled b \<longrightarrow> vIntegrityKeyID vb = []" using vb(6) key assms(3) by (simp add: vars_ok_def)
    ultimately show ?thesis using ex by (auto simp: vars_ok_def)
  qed
  with scan row show thesis by (rule that)
qed

text \<open>All rows.\<close>

lemma read_rows_represent:
  assumes "list_all2 (represents (rqSchema b) L) rels rs" and "\<forall>r \<in> set rs. agrees (rqFilteringValues b) r" and "vars_ok b vs"
  shows "read_rows L b (map snd (all_columns b)) vs (map (cells (all_columns b)) rs) None = map (Ok \<circ> returned b) rels"
  using assms
proof (induction rels rs arbitrary: vs rule: list_all2_induct)
  case (Cons rel rels r rs)
  obtain vs1 where "scan_row (map snd (all_columns b)) (cells (all_columns b) r) vs = Ok vs1"
    "row_to_relationship L b vs1 = Ok (returned b rel)" "vars_ok b vs1"
    using scan_represents [of b L rel r vs] Cons.hyps Cons.prems by auto
  then show ?case using Cons.IH [of vs1] Cons.prems by simp
qed simp

end
