(* ===== verification/Sql_Engine.thy ===== *)
theory Sql_Engine
  imports Sql_Read
begin

text \<open>
  Running the statements. The locale \<open>sql_engine\<close> is what a database promises of a rendered query; on it
  the query path of the SQL datastores is shown to return the selection that the in-memory datastore
  returns for the same filter and options.
\<close>

section \<open>The contract of a database\<close>

definition sort_values :: "string list \<Rightarrow> sql_row \<Rightarrow> string list" where
  "sort_values cols r = map (\<lambda>c. case r c of CText v \<Rightarrow> v | _ \<Rightarrow> []) cols"

definition answers ::
    "(sql_pred \<Rightarrow> sql_row \<Rightarrow> bool) \<Rightarrow> sql_row list \<Rightarrow> sql_select \<Rightarrow> sql_row list \<Rightarrow> bool" where
  "answers holds table sel rs \<longleftrightarrow> (\<exists>ss. mset ss = mset (filter (\<lambda>r. \<forall>p \<in> set (selWhere sel). holds p r) table) \<and>
     sorted_wrt (\<lambda>a b. sort_values (selOrderBy sel) a \<le> sort_values (selOrderBy sel) b) ss \<and>
     rs = limited (selLimit sel) ss)"

locale sql_engine = sql_semantics holds "(<)" future
  for holds :: "sql_pred \<Rightarrow> sql_row \<Rightarrow> bool" and future :: "string \<Rightarrow> nanotime \<Rightarrow> bool" +
  fixes toSql :: "sql_select \<Rightarrow> 's result"
    and queryFunc :: "'s \<Rightarrow> (cell list list \<times> go_error option) result"
    and table :: "string \<Rightarrow> sql_row list"
  assumes renders: "selColumns sel \<noteq> [] \<Longrightarrow> \<exists>st. toSql sel = Ok st"
    and runs: "toSql sel = Ok st \<Longrightarrow> selFrom sel = Some t \<Longrightarrow>
      (\<forall>r \<in> set (table t). \<forall>c \<in> set (selOrderBy sel). \<exists>v. r c = CText v) \<Longrightarrow>
      \<exists>rs. answers holds (table t) sel rs \<and> queryFunc st = Ok (map (\<lambda>r. map r (selColumns sel)) rs, None)"

section \<open>An executable engine\<close>

definition run_select :: "nanotime \<Rightarrow> (string \<Rightarrow> sql_row list) \<Rightarrow> sql_select \<Rightarrow> (cell list list \<times> go_error option) result" where
  "run_select now table sel = (case selFrom sel of
     None \<Rightarrow> Err (LibError ''no table'')
   | Some t \<Rightarrow> Ok (map (\<lambda>r. map r (selColumns sel)) (limited (selLimit sel)
       (sort_key (sort_values (selOrderBy sel)) (filter (\<lambda>r. list_all (\<lambda>p. eval_pred now p r) (selWhere sel)) (table t)))),
       None))"

interpretation ref_engine: sql_engine "eval_pred now" "\<lambda>_ t. now < t" Ok "run_select now table" table for now table
proof
  fix sel :: sql_select and st :: sql_select and t
  show "\<exists>st. Ok sel = Ok st" by simp
  assume "Ok sel = Ok st" and "selFrom sel = Some t"
  let ?fs = "filter (\<lambda>r. \<forall>p \<in> set (selWhere sel). eval_pred now p r) (table t)"
  let ?ss = "sort_key (sort_values (selOrderBy sel)) ?fs"
  have "sorted_wrt (\<lambda>a b. sort_values (selOrderBy sel) a \<le> sort_values (selOrderBy sel) b) ?ss"
    using sorted_sort_key [of "sort_values (selOrderBy sel)" ?fs] by (simp add: sorted_wrt_map)
  then have "answers (eval_pred now) (table t) sel (limited (selLimit sel) ?ss)"
    unfolding answers_def by (intro exI [of _ ?ss]) simp
  then show "\<exists>rs. answers (eval_pred now) (table t) sel rs \<and>
      run_select now table st = Ok (map (\<lambda>r. map r (selColumns sel)) rs, None)"
    using \<open>Ok sel = Ok st\<close> \<open>selFrom sel = Some t\<close> by (auto simp: run_select_def list_all_iff)
qed

section \<open>From rows to relationships\<close>

lemma list_all2_filter:
  assumes "list_all2 R xs ys" and "\<And>x y. R x y \<Longrightarrow> P x \<longleftrightarrow> Q y"
  shows "list_all2 R (filter P xs) (filter Q ys)"
  using assms(1) by (induction rule: list_all2_induct) (simp_all add: assms(2))

lemma answered_relationships:
  assumes "list_all2 R rels table" and "answers holds table sel rs"
    and "\<And>rel r. R rel r \<Longrightarrow> P rel \<longleftrightarrow> (\<forall>p \<in> set (selWhere sel). holds p r)"
    and "\<And>rel r. R rel r \<Longrightarrow> sort_values (selOrderBy sel) r = k rel"
    and "distinct (map k rels)"
  obtains ys where "list_all2 R (limited (selLimit sel) ys) rs" "set ys = {rel \<in> set rels. P rel}"
    "sorted_wrt (\<lambda>a b. k a < k b) ys" "\<forall>r \<in> set rs. \<forall>p \<in> set (selWhere sel). holds p r"
proof -
  let ?Q = "\<lambda>r. \<forall>p \<in> set (selWhere sel). holds p r"
  obtain ss where ss: "mset ss = mset (filter ?Q table)" "rs = limited (selLimit sel) ss"
    "sorted_wrt (\<lambda>a b. sort_values (selOrderBy sel) a \<le> sort_values (selOrderBy sel) b) ss"
    using assms(2) unfolding answers_def by blast
  have "list_all2 R (filter P rels) (filter ?Q table)" by (rule list_all2_filter [OF assms(1,3)])
  then have "list_all2 (\<lambda>r rel. R rel r) (filter ?Q table) (filter P rels)"
    by (simp add: list_all2_conv_all_nth)
  from list_all2_reorder_left_invariance [OF this ss(1)]
  obtain ys where "list_all2 (\<lambda>r rel. R rel r) ss ys" and "mset ys = mset (filter P rels)" by blast
  then have ys: "list_all2 R ys ss" "mset ys = mset (filter P rels)" by (simp_all add: list_all2_conv_all_nth)
  have "map (sort_values (selOrderBy sel)) ss = map k ys"
    using ys(1) by (induction rule: list_all2_induct) (simp_all add: assms(4))
  then have "sorted (map k ys)" using ss(3) by (metis sorted_wrt_map)
  moreover have "distinct (map k ys)"
  proof -
    have "mset (map k ys) = mset (map k (filter P rels))" using ys(2) by simp
    moreover have "distinct (map k (filter P rels))" using assms(5) by (rule distinct_map_filter)
    ultimately show ?thesis by (metis mset_eq_imp_distinct_iff)
  qed
  ultimately have "sorted_wrt (<) (map k ys)" by (simp add: strict_sorted_iff)
  then have "sorted_wrt (\<lambda>a b. k a < k b) ys" by (simp add: sorted_wrt_map)
  moreover have "list_all2 R (limited (selLimit sel) ys) rs"
    using ys(1) ss(2) by (simp add: limited_def list_all2_takeI split: option.split)
  moreover have "set ys = {rel \<in> set rels. P rel}"
    using ys(2) by (metis set_filter set_mset_mset)
  moreover have "\<forall>r \<in> set rs. ?Q r"
  proof -
    have "set ss = set (filter ?Q table)" using ss(1) by (rule mset_eq_setD)
    then show ?thesis using ss(2) by (auto simp: limited_def dest: in_set_takeD split: option.splits)
  qed
  ultimately show thesis by (intro that)
qed

section \<open>The default order\<close>

definition six_columns :: "schema_information \<Rightarrow> string list" where
  "six_columns s = map fst (text_columns s)"

lemma sort_values_represents:
  assumes "represents s L rel r"
  shows "sortByResourceColumnOrder s = [] \<Longrightarrow> sort_values (sortByResourceColumnOrderColumns s) r = res_key rel"
    and "sortBySubjectColumnOrder s = [] \<Longrightarrow> sort_values (sortBySubjectColumnOrderColumns s) r = subj_key rel"
  using assms
  by (simp_all add: sort_values_def sortByResourceColumnOrderColumns_def sortBySubjectColumnOrderColumns_def
      represents_def res_key_def subj_key_def ref_key_def rel_ref_def)

lemma sort_columns_set:
  "sortByResourceColumnOrder s = [] \<Longrightarrow> set (sortByResourceColumnOrderColumns s) = set (six_columns s)"
  "sortBySubjectColumnOrder s = [] \<Longrightarrow> set (sortBySubjectColumnOrderColumns s) = set (six_columns s)"
  by (auto simp: sortByResourceColumnOrderColumns_def sortBySubjectColumnOrderColumns_def six_columns_def text_columns_def)

lemma six_columns_text: "represents s L rel r \<Longrightarrow> c \<in> set (six_columns s) \<Longrightarrow> \<exists>v. r c = CText v"
  by (auto simp: six_columns_def text_columns_def represents_def)

text \<open>A cursor that is itself a row: its columns are those of the row.\<close>

lemma cursor_columns:
  assumes "order = ByResource \<or> order = BySubject" and "sortByResourceColumnOrder s = []" and "sortBySubjectColumnOrder s = []"
    and "represents s L a r"
  obtains cvs where "columnsAndValuesForSort order s a = Ok cvs" "map snd cvs = (if order = BySubject then subj_key a else res_key a)"
    "set (map fst cvs) = set (six_columns s)" "\<forall>(c, v) \<in> set cvs. r c = CText v"
proof -
  let ?cs = "if order = BySubject then sortBySubjectColumnOrderColumns s else sortByResourceColumnOrderColumns s"
  have cs: "set ?cs = set (six_columns s)" using sort_columns_set assms(2,3) by simp
  have "\<exists>v. cursor_value s a c = Some v" if "c \<in> set ?cs" for c
    using that cs by (auto simp: cursor_value_def six_columns_def text_columns_def)
  then have "columns_and_values s a ?cs = Ok (map (\<lambda>c. (c, the (cursor_value s a c))) ?cs)"
    unfolding columns_and_values_Ok by (auto simp: comp_def)
  moreover have "columnsAndValuesForSort order s a = columns_and_values s a ?cs"
    using assms(1) by (auto simp: columnsAndValuesForSort_def)
  ultimately have ok: "columnsAndValuesForSort order s a = Ok (map (\<lambda>c. (c, the (cursor_value s a c))) ?cs)" by simp
  let ?cvs = "map (\<lambda>c. (c, the (cursor_value s a c))) ?cs"
  have row: "\<forall>(c, v) \<in> set ?cvs. r c = CText v"
    using \<open>\<And>c. c \<in> set ?cs \<Longrightarrow> \<exists>v. cursor_value s a c = Some v\<close> represents_value [OF assms(4)] by force
  have "map snd ?cvs = sort_values ?cs r"
    using row unfolding sort_values_def by auto
  also have "\<dots> = (if order = BySubject then subj_key a else res_key a)"
    using sort_values_represents [OF assms(4)] assms(2,3) by simp
  finally have "map snd ?cvs = (if order = BySubject then subj_key a else res_key a)" .
  moreover have "set (map fst ?cvs) = set (six_columns s)" using cs by (simp add: comp_def)
  ultimately show thesis using ok row that by blast
qed

section \<open>The prepared query\<close>

definition query_order :: "query_options \<Rightarrow> sort_order" where
  "query_order opts = (if qSort opts = BySubject then BySubject else ByResource)"

definition order_columns :: "schema_information \<Rightarrow> query_options \<Rightarrow> string list" where
  "order_columns s opts = (if qSort opts = BySubject then sortBySubjectColumnOrderColumns s
     else sortByResourceColumnOrderColumns s)"

lemma query_step_simps [simp]:
  "sqSchema (sq_order_by cols q) = sqSchema q" "isCustomQuery (sq_order_by cols q) = isCustomQuery q"
  "fromTable (sq_order_by cols q) = fromTable q" "fromSuffix (sq_order_by cols q) = fromSuffix q"
  "indexingHint (sq_order_by cols q) = indexingHint q"
  "sqSchema (sq_limit n q) = sqSchema q" "isCustomQuery (sq_limit n q) = isCustomQuery q"
  "fromTable (sq_limit n q) = fromTable q" "fromSuffix (sq_limit n q) = fromSuffix q"
  "indexingHint (sq_limit n q) = indexingHint q" "sqSchema (sq_from t q) = sqSchema q"
  "queryBuilder (sq_order_by cols q) = (queryBuilder q)\<lparr>selOrderBy := selOrderBy (queryBuilder q) @ cols\<rparr>"
  "queryBuilder (sq_limit n q) = (queryBuilder q)\<lparr>selLimit := Some n\<rparr>"
  "queryBuilder (sq_from t q) = (queryBuilder q)\<lparr>selFrom := Some t\<rparr>"
  by (simp_all add: sq_order_by_def sq_limit_def sq_from_def)

lemma queryBuilder_add_where:
  "queryBuilder (add_where ps q) = (queryBuilder q)\<lparr>selWhere := selWhere (queryBuilder q) @ ps\<rparr>"
  by (simp add: add_where_def)

lemma apply_no_hints: "indexingHint q = None \<Longrightarrow> apply_hints q t = Ok (q, t)"
  by (simp add: apply_hints_def)

text \<open>A query without hints, in one of the two orders.\<close>

lemma prepareQuery_plain:
  assumes "qSort opts \<in> {ByResource, BySubject, ChooseEfficient}" and "\<forall>n. qLimit opts = Some n \<longrightarrow> n < maxInt64"
    and "(case qAfter opts of None \<Rightarrow> ps' = [] | Some a \<Rightarrow>
      after ctm a (query_order opts) (tupleOrder (query_order opts) (add_where ps (filterer s maxIDs extra))) =
        Ok (add_where ps' (tupleOrder (query_order opts) (add_where ps (filterer s maxIDs extra)))))"
  shows "\<exists>b. prepareQuery ctm (add_where ps (filterer s maxIDs extra)) opts = Ok b \<and> rqSchema b = s \<and>
    rqSkipCaveats b = qSkipCaveats opts \<and> rqSkipExpiration b = qSkipExpiration opts \<and> rqFilteringValues b = ctm \<and>
    queryBuilder (rqBase b) = \<lparr>selPrefixes = [], selColumns = [], selFrom = Some (relationshipTableName s),
      selWhere = ps @ ps', selOrderBy = order_columns s opts, selLimit = qLimit opts\<rparr> \<and> sqSchema (rqBase b) = s"
proof -
  let ?q = "add_where ps (filterer s maxIDs extra)"
  have srt: "effective_sort ?q (qSort opts) = query_order opts"
    using assms(1) by (auto simp: effective_sort_def query_order_def)
  have uns: "query_order opts \<noteq> Unsorted" by (simp add: query_order_def)
  have ord: "tupleOrder (query_order opts) ?q = sq_order_by (order_columns s opts) ?q"
    by (simp add: tupleOrder_def query_order_def order_columns_def)
  let ?q1 = "tupleOrder (query_order opts) ?q"
  have aft: "(case qAfter opts of None \<Rightarrow> Ok ?q1 | Some cursor \<Rightarrow> if query_order opts = Unsorted then Err CursorsWithoutSorting
      else after ctm cursor (query_order opts) ?q1) = Ok (add_where ps' ?q1)"
    using assms(3) uns by (auto split: option.splits)
  let ?q2 = "add_where ps' ?q1"
  let ?q3 = "if (case qLimit opts of None \<Rightarrow> maxInt64 | Some n \<Rightarrow> n) < maxInt64
    then sq_limit (case qLimit opts of None \<Rightarrow> maxInt64 | Some n \<Rightarrow> n) ?q2 else ?q2"
  have q3: "indexingHint ?q3 = None" "fromTable ?q3 = []" "fromSuffix ?q3 = []" "sqSchema ?q3 = s"
    by (simp_all add: ord)
  have "queryBuilder ?q3 = \<lparr>selPrefixes = [], selColumns = [], selFrom = None, selWhere = ps @ ps',
      selOrderBy = order_columns s opts, selLimit = qLimit opts\<rparr>"
    using assms(2) by (cases "qLimit opts") (simp_all add: ord queryBuilder_add_where empty_select_def)
  then have qb: "queryBuilder (sq_from t ?q3) = \<lparr>selPrefixes = [], selColumns = [], selFrom = Some t, selWhere = ps @ ps',
      selOrderBy = order_columns s opts, selLimit = qLimit opts\<rparr>" for t
    by (simp only: query_step_simps(14)) simp
  have "prepareQuery ctm ?q opts = Ok \<lparr>rqSchema = s, rqSkipCaveats = qSkipCaveats opts,
      rqSkipExpiration = qSkipExpiration opts, rqFilteringValues = ctm, rqBase = sq_from (relationshipTableName s) ?q3\<rparr>"
    unfolding prepareQuery_def Let_def srt aft sum.case apply_no_hints [OF q3(1)] prod.case q3(2,3)
    by (simp add: ord)
  with qb q3(4) show ?thesis by simp
qed

lemma shown_all:
  assumes "\<not> qSkipCaveats opts" and "\<not> qSkipExpiration opts" and "\<not> expirationDisabled s"
    and "rqSchema b = s" and "rqSkipCaveats b = qSkipCaveats opts" and "rqSkipExpiration b = qSkipExpiration opts"
  shows "returned b rel = rel"
  using assms by (simp add: returned_def withCaveats_def withExpiration_def)

context sql_engine begin

lemma cursor_clauses:
  assumes "plain_columns s" and "paginationFilterType s \<in> {TupleComparison, ExpandedLogicComparison}"
    and "sortByResourceColumnOrder s = []" and "sortBySubjectColumnOrder s = []"
    and "\<forall>a. qAfter opts = Some a \<longrightarrow> (\<exists>ra. represents s L a ra \<and> agrees ctm ra) \<and>
      (\<exists>c \<in> set (six_columns s). \<not> hasStaticValue ctm c)"
    and "sqSchema q = s" and "qSort opts \<noteq> Unsorted"
  shows "\<exists>ps'. (case qAfter opts of None \<Rightarrow> ps' = [] | Some a \<Rightarrow> after ctm a (query_order opts) q = Ok (add_where ps' q)) \<and>
    (\<forall>rel r. represents s L rel r \<longrightarrow> agrees ctm r \<longrightarrow> (\<forall>p \<in> set ps'. holds p r) = behind_cursor opts rel)"
proof (cases "qAfter opts")
  case None
  then show ?thesis by (intro exI [of _ "[]"]) (simp add: behind_cursor_def)
next
  case (Some a)
  then obtain ra where ra: "represents s L a ra" "agrees ctm ra" using assms(5) by blast
  obtain c0 where c0: "c0 \<in> set (six_columns s)" "\<not> hasStaticValue ctm c0" using assms(5) Some by blast
  have ord: "query_order opts = ByResource \<or> query_order opts = BySubject" by (simp add: query_order_def)
  have key: "(if query_order opts = BySubject then subj_key x else res_key x) = order_key opts x" for x
    by (simp add: query_order_def order_key_def)
  obtain cvs where cvs: "columnsAndValuesForSort (query_order opts) s a = Ok cvs" "map snd cvs = order_key opts a"
    "set (map fst cvs) = set (six_columns s)" "\<forall>(c, v) \<in> set cvs. ra c = CText v"
    using cursor_columns [OF ord assms(3,4) ra(1)] key by metis
  obtain q' where q': "after ctm a (query_order opts) q = Ok q'"
    using cvs(1) assms(6) by (simp add: after_def)
  from after_spec [OF _ q'] obtain ps' where ps': "q' = add_where ps' q"
    "\<And>r. (\<forall>p \<in> set ps'. holds p r) \<longleftrightarrow> (\<forall>(c, v) \<in> set cvs. hasStaticValue ctm c) \<or>
      lex_after (<) (filter (\<lambda>(c, _). \<not> hasStaticValue ctm c) cvs) r"
    using assms(1,2,6) cvs(1) by metis
  have "\<not> (\<forall>(c, v) \<in> set cvs. hasStaticValue ctm c)"
    using c0 cvs(3) by (metis (no_types, lifting) case_prod_beta' imageE list.set_map)
  moreover have "lex_after (<) (filter (\<lambda>(c, _). \<not> hasStaticValue ctm c) cvs) r = behind_cursor opts rel"
    if r: "represents s L rel r" "agrees ctm r" for rel r
  proof -
    obtain ws where ws: "columnsAndValuesForSort (query_order opts) s rel = Ok ws" "map snd ws = order_key opts rel"
      "\<forall>(c, w) \<in> set ws. r c = CText w"
      using cursor_columns [OF ord assms(3,4) r(1)] key by metis
    have "\<forall>(c, v) \<in> set cvs. \<not> hasStaticValue ctm c \<or> r c = CText v"
    proof clarify
      fix c v assume cv: "(c, v) \<in> set cvs" and ne: "r c \<noteq> CText v" and "hasStaticValue ctm c"
      then obtain w where "static ctm c w" by (auto simp: hasStaticValue_iff)
      then have "ra c = CText w" "r c = CText w" using ra(2) r(2) by (simp_all add: agrees_def)
      moreover have "ra c = CText v" using cvs(4) cv by blast
      ultimately show False using ne by simp
    qed
    then have "lex_after (<) (filter (\<lambda>(c, _). \<not> hasStaticValue ctm c) cvs) r = lex_after (<) cvs r"
      by (intro lex_after_free) auto
    also have "\<dots> \<longleftrightarrow> map snd cvs < map snd ws"
    proof (rule lex_after_key [OF ws(3)])
      show "map fst cvs = map fst ws"
        using cvs(1) ws(1) ord by (auto simp: columnsAndValuesForSort_def columns_and_values_Ok)
    qed
    also have "\<dots> \<longleftrightarrow> behind_cursor opts rel"
      using cvs(2) ws(2) assms(7) Some by (simp add: behind_cursor_def)
    finally show ?thesis .
  qed
  ultimately show ?thesis using Some q' ps' by (intro exI [of _ ps']) auto
qed

end

section \<open>Queries\<close>

definition query_schema :: "schema_information \<Rightarrow> bool" where
  "query_schema s \<longleftrightarrow> plain_columns s \<and> paginationFilterType s \<in> {TupleComparison, ExpandedLogicComparison} \<and>
     sortByResourceColumnOrder s = [] \<and> sortBySubjectColumnOrder s = [] \<and> \<not> expirationDisabled s"

definition query_opts :: "query_options \<Rightarrow> bool" where
  "query_opts opts \<longleftrightarrow> qSort opts \<in> {ByResource, BySubject, ChooseEfficient} \<and> \<not> qSkipCaveats opts \<and>
     \<not> qSkipExpiration opts \<and> (\<forall>n. qLimit opts = Some n \<longrightarrow> n < maxInt64)"

lemma implied_agrees: "implied S [] ctm \<Longrightarrow> S r \<Longrightarrow> agrees ctm r"
  by (simp add: implied_def agrees_def)

lemma order_key_inj: "order_key opts a = order_key opts b \<Longrightarrow> rel_ref a = rel_ref b"
  by (auto simp: order_key_def res_key_def subj_key_def ref_key_def rel_ref_def split: if_splits)

context sql_engine begin

lemma expiration_clause:
  assumes "plain_columns s" and "\<And>t. future (nowFunction s) t \<longleftrightarrow> now < t" and "represents s L rel r"
    and "optionalExpiration rel \<noteq> Some now"
  shows "holds (SqOr [SqEqNil (colExpiration s), SqExpr (colExpiration s @ '' > '' @ nowFunction s @ ''()'') []]) r \<longleftrightarrow>
    \<not> expired now rel"
proof -
  have "r (colExpiration s) = (case optionalExpiration rel of None \<Rightarrow> CNull | Some t \<Rightarrow> CTime t)"
    using assms(3) by (simp add: represents_def)
  then show ?thesis
    using assms(4) unexpired [OF plain_columnsD(9) [OF assms(1)] plain_columnsD(10) [OF assms(1)]]
    by (auto simp: disj eq_nil assms(2) expired_def split: option.splits)
qed

lemma sql_result:
  assumes "sql_lib_laws SL L" and "query_schema s"
    and "filterWithRelationshipsFilter SL f (newSchemaQueryFiltererForRelationshipsSelect s maxIDs extra) = (ctm, Ok q)"
    and "cavFilterOption (optionalCaveatNameFilter f) = CaveatFilterOptionHasMatchingCaveat \<Longrightarrow>
      cavFilterName (optionalCaveatNameFilter f) \<noteq> []"
    and "query_opts opts"
    and "\<forall>a. qAfter opts = Some a \<longrightarrow> matches L f a \<and> (\<exists>r. represents s L a r) \<and>
      (\<exists>c \<in> set (six_columns s). \<not> hasStaticValue ctm c)"
    and "list_all2 (represents s L) rels (table (relationshipTableName s))" and "set rels = ran m"
    and "distinct (map rel_ref rels)"
    and "\<And>t. future (nowFunction s) t \<longleftrightarrow> now < t" and "\<forall>rel \<in> ran m. optionalExpiration rel \<noteq> Some now"
  shows "\<exists>ys. executeQuery (queryRelationships_sql L toSql queryFunc) ctm q opts = Ok (map Ok (limited (qLimit opts) ys)) \<and>
    selection (matches L f) now opts m ys"
proof -
  note lib = sql_lib_laws.same_ellipsis [OF assms(1)] sql_lib_laws.is_empty [OF assms(1)]
  have pc: "plain_columns s" and pg: "paginationFilterType s \<in> {TupleComparison, ExpandedLogicComparison}"
    and so: "sortByResourceColumnOrder s = []" "sortBySubjectColumnOrder s = []" and xd: "\<not> expirationDisabled s"
    using assms(2) by (simp_all add: query_schema_def)
  have opts: "qSort opts \<in> {ByResource, BySubject, ChooseEfficient}" "\<not> qSkipCaveats opts" "\<not> qSkipExpiration opts"
    "\<forall>n. qLimit opts = Some n \<longrightarrow> n < maxInt64" using assms(5) by (simp_all add: query_opts_def)
  have "plain_columns (sqSchema (filterer s maxIDs extra))" using pc by simp
  from op_specD [OF relationships_filter_spec [OF lib(2)] this, of f "[]" ctm q] assms(3)
  obtain ps where q: "q = add_where ps (filterer s maxIDs extra)"
    and ps: "\<And>r. (\<forall>p \<in> set ps. holds p r) \<longleftrightarrow> filter_row_matches SL f s r"
    and im: "implied (filter_row_matches SL f s) [] ctm" by auto
  have fm: "filter_row_matches SL f s r \<longleftrightarrow> matches L f rel" if "represents s L rel r" for rel r
    using filter_row_matches_iff [OF lib that assms(4)] by blast
  have ag: "agrees ctm r" if "represents s L rel r" "matches L f rel" for rel r
    using implied_agrees [OF im] fm that by blast
  let ?q1 = "tupleOrder (query_order opts) q"
  have sq1: "sqSchema ?q1 = s" by (simp add: q tupleOrder_def query_order_def)
  have cur: "\<forall>a. qAfter opts = Some a \<longrightarrow> (\<exists>ra. represents s L a ra \<and> agrees ctm ra) \<and>
      (\<exists>c \<in> set (six_columns s). \<not> hasStaticValue ctm c)" using assms(6) ag by blast
  have uns: "qSort opts \<noteq> Unsorted" using opts(1) by auto
  obtain ps' where ps': "case qAfter opts of None \<Rightarrow> ps' = []
      | Some a \<Rightarrow> after ctm a (query_order opts) ?q1 = Ok (add_where ps' ?q1)"
    "\<And>rel r. represents s L rel r \<Longrightarrow> agrees ctm r \<Longrightarrow> (\<forall>p \<in> set ps'. holds p r) = behind_cursor opts rel"
    using cursor_clauses [OF pc pg so cur sq1 uns] by blast
  obtain b where b: "prepareQuery ctm q opts = Ok b" "rqSchema b = s" "rqSkipCaveats b = qSkipCaveats opts"
    "rqSkipExpiration b = qSkipExpiration opts" "rqFilteringValues b = ctm" "sqSchema (rqBase b) = s"
    "queryBuilder (rqBase b) = \<lparr>selPrefixes = [], selColumns = [], selFrom = Some (relationshipTableName s),
      selWhere = ps @ ps', selOrderBy = order_columns s opts, selLimit = qLimit opts\<rparr>"
    using prepareQuery_plain [OF opts(1,4), of ps' ctm ps s maxIDs extra] ps'(1) unfolding q by blast
  let ?ex = "SqOr [SqEqNil (colExpiration s), SqExpr (colExpiration s @ '' > '' @ nowFunction s @ ''()'') []]"
  let ?sel = "\<lparr>selPrefixes = [], selColumns = map fst (all_columns b), selFrom = Some (relationshipTableName s),
      selWhere = ps @ ps' @ [?ex], selOrderBy = order_columns s opts, selLimit = qLimit opts\<rparr>"
  have sel: "selectSQL toSql b = toSql ?sel"
    using opts(3) xd
    by (simp add: selectSQL_def queryBuilderWithMaybeExpirationFilter_def b sq_where_add queryBuilder_add_where
        columns_of_query_eq Let_def)
  have "map fst (all_columns b) \<noteq> []" by (simp add: all_columns_def Let_def)
  then obtain st where st: "toSql ?sel = Ok st" using renders [of ?sel] by auto
  let ?R = "\<lambda>rel r. represents s L rel r \<and> optionalExpiration rel \<noteq> Some now"
  have R: "list_all2 ?R rels (table (relationshipTableName s))"
    using assms(7,8,11) by (auto intro: list.rel_mono_strong)
  have "set (order_columns s opts) = set (six_columns s)" using sort_columns_set so by (simp add: order_columns_def)
  then have "\<forall>r \<in> set (table (relationshipTableName s)). \<forall>c \<in> set (order_columns s opts). \<exists>v. r c = CText v"
    using assms(7) six_columns_text by (metis list_all2_conv_all_nth in_set_conv_nth)
  then obtain rs where rs: "answers holds (table (relationshipTableName s)) ?sel rs"
    "queryFunc st = Ok (map (\<lambda>r. map r (map fst (all_columns b))) rs, None)"
    using runs [OF st, of "relationshipTableName s"] by auto
  let ?P = "\<lambda>rel. matches L f rel \<and> behind_cursor opts rel \<and> \<not> expired now rel"
  have P: "?P rel \<longleftrightarrow> (\<forall>p \<in> set (selWhere ?sel). holds p r)" if "?R rel r" for rel r
  proof -
    have "(\<forall>p \<in> set (selWhere ?sel). holds p r) \<longleftrightarrow>
        matches L f rel \<and> (\<forall>p \<in> set ps'. holds p r) \<and> \<not> expired now rel"
      using ps fm [of rel r] expiration_clause [OF pc assms(10), of L rel r] that by (simp add: ball_Un) blast
    then show ?thesis using ps'(2) ag that by blast
  qed
  have K: "sort_values (selOrderBy ?sel) r = order_key opts rel" if "?R rel r" for rel r
    using sort_values_represents [of s L rel r] so that by (simp add: order_columns_def order_key_def)
  have dist: "distinct (map (order_key opts) rels)"
  proof -
    have "distinct rels" "inj_on rel_ref (set rels)" using assms(9) by (simp_all add: distinct_map)
    then show ?thesis by (simp add: distinct_map) (meson inj_on_def order_key_inj)
  qed
  obtain ys where ys: "list_all2 ?R (limited (qLimit opts) ys) rs" "set ys = {rel \<in> set rels. ?P rel}"
    "sorted_wrt (\<lambda>a b. order_key opts a < order_key opts b) ys" "\<forall>r \<in> set rs. \<forall>p \<in> set (selWhere ?sel). holds p r"
  proof (rule answered_relationships [OF R rs(1), of ?P "order_key opts"])
    show "?P rel \<longleftrightarrow> (\<forall>p \<in> set (selWhere ?sel). holds p r)" if "?R rel r" for rel r using that by (rule P)
    show "sort_values (selOrderBy ?sel) r = order_key opts rel" if "?R rel r" for rel r using that by (rule K)
    show "distinct (map (order_key opts) rels)" by (rule dist)
  qed (rule that; simp)
  obtain vs where vs: "columnsToSelect b zero_vars = (map snd (all_columns b), vs)" "vars_ok b vs"
    by (rule columnsToSelect_eq)
  have "list_all2 (represents (rqSchema b) L) (limited (qLimit opts) ys) rs"
    using ys(1) b(2) by (auto elim: list_all2_mono)
  moreover have "\<forall>r \<in> set rs. agrees (rqFilteringValues b) r"
    using ys(4) ps implied_agrees [OF im] b(5) by (auto simp: ball_Un)
  ultimately have "read_rows L b (map snd (all_columns b)) vs (map (cells (all_columns b)) rs) None =
      map (Ok \<circ> returned b) (limited (qLimit opts) ys)"
    using vs(2) by (rule read_rows_represent)
  moreover have "returned b = (\<lambda>rel. rel)"
    using shown_all [OF opts(2,3) xd b(2,3,4)] by (simp add: fun_eq_iff)
  ultimately have "read_rows L b (map snd (all_columns b)) vs (map (\<lambda>r. map r (map fst (all_columns b))) rs) None =
      map Ok (limited (qLimit opts) ys)"
    by (simp add: comp_def case_prod_beta')
  then have "executeQuery (queryRelationships_sql L toSql queryFunc) ctm q opts = Ok (map Ok (limited (qLimit opts) ys))"
    unfolding executeQuery_def b(1) sum.case queryRelationships_sql_def sel st vs(1) Let_def prod.case rs(2)
    by simp
  moreover have "selection (matches L f) now opts m ys"
    using ys(2,3) opts(2,3) assms(8) by (auto simp: selection_def skipped_def)
  ultimately show ?thesis by blast
qed

end

section \<open>Properties\<close>

definition sample_row :: "tuple_relationship \<Rightarrow> sql_row" where
  "sample_row rel c = (case map_of [(''namespace'', CText (objectType (resource rel))), (''object_id'', CText (objectID (resource rel))),
       (''relation'', CText (objRelation (resource rel))), (''userset_namespace'', CText (objectType (subject rel))),
       (''userset_object_id'', CText (objectID (subject rel))), (''userset_relation'', CText (objRelation (subject rel))),
       (''1'', CInt 1)] c of Some x \<Rightarrow> x | None \<Rightarrow> CNull)"

lemma sample_row_represents: "represents sample_schema ref_lib (sample_rel i u) (sample_row (sample_rel i u))"
  by (simp add: represents_def sample_schema_def sample_row_def sample_rel_def)

lemma sample_schema_ok: "query_schema sample_schema"
  using sample_schema_plain by (simp add: query_schema_def) (simp add: sample_schema_def)

definition sample_rels :: "tuple_relationship list" where
  "sample_rels = [sample_rel ''d1'' ''u1'', sample_rel ''d1'' ''u2'', sample_rel ''d2'' ''u1'']"

definition sample_table :: "string \<Rightarrow> sql_row list" where
  "sample_table t = (if t = ''tuples'' then map sample_row sample_rels else [])"

lemma sample_table_represents:
  "list_all2 (represents sample_schema ref_lib) sample_rels (sample_table (relationshipTableName sample_schema))"
  "distinct (map rel_ref sample_rels)" "\<forall>rel \<in> set sample_rels. optionalExpiration rel \<noteq> Some now"
  using sample_row_represents
  by (simp_all add: sample_table_def sample_rels_def sample_schema_def [symmetric])
    (simp_all add: sample_schema_def rel_ref_def sample_rel_def)

definition document_filter :: relationships_filter where
  "document_filter = any_filter\<lparr>optionalResourceType := ''document''\<rparr>"

lemma document_filter_built:
  "filterWithRelationshipsFilter ref_sql_lib document_filter (newSchemaQueryFiltererForRelationshipsSelect sample_schema 0 []) =
     ([(''namespace'', Some ''document'')], Ok (add_where [SqEq ''namespace'' ''document''] (filterer sample_schema 0 [])))"
  by (simp add: filterWithRelationshipsFilter_def document_filter_def any_filter_def sq_when_def sq_then_def
      filter_caveat_def filter_expiration_def filterToResourceType_def filter_column_def sq_where_add
      recordColumnValue_def)
    (simp add: sample_schema_def)

definition sample_page :: query_options where
  "sample_page = sample_query\<lparr>qAfter := Some (sample_rel ''d1'' ''u1'')\<rparr>"

lemma sample_page_ok:
  "query_opts sample_page"
  "\<forall>a. qAfter sample_page = Some a \<longrightarrow> matches ref_lib document_filter a \<and> (\<exists>r. represents sample_schema ref_lib a r) \<and>
    (\<exists>c \<in> set (six_columns sample_schema). \<not> hasStaticValue [(''namespace'', Some ''document'')] c)"
proof -
  show "query_opts sample_page" by (simp add: query_opts_def sample_page_def sample_query_def maxInt64_def)
  have "matches ref_lib document_filter (sample_rel ''d1'' ''u1'')"
    by (simp add: matches_def document_filter_def any_filter_def resource_matches_def caveat_matches_def
        expiration_matches_def sample_rel_def)
  moreover have "\<exists>c \<in> set (six_columns sample_schema). \<not> hasStaticValue [(''namespace'', Some ''document'')] c"
    by (simp add: six_columns_def text_columns_def sample_schema_def hasStaticValue_def)
  ultimately show "\<forall>a. qAfter sample_page = Some a \<longrightarrow> matches ref_lib document_filter a \<and>
      (\<exists>r. represents sample_schema ref_lib a r) \<and>
      (\<exists>c \<in> set (six_columns sample_schema). \<not> hasStaticValue [(''namespace'', Some ''document'')] c)"
    using sample_row_represents by (auto simp: sample_page_def)
qed




lemma sample_txn_rels: "ran (abs_store ref_lib (ref_view (rtView sample_txn))) = set sample_rels"
proof -
  let ?us = "map create_update sample_rels"
  have "ref_store.holds (ref_begin [])" using ref_empty_ok by (simp add: ref_store.holds_def)
  moreover have "\<forall>u \<in> set ?us. rel_ok (updRelationship u)"
    using sample_rel_ok by (simp add: create_update_def sample_rels_def)
  ultimately obtain res where
    "spec_updates ref_lib (abs_store ref_lib (ref_view (rtView (ref_begin [])))) ?us =
      (abs_store ref_lib (ref_view (rtView sample_txn)), res)"
    using ref_store.write_rels_refines [of "ref_begin []" ?us] by (auto simp: sample_txn_def sample_rels_def)
  moreover have "abs_store ref_lib (ref_view (rtView (ref_begin []))) = (\<lambda>_. None)"
    by (simp add: fun_eq_iff abs_store_def ref_view_def ref_begin_def)
  moreover have d: "rel_ref (sample_rel ''d1'' ''u1'') \<noteq> rel_ref (sample_rel ''d1'' ''u2'')"
    "rel_ref (sample_rel ''d1'' ''u1'') \<noteq> rel_ref (sample_rel ''d2'' ''u1'')"
    "rel_ref (sample_rel ''d1'' ''u2'') \<noteq> rel_ref (sample_rel ''d2'' ''u1'')"
    by (simp_all add: rel_ref_def sample_rel_def)
  ultimately have "abs_store ref_lib (ref_view (rtView sample_txn)) =
      [rel_ref (sample_rel ''d1'' ''u1'') \<mapsto> sample_rel ''d1'' ''u1'', rel_ref (sample_rel ''d1'' ''u2'') \<mapsto> sample_rel ''d1'' ''u2'',
       rel_ref (sample_rel ''d2'' ''u1'') \<mapsto> sample_rel ''d2'' ''u1'']"
    by (simp add: spec_update_def create_update_def sample_rels_def Let_def)
  then show ?thesis using d by (auto simp: sample_rels_def ran_map_upd)
qed


end
