(* ===== verification/Go_Paths.thy ===== *)
theory Go_Paths
  imports Go_Strconv
begin

text \<open>
  The functions of packages \<open>strings\<close> and \<open>path/filepath\<close> that the schema reloader, the watcher and the
  configuration call, for a Unix system. Letters and white space are those of ASCII.
\<close>

section \<open>Strings\<close>

definition is_space :: "char \<Rightarrow> bool" where
  "is_space c \<longleftrightarrow> (of_char c :: nat) \<in> {9, 10, 11, 12, 13, 32}"

definition trim_space :: "string \<Rightarrow> string" where
  "trim_space s = rev (dropWhile is_space (rev (dropWhile is_space s)))"

definition lower_char :: "char \<Rightarrow> char" where
  "lower_char c = (let n = (of_char c :: nat) in if 65 \<le> n \<and> n \<le> 90 then char_of (n + 32) else c)"

definition to_lower :: "string \<Rightarrow> string" where
  "to_lower s = map lower_char s"

fun join_with :: "string \<Rightarrow> string list \<Rightarrow> string" where
  "join_with sep [] = []"
| "join_with sep [s] = s"
| "join_with sep (s # t # ss) = s @ sep @ join_with sep (t # ss)"

lemma trim_space_Nil: "trim_space s = [] \<longleftrightarrow> list_all is_space s"
proof -
  have "dropWhile is_space s = [] \<longleftrightarrow> list_all is_space s" by (simp add: dropWhile_eq_Nil_conv list_all_iff)
  moreover have "dropWhile is_space (rev t) = [] \<longleftrightarrow> t = []" if t: "t = dropWhile is_space s" for t
  proof
    assume "dropWhile is_space (rev t) = []"
    then have "\<forall>x \<in> set t. is_space x" by (simp add: dropWhile_eq_Nil_conv)
    moreover have "t \<noteq> [] \<Longrightarrow> \<not> is_space (hd t)" using t hd_dropWhile [of is_space s] by (auto simp: dropWhile_eq_Nil_conv)
    ultimately show "t = []" by (metis hd_in_set)
  qed simp
  ultimately show ?thesis by (simp add: trim_space_def)
qed

section \<open>Paths\<close>

abbreviation slash :: char where "slash \<equiv> CHR ''/''"

definition rooted :: "string \<Rightarrow> bool" where
  "rooted p \<longleftrightarrow> p \<noteq> [] \<and> hd p = slash"

text \<open>\<open>Clean\<close> by the components: \<open>.\<close> and empty ones vanish, \<open>..\<close> removes the one before it.\<close>

definition clean_step :: "bool \<Rightarrow> string list \<Rightarrow> string \<Rightarrow> string list" where
  "clean_step rt acc c =
     (if c = [] \<or> c = ''.'' then acc
      else if c = ''..'' then (if acc \<noteq> [] \<and> last acc \<noteq> ''..'' then butlast acc else if rt then acc else acc @ [''..''])
      else acc @ [c])"

definition path_parts :: "string \<Rightarrow> string list" where
  "path_parts p = foldl (clean_step (rooted p)) [] (split_char slash p)"

definition render_path :: "bool \<Rightarrow> string list \<Rightarrow> string" where
  "render_path rt cs = (if rt then slash # join_with [slash] cs else if cs = [] then ''.'' else join_with [slash] cs)"

definition clean_path :: "string \<Rightarrow> string" where
  "clean_path p = render_path (rooted p) (path_parts p)"

text \<open>\<open>Join\<close> of two elements, \<open>Dir\<close>, \<open>Ext\<close>, \<open>Abs\<close> and \<open>IsLocal\<close>.\<close>

definition join_path :: "string \<Rightarrow> string \<Rightarrow> string" where
  "join_path a b = (if a \<noteq> [] then clean_path (a @ slash # b) else if b \<noteq> [] then clean_path b else [])"

definition dir_path :: "string \<Rightarrow> string" where
  "dir_path p = clean_path (rev (dropWhile (\<lambda>c. c \<noteq> slash) (rev p)))"

fun ext_loop :: "string \<Rightarrow> string \<Rightarrow> string" where
  "ext_loop [] acc = []"
| "ext_loop (c # cs) acc = (if c = slash then [] else if c = CHR ''.'' then c # acc else ext_loop cs (c # acc))"

definition ext_path :: "string \<Rightarrow> string" where
  "ext_path p = ext_loop (rev p) []"

definition abs_path :: "'e + string \<Rightarrow> string \<Rightarrow> 'e + string" where
  "abs_path cwd p = (if rooted p then Ok (clean_path p)
     else case cwd of Err e \<Rightarrow> Err e | Ok wd \<Rightarrow> Ok (join_path wd p))"

definition is_local :: "string \<Rightarrow> bool" where
  "is_local p =
     (if rooted p \<or> p = [] then False
      else let q = (if list_ex (\<lambda>c. c = ''.'' \<or> c = ''..'') (split_char slash p) then clean_path p else p)
           in \<not> (q = ''..'' \<or> has_prefix q ''../''))"

section \<open>Splitting and joining\<close>

lemma split_not_Nil [simp]: "split_char c s \<noteq> []"
  by (induction s) (auto split: list.split)

lemma split_append: "split_char c (a @ c # b) = split_char c a @ split_char c b"
proof (induction a)
  case (Cons x a)
  then show ?case using split_not_Nil [of c a] by (cases "split_char c a") (auto simp del: split_not_Nil)
qed simp

lemma split_no_sep: "x \<in> set (split_char c s) \<Longrightarrow> c \<notin> set x"
  by (induction s arbitrary: x) (auto split: list.splits if_splits)

lemma split_join:
  assumes "cs \<noteq> []" and "\<forall>x \<in> set cs. c \<notin> set x"
  shows "split_char c (join_with [c] cs) = cs"
  using assms
proof (induction "[c]" cs rule: join_with.induct)
  case (3 s t ss)
  then show ?case using split_append [of c s "join_with [c] (t # ss)"] by (simp add: split_char_no_sep)
qed (simp_all add: split_char_no_sep)

section \<open>Clean lists of components\<close>

text \<open>What a run of the loop leaves: \<open>..\<close> at the front only, none if the path is rooted.\<close>

definition clean_list :: "bool \<Rightarrow> string list \<Rightarrow> bool" where
  "clean_list rt cs \<longleftrightarrow> (\<exists>n xs. cs = replicate n ''..'' @ xs \<and> (rt \<longrightarrow> n = 0) \<and>
     (\<forall>x \<in> set xs. x \<noteq> [] \<and> x \<noteq> ''.'' \<and> x \<noteq> ''..'' \<and> slash \<notin> set x))"

lemma clean_list_step:
  assumes "clean_list rt cs" and "slash \<notin> set c"
  shows "clean_list rt (clean_step rt cs c)"
proof -
  obtain n xs where cs: "cs = replicate n ''..'' @ xs" "rt \<longrightarrow> n = 0"
    "\<forall>x \<in> set xs. x \<noteq> [] \<and> x \<noteq> ''.'' \<and> x \<noteq> ''..'' \<and> slash \<notin> set x"
    using assms(1) unfolding clean_list_def by blast
  consider "c = [] \<or> c = ''.''" | "c = ''..''" | "c \<noteq> []" "c \<noteq> ''.''" "c \<noteq> ''..''" by blast
  then show ?thesis
  proof cases
    case 1
    then have "clean_step rt cs c = cs" by (auto simp: clean_step_def)
    then show ?thesis using assms(1) by simp
  next
    case 2
    show ?thesis
    proof (cases xs rule: rev_cases)
      case Nil
      then have "clean_step rt cs c = (if rt then [] else replicate (Suc n) ''..'')"
        using cs 2 by (auto simp: clean_step_def replicate_append_same)
      then show ?thesis unfolding clean_list_def by (auto intro: exI [of _ "Suc n"] exI [of _ "[]"])
    next
      case (snoc ys y)
      then have "clean_step rt cs c = replicate n ''..'' @ ys"
        using cs 2 by (simp add: clean_step_def butlast_append)
      then show ?thesis using cs snoc unfolding clean_list_def by (intro exI [of _ n] exI [of _ ys]) auto
    qed
  next
    case 3
    then have "clean_step rt cs c = replicate n ''..'' @ (xs @ [c])" using cs by (simp add: clean_step_def)
    then show ?thesis using cs 3 assms(2) unfolding clean_list_def by (intro exI [of _ n] exI [of _ "xs @ [c]"]) auto
  qed
qed

lemma clean_list_foldl: "clean_list rt acc \<Longrightarrow> \<forall>c \<in> set cs. slash \<notin> set c \<Longrightarrow> clean_list rt (foldl (clean_step rt) acc cs)"
  by (induction cs arbitrary: acc) (simp_all add: clean_list_step)

lemma clean_list_Nil [simp]: "clean_list rt []"
  unfolding clean_list_def by (intro exI [of _ 0] exI [of _ "[]"]) simp

lemma path_parts_clean: "clean_list (rooted p) (path_parts p)"
  unfolding path_parts_def by (rule clean_list_foldl) (auto dest: split_no_sep)

text \<open>Running the loop on a clean list appends it.\<close>

lemma clean_step_normal: "x \<noteq> [] \<Longrightarrow> x \<noteq> ''.'' \<Longrightarrow> x \<noteq> ''..'' \<Longrightarrow> clean_step rt acc x = acc @ [x]"
  by (simp add: clean_step_def)

lemma foldl_normal:
  "\<forall>x \<in> set xs. x \<noteq> [] \<and> x \<noteq> ''.'' \<and> x \<noteq> ''..'' \<Longrightarrow> foldl (clean_step rt) acc xs = acc @ xs"
  by (induction xs arbitrary: acc) (simp_all add: clean_step_normal)

lemma foldl_dots: "foldl (clean_step False) (replicate k ''..'') (replicate n ''..'') = replicate (k + n) ''..''"
proof (induction n arbitrary: k)
  case (Suc n)
  have "clean_step False (replicate k ''..'') ''..'' = replicate (Suc k) ''..''"
    by (cases k) (auto simp: clean_step_def replicate_append_same)
  then show ?case using Suc.IH [of "Suc k"] by simp
qed simp

lemma foldl_clean_list: "clean_list rt cs \<Longrightarrow> foldl (clean_step rt) [] cs = cs"
proof -
  assume "clean_list rt cs"
  then obtain n xs where cs: "cs = replicate n ''..'' @ xs" "rt \<longrightarrow> n = 0"
    "\<forall>x \<in> set xs. x \<noteq> [] \<and> x \<noteq> ''.'' \<and> x \<noteq> ''..''" unfolding clean_list_def by blast
  have "foldl (clean_step rt) [] (replicate n ''..'') = replicate n ''..''"
    using foldl_dots [of 0 n] cs(2) by (cases rt) simp_all
  then show ?thesis using foldl_normal [OF cs(3)] cs(1) by simp
qed

lemma clean_list_slash: "clean_list rt cs \<Longrightarrow> \<forall>x \<in> set cs. slash \<notin> set x"
proof
  fix x assume "clean_list rt cs" and "x \<in> set cs"
  then obtain n xs where "cs = replicate n ''..'' @ xs" "\<forall>x \<in> set xs. slash \<notin> set x" unfolding clean_list_def by blast
  then have "x = ''..'' \<or> x \<in> set xs" using \<open>x \<in> set cs\<close> by (cases n) auto
  then show "slash \<notin> set x" using \<open>\<forall>x \<in> set xs. slash \<notin> set x\<close> by (elim disjE) simp_all
qed

lemma clean_list_not_Nil: "clean_list rt cs \<Longrightarrow> x \<in> set cs \<Longrightarrow> x \<noteq> []"
proof -
  assume "clean_list rt cs" and "x \<in> set cs"
  then obtain n xs where cs: "cs = replicate n ''..'' @ xs" "\<forall>x \<in> set xs. x \<noteq> []" unfolding clean_list_def by blast
  then have "x = ''..'' \<or> x \<in> set xs" using \<open>x \<in> set cs\<close> by (cases n) auto
  then show ?thesis using cs(2) by (elim disjE) simp_all
qed

lemma join_rooted: "clean_list False cs \<Longrightarrow> cs \<noteq> [] \<Longrightarrow> \<not> rooted (join_with [slash] cs)"
proof -
  assume c: "clean_list False cs" and "cs \<noteq> []"
  then obtain x xs where cs: "cs = x # xs" by (cases cs) auto
  have "x \<noteq> []" "slash \<notin> set x" using clean_list_not_Nil [OF c] clean_list_slash [OF c] cs by simp_all
  then have "hd x \<noteq> slash" using hd_in_set by metis
  then show ?thesis using \<open>x \<noteq> []\<close> by (cases xs) (simp_all add: cs rooted_def)
qed

text \<open>A cleaned path has the components it was made of.\<close>

lemma render_parts:
  assumes "clean_list rt cs"
  shows "rooted (render_path rt cs) = rt" "path_parts (render_path rt cs) = cs"
proof -
  show r: "rooted (render_path rt cs) = rt"
  proof (cases rt)
    case False
    then show ?thesis using assms join_rooted [of cs] by (auto simp: render_path_def) (simp add: rooted_def)
  qed (simp add: render_path_def rooted_def)
  have join: "cs \<noteq> [] \<Longrightarrow> split_char slash (join_with [slash] cs) = cs"
    using clean_list_slash [OF assms] by (intro split_join) auto
  show "path_parts (render_path rt cs) = cs"
  proof (cases "cs = []")
    case True
    then show ?thesis by (cases rt) (simp_all add: path_parts_def render_path_def clean_step_def)
  next
    case False
    then have "foldl (clean_step rt) [] (split_char slash (render_path rt cs)) = foldl (clean_step rt) [] cs"
      using join [OF False] by (cases rt) (simp_all add: render_path_def clean_step_def)
    then show ?thesis using foldl_clean_list [OF assms] r by (simp add: path_parts_def)
  qed
qed

lemma clean_path_parts [simp]: "path_parts (clean_path p) = path_parts p" "rooted (clean_path p) = rooted p"
  using render_parts [OF path_parts_clean] by (simp_all add: clean_path_def)

lemma clean_path_idem: "clean_path (clean_path p) = clean_path p"
  using render_parts [OF path_parts_clean, of p] by (simp add: clean_path_def)

section \<open>Local paths\<close>

text \<open>Once the loop has left a \<open>..\<close> at the front, it stays; without one, the loop runs on any prefix.\<close>

lemma dots_stay:
  assumes "clean_list False acc" and "''..'' \<in> set acc" and "\<forall>c \<in> set cs. slash \<notin> set c"
  shows "''..'' \<in> set (foldl (clean_step False) acc cs)"
  using assms
proof (induction cs arbitrary: acc)
  case (Cons c cs)
  have "''..'' \<in> set (clean_step False acc c)"
  proof -
    obtain n xs where acc: "acc = replicate n ''..'' @ xs" "\<forall>x \<in> set xs. x \<noteq> ''..''"
      using Cons.prems(1) unfolding clean_list_def by blast
    then have "n > 0" using Cons.prems(2) by auto
    then show ?thesis
      using acc by (cases xs rule: rev_cases) (auto simp: clean_step_def butlast_append)
  qed
  then show ?case using Cons.IH clean_list_step [OF Cons.prems(1)] Cons.prems(3) by simp
qed simp

lemma foldl_prefix:
  assumes "clean_list False acc" and "\<forall>c \<in> set cs. slash \<notin> set c"
    and "''..'' \<notin> set (foldl (clean_step False) acc cs)"
  shows "foldl (clean_step rt) (d @ acc) cs = d @ foldl (clean_step False) acc cs"
  using assms
proof (induction cs arbitrary: acc)
  case (Cons c cs)
  have c: "slash \<notin> set c" using Cons.prems(2) by simp
  let ?a = "clean_step False acc c"
  have cl: "clean_list False ?a" using clean_list_step [OF Cons.prems(1) c] .
  have no: "''..'' \<notin> set ?a" using dots_stay [OF cl] Cons.prems(2,3) by auto
  have "clean_step rt (d @ acc) c = d @ ?a"
    using no by (auto simp: clean_step_def butlast_append split: if_splits)
  then show ?case using Cons.IH [OF cl] Cons.prems(2,3) by simp
qed simp

lemma join_with_append: "ys \<noteq> [] \<Longrightarrow> join_with sep (x # ys) = x @ sep @ join_with sep ys"
  by (cases ys) simp_all

lemma local_no_dots:
  assumes "is_local p"
  shows "''..'' \<notin> set (path_parts p)" "\<not> rooted p"
proof -
  show r: "\<not> rooted p" using assms by (auto simp: is_local_def split: if_splits)
  show "''..'' \<notin> set (path_parts p)"
  proof (cases "list_ex (\<lambda>c. c = ''.'' \<or> c = ''..'') (split_char slash p)")
    case True
    then have q: "clean_path p \<noteq> ''..''" "\<not> prefix ''../'' (clean_path p)"
      using assms by (simp_all add: is_local_def Let_def split: if_splits)
    obtain n xs where cs: "path_parts p = replicate n ''..'' @ xs" "\<forall>x \<in> set xs. x \<noteq> ''..''"
      using path_parts_clean [of p] unfolding clean_list_def by blast
    have "n = 0"
    proof (rule ccontr)
      assume "n \<noteq> 0"
      then obtain rest where rest: "path_parts p = ''..'' # rest" using cs by (cases n) auto
      then have "clean_path p = (if rest = [] then ''..'' else ''../'' @ join_with [slash] rest)"
        using r by (simp add: clean_path_def render_path_def join_with_append)
      with q show False by (auto split: if_splits)
    qed
    with cs show ?thesis by auto
  next
    case False
    then have "\<forall>x \<in> set (split_char slash p). x \<noteq> ''.'' \<and> x \<noteq> ''..''" by (auto simp: list_ex_iff)
    moreover have "''..'' \<notin> set acc \<Longrightarrow> \<forall>x \<in> set cs. x \<noteq> ''..'' \<Longrightarrow> ''..'' \<notin> set (foldl (clean_step rt) acc cs)" for rt acc cs
      by (induction cs arbitrary: acc) (auto simp: clean_step_def)
    ultimately show ?thesis by (simp add: path_parts_def)
  qed
qed

lemma join_local:
  assumes "is_local p" and "d \<noteq> []"
  shows "path_parts (join_path d p) = path_parts d @ path_parts p" "rooted (join_path d p) = rooted d"
proof -
  have rt: "rooted (d @ slash # p) = rooted d" using assms(2) by (simp add: rooted_def)
  have no: "\<forall>c \<in> set (split_char slash p). slash \<notin> set c" using split_no_sep by blast
  have "path_parts (d @ slash # p) = foldl (clean_step (rooted d)) (path_parts d) (split_char slash p)"
    by (simp add: path_parts_def rt split_append)
  also have "\<dots> = path_parts d @ foldl (clean_step False) [] (split_char slash p)"
    using foldl_prefix [OF clean_list_Nil no, of "rooted d" "path_parts d"] local_no_dots [OF assms(1)]
    by (simp add: path_parts_def)
  finally show "path_parts (join_path d p) = path_parts d @ path_parts p"
    using assms(2) local_no_dots(2) [OF assms(1)] by (simp add: join_path_def) (simp add: path_parts_def)
  show "rooted (join_path d p) = rooted d" using assms(2) rt by (simp add: join_path_def)
qed

lemma join_with_not_Nil: "cs \<noteq> [] \<Longrightarrow> \<forall>x \<in> set cs. x \<noteq> [] \<Longrightarrow> join_with sep cs \<noteq> []"
  by (cases cs; cases "tl cs") auto

lemma clean_path_not_Nil [simp]: "clean_path p \<noteq> []"
  using clean_list_not_Nil [OF path_parts_clean, of _ p] by (simp add: clean_path_def render_path_def join_with_not_Nil)

lemma dir_path_not_Nil [simp]: "dir_path p \<noteq> []"
  by (simp add: dir_path_def)

end
