(* ===== verification/Server_Config.thy ===== *)
theory Server_Config
  imports Go_Paths Memdb_Revisions
begin

text \<open>
  \<open>config.go\<close> and the part of \<open>server.go\<close> that turns a configuration into a server's datastore: the
  defaults, the validation with all its errors, and \<open>createDatastore\<close>. Resolving an address belongs to
  package \<open>net\<close> and is the parameter \<open>resolve\<close>.
\<close>

section \<open>Configuration\<close>

abbreviation millisecond :: int where "millisecond \<equiv> 1000000"
abbreviation second :: int where "second \<equiv> 1000 * millisecond"
abbreviation hour :: int where "hour \<equiv> 3600 * second"

record config =
  cSchemaFiles :: "string list"
  cGRPCAddress :: string
  cHTTPEnabled :: bool
  cHTTPAddress :: string
  cPresharedKey :: string
  cWatchDebounce :: int
  cRevisionQuantization :: int
  cGCWindow :: int
  cWatchBufferLength :: nat
  cDatastoreType :: string
  cDatastoreURI :: string
  cHealthCheckEnabled :: bool
  cHealthCheckAddress :: string

definition defaultConfig :: config where
  "defaultConfig = \<lparr>cSchemaFiles = [], cGRPCAddress = '':50051'', cHTTPEnabled = False, cHTTPAddress = '':8443'',
     cPresharedKey = ''dev-key'', cWatchDebounce = 500 * millisecond, cRevisionQuantization = 5 * second,
     cGCWindow = 24 * hour, cWatchBufferLength = 0, cDatastoreType = ''memdb'', cDatastoreURI = [],
     cHealthCheckEnabled = False, cHealthCheckAddress = ''127.0.0.1:0''\<rparr>"

definition withDefaults :: "config \<Rightarrow> config" where
  "withDefaults c = c\<lparr>
     cGRPCAddress := (if cGRPCAddress c = [] then '':50051'' else cGRPCAddress c),
     cPresharedKey := (if cPresharedKey c = [] then ''dev-key'' else cPresharedKey c),
     cWatchDebounce := (if cWatchDebounce c = 0 then 500 * millisecond else cWatchDebounce c),
     cRevisionQuantization := (if cRevisionQuantization c = 0 then 5 * second else cRevisionQuantization c),
     cGCWindow := (if cGCWindow c = 0 then 24 * hour else cGCWindow c),
     cHTTPAddress := (if cHTTPAddress c = [] \<and> cHTTPEnabled c then '':8443'' else cHTTPAddress c),
     cDatastoreType := (if cDatastoreType c = [] then ''memdb'' else cDatastoreType c),
     cHealthCheckAddress :=
       (if cHealthCheckAddress c = [] \<and> cHealthCheckEnabled c then ''127.0.0.1:0'' else cHealthCheckAddress c)\<rparr>"

section \<open>Validation\<close>

text \<open>One constructor per message of \<open>Validate\<close>; \<open>errors.Join\<close> of them is the list, nil when it is empty.\<close>

datatype config_error =
    MustNotBeEmpty string
  | InvalidAddress string string go_error
  | MissingDatastoreURI string
  | UnsupportedDatastoreType string
  | SchemaFileMustNotBeEmpty nat

definition check_address :: "(string \<Rightarrow> unit result) \<Rightarrow> string \<Rightarrow> string \<Rightarrow> config_error list" where
  "check_address resolve name addr =
     (if trim_space addr = [] then [MustNotBeEmpty name]
      else case resolve addr of Err e \<Rightarrow> [InvalidAddress name addr e] | Ok _ \<Rightarrow> [])"

definition check_datastore :: "config \<Rightarrow> config_error list" where
  "check_datastore c =
     (let dsType = to_lower (trim_space (cDatastoreType c))
      in if dsType \<in> {[], ''memdb''} then []
         else if dsType \<in> {''postgres'', ''postgresql'', ''mysql''}
           then (if trim_space (cDatastoreURI c) = [] then [MissingDatastoreURI (cDatastoreType c)] else [])
           else [UnsupportedDatastoreType (cDatastoreType c)])"

fun check_files :: "nat \<Rightarrow> string list \<Rightarrow> config_error list" where
  "check_files i [] = []"
| "check_files i (f # fs) =
     (if trim_space f = [] then [SchemaFileMustNotBeEmpty i] else []) @ check_files (Suc i) fs"

definition validate :: "(string \<Rightarrow> unit result) \<Rightarrow> config \<Rightarrow> config_error list" where
  "validate resolve c =
     check_address resolve ''GRPCAddress'' (cGRPCAddress c) @
     (if cHTTPEnabled c then check_address resolve ''HTTPAddress'' (cHTTPAddress c) else []) @
     (if trim_space (cPresharedKey c) = [] then [MustNotBeEmpty ''PresharedKey''] else []) @
     check_datastore c @
     (if cHealthCheckEnabled c then check_address resolve ''HealthCheckAddress'' (cHealthCheckAddress c) else []) @
     check_files 0 (cSchemaFiles c)"

section \<open>The datastore of a server\<close>

definition not_available :: string where
  "not_available = ''datastore is not available in standalone embedspicedb. Use memdb for development, or use '' @
     ''embedspicedb within the SpiceDB module context for persistent datastores''"

definition createDatastore ::
    "('d, 't) env \<Rightarrow> nanotime \<Rightarrow> string \<Rightarrow> config \<Rightarrow> 'd memdb_ds result" where
  "createDatastore E now uid c =
     (let datastoreType = (if to_lower (cDatastoreType c) = [] then ''memdb'' else to_lower (cDatastoreType c))
      in if datastoreType = ''memdb'' then
           newMemdbDatastore E (cWatchBufferLength c) (cRevisionQuantization c) (cGCWindow c) now uid
         else if datastoreType \<in> {''postgres'', ''postgresql''} then
           Err (ErrorString (''PostgreSQL '' @ not_available))
         else if datastoreType = ''mysql'' then
           Err (ErrorString (''MySQL '' @ not_available))
         else Err (ErrorString (''unsupported datastore type: '' @ cDatastoreType c @ '' (supported: memdb, postgres, mysql)'')))"

section \<open>Lemmas\<close>

lemma withDefaults_idem [simp]: "withDefaults (withDefaults c) = withDefaults c"
  by (simp add: withDefaults_def)

lemma withDefaults_default: "withDefaults defaultConfig = defaultConfig"
  by (simp add: withDefaults_def defaultConfig_def)

text \<open>What \<open>Validate\<close> asks of an address, as a predicate.\<close>

definition address_ok :: "(string \<Rightarrow> unit result) \<Rightarrow> string \<Rightarrow> bool" where
  "address_ok resolve a \<longleftrightarrow> \<not> list_all is_space a \<and> resolve a = Ok ()"

lemma check_address_Nil [simp]: "check_address resolve n a = [] \<longleftrightarrow> address_ok resolve a"
  by (simp add: check_address_def address_ok_def trim_space_Nil split: sum.splits)

lemma check_files_index: "SchemaFileMustNotBeEmpty i \<in> set (check_files k fs) \<longleftrightarrow>
    k \<le> i \<and> i < k + length fs \<and> list_all is_space (fs ! (i - k))"
proof (induction fs arbitrary: k)
  case (Cons f fs)
  have "Suc k \<le> i \<Longrightarrow> (f # fs) ! (i - k) = fs ! (i - Suc k)"
    by (simp add: nth_Cons' )
  then show ?case using Cons [of "Suc k"] by (cases "i = k") (auto simp: trim_space_Nil)
qed simp

lemma check_files_Nil [simp]: "check_files k fs = [] \<longleftrightarrow> (\<forall>f \<in> set fs. \<not> list_all is_space f)"
  by (induction fs arbitrary: k) (auto simp: trim_space_Nil)

definition datastore_ok :: "config \<Rightarrow> bool" where
  "datastore_ok c \<longleftrightarrow> to_lower (trim_space (cDatastoreType c)) \<in> {[], ''memdb''} \<or>
     to_lower (trim_space (cDatastoreType c)) \<in> {''postgres'', ''postgresql'', ''mysql''} \<and>
       \<not> list_all is_space (cDatastoreURI c)"

lemma check_datastore_Nil [simp]: "check_datastore c = [] \<longleftrightarrow> datastore_ok c"
  by (auto simp: check_datastore_def datastore_ok_def Let_def trim_space_Nil)

definition config_ok :: "(string \<Rightarrow> unit result) \<Rightarrow> config \<Rightarrow> bool" where
  "config_ok resolve c \<longleftrightarrow> address_ok resolve (cGRPCAddress c) \<and>
     (cHTTPEnabled c \<longrightarrow> address_ok resolve (cHTTPAddress c)) \<and> \<not> list_all is_space (cPresharedKey c) \<and>
     datastore_ok c \<and> (cHealthCheckEnabled c \<longrightarrow> address_ok resolve (cHealthCheckAddress c)) \<and>
     (\<forall>f \<in> set (cSchemaFiles c). \<not> list_all is_space f)"

lemma validate_Nil: "validate resolve c = [] \<longleftrightarrow> config_ok resolve c"
  by (simp add: validate_def config_ok_def trim_space_Nil)

lemma to_lower_memdb_trim: "to_lower t = ''memdb'' \<Longrightarrow> trim_space t = t"
proof -
  assume a: "to_lower t = ''memdb''"
  have "is_space c \<Longrightarrow> lower_char c = c" for c by (auto simp: is_space_def lower_char_def Let_def)
  then have sp: "is_space c \<Longrightarrow> is_space (lower_char c)" for c by simp
  have "\<not> is_space c" if "c \<in> set t" for c
  proof
    assume "is_space c"
    then have "is_space (lower_char c)" by (rule sp)
    moreover have "lower_char c \<in> set ''memdb''" using a that by (metis image_eqI list.set_map to_lower_def)
    ultimately show False by (auto simp: is_space_def)
  qed
  then have "dropWhile is_space t = t" "dropWhile is_space (rev t) = rev t"
    by (metis dropWhile_eq_self_iff hd_in_set) (metis \<open>\<And>c. c \<in> set t \<Longrightarrow> \<not> is_space c\<close> dropWhile_eq_self_iff hd_in_set set_rev)
  then show "trim_space t = t" by (simp add: trim_space_def)
qed

end
