(* ===== verification/Schema_Reload.thy ===== *)
theory Schema_Reload
  imports Go_Paths Spice_Types
begin

text \<open>
  \<open>internal/schema/reloader.go\<close> and \<open>reloader.go\<close>: reading the configured schema files and writing their
  content as the schema. The file system is the function \<open>readFile\<close>; decoding YAML and validation files
  belongs to libraries and is the record \<open>yaml_lib\<close>. A reload gives the requests it sends and its result.
\<close>

section \<open>Reading a schema file\<close>

datatype yaml_value = YString string | YOther

record yaml_lib =
  decodeValidationFile :: "bytes \<Rightarrow> (string \<times> string) result"   \<comment> \<open>the schema and the schema file it names\<close>
  yamlUnmarshal :: "bytes \<Rightarrow> (string \<Rightarrow> yaml_value option) result"

type_synonym file_system = "string \<Rightarrow> bytes result"

definition readReferencedSchemaFile :: "file_system \<Rightarrow> string \<Rightarrow> string \<Rightarrow> string result" where
  "readReferencedSchemaFile readFile yamlFilePath ref =
     (if \<not> is_local ref then Err (ErrorString (''schema file '' @ ref @ '' is not local''))
      else
        (let schemaPath = join_path (dir_path yamlFilePath) ref
         in case readFile schemaPath of
              Err e \<Rightarrow> Err (Wrap (''failed to read referenced schema file '' @ schemaPath) e)
            | Ok content \<Rightarrow> Ok content))"

text \<open>A key of the decoded map that holds a string which is not blank.\<close>

definition text_key :: "(string \<Rightarrow> yaml_value option) \<Rightarrow> string \<Rightarrow> string option" where
  "text_key m k = (case m k of Some (YString s) \<Rightarrow> if trim_space s \<noteq> [] then Some s else None | _ \<Rightarrow> None)"

definition schema_from_map ::
    "file_system \<Rightarrow> string \<Rightarrow> go_error option \<Rightarrow> (string \<Rightarrow> yaml_value option) \<Rightarrow> string result" where
  "schema_from_map readFile yamlFilePath err m =
     (case text_key m ''schema'' of
        Some s \<Rightarrow> Ok s
      | None \<Rightarrow>
          (case text_key m ''schema_file'' of
             Some s \<Rightarrow> readReferencedSchemaFile readFile yamlFilePath s
           | None \<Rightarrow>
               (case text_key m ''schemaFile'' of
                  Some s \<Rightarrow> readReferencedSchemaFile readFile yamlFilePath s
                | None \<Rightarrow>
                    (case err of
                       Some e \<Rightarrow> Err (Wrap ''failed to parse YAML file'' e)
                     | None \<Rightarrow> Err (ErrorString ''no schema found in YAML file'')))))"

definition schemaFromYAML :: "yaml_lib \<Rightarrow> file_system \<Rightarrow> string \<Rightarrow> bytes \<Rightarrow> string result" where
  "schemaFromYAML Y readFile yamlFilePath content =
     (let parsed = decodeValidationFile Y content;
          minimal = (\<lambda>err. case yamlUnmarshal Y content of
              Err yerr \<Rightarrow> Err (Wrap ''failed to parse YAML file'' (case err of Some e \<Rightarrow> e | None \<Rightarrow> yerr))
            | Ok m \<Rightarrow> schema_from_map readFile yamlFilePath err m)
      in case parsed of
           Ok (schema, schemaFile) \<Rightarrow>
             (if schema \<noteq> [] then Ok schema
              else if schemaFile \<noteq> [] then readReferencedSchemaFile readFile yamlFilePath schemaFile
              else minimal None)
         | Err e \<Rightarrow> minimal (Some e))"

definition readSchemaFile :: "yaml_lib \<Rightarrow> file_system \<Rightarrow> string \<Rightarrow> string result" where
  "readSchemaFile Y readFile filePath =
     (let ext = to_lower (ext_path filePath)
      in if ext = ''.yaml'' \<or> ext = ''.yml''
         then (case readFile filePath of
                 Err e \<Rightarrow> Err e
               | Ok content \<Rightarrow>
                   (case schemaFromYAML Y readFile filePath content of
                      Err e \<Rightarrow> Err e
                    | Ok schema \<Rightarrow>
                        if trim_space schema = [] then Err (ErrorString ''no schema found in YAML file'')
                        else Ok schema))
         else readFile filePath)"

section \<open>Reloading\<close>

record schema_reloader =
  schemaClient :: "string \<Rightarrow> unit result"   \<comment> \<open>\<open>WriteSchema\<close> of the service\<close>
  reloadFiles :: "string list"

definition newSchemaReloader :: "(string \<Rightarrow> unit result) \<Rightarrow> string list \<Rightarrow> schema_reloader" where
  "newSchemaReloader conn schemaFiles = \<lparr>schemaClient = conn, reloadFiles = schemaFiles\<rparr>"

fun read_parts :: "yaml_lib \<Rightarrow> file_system \<Rightarrow> string list \<Rightarrow> string list \<Rightarrow> string list result" where
  "read_parts Y readFile [] parts = Ok parts"
| "read_parts Y readFile (f # fs) parts = (case readSchemaFile Y readFile f of
     Err e \<Rightarrow> Err (Wrap (''failed to read schema file '' @ f) e)
   | Ok content \<Rightarrow> read_parts Y readFile fs (parts @ [content]))"

definition reload :: "yaml_lib \<Rightarrow> file_system \<Rightarrow> schema_reloader \<Rightarrow> string list \<times> unit result" where
  "reload Y readFile r =
     (if reloadFiles r = [] then ([], Err (ErrorString ''no schema files configured''))
      else case read_parts Y readFile (reloadFiles r) [] of
        Err e \<Rightarrow> ([], Err e)
      | Ok schemaParts \<Rightarrow>
          (let combinedSchema = join_with [CHR 0x0A, CHR 0x0A] schemaParts
           in if combinedSchema = [] then ([], Err (ErrorString ''no schema content found in files''))
              else ([combinedSchema],
                (case schemaClient r combinedSchema of
                   Err e \<Rightarrow> Err (Wrap ''failed to write schema'' e) | Ok _ \<Rightarrow> Ok ()))))"

section \<open>Lemmas\<close>

lemma read_parts_eq: "read_parts Y readFile fs parts =
   (case map_res (\<lambda>f. case readSchemaFile Y readFile f of
       Err e \<Rightarrow> Err (Wrap (''failed to read schema file '' @ f) e) | Ok c \<Rightarrow> Ok c) fs of
      Err e \<Rightarrow> Err e | Ok cs \<Rightarrow> Ok (parts @ cs))"
  by (induction fs arbitrary: parts) (simp_all split: sum.splits)

lemma read_parts_Ok:
  "read_parts Y readFile fs [] = Ok cs \<longleftrightarrow> list_all2 (\<lambda>f c. readSchemaFile Y readFile f = Ok c) fs cs"
proof -
  let ?g = "\<lambda>f. case readSchemaFile Y readFile f of
       Err e \<Rightarrow> Err (Wrap (''failed to read schema file '' @ f) e) | Ok c \<Rightarrow> Ok c"
  have "?g f = Ok c \<longleftrightarrow> readSchemaFile Y readFile f = Ok c" for f c by (simp split: sum.split)
  then have "map_res ?g fs = Ok cs \<longleftrightarrow> list_all2 (\<lambda>f c. readSchemaFile Y readFile f = Ok c) fs cs"
    unfolding map_res_Ok_iff by simp
  then show ?thesis unfolding read_parts_eq by (cases "map_res ?g fs") simp_all
qed

section \<open>Which files are read\<close>

text \<open>A file that a path names under a directory: its components begin with those of the directory.\<close>

definition under :: "string \<Rightarrow> string \<Rightarrow> bool" where
  "under d p \<longleftrightarrow> rooted p = rooted d \<and> (\<exists>cs. path_parts p = path_parts d @ cs \<and> ''..'' \<notin> set cs)"

lemma referenced_under:
  assumes "\<And>p. under (dir_path y) p \<Longrightarrow> fs p = fs' p"
  shows "readReferencedSchemaFile fs y ref = readReferencedSchemaFile fs' y ref"
proof (cases "is_local ref")
  case True
  then have "under (dir_path y) (join_path (dir_path y) ref)"
    using join_local [OF True dir_path_not_Nil] local_no_dots(1) [OF True] by (auto simp: under_def)
  then show ?thesis using assms by (simp add: readReferencedSchemaFile_def Let_def)
qed (simp add: readReferencedSchemaFile_def)

lemma yaml_under:
  assumes "\<And>p. under (dir_path y) p \<Longrightarrow> fs p = fs' p"
  shows "schemaFromYAML Y fs y content = schemaFromYAML Y fs' y content"
proof -
  have "readReferencedSchemaFile fs y = readReferencedSchemaFile fs' y"
    using referenced_under [of y fs fs', OF assms] by (simp add: fun_eq_iff)
  then show ?thesis by (simp only: schemaFromYAML_def schema_from_map_def)
qed

lemma read_schema_under:
  assumes "\<And>p. p = f \<or> under (dir_path f) p \<Longrightarrow> fs p = fs' p"
  shows "readSchemaFile Y fs f = readSchemaFile Y fs' f"
  using assms yaml_under [of f fs fs' Y] by (simp add: readSchemaFile_def Let_def cong: sum.case_cong)

section \<open>Properties\<close>

text \<open>
  C27. A reload sends at most one request. When it sends one, every configured file was read, and the
  request is their contents in the configured order, joined by a blank line; any file that cannot be read
  means that nothing is sent.
\<close>

theorem reload_sends_files:
  assumes "reload Y fs r = (sent, res)"
  shows "(sent = [] \<and> res \<noteq> Ok () \<and>
      (reloadFiles r \<noteq> [] \<longrightarrow> (\<exists>f \<in> set (reloadFiles r). \<exists>e. readSchemaFile Y fs f = Err e) \<or>
        (\<exists>f. reloadFiles r = [f] \<and> readSchemaFile Y fs f = Ok []))) \<or>
    (\<exists>contents. list_all2 (\<lambda>f c. readSchemaFile Y fs f = Ok c) (reloadFiles r) contents \<and>
       sent = [join_with [CHR 0x0A, CHR 0x0A] contents] \<and>
       (res = Ok () \<longleftrightarrow> schemaClient r (join_with [CHR 0x0A, CHR 0x0A] contents) = Ok ()))"
proof (cases "reloadFiles r = []")
  case True
  then show ?thesis using assms by (auto simp: reload_def)
next
  case ne: False
  show ?thesis
  proof (cases "read_parts Y fs (reloadFiles r) []")
    case (Inl e)
    have "\<exists>f \<in> set (reloadFiles r). \<exists>e. readSchemaFile Y fs f = Err e"
    proof (rule ccontr)
      assume "\<not> ?thesis"
      then have "\<forall>f \<in> set (reloadFiles r). \<exists>c. readSchemaFile Y fs f = Ok c" by (metis sum.exhaust)
      then obtain g where "\<forall>f \<in> set (reloadFiles r). readSchemaFile Y fs f = Ok (g f)" by metis
      then have "list_all2 (\<lambda>f c. readSchemaFile Y fs f = Ok c) (reloadFiles r) (map g (reloadFiles r))"
        by (simp add: list_all2_map2 list.rel_refl_strong)
      then show False using Inl by (metis read_parts_Ok sum.simps(4))
    qed
    then show ?thesis using assms ne Inl by (auto simp: reload_def)
  next
    case (Inr cs)
    then have all: "list_all2 (\<lambda>f c. readSchemaFile Y fs f = Ok c) (reloadFiles r) cs" by (simp add: read_parts_Ok)
    show ?thesis
    proof (cases "join_with [CHR 0x0A, CHR 0x0A] cs = []")
      case True
      have "cs \<noteq> []" using all ne by auto
      with True have "cs = [[]]" by (cases cs; cases "tl cs") auto
      then obtain f where "reloadFiles r = [f]" "readSchemaFile Y fs f = Ok []"
        using all by (auto simp: list_all2_Cons2)
      then show ?thesis using assms ne Inr True by (auto simp: reload_def)
    next
      case False
      then show ?thesis
        using assms ne Inr all by (intro disjI2 exI [of _ cs]) (auto simp: reload_def Let_def split: sum.splits)
    qed
  qed
qed

definition plain_yaml :: yaml_lib where
  "plain_yaml = \<lparr>decodeValidationFile = (\<lambda>c. Err (LibError ''validation file'')),
     yamlUnmarshal = (\<lambda>c. Ok (\<lambda>k. if k = ''schemaFile'' then Some (YString c) else None))\<rparr>"

definition sample_files :: file_system where
  "sample_files p = (if p = ''schemas/a.zed'' then Ok ''definition user {}''
     else if p = ''schemas/sub/b.zed'' then Ok ''definition doc {}''
     else if p = ''schemas/b.yaml'' then Ok ''sub/b.zed'' else Err ErrNotFound)"

lemma sample_reload:
  "reload plain_yaml sample_files (newSchemaReloader (\<lambda>_. Ok ()) [''schemas/a.zed'', ''schemas/b.yaml'']) =
     ([''definition user {}'' @ [CHR 0x0A, CHR 0x0A] @ ''definition doc {}''], Ok ())"
  by code_simp

theorem reload_sends_files_witness:
  "\<exists>contents. list_all2 (\<lambda>f c. readSchemaFile plain_yaml sample_files f = Ok c) [''schemas/a.zed'', ''schemas/b.yaml''] contents \<and>
     [''definition user {}'' @ [CHR 0x0A, CHR 0x0A] @ ''definition doc {}''] = [join_with [CHR 0x0A, CHR 0x0A] contents]"
  using reload_sends_files [OF sample_reload] by (simp add: newSchemaReloader_def)

text \<open>
  C28. A YAML file can pull in a schema file only from its own directory or below it: what a reload sends
  and returns depends on no other file, whatever the YAML names (a path with \<open>..\<close> that leaves the
  directory, or an absolute path).
\<close>

theorem reload_stays_local:
  assumes "\<forall>p. (\<exists>f \<in> set (reloadFiles r). p = f \<or> under (dir_path f) p) \<longrightarrow> fs p = fs' p"
  shows "reload Y fs r = reload Y fs' r"
proof -
  have "readSchemaFile Y fs f = readSchemaFile Y fs' f" if "f \<in> set (reloadFiles r)" for f
    using assms that by (intro read_schema_under) blast
  moreover have "(\<forall>f \<in> set xs. readSchemaFile Y fs f = readSchemaFile Y fs' f) \<Longrightarrow>
      read_parts Y fs xs parts = read_parts Y fs' xs parts" for xs parts
    by (induction xs arbitrary: parts) (simp_all split: sum.split)
  ultimately have "read_parts Y fs (reloadFiles r) [] = read_parts Y fs' (reloadFiles r) []" by blast
  then show ?thesis by (simp only: reload_def)
qed

theorem reload_stays_local_witness:
  "reload plain_yaml sample_files (newSchemaReloader (\<lambda>_. Ok ()) [''schemas/b.yaml'']) =
   reload plain_yaml (sample_files(''etc/passwd'' := Ok ''secret'')) (newSchemaReloader (\<lambda>_. Ok ()) [''schemas/b.yaml''])"
proof (rule reload_stays_local, intro allI impI)
  fix p assume "\<exists>f \<in> set (reloadFiles (newSchemaReloader (\<lambda>_. Ok ()) [''schemas/b.yaml''])).
    p = f \<or> under (dir_path f) p"
  then have "p = ''schemas/b.yaml'' \<or> under (dir_path ''schemas/b.yaml'') p" by (simp add: newSchemaReloader_def)
  moreover have "\<not> under (dir_path ''schemas/b.yaml'') ''etc/passwd''"
  proof -
    have "path_parts (dir_path ''schemas/b.yaml'') = [''schemas'']" "path_parts ''etc/passwd'' = [''etc'', ''passwd'']"
      by code_simp+
    then show ?thesis by (simp add: under_def)
  qed
  ultimately have "p \<noteq> ''etc/passwd''" by auto
  then show "sample_files p = (sample_files(''etc/passwd'' := Ok ''secret'')) p" by simp
qed

text \<open>Two empty files pass the check for content: the blank line between them is sent as the schema.\<close>

lemma empty_files_sent:
  "reload Y (\<lambda>_. Ok []) (newSchemaReloader (\<lambda>_. Ok ()) [''a.zed'', ''b.zed'']) = ([[CHR 0x0A, CHR 0x0A]], Ok ())"
proof -
  have "to_lower (ext_path ''a.zed'') = ''.zed''" "to_lower (ext_path ''b.zed'') = ''.zed''" by code_simp+
  then show ?thesis by (simp add: reload_def newSchemaReloader_def readSchemaFile_def Let_def)
qed

end
