(* ===== verification/File_Watcher.thy ===== *)
theory File_Watcher
  imports Go_Paths Spice_Types
begin

text \<open>
  \<open>internal/watch/watcher.go\<close> and \<open>watcher.go\<close>: the file watcher with its debounced reload. The operations
  are the critical sections of the code; the goroutines that run them (the watch loop, the callbacks of
  fired timers, a caller of \<open>Stop\<close>) interleave in the step relation \<open>watcher_step\<close>. The notifier of the
  operating system is a parameter of \<open>Start\<close> and the source of the events.
\<close>

section \<open>The watcher\<close>

record fw =
  fwFiles :: "string list"
  fwAbsFiles :: "string list"              \<comment> \<open>the keys of the map, without duplicates\<close>
  fwDebounce :: int
  fwPending :: "(string \<times> nanotime) list"
  fwTimer :: "nat option"                  \<comment> \<open>the timer the field refers to\<close>
  fwStopped :: bool
  fwDone :: bool                           \<comment> \<open>whether its context is cancelled\<close>
  fwClosed :: bool                         \<comment> \<open>whether the notifier is closed\<close>
  fwLoop :: bool                           \<comment> \<open>whether \<open>watchLoop\<close> runs\<close>
  fwWatched :: "string list"               \<comment> \<open>the paths added to the notifier\<close>

text \<open>The runtime's timers: those that have not fired, with their deadlines.\<close>

record timers =
  armed :: "(nat \<times> nanotime) list"
  nextTimer :: nat

definition afterFunc :: "nanotime \<Rightarrow> int \<Rightarrow> timers \<Rightarrow> nat \<times> timers" where
  "afterFunc now d t = (nextTimer t, t\<lparr>armed := armed t @ [(nextTimer t, now + d)], nextTimer := Suc (nextTimer t)\<rparr>)"

definition stopTimer :: "nat \<Rightarrow> timers \<Rightarrow> timers" where
  "stopTimer i t = t\<lparr>armed := filter (\<lambda>(j, _). j \<noteq> i) (armed t)\<rparr>"

fun abs_files :: "(string \<Rightarrow> string result) \<Rightarrow> string list \<Rightarrow> string list \<Rightarrow> string list result" where
  "abs_files absPath [] acc = Ok acc"
| "abs_files absPath (f # fs) acc = (case absPath f of
     Err e \<Rightarrow> Err (Wrap (''failed to get absolute path for '' @ f) e)
   | Ok p \<Rightarrow> abs_files absPath fs (List.insert p acc))"

definition newFileWatcher ::
    "unit result \<Rightarrow> (string \<Rightarrow> string result) \<Rightarrow> string list \<Rightarrow> int \<Rightarrow> fw result" where
  "newFileWatcher newWatcher absPath files debounce = (case newWatcher of
     Err e \<Rightarrow> Err e
   | Ok _ \<Rightarrow>
       (case abs_files absPath files [] of
          Err e \<Rightarrow> Err e
        | Ok absFiles \<Rightarrow> Ok \<lparr>fwFiles = files, fwAbsFiles = absFiles, fwDebounce = debounce, fwPending = [],
            fwTimer = None, fwStopped = False, fwDone = False, fwClosed = False, fwLoop = False, fwWatched = []\<rparr>))"

text \<open>\<open>Start\<close>: a file that exists is watched itself, otherwise its directory is.\<close>

fun watch_paths :: "(string \<Rightarrow> bool) \<Rightarrow> (string \<Rightarrow> unit result) \<Rightarrow> string list \<Rightarrow> fw \<Rightarrow> fw \<times> unit result" where
  "watch_paths stat add [] fw = (fw, Ok ())"
| "watch_paths stat add (p # ps) fw =
     (if stat p then
        (case add p of
           Err e \<Rightarrow> (fw, Err (Wrap (''failed to watch file '' @ p) e))
         | Ok _ \<Rightarrow> watch_paths stat add ps (fw\<lparr>fwWatched := fwWatched fw @ [p]\<rparr>))
      else
        (case add (dir_path p) of
           Err e \<Rightarrow> (fw, Err (Wrap (''failed to watch directory '' @ dir_path p) e))
         | Ok _ \<Rightarrow> watch_paths stat add ps (fw\<lparr>fwWatched := fwWatched fw @ [dir_path p]\<rparr>)))"

definition fw_Start :: "(string \<Rightarrow> bool) \<Rightarrow> (string \<Rightarrow> unit result) \<Rightarrow> fw \<Rightarrow> fw \<times> unit result" where
  "fw_Start stat add fw = (case watch_paths stat add (fwAbsFiles fw) fw of
     (fw1, Err e) \<Rightarrow> (fw1, Err e)
   | (fw1, Ok _) \<Rightarrow> (fw1\<lparr>fwLoop := True\<rparr>, Ok ()))"

definition isWatchedFile :: "fw \<Rightarrow> string \<Rightarrow> bool" where
  "isWatchedFile fw path \<longleftrightarrow> path \<in> set (fwAbsFiles fw)"

definition getPendingFiles :: "fw \<Rightarrow> string list" where
  "getPendingFiles fw = gm_keys (fwPending fw)"

text \<open>The critical section of \<open>handleFileChange\<close>.\<close>

definition handleFileChange :: "nanotime \<Rightarrow> string \<Rightarrow> fw \<times> timers \<Rightarrow> fw \<times> timers" where
  "handleFileChange now filePath st = (case st of (fw, tm) \<Rightarrow>
     if fwStopped fw then (fw, tm)
     else
       (let fw1 = fw\<lparr>fwPending := gm_put filePath now (fwPending fw)\<rparr>;
            tm1 = (case fwTimer fw1 of Some i \<Rightarrow> stopTimer i tm | None \<Rightarrow> tm);
            (i, tm2) = afterFunc now (fwDebounce fw1) tm1
        in (fw1\<lparr>fwTimer := Some i\<rparr>, tm2)))"

record fs_event =
  evName :: string
  evWrite :: bool      \<comment> \<open>the bits of its operation that the code tests\<close>
  evCreate :: bool

definition handles :: "fw \<Rightarrow> fs_event \<Rightarrow> bool" where
  "handles fw ev \<longleftrightarrow> isWatchedFile fw (evName ev) \<and> (evWrite ev \<or> evCreate ev)"

definition loop_event :: "nanotime \<Rightarrow> fs_event \<Rightarrow> fw \<times> timers \<Rightarrow> fw \<times> timers" where
  "loop_event now ev st = (if handles (fst st) ev then handleFileChange now (evName ev) st else st)"

text \<open>
  The critical section of a timer's callback, and the files of the reload it runs: \<open>reloadFunc\<close> is called
  with the lock held.
\<close>

definition timer_callback :: "fw \<Rightarrow> fw \<times> string list option" where
  "timer_callback fw =
     (if fwStopped fw then (fw, None)
      else if fwPending fw = [] then (fw, None)
      else (fw\<lparr>fwPending := []\<rparr>, Some (getPendingFiles fw)))"

text \<open>\<open>Stop\<close>: its critical section, and what it does after.\<close>

definition stop_locked :: "fw \<times> timers \<Rightarrow> fw \<times> timers" where
  "stop_locked st = (case st of (fw, tm) \<Rightarrow>
     (let fw1 = fw\<lparr>fwStopped := True\<rparr>;
          (fw2, tm1) = (case fwTimer fw1 of
            Some i \<Rightarrow> (fw1\<lparr>fwTimer := None\<rparr>, stopTimer i tm) | None \<Rightarrow> (fw1, tm))
      in (fw2\<lparr>fwPending := []\<rparr>, tm1)))"

definition stop_cancel :: "fw \<Rightarrow> fw" where
  "stop_cancel fw = fw\<lparr>fwDone := True, fwClosed := True\<rparr>"

text \<open>
  The whole of \<open>Stop\<close>, when nothing else runs: it waits until \<open>watchLoop\<close> has ended, and returns what closing
  the notifier gives.
\<close>

definition fw_Stop :: "unit result \<Rightarrow> fw \<times> timers \<Rightarrow> (fw \<times> timers) \<times> unit result" where
  "fw_Stop closed st = (case stop_locked st of
     (fw, tm) \<Rightarrow> (((stop_cancel fw)\<lparr>fwLoop := False\<rparr>, tm), closed))"

section \<open>The goroutines\<close>

text \<open>
  \<open>fired\<close>: callbacks of timers that have fired, before they look at the context; \<open>waiting\<close>: after that,
  before they hold the lock. \<open>batches\<close> are the reloads, \<open>accepted\<close> the changes taken while not stopped.
\<close>

record watcher =
  wFw :: fw
  wTimers :: timers
  wClock :: nanotime
  wFired :: "nat list"
  wWaiting :: "nat list"
  wBatches :: "string list list"
  wAccepted :: "string list"

inductive watcher_step :: "watcher \<Rightarrow> watcher \<Rightarrow> bool" where
  event: "fwLoop (wFw w) \<Longrightarrow> loop_event (wClock w) ev (wFw w, wTimers w) = (fw', tm') \<Longrightarrow>
    watcher_step w (w\<lparr>wFw := fw', wTimers := tm', wAccepted := wAccepted w @
      (if handles (wFw w) ev \<and> \<not> fwStopped (wFw w) then [evName ev] else [])\<rparr>)"
| loop_ends: "fwLoop (wFw w) \<Longrightarrow> fwDone (wFw w) \<or> fwClosed (wFw w) \<Longrightarrow>
    watcher_step w (w\<lparr>wFw := (wFw w)\<lparr>fwLoop := False\<rparr>\<rparr>)"
| tick: "wClock w \<le> t \<Longrightarrow> watcher_step w (w\<lparr>wClock := t\<rparr>)"
| fires: "(i, d) \<in> set (armed (wTimers w)) \<Longrightarrow> d \<le> wClock w \<Longrightarrow>
    watcher_step w (w\<lparr>wTimers := stopTimer i (wTimers w), wFired := wFired w @ [i]\<rparr>)"
| looks: "i \<in> set (wFired w) \<Longrightarrow>
    watcher_step w (w\<lparr>wFired := remove1 i (wFired w),
      wWaiting := (if fwDone (wFw w) then wWaiting w else wWaiting w @ [i])\<rparr>)"
| runs: "i \<in> set (wWaiting w) \<Longrightarrow> timer_callback (wFw w) = (fw', b) \<Longrightarrow>
    watcher_step w (w\<lparr>wFw := fw', wWaiting := remove1 i (wWaiting w),
      wBatches := wBatches w @ (case b of None \<Rightarrow> [] | Some files \<Rightarrow> [files])\<rparr>)"
| stops: "stop_locked (wFw w, wTimers w) = (fw', tm') \<Longrightarrow>
    watcher_step w (w\<lparr>wFw := fw', wTimers := tm'\<rparr>)"
| cancels: "fwStopped (wFw w) \<Longrightarrow> watcher_step w (w\<lparr>wFw := stop_cancel (wFw w)\<rparr>)"

definition watcher_init :: "fw \<Rightarrow> nanotime \<Rightarrow> watcher" where
  "watcher_init fw now = \<lparr>wFw = fw, wTimers = \<lparr>armed = [], nextTimer = 0\<rparr>, wClock = now, wFired = [], wWaiting = [],
     wBatches = [], wAccepted = []\<rparr>"

text \<open>A watcher after \<open>NewFileWatcher\<close> and \<open>Start\<close>.\<close>

definition started_fw :: "fw \<Rightarrow> bool" where
  "started_fw fw \<longleftrightarrow> fwPending fw = [] \<and> fwTimer fw = None \<and> \<not> fwStopped fw \<and> \<not> fwDone fw \<and> \<not> fwClosed fw \<and> fwLoop fw"

inductive watcher_reaches :: "fw \<Rightarrow> watcher \<Rightarrow> bool" for fw where
  init: "watcher_reaches fw (watcher_init fw now)"
| step: "watcher_reaches fw w \<Longrightarrow> watcher_step w w' \<Longrightarrow> watcher_reaches fw w'"

lemma watch_paths_keeps:
  "watch_paths stat add ps fw = (fw', r) \<Longrightarrow> \<exists>ws. fw' = fw\<lparr>fwWatched := fwWatched fw @ ws\<rparr>"
proof (induction ps arbitrary: fw)
  case Nil
  then show ?case by (intro exI [of _ "[]"]) simp
next
  case (Cons p ps)
  have nop: "\<exists>ws. fw = fw\<lparr>fwWatched := fwWatched fw @ ws\<rparr>" by (rule exI [of _ "[]"]) simp
  show ?case
    using Cons.prems Cons.IH [of "fw\<lparr>fwWatched := fwWatched fw @ [p]\<rparr>"]
      Cons.IH [of "fw\<lparr>fwWatched := fwWatched fw @ [dir_path p]\<rparr>"] nop
    by (auto split: if_splits sum.splits)
qed

lemma start_started:
  assumes "newFileWatcher nw absPath files d = Ok fw0" and "fw_Start stat add fw0 = (fw, Ok ())"
  shows "started_fw fw"
proof -
  have 0: "fwPending fw0 = []" "fwTimer fw0 = None" "\<not> fwStopped fw0" "\<not> fwDone fw0" "\<not> fwClosed fw0"
    using assms(1) by (auto simp: newFileWatcher_def split: sum.splits)
  obtain fw1 where "watch_paths stat add (fwAbsFiles fw0) fw0 = (fw1, Ok ())" "fw = fw1\<lparr>fwLoop := True\<rparr>"
    using assms(2) by (auto simp: fw_Start_def split: prod.splits sum.splits)
  then show ?thesis using watch_paths_keeps 0 by (fastforce simp: started_fw_def)
qed

section \<open>The invariant\<close>

lemma put_keys: "fst ` set (gm_put k v m) = insert k (fst ` set m)"
proof -
  have "set (gm_keys (gm_put k v m)) = insert k (set (gm_keys m))" by (auto simp: AList.update_keys simp del: set_map)
  then show ?thesis by simp
qed

lemma put_pairs: "gm_ok m \<Longrightarrow> (f, t) \<in> set (gm_put k v m) \<Longrightarrow> (f, t) = (k, v) \<or> (f, t) \<in> set m"
proof -
  assume m: "gm_ok m" and "(f, t) \<in> set (gm_put k v m)"
  then have "map_of (gm_put k v m) f = Some t" by (intro map_of_is_SomeI) (simp_all add: distinct_update)
  then show ?thesis using m by (auto simp: gm_get_iff split: if_splits)
qed

text \<open>
  A pending change has a timer or a callback that will look at it; every armed timer is the current one and
  was armed when the last change came.
\<close>

definition stop_ok :: "watcher \<Rightarrow> bool" where
  "stop_ok w \<longleftrightarrow> (fwDone (wFw w) \<or> fwClosed (wFw w) \<longrightarrow> fwStopped (wFw w)) \<and>
     (fwStopped (wFw w) \<longrightarrow> fwPending (wFw w) = [] \<and> armed (wTimers w) = [])"

definition timer_ok :: "watcher \<Rightarrow> bool" where
  "timer_ok w \<longleftrightarrow>
     (fwPending (wFw w) \<noteq> [] \<longrightarrow> (\<exists>i. fwTimer (wFw w) = Some i \<and>
        (i \<in> fst ` set (armed (wTimers w)) \<or> i \<in> set (wFired w) \<or> i \<in> set (wWaiting w)))) \<and>
     (\<forall>(i, d) \<in> set (armed (wTimers w)). fwTimer (wFw w) = Some i \<and>
        (\<forall>(f, t) \<in> set (fwPending (wFw w)). t + fwDebounce (wFw w) \<le> d)) \<and>
     (\<forall>(f, t) \<in> set (fwPending (wFw w)). t \<le> wClock w) \<and> gm_ok (fwPending (wFw w))"

definition batches_ok :: "watcher \<Rightarrow> bool" where
  "batches_ok w \<longleftrightarrow> set (wAccepted w) \<subseteq> set (fwAbsFiles (wFw w)) \<and>
     set (concat (wBatches w)) \<union> set (getPendingFiles (wFw w)) \<subseteq> set (wAccepted w) \<and>
     (\<not> fwStopped (wFw w) \<longrightarrow> set (wAccepted w) \<subseteq> set (concat (wBatches w)) \<union> set (getPendingFiles (wFw w))) \<and>
     (\<forall>b \<in> set (wBatches w). b \<noteq> [] \<and> distinct b)"

definition watcher_ok :: "watcher \<Rightarrow> bool" where
  "watcher_ok w \<longleftrightarrow> stop_ok w \<and> timer_ok w \<and> batches_ok w"

text \<open>A change that is taken.\<close>

lemma accepted_change:
  assumes "timer_ok w" and "handles (wFw w) ev" and "\<not> fwStopped (wFw w)"
    and "loop_event (wClock w) ev (wFw w, wTimers w) = (fw', tm')"
  shows "fw' = (wFw w)\<lparr>fwPending := gm_put (evName ev) (wClock w) (fwPending (wFw w)), fwTimer := Some (nextTimer (wTimers w))\<rparr>"
    and "armed tm' = [(nextTimer (wTimers w), wClock w + fwDebounce (wFw w))]"
proof -
  have no: "filter (\<lambda>(j, _). j \<noteq> i) (armed (wTimers w)) = []" if "fwTimer (wFw w) = Some i" for i
    using assms(1) that by (auto simp: timer_ok_def filter_empty_conv)
  have none: "armed (wTimers w) = []" if "fwTimer (wFw w) = None"
  proof (rule ccontr)
    assume "armed (wTimers w) \<noteq> []"
    then obtain i d where "(i, d) \<in> set (armed (wTimers w))" by (metis list.set_intros(1) neq_Nil_conv surj_pair)
    then show False using assms(1) that by (auto simp: timer_ok_def)
  qed
  show "fw' = (wFw w)\<lparr>fwPending := gm_put (evName ev) (wClock w) (fwPending (wFw w)), fwTimer := Some (nextTimer (wTimers w))\<rparr>"
    "armed tm' = [(nextTimer (wTimers w), wClock w + fwDebounce (wFw w))]"
    using assms(2-4) no none
    by (auto simp: loop_event_def handleFileChange_def afterFunc_def stopTimer_def Let_def split: option.splits)
qed

lemma remove1_other: "x \<noteq> y \<Longrightarrow> x \<in> set xs \<Longrightarrow> x \<in> set (remove1 y xs)"
  by (simp add: in_set_remove1)

lemma event_ok:
  assumes "watcher_ok w" and "loop_event (wClock w) ev (wFw w, wTimers w) = (fw', tm')"
  shows "watcher_ok (w\<lparr>wFw := fw', wTimers := tm', wAccepted := wAccepted w @
      (if handles (wFw w) ev \<and> \<not> fwStopped (wFw w) then [evName ev] else [])\<rparr>)"
proof (cases "handles (wFw w) ev \<and> \<not> fwStopped (wFw w)")
  case False
  then have "fw' = wFw w" "tm' = wTimers w"
    using assms(2) by (auto simp: loop_event_def handleFileChange_def split: if_splits)
  moreover have "(if handles (wFw w) ev \<and> \<not> fwStopped (wFw w) then [evName ev] else []) = []" using False by simp
  ultimately have "w\<lparr>wFw := fw', wTimers := tm', wAccepted := wAccepted w @
      (if handles (wFw w) ev \<and> \<not> fwStopped (wFw w) then [evName ev] else [])\<rparr> = w" by simp
  then show ?thesis using assms(1) by simp
next
  case True
  have t: "timer_ok w" and s: "stop_ok w" and b: "batches_ok w" using assms(1) by (simp_all add: watcher_ok_def)
  note ch = accepted_change [OF t True [THEN conjunct1] True [THEN conjunct2] assms(2)]
  have g: "gm_ok (fwPending (wFw w))" using t by (simp add: timer_ok_def)
  let ?p = "gm_put (evName ev) (wClock w) (fwPending (wFw w))"
  let ?w = "w\<lparr>wFw := fw', wTimers := tm', wAccepted := wAccepted w @ [evName ev]\<rparr>"
  have le: "t \<le> wClock w" if "(f, t) \<in> set ?p" for f t
    using put_pairs [OF g that] t by (auto simp: timer_ok_def)
  have "stop_ok ?w" using s True by (simp add: stop_ok_def ch)
  moreover have "timer_ok ?w" using g le by (auto simp: timer_ok_def ch)
  moreover have "batches_ok ?w"
    using b True by (auto simp: batches_ok_def ch getPendingFiles_def put_keys handles_def isWatchedFile_def)
  ultimately show ?thesis using True by (simp add: watcher_ok_def)
qed

lemma callback_ok:
  assumes "watcher_ok w" and "timer_callback (wFw w) = (fw', b)"
  shows "watcher_ok (w\<lparr>wFw := fw', wWaiting := remove1 i (wWaiting w),
      wBatches := wBatches w @ (case b of None \<Rightarrow> [] | Some files \<Rightarrow> [files])\<rparr>)"
proof (cases "fwStopped (wFw w) \<or> fwPending (wFw w) = []")
  case True
  then have "fw' = wFw w" "b = None" using assms(2) by (auto simp: timer_callback_def split: if_splits)
  moreover have "fwPending (wFw w) = []" using True assms(1) by (auto simp: watcher_ok_def stop_ok_def)
  ultimately show ?thesis
    using assms(1) by (auto simp: watcher_ok_def stop_ok_def timer_ok_def batches_ok_def getPendingFiles_def)
next
  case False
  then have "fw' = (wFw w)\<lparr>fwPending := []\<rparr>" "b = Some (getPendingFiles (wFw w))"
    using assms(2) by (auto simp: timer_callback_def split: if_splits)
  then show ?thesis
    using assms(1) False
    by (auto simp: watcher_ok_def stop_ok_def timer_ok_def batches_ok_def getPendingFiles_def)
qed

lemma stop_locked_ok:
  assumes "watcher_ok w" and "stop_locked (wFw w, wTimers w) = (fw', tm')"
  shows "watcher_ok (w\<lparr>wFw := fw', wTimers := tm'\<rparr>)"
proof -
  have "armed tm' = []"
  proof (cases "fwTimer (wFw w)")
    case None
    then have "armed (wTimers w) = []"
      using assms(1) by (cases "armed (wTimers w)") (auto simp: watcher_ok_def timer_ok_def)
    then show ?thesis using assms(2) None by (auto simp: stop_locked_def)
  next
    case (Some i)
    then have "filter (\<lambda>(j, _). j \<noteq> i) (armed (wTimers w)) = []"
      using assms(1) by (auto simp: watcher_ok_def timer_ok_def filter_empty_conv)
    then show ?thesis using assms(2) Some by (auto simp: stop_locked_def stopTimer_def Let_def)
  qed
  moreover have "fwPending fw' = []" "fwStopped fw'" "fwAbsFiles fw' = fwAbsFiles (wFw w)"
    using assms(2) by (auto simp: stop_locked_def Let_def split: option.splits prod.splits)
  ultimately show ?thesis
    using assms(1) by (auto simp: watcher_ok_def stop_ok_def timer_ok_def batches_ok_def getPendingFiles_def)
qed

lemma watcher_step_ok: "watcher_step w w' \<Longrightarrow> watcher_ok w \<Longrightarrow> watcher_ok w'"
proof (induction rule: watcher_step.induct)
  case (event w ev fw' tm')
  then show ?case by (intro event_ok)
next
  case (loop_ends w)
  then show ?case by (auto simp: watcher_ok_def stop_ok_def timer_ok_def batches_ok_def getPendingFiles_def)
next
  case (tick w t)
  then show ?case by (fastforce simp: watcher_ok_def stop_ok_def timer_ok_def batches_ok_def)
next
  case (fires i d w)
  then have "fwTimer (wFw w) = Some i" by (auto simp: watcher_ok_def timer_ok_def)
  then show ?case
    using fires by (auto simp: watcher_ok_def stop_ok_def timer_ok_def batches_ok_def stopTimer_def)
next
  case (looks i w)
  then show ?case
  proof (cases "fwDone (wFw w)")
    case True
    then have "fwPending (wFw w) = []" using looks by (simp add: watcher_ok_def stop_ok_def)
    then show ?thesis using looks True by (auto simp: watcher_ok_def stop_ok_def timer_ok_def batches_ok_def)
  next
    case False
    have "set (wFired w) \<union> set (wWaiting w) \<subseteq> set (remove1 i (wFired w)) \<union> set (wWaiting w @ [i])"
      using remove1_other [of _ i "wFired w"] by auto
    then have sub: "j \<in> set (wFired w) \<or> j \<in> set (wWaiting w) \<Longrightarrow>
        j \<in> set (remove1 i (wFired w)) \<or> j \<in> set (wWaiting w @ [i])" for j by blast
    let ?w = "w\<lparr>wFired := remove1 i (wFired w), wWaiting := wWaiting w @ [i]\<rparr>"
    have "stop_ok ?w" "batches_ok ?w" using looks by (simp_all add: watcher_ok_def stop_ok_def batches_ok_def)
    moreover have "timer_ok ?w"
    proof -
      have t: "timer_ok w" using looks by (simp add: watcher_ok_def)
      have "\<exists>j. fwTimer (wFw w) = Some j \<and> (j \<in> fst ` set (armed (wTimers w)) \<or>
          j \<in> set (remove1 i (wFired w)) \<or> j \<in> set (wWaiting w @ [i]))" if "fwPending (wFw w) \<noteq> []"
        using t that sub unfolding timer_ok_def by blast
      with t show ?thesis by (simp add: timer_ok_def)
    qed
    ultimately show ?thesis using False by (simp add: watcher_ok_def)
  qed
next
  case (runs i w fw' b)
  then show ?case by (intro callback_ok)
next
  case (stops w fw' tm')
  then show ?case by (intro stop_locked_ok)
next
  case (cancels w)
  then show ?case by (simp add: watcher_ok_def stop_ok_def timer_ok_def batches_ok_def stop_cancel_def getPendingFiles_def)
qed

lemma watcher_reaches_ok: "watcher_reaches fw w \<Longrightarrow> started_fw fw \<Longrightarrow> watcher_ok w"
proof (induction rule: watcher_reaches.induct)
  case (init now)
  then show ?case
    by (simp add: watcher_ok_def stop_ok_def timer_ok_def batches_ok_def watcher_init_def started_fw_def getPendingFiles_def)
next
  case (step w w')
  then show ?case using watcher_step_ok by blast
qed

section \<open>A callback for every pending change\<close>

text \<open>Steps that leave the fields of the watcher alone: the clock, the timers and callbacks with nothing to do.\<close>

definition quiet_step :: "watcher \<Rightarrow> watcher \<Rightarrow> bool" where
  "quiet_step w w' \<longleftrightarrow> watcher_step w w' \<and> wFw w' = wFw w \<and> wBatches w' = wBatches w"

lemma quiet_fired:
  assumes "i \<in> set (wFired u)" and "\<not> fwDone (wFw u)"
  shows "\<exists>u'. quiet_step u u' \<and> i \<in> set (wWaiting u') \<and> wFw u' = wFw u \<and> wBatches u' = wBatches u"
  using watcher_step.looks [OF assms(1)] assms(2)
  by (intro exI [of _ "u\<lparr>wFired := remove1 i (wFired u), wWaiting := wWaiting u @ [i]\<rparr>"]) (simp add: quiet_step_def)

lemma callback_ready:
  assumes ok: "watcher_ok w" and p: "fwPending (wFw w) \<noteq> []"
  shows "\<exists>u i. quiet_step\<^sup>*\<^sup>* w u \<and> i \<in> set (wWaiting u) \<and> wFw u = wFw w \<and> wBatches u = wBatches w"
proof -
  have nd: "\<not> fwDone (wFw w)" using ok p by (auto simp: watcher_ok_def stop_ok_def)
  obtain i where "i \<in> fst ` set (armed (wTimers w)) \<or> i \<in> set (wFired w) \<or> i \<in> set (wWaiting w)"
    using ok p by (auto simp: watcher_ok_def timer_ok_def)
  then consider d where "(i, d) \<in> set (armed (wTimers w))" | "i \<in> set (wFired w)" | "i \<in> set (wWaiting w)" by auto
  then show ?thesis
  proof cases
    case 1
    let ?t = "w\<lparr>wClock := max d (wClock w)\<rparr>"
    let ?f = "?t\<lparr>wTimers := stopTimer i (wTimers ?t), wFired := wFired ?t @ [i]\<rparr>"
    have t: "watcher_step w ?t" by (rule watcher_step.tick) simp
    have f: "watcher_step ?t ?f" by (rule watcher_step.fires [of i d]) (use 1 in simp_all)
    have q: "quiet_step w ?t" "quiet_step ?t ?f" using t f by (simp_all add: quiet_step_def)
    obtain u where u: "quiet_step ?f u" "i \<in> set (wWaiting u)" "wFw u = wFw w" "wBatches u = wBatches w"
      using quiet_fired [of i ?f] nd by auto
    have "quiet_step\<^sup>*\<^sup>* w u" using q u(1) by (meson converse_rtranclp_into_rtranclp rtranclp.rtrancl_refl)
    with u(2-4) show ?thesis by blast
  next
    case 2
    then obtain u where u: "quiet_step w u" "i \<in> set (wWaiting u)" "wFw u = wFw w" "wBatches u = wBatches w"
      using quiet_fired [of i w] nd by auto
    then have "quiet_step\<^sup>*\<^sup>* w u" by (simp add: r_into_rtranclp)
    with u(2-4) show ?thesis by blast
  next
    case 3
    then show ?thesis by blast
  qed
qed

lemma callback_runs:
  assumes "watcher_ok w" and "fwPending (wFw w) \<noteq> []"
    and "i \<in> set (wWaiting u)" and "wFw u = wFw w" and "wBatches u = wBatches w"
  shows "\<exists>u'. watcher_step u u' \<and> wBatches u' = wBatches w @ [getPendingFiles (wFw w)] \<and> fwPending (wFw u') = [] \<and>
    wFw u' = (wFw w)\<lparr>fwPending := []\<rparr>"
proof -
  have ns: "\<not> fwStopped (wFw w)" using assms(1,2) by (auto simp: watcher_ok_def stop_ok_def)
  have "timer_callback (wFw u) = ((wFw w)\<lparr>fwPending := []\<rparr>, Some (getPendingFiles (wFw w)))"
    using ns assms(2,4) by (simp add: timer_callback_def)
  note st = watcher_step.runs [OF assms(3) this]
  show ?thesis by (rule exI, rule conjI [OF st]) (simp add: assms(5))
qed

section \<open>Properties\<close>

definition sample_fw :: fw where
  "sample_fw = \<lparr>fwFiles = [''/s/a.zed''], fwAbsFiles = [''/s/a.zed''], fwDebounce = 500, fwPending = [], fwTimer = None,
     fwStopped = False, fwDone = False, fwClosed = False, fwLoop = True, fwWatched = [''/s/a.zed'']\<rparr>"

lemma sample_fw_started: "started_fw sample_fw"
  by (simp add: started_fw_def sample_fw_def)

lemma sample_fw_built:
  "\<exists>fw0. newFileWatcher (Ok ()) (abs_path (Ok ''/'')) [''/s/a.zed''] 500 = Ok fw0 \<and>
     fw_Start (\<lambda>_. True) (\<lambda>_. Ok ()) fw0 = (sample_fw, Ok ())"
proof -
  have "abs_path (Ok ''/'' :: go_error + string) ''/s/a.zed'' = Ok ''/s/a.zed''" by code_simp
  then show ?thesis by (simp add: newFileWatcher_def fw_Start_def sample_fw_def)
qed

definition write_event :: "string \<Rightarrow> fs_event" where
  "write_event p = \<lparr>evName = p, evWrite = True, evCreate = False\<rparr>"

text \<open>The watcher after one write to its file at time 7.\<close>

definition sample_watcher :: watcher where
  "sample_watcher = (watcher_init sample_fw 7)\<lparr>
     wFw := sample_fw\<lparr>fwPending := [(''/s/a.zed'', 7)], fwTimer := Some 0\<rparr>,
     wTimers := \<lparr>armed = [(0, 507)], nextTimer = Suc 0\<rparr>, wAccepted := [''/s/a.zed'']\<rparr>"

lemma sample_watcher_reached: "watcher_reaches sample_fw sample_watcher"
proof -
  let ?w = "watcher_init sample_fw 7" and ?ev = "write_event ''/s/a.zed''"
  let ?fw = "sample_fw\<lparr>fwPending := [(''/s/a.zed'', 7)], fwTimer := Some 0\<rparr>"
  let ?tm = "\<lparr>armed = [(0, 507)], nextTimer = Suc 0\<rparr>"
  have "loop_event (wClock ?w) ?ev (wFw ?w, wTimers ?w) = (?fw, ?tm)" "fwLoop (wFw ?w)"
    by (simp_all add: watcher_init_def sample_fw_def loop_event_def handles_def isWatchedFile_def write_event_def
        handleFileChange_def afterFunc_def)
  from watcher_step.event [OF this(2,1)]
  have "watcher_step ?w (?w\<lparr>wFw := ?fw, wTimers := ?tm, wAccepted := wAccepted ?w @
      (if handles (wFw ?w) ?ev \<and> \<not> fwStopped (wFw ?w) then [evName ?ev] else [])\<rparr>)" .
  moreover have "wAccepted ?w @ (if handles (wFw ?w) ?ev \<and> \<not> fwStopped (wFw ?w) then [evName ?ev] else []) =
      [''/s/a.zed'']"
    by (simp add: handles_def isWatchedFile_def write_event_def watcher_init_def sample_fw_def)
  ultimately have "watcher_step ?w sample_watcher" unfolding sample_watcher_def by simp
  then show ?thesis by (rule watcher_reaches.step [OF watcher_reaches.init])
qed



text \<open>
  A pending change can always be reloaded without anything else happening: from every reachable state
  with pending changes, letting time pass and the callback run leads to one more reload, of exactly the
  files that are pending.
\<close>

theorem pending_reloads:
  assumes "started_fw fw" and "watcher_reaches fw w" and "fwPending (wFw w) \<noteq> []"
  shows "\<exists>w'. watcher_step\<^sup>*\<^sup>* w w' \<and> wBatches w' = wBatches w @ [getPendingFiles (wFw w)] \<and> fwPending (wFw w') = []"
proof -
  have ok: "watcher_ok w" using watcher_reaches_ok [OF assms(2,1)] .
  obtain u i where u: "quiet_step\<^sup>*\<^sup>* w u" "i \<in> set (wWaiting u)" "wFw u = wFw w" "wBatches u = wBatches w"
    using callback_ready [OF ok assms(3)] by blast
  have "watcher_step\<^sup>*\<^sup>* w u" using u(1) by (rule rtranclp_mono [THEN predicate2D, rotated]) (auto simp: quiet_step_def)
  with callback_runs [OF ok assms(3) u(2-4)] show ?thesis by (meson rtranclp.rtrancl_into_rtrancl)
qed

theorem pending_reloads_witness:
  "\<exists>w'. watcher_step\<^sup>*\<^sup>* sample_watcher w' \<and> wBatches w' = [[''/s/a.zed'']]"
proof -
  have "fwPending (wFw sample_watcher) \<noteq> []" by (simp add: sample_watcher_def)
  from pending_reloads [OF sample_fw_started sample_watcher_reached this] show ?thesis
    by (auto simp: sample_watcher_def watcher_init_def getPendingFiles_def)
qed

text \<open>
  After the critical section of \<open>Stop\<close> no reload starts any more, whatever timers have fired and
  whatever events still arrive.
\<close>

theorem no_reload_after_stop:
  assumes "started_fw fw" and "watcher_reaches fw w" and "fwStopped (wFw w)" and "watcher_step\<^sup>*\<^sup>* w w'"
  shows "wBatches w' = wBatches w \<and> fwStopped (wFw w')"
  using assms(4)
proof (induction rule: rtranclp_induct)
  case base
  then show ?case using assms(3) by simp
next
  case (step x y)
  then have s: "fwStopped (wFw x)" by simp
  have "wBatches y = wBatches x \<and> fwStopped (wFw y)"
    using step.hyps(2) s
    by (cases rule: watcher_step.cases)
      (auto simp: loop_event_def handleFileChange_def timer_callback_def stop_locked_def stop_cancel_def Let_def
        split: if_splits option.splits prod.splits)
  then show ?case using step.IH by simp
qed

theorem no_reload_after_stop_witness:
  "\<exists>w. watcher_reaches sample_fw w \<and> fwStopped (wFw w) \<and>
     (\<exists>w'. watcher_step w w' \<and> wBatches w' = [] \<and> fwStopped (wFw w'))"
proof -
  obtain fw' tm' where st: "stop_locked (wFw sample_watcher, wTimers sample_watcher) = (fw', tm')" by fastforce
  let ?w = "sample_watcher\<lparr>wFw := fw', wTimers := tm'\<rparr>"
  have r: "watcher_reaches sample_fw ?w"
    by (rule watcher_reaches.step [OF sample_watcher_reached watcher_step.stops [OF st]])
  have s: "fwStopped (wFw ?w)" using st by (auto simp: stop_locked_def Let_def split: option.splits prod.splits)
  have step: "watcher_step ?w (?w\<lparr>wClock := wClock ?w\<rparr>)" by (rule watcher_step.tick) simp
  have rt: "watcher_step\<^sup>*\<^sup>* ?w (?w\<lparr>wClock := wClock ?w\<rparr>)" by (rule r_into_rtranclp) (rule step)
  from no_reload_after_stop [OF sample_fw_started r s rt]
  have "wBatches (?w\<lparr>wClock := wClock ?w\<rparr>) = [] \<and> fwStopped (wFw (?w\<lparr>wClock := wClock ?w\<rparr>))"
    by (simp add: sample_watcher_def watcher_init_def)
  with step have "\<exists>w'. watcher_step ?w w' \<and> wBatches w' = [] \<and> fwStopped (wFw w')" by blast
  with r s show ?thesis by blast
qed

end
