(* ===== verification/Server_Life.thy ===== *)
theory Server_Life
  imports Server_Config Schema_Reload File_Watcher
begin

text \<open>
  \<open>server.go\<close>, \<open>interfaces.go\<close> and \<open>internal/healthhttp/server.go\<close>: the life of an embedded server. Each
  method is a function on the record of the server's fields; what it meets outside (the gRPC server of
  SpiceDB, the network, the file system, the clock) is the argument of the call.
\<close>

section \<open>The HTTP server of the health check\<close>

text \<open>\<open>healthhttp.Server\<close>: the address it is bound to, and whether it has been told to shut down.\<close>

record health_server =
  hhAddr :: string
  hhShut :: bool

definition health_Start :: "(string \<Rightarrow> string result) \<Rightarrow> string \<Rightarrow> health_server result" where
  "health_Start listen address = (case listen address of
     Err e \<Rightarrow> Err e | Ok bound \<Rightarrow> Ok \<lparr>hhAddr = bound, hhShut = False\<rparr>)"

definition health_Addr :: "health_server option \<Rightarrow> string" where
  "health_Addr srv = (case srv of None \<Rightarrow> [] | Some h \<Rightarrow> hhAddr h)"

text \<open>It stops accepting connections at once; draining the ones there are may fail.\<close>

definition health_Shutdown :: "unit result \<Rightarrow> health_server option \<Rightarrow> health_server option \<times> unit result" where
  "health_Shutdown drained srv = (case srv of None \<Rightarrow> (None, Ok ()) | Some h \<Rightarrow> (Some (h\<lparr>hhShut := True\<rparr>), drained))"

section \<open>State\<close>

text \<open>A client connection: its identity and what \<open>WriteSchema\<close> over it gives.\<close>

record conn =
  connId :: nat
  connWrite :: "string \<Rightarrow> unit result"

record 'd server =
  svConfig :: config
  svServer :: bool                     \<comment> \<open>whether \<open>es.server\<close> is set\<close>
  svDatastore :: "'d memdb_ds option"
  svReloader :: "schema_reloader option"
  svWatcher :: "fw option"
  svTimers :: timers                   \<comment> \<open>the runtime's timers of the watcher\<close>
  svConn :: "conn option"
  svCallbacks :: "nat list"
  svHealthSrv :: "health_server option"
  svStarted :: bool
  svStartTime :: "nanotime option"
  svCancelled :: bool                  \<comment> \<open>whether \<open>es.ctx\<close> is cancelled\<close>

text \<open>The options that \<open>Start\<close> gives to SpiceDB's server.\<close>

record 'd srv_options =
  soDatastore :: "'d memdb_ds option"
  soPresharedKey :: string
  soGRPCAddress :: string
  soHTTPEnabled :: bool
  soHTTPAddress :: string

record 'd start_env =
  seComplete :: "'d srv_options \<Rightarrow> unit result"
  seDial :: "nat \<Rightarrow> conn result"              \<comment> \<open>\<open>GRPCDialContext\<close>, by the number of the attempt\<close>
  seCtxErr :: "nat \<Rightarrow> go_error option"        \<comment> \<open>the caller's context, while waiting after an attempt\<close>
  seYaml :: yaml_lib
  seFiles :: file_system
  seNewWatcher :: "unit result"
  seAbs :: "string \<Rightarrow> string result"
  seStat :: "string \<Rightarrow> bool"
  seAdd :: "string \<Rightarrow> unit result"
  seListen :: "string \<Rightarrow> string result"       \<comment> \<open>the bound address\<close>
  seNow :: nanotime

record stop_env =
  spShutdown :: "unit result"          \<comment> \<open>draining the health server\<close>
  spFwClose :: "unit result"           \<comment> \<open>closing the notifier\<close>
  spNow :: nanotime

datatype server_error = InvalidConfig "config_error list" | DatastoreFailed go_error

definition newServer ::
    "('d, 't) env \<Rightarrow> (string \<Rightarrow> unit result) \<Rightarrow> nanotime \<Rightarrow> string \<Rightarrow> config \<Rightarrow> server_error + 'd server" where
  "newServer E resolve now uid config =
     (let c = withDefaults config
      in if validate resolve c \<noteq> [] then Inl (InvalidConfig (validate resolve c))
         else case createDatastore E now uid c of
           Err e \<Rightarrow> Inl (DatastoreFailed e)
         | Ok ds \<Rightarrow> Inr \<lparr>svConfig = c, svServer = False, svDatastore = Some ds, svReloader = None, svWatcher = None,
             svTimers = \<lparr>armed = [], nextTimer = 0\<rparr>, svConn = None, svCallbacks = [], svHealthSrv = None,
             svStarted = False, svStartTime = None, svCancelled = False\<rparr>)"

section \<open>Dialling\<close>

definition maxRetries :: nat where "maxRetries = 10"
definition initialBackoff :: int where "initialBackoff = 10 * millisecond"
definition maxBackoff :: int where "maxBackoff = 500 * millisecond"

text \<open>
  The loop, with the number of attempts left; it gives the time it has waited between attempts as well.
  While \<open>Start\<close> holds the lock nobody cancels the server's context, so \<open>esDone\<close> does not change; when it
  is cancelled the wait ends at once, and so it does for the caller's context.
\<close>

fun dial_loop ::
    "(nat \<Rightarrow> conn result) \<Rightarrow> (nat \<Rightarrow> go_error option) \<Rightarrow> bool \<Rightarrow> nat \<Rightarrow> nat \<Rightarrow> int \<Rightarrow> go_error \<Rightarrow> int list \<times> conn result" where
  "dial_loop dial ctxErr esDone 0 i backoff lastErr = ([], Err (Wrap ''failed after 10 retries'' lastErr))"
| "dial_loop dial ctxErr esDone (Suc n) i backoff lastErr = (case dial i of
     Ok c \<Rightarrow> ([], Ok c)
   | Err e \<Rightarrow>
       (case ctxErr i of
          Some ce \<Rightarrow> ([], Err ce)
        | None \<Rightarrow>
            if esDone then ([], Err (ErrorString ''context canceled''))
            else (case dial_loop dial ctxErr esDone n (Suc i)
                (if 2 * backoff > maxBackoff then maxBackoff else 2 * backoff) e of
              (waits, r) \<Rightarrow> (backoff # waits, r))))"

definition dialWithRetry ::
    "(nat \<Rightarrow> conn result) \<Rightarrow> (nat \<Rightarrow> go_error option) \<Rightarrow> bool \<Rightarrow> int list \<times> conn result" where
  "dialWithRetry dial ctxErr esDone = dial_loop dial ctxErr esDone maxRetries 0 initialBackoff (ErrorString [])"

section \<open>The health server\<close>

definition startHealthCheckServer :: "(string \<Rightarrow> string result) \<Rightarrow> 'd server \<Rightarrow> 'd server \<times> unit result" where
  "startHealthCheckServer listen s =
     (if \<not> cHealthCheckEnabled (svConfig s) then (s, Ok ())
      else case health_Start listen (cHealthCheckAddress (svConfig s)) of
        Err e \<Rightarrow> (s, Err e)
      | Ok srv \<Rightarrow> (s\<lparr>svHealthSrv := Some srv\<rparr>, Ok ()))"

definition stopHealthCheckServer :: "unit result \<Rightarrow> 'd server \<Rightarrow> 'd server \<times> unit result" where
  "stopHealthCheckServer shutdown s =
     (if svHealthSrv s = None then (s, Ok ())
      else case health_Shutdown shutdown (svHealthSrv s) of
        (srv, Err e) \<Rightarrow> (s\<lparr>svHealthSrv := srv\<rparr>, Err e)
      | (_, Ok _) \<Rightarrow> (s\<lparr>svHealthSrv := None\<rparr>, Ok ()))"

definition healthCheckHTTPAddr :: "'d server \<Rightarrow> string" where
  "healthCheckHTTPAddr s = (if svHealthSrv s = None then [] else health_Addr (svHealthSrv s))"

section \<open>Start\<close>

definition start_options :: "'d server \<Rightarrow> 'd srv_options" where
  "start_options s = \<lparr>soDatastore = svDatastore s, soPresharedKey = cPresharedKey (svConfig s),
     soGRPCAddress = cGRPCAddress (svConfig s), soHTTPEnabled = cHTTPEnabled (svConfig s),
     soHTTPAddress = cHTTPAddress (svConfig s)\<rparr>"

definition start_watcher :: "'d start_env \<Rightarrow> 'd server \<Rightarrow> 'd server" where
  "start_watcher V s =
     (if cSchemaFiles (svConfig s) = [] then s
      else case newFileWatcher (seNewWatcher V) (seAbs V) (cSchemaFiles (svConfig s)) (cWatchDebounce (svConfig s)) of
        Err _ \<Rightarrow> s
      | Ok w \<Rightarrow>
          (case fw_Start (seStat V) (seAdd V) w of
             (_, Err _) \<Rightarrow> s
           | (w', Ok _) \<Rightarrow> s\<lparr>svWatcher := Some w', svTimers := \<lparr>armed = [], nextTimer = nextTimer (svTimers s)\<rparr>\<rparr>))"

text \<open>
  \<open>Start\<close> gives the schemas it sends as well as its result. The goroutine that runs SpiceDB's server runs
  under the server's context, so whether it is to go on is \<open>svCancelled\<close>; errors that are only logged are
  dropped.
\<close>

definition start :: "'d start_env \<Rightarrow> 'd server \<Rightarrow> 'd server \<times> string list \<times> unit result" where
  "start V s =
     (if svStarted s then (s, [], Err (ErrorString ''server is already started''))
      else case seComplete V (start_options s) of
        Err e \<Rightarrow> (s, [], Err (Wrap ''failed to complete server configuration'' e))
      | Ok _ \<Rightarrow>
          (let s1 = s\<lparr>svServer := True\<rparr>
           in case snd (dialWithRetry (seDial V) (seCtxErr V) (svCancelled s)) of
                Err e \<Rightarrow> (s1\<lparr>svCancelled := True\<rparr>, [], Err (Wrap ''failed to dial server'' e))
              | Ok c \<Rightarrow>
                  (let r = newSchemaReloader (connWrite c) (cSchemaFiles (svConfig s));
                       s2 = s1\<lparr>svConn := Some c, svReloader := Some r\<rparr>;
                       sent = (if cSchemaFiles (svConfig s) \<noteq> [] then fst (reload (seYaml V) (seFiles V) r) else []);
                       s3 = (start_watcher V s2)\<lparr>svStartTime := Some (seNow V)\<rparr>;
                       s4 = fst (startHealthCheckServer (seListen V) s3)
                   in (s4\<lparr>svStarted := True\<rparr>, sent, Ok ()))))"

section \<open>Stop and the other methods\<close>

text \<open>
  \<open>Stop\<close> closes the connection and waits for the server's goroutine as well; the fields of the server keep
  referring to the connection, the reloader and the watcher.
\<close>

definition stop_watcher :: "unit result \<Rightarrow> 'd server \<Rightarrow> 'd server" where
  "stop_watcher closed s = (case svWatcher s of
     None \<Rightarrow> s
   | Some w \<Rightarrow> (case fw_Stop closed (w, svTimers s) of
       ((w', tm), _) \<Rightarrow> s\<lparr>svWatcher := Some w', svTimers := tm\<rparr>))"

definition stop :: "stop_env \<Rightarrow> 'd server \<Rightarrow> 'd server \<times> unit result" where
  "stop P s =
     (if \<not> svStarted s then (s, Ok ())
      else
        (let s1 = fst (stopHealthCheckServer (spShutdown P) s);
             s2 = stop_watcher (spFwClose P) s1;
             s3 = s2\<lparr>svCancelled := True\<rparr>;
             s4 = (case svDatastore s3 of
                 None \<Rightarrow> s3 | Some ds \<Rightarrow> s3\<lparr>svDatastore := Some (close_ds ds (spNow P))\<rparr>)
         in (s4\<lparr>svStarted := False\<rparr>, Ok ())))"

definition clientConn :: "'d server \<Rightarrow> conn result" where
  "clientConn s =
     (if \<not> svStarted s then Err (ErrorString ''server is not started'')
      else case svConn s of None \<Rightarrow> Err (ErrorString ''no connection available'') | Some c \<Rightarrow> Ok c)"

text \<open>The schemas that are sent, the calls of the callbacks in order, and the result.\<close>

definition reloadSchema ::
    "yaml_lib \<Rightarrow> file_system \<Rightarrow> 'd server \<Rightarrow> string list \<times> (nat \<times> unit result) list \<times> unit result" where
  "reloadSchema Y fs s =
     (if \<not> svStarted s then ([], [], Err (ErrorString ''server is not started''))
      else case svReloader s of
        None \<Rightarrow> ([], [], Err (ErrorString ''no schema reloader available''))
      | Some r \<Rightarrow> (case reload Y fs r of
          (sent, err) \<Rightarrow> (sent, map (\<lambda>callback. (callback, err)) (svCallbacks s), err)))"

definition onSchemaReloaded :: "nat \<Rightarrow> 'd server \<Rightarrow> 'd server" where
  "onSchemaReloaded callback s = s\<lparr>svCallbacks := svCallbacks s @ [callback]\<rparr>"

section \<open>Creating a server\<close>

text \<open>
  C30. \<open>New\<close> succeeds exactly when the configuration with its defaults is valid, names the in-memory
  datastore without surrounding white space, has a garbage collection window that is not shorter than the
  quantization interval, and the database can be created: a valid configuration for \<open>postgres\<close> or \<open>mysql\<close>,
  or one that names \<open>memdb\<close> with white space around it, always fails.
\<close>

theorem new_succeeds_iff:
  "(\<exists>s. newServer E resolve now uid c = Inr s) \<longleftrightarrow>
    config_ok resolve (withDefaults c) \<and> to_lower (cDatastoreType (withDefaults c)) = ''memdb'' \<and>
    cRevisionQuantization (withDefaults c) \<le> cGCWindow (withDefaults c) \<and> (\<exists>d. eNewMemDB E = Ok d)"
proof -
  let ?c = "withDefaults c"
  have ne: "to_lower (cDatastoreType ?c) \<noteq> []" by (simp add: withDefaults_def to_lower_def)
  have "(\<exists>ds. createDatastore E now uid ?c = Ok ds) \<longleftrightarrow> to_lower (cDatastoreType ?c) = ''memdb'' \<and>
      cRevisionQuantization ?c \<le> cGCWindow ?c \<and> (\<exists>d. eNewMemDB E = Ok d)"
    using ne by (auto simp: createDatastore_def newMemdbDatastore_def Let_def split: sum.splits)
  then show ?thesis
    by (cases "createDatastore E now uid ?c") (auto simp: newServer_def Let_def validate_Nil)
qed

section \<open>Dialling ends\<close>

lemma dial_loop_bound:
  assumes "dial_loop dial ctxErr esDone n i b e = (ws, r)" and "0 \<le> b" and "b \<le> maxBackoff"
  shows "length ws \<le> n \<and> (\<forall>k < length ws. 0 \<le> ws ! k \<and> ws ! k \<le> min maxBackoff (b * 2 ^ k))"
  using assms
proof (induction n arbitrary: i b e ws)
  case (Suc n)
  let ?b = "if 2 * b > maxBackoff then maxBackoff else 2 * b"
  show ?case
  proof (cases "ws = []")
    case False
    then obtain ws' e' where ws: "ws = b # ws'" "dial_loop dial ctxErr esDone n (Suc i) ?b e' = (ws', r)"
      using Suc.prems(1) by (auto split: sum.splits option.splits if_splits prod.splits)
    have b: "0 \<le> ?b" "?b \<le> maxBackoff" "?b \<le> 2 * b" using Suc.prems(2) by (auto simp: maxBackoff_def)
    have IH: "length ws' \<le> n" "\<forall>k < length ws'. 0 \<le> ws' ! k \<and> ws' ! k \<le> min maxBackoff (?b * 2 ^ k)"
      using Suc.IH [OF ws(2) b(1,2)] by blast+
    have "?b * 2 ^ k \<le> b * 2 ^ Suc k" for k using mult_right_mono [OF b(3), of "2 ^ k"] by (simp add: ac_simps)
    then have "ws' ! k \<le> min maxBackoff (b * 2 ^ Suc k)" if "k < length ws'" for k
      using IH(2) that by (meson min.bounded_iff order_trans)
    then have "0 \<le> ws ! k \<and> ws ! k \<le> min maxBackoff (b * 2 ^ k)" if "k < length ws" for k
      using ws(1) that IH(2) Suc.prems(2,3) by (cases k) auto
    then show ?thesis using ws(1) IH(1) by simp
  qed simp
qed simp

lemma dial_loop_first:
  "(\<forall>j < k. \<exists>e. dial (i + j) = Err e) \<Longrightarrow> dial (i + k) = Ok c \<Longrightarrow> (\<forall>j < k. ctxErr (i + j) = None) \<Longrightarrow>
   k < n \<Longrightarrow> snd (dial_loop dial ctxErr False n i b e) = Ok c"
proof (induction k arbitrary: n i b e)
  case 0
  then show ?case by (cases n) simp_all
next
  case (Suc k)
  obtain m where n: "n = Suc m" "k < m" using Suc.prems(4) by (cases n) auto
  obtain e0 where "dial i = Err e0" using Suc.prems(1) by (metis add_0_right zero_less_Suc)
  moreover have "ctxErr i = None" using Suc.prems(3) by (metis add_0_right zero_less_Suc)
  moreover have "snd (dial_loop dial ctxErr False m (Suc i) b' e0) = Ok c" for b'
  proof (rule Suc.IH [OF _ _ _ n(2)])
    show "\<forall>j<k. \<exists>e. dial (Suc i + j) = Err e" using Suc.prems(1) by (metis Suc_less_eq add_Suc_shift)
    show "dial (Suc i + k) = Ok c" using Suc.prems(2) by simp
    show "\<forall>j<k. ctxErr (Suc i + j) = None" using Suc.prems(3) by (metis Suc_less_eq add_Suc_shift)
  qed
  ultimately show ?case using n(1) by (simp add: split_def)
qed

lemma sum_list_bound: "length ws \<le> length bs \<Longrightarrow> (\<forall>k < length ws. ws ! k \<le> bs ! k) \<Longrightarrow> \<forall>x \<in> set bs. 0 \<le> x \<Longrightarrow>
    sum_list ws \<le> (sum_list bs :: int)"
proof (induction ws arbitrary: bs)
  case Nil
  then show ?case by (simp add: sum_list_nonneg)
next
  case (Cons w ws)
  then obtain b bs' where bs: "bs = b # bs'" by (cases bs) auto
  have "\<forall>k < length ws. ws ! k \<le> bs' ! k" using Cons.prems(2) bs by fastforce
  then have "sum_list ws \<le> sum_list bs'" using Cons.IH [of bs'] Cons.prems(1,3) bs by simp
  moreover have "w \<le> b" using Cons.prems(2) bs by fastforce
  ultimately show ?case using bs by simp
qed

text \<open>
  C31. \<open>dialWithRetry\<close> ends: it waits at most ten times, each time for at most half a second and
  altogether for at most 2630 milliseconds, and it returns the connection of the first
  attempt that succeeds within the ten, unless a context ends before. On a server whose own context is
  cancelled already it never waits.
\<close>

theorem dial_ends:
  "length (fst (dialWithRetry dial ctxErr esDone)) \<le> maxRetries \<and>
   sum_list (fst (dialWithRetry dial ctxErr esDone)) \<le> 2630 * millisecond \<and>
   (\<forall>w \<in> set (fst (dialWithRetry dial ctxErr esDone)). 0 \<le> w \<and> w \<le> maxBackoff) \<and>
   fst (dialWithRetry dial ctxErr True) = [] \<and>
   (\<forall>k < maxRetries. (\<forall>j < k. \<exists>e. dial j = Err e) \<and> dial k = Ok c \<and> (\<forall>j < k. ctxErr j = None) \<longrightarrow>
      snd (dialWithRetry dial ctxErr False) = Ok c)"
proof -
  obtain ws r where d: "dialWithRetry dial ctxErr esDone = (ws, r)" by fastforce
  have b0: "0 \<le> initialBackoff" "initialBackoff \<le> maxBackoff" by (simp_all add: initialBackoff_def maxBackoff_def)
  have b: "length ws \<le> maxRetries" "\<forall>k < length ws. 0 \<le> ws ! k \<and> ws ! k \<le> min maxBackoff (initialBackoff * 2 ^ k)"
    using dial_loop_bound [OF d [unfolded dialWithRetry_def] b0] by blast+
  let ?bs = "map (\<lambda>k. min maxBackoff (initialBackoff * 2 ^ k)) [0..<10]"
  have "sum_list ws \<le> sum_list ?bs"
    by (rule sum_list_bound) (use b b0 in \<open>auto simp: maxRetries_def\<close>)
  also have "sum_list ?bs = 2630 * millisecond" by (simp add: maxBackoff_def initialBackoff_def upt_rec)
  finally have "sum_list ws \<le> 2630 * millisecond" .
  moreover have "\<forall>w \<in> set ws. 0 \<le> w \<and> w \<le> maxBackoff" using b(2) by (auto simp: in_set_conv_nth)
  moreover have "fst (dialWithRetry dial ctxErr True) = []"
    by (simp add: dialWithRetry_def maxRetries_def numeral_eq_Suc split: sum.split option.split)
  moreover have "snd (dialWithRetry dial ctxErr False) = Ok c"
    if "k < maxRetries" "\<forall>j < k. \<exists>e. dial j = Err e" "dial k = Ok c" "\<forall>j < k. ctxErr j = None" for k
    unfolding dialWithRetry_def using dial_loop_first [of k dial 0 c ctxErr maxRetries] that by simp
  ultimately show ?thesis using d b(1) by simp
qed

text \<open>The third attempt succeeds.\<close>

theorem dial_ends_witness:
  "snd (dialWithRetry (\<lambda>i. if i < 2 then Err ErrNotFound else Ok \<lparr>connId = i, connWrite = (\<lambda>_. Ok ())\<rparr>) (\<lambda>_. None) False) =
     Ok \<lparr>connId = 2, connWrite = (\<lambda>_. Ok ())\<rparr>"
proof -
  let ?d = "\<lambda>i::nat. if i < 2 then Err ErrNotFound else Ok \<lparr>connId = i, connWrite = (\<lambda>_. Ok ())\<rparr>"
  have "2 < maxRetries \<and> (\<forall>j < 2. \<exists>e. ?d j = Err e) \<and> ?d 2 = Ok \<lparr>connId = 2, connWrite = (\<lambda>_. Ok ())\<rparr>"
    by (simp add: maxRetries_def)
  then show ?thesis using dial_ends [of ?d "\<lambda>_. None" False "\<lparr>connId = 2, connWrite = (\<lambda>_. Ok ())\<rparr>"] by blast
qed

section \<open>The life cycle\<close>

text \<open>
  What a server can come to: by its own methods, and by anything that its clients do to the datastore,
  which does not reopen a closed one.
\<close>

inductive server_reaches :: "('d, 't) env \<Rightarrow> config \<Rightarrow> 'd server \<Rightarrow> bool" for E and c where
  new: "newServer E resolve now uid c = Inr s \<Longrightarrow> server_reaches E c s"
| start: "server_reaches E c s \<Longrightarrow> start V s = (s', sent, r) \<Longrightarrow> server_reaches E c s'"
| stop: "server_reaches E c s \<Longrightarrow> stop P s = (s', r) \<Longrightarrow> server_reaches E c s'"
| register: "server_reaches E c s \<Longrightarrow> server_reaches E c (onSchemaReloaded callback s)"
| serve: "server_reaches E c s \<Longrightarrow> svDatastore s = Some ds \<Longrightarrow> dsDB ds = None \<Longrightarrow> dsDB ds' = None \<Longrightarrow>
    server_reaches E c (s\<lparr>svDatastore := Some ds'\<rparr>)"
| serve_open: "server_reaches E c s \<Longrightarrow> svDatastore s = Some ds \<Longrightarrow> dsDB ds \<noteq> None \<Longrightarrow>
    server_reaches E c (s\<lparr>svDatastore := Some ds'\<rparr>)"

definition quiet_fw :: "fw \<Rightarrow> bool" where
  "quiet_fw w \<longleftrightarrow> fwStopped w \<and> fwDone w \<and> fwClosed w \<and> \<not> fwLoop w \<and> fwPending w = []"

definition server_ok :: "config \<Rightarrow> 'd server \<Rightarrow> bool" where
  "server_ok c s \<longleftrightarrow> svConfig s = withDefaults c \<and> svDatastore s \<noteq> None \<and>
     svReloader s = map_option (\<lambda>k. newSchemaReloader (connWrite k) (cSchemaFiles (svConfig s))) (svConn s) \<and>
     (svStarted s \<longrightarrow> svServer s \<and> svConn s \<noteq> None \<and> svStartTime s \<noteq> None) \<and>
     (\<not> svStarted s \<and> \<not> svCancelled s \<longrightarrow> svConn s = None \<and> svWatcher s = None \<and> svHealthSrv s = None) \<and>
     (\<forall>w. svWatcher s = Some w \<longrightarrow> cSchemaFiles (svConfig s) \<noteq> [] \<and> fwFiles w = cSchemaFiles (svConfig s) \<and>
        fwDebounce w = cWatchDebounce (svConfig s) \<and> (\<not> svStarted s \<longrightarrow> quiet_fw w)) \<and>
     (\<forall>h. svHealthSrv s = Some h \<longrightarrow> cHealthCheckEnabled (svConfig s) \<and> (\<not> svStarted s \<longrightarrow> hhShut h))"

lemma fw_Start_fields:
  assumes "newFileWatcher nw ab fs d = Ok w0" and "fw_Start st ad w0 = (w, Ok ())"
  shows "fwFiles w = fs \<and> fwDebounce w = d"
proof -
  have "fwFiles w0 = fs" "fwDebounce w0 = d" using assms(1) by (auto simp: newFileWatcher_def split: sum.splits)
  moreover obtain w1 where "watch_paths st ad (fwAbsFiles w0) w0 = (w1, Ok ())" "w = w1\<lparr>fwLoop := True\<rparr>"
    using assms(2) by (auto simp: fw_Start_def split: prod.splits sum.splits)
  ultimately show ?thesis using watch_paths_keeps [of st ad "fwAbsFiles w0" w0 w1 "Ok ()"] by auto
qed

lemma start_watcher_cases:
  obtains "start_watcher V s = s"
  | w tm where "start_watcher V s = s\<lparr>svWatcher := Some w, svTimers := tm\<rparr>" "cSchemaFiles (svConfig s) \<noteq> []"
      "fwFiles w = cSchemaFiles (svConfig s)" "fwDebounce w = cWatchDebounce (svConfig s)" "started_fw w"
proof (cases "start_watcher V s = s")
  case False
  then obtain w0 w where "cSchemaFiles (svConfig s) \<noteq> []"
    and w0: "newFileWatcher (seNewWatcher V) (seAbs V) (cSchemaFiles (svConfig s)) (cWatchDebounce (svConfig s)) = Ok w0"
    and w: "fw_Start (seStat V) (seAdd V) w0 = (w, Ok ())"
    and "start_watcher V s = s\<lparr>svWatcher := Some w, svTimers := \<lparr>armed = [], nextTimer = nextTimer (svTimers s)\<rparr>\<rparr>"
    by (auto simp: start_watcher_def split: if_splits sum.splits prod.splits)
  with fw_Start_fields [OF w0 w] start_started [OF w0 w] that show thesis by blast
qed

lemma health_server_cases:
  obtains "fst (startHealthCheckServer listen s) = s"
  | a where "fst (startHealthCheckServer listen s) = s\<lparr>svHealthSrv := Some a\<rparr>" "cHealthCheckEnabled (svConfig s)"
  by (cases "cHealthCheckEnabled (svConfig s)"; cases "health_Start listen (cHealthCheckAddress (svConfig s))")
    (simp_all add: startHealthCheckServer_def)

lemma stop_health_cases:
  obtains "fst (stopHealthCheckServer sh s) = s\<lparr>svHealthSrv := map_option (hhShut_update (\<lambda>_. True)) (svHealthSrv s)\<rparr>"
  | "fst (stopHealthCheckServer sh s) = s\<lparr>svHealthSrv := None\<rparr>"
proof (cases "svHealthSrv s")
  case None
  then have "fst (stopHealthCheckServer sh s) = s\<lparr>svHealthSrv := None\<rparr>" by (simp add: stopHealthCheckServer_def)
  then show thesis by (rule that(2))
next
  case (Some h)
  then show thesis using that by (cases sh) (simp_all add: stopHealthCheckServer_def health_Shutdown_def)
qed

text \<open>What a call of \<open>Start\<close> that goes past its guards leaves.\<close>

lemma start_fields:
  assumes "start V s = (s', sent, Ok ())"
  obtains k where "snd (dialWithRetry (seDial V) (seCtxErr V) (svCancelled s)) = Ok k" "svConn s' = Some k"
    "svReloader s' = Some (newSchemaReloader (connWrite k) (cSchemaFiles (svConfig s)))"
    "svStarted s'" "\<not> svStarted s" "svServer s'" "svStartTime s' = Some (seNow V)" "svConfig s' = svConfig s"
    "svDatastore s' = svDatastore s" "svCancelled s' = svCancelled s" "svCallbacks s' = svCallbacks s"
    "svHealthSrv s' = svHealthSrv s \<or> cHealthCheckEnabled (svConfig s)"
    "svWatcher s' = svWatcher s \<or> (\<exists>w. svWatcher s' = Some w \<and> cSchemaFiles (svConfig s) \<noteq> [] \<and>
       fwFiles w = cSchemaFiles (svConfig s) \<and> fwDebounce w = cWatchDebounce (svConfig s) \<and> started_fw w)"
proof -
  obtain k where k: "snd (dialWithRetry (seDial V) (seCtxErr V) (svCancelled s)) = Ok k" and ns: "\<not> svStarted s"
    using assms by (auto simp: start_def Let_def split: if_splits sum.splits)
  let ?r = "newSchemaReloader (connWrite k) (cSchemaFiles (svConfig s))"
  let ?s2 = "s\<lparr>svServer := True, svConn := Some k, svReloader := Some ?r\<rparr>"
  let ?s3 = "(start_watcher V ?s2)\<lparr>svStartTime := Some (seNow V)\<rparr>"
  have s': "s' = (fst (startHealthCheckServer (seListen V) ?s3))\<lparr>svStarted := True\<rparr>"
    using assms k by (auto simp: start_def Let_def split: if_splits sum.splits)
  show thesis
  proof (cases rule: start_watcher_cases [of V ?s2])
    case 1
    then show thesis
      by (cases rule: health_server_cases [of "seListen V" ?s3]) (rule that [OF k]; use s' ns in simp)+
  next
    case (2 w tm)
    then show thesis
      by (cases rule: health_server_cases [of "seListen V" ?s3]) (rule that [OF k]; use s' ns in simp)+
  qed
qed

lemma start_fails:
  assumes "start V s = (s', sent, Err e)"
  shows "s' = s \<or> (\<not> svStarted s \<and> s' = s\<lparr>svServer := True, svCancelled := True\<rparr>)"
  using assms by (auto simp: start_def Let_def split: if_splits sum.splits)

lemma stop_fields:
  assumes "stop P s = (s', r)" and "svStarted s"
  shows "r = Ok ()" "svConfig s' = svConfig s" "svServer s' = svServer s" "svReloader s' = svReloader s"
    "svConn s' = svConn s" "\<not> svStarted s'" "svStartTime s' = svStartTime s" "svCancelled s'"
    "svHealthSrv s' = map_option (hhShut_update (\<lambda>_. True)) (svHealthSrv s) \<or> svHealthSrv s' = None"
    "svDatastore s' = map_option (\<lambda>ds. close_ds ds (spNow P)) (svDatastore s)"
    "svWatcher s' = map_option (\<lambda>w. fst (fst (fw_Stop (spFwClose P) (w, svTimers s)))) (svWatcher s)"
proof -
  have h: "svWatcher (fst (stopHealthCheckServer (spShutdown P) s)) = svWatcher s"
    "svTimers (fst (stopHealthCheckServer (spShutdown P) s)) = svTimers s"
    by (cases rule: stop_health_cases [of "spShutdown P" s]; simp)+
  have w: "svWatcher (stop_watcher c u) = map_option (\<lambda>w. fst (fst (fw_Stop c (w, svTimers u)))) (svWatcher u)"
    "svDatastore (stop_watcher c u) = svDatastore u" "svConfig (stop_watcher c u) = svConfig u"
    "svServer (stop_watcher c u) = svServer u" "svReloader (stop_watcher c u) = svReloader u"
    "svConn (stop_watcher c u) = svConn u" "svStartTime (stop_watcher c u) = svStartTime u"
    "svHealthSrv (stop_watcher c u) = svHealthSrv u" for c and u :: "'a server"
    by (simp_all add: stop_watcher_def split: option.split prod.split)
  let ?s1 = "fst (stopHealthCheckServer (spShutdown P) s)"
  have k: "svDatastore ?s1 = svDatastore s" "svConfig ?s1 = svConfig s" "svServer ?s1 = svServer s"
    "svReloader ?s1 = svReloader s" "svConn ?s1 = svConn s" "svStartTime ?s1 = svStartTime s"
    "svHealthSrv ?s1 = map_option (hhShut_update (\<lambda>_. True)) (svHealthSrv s) \<or> svHealthSrv ?s1 = None"
    by (cases rule: stop_health_cases [of "spShutdown P" s]; simp)+
  note eq = assms(1) [unfolded stop_def, symmetric]
  show "r = Ok ()" "svConfig s' = svConfig s" "svServer s' = svServer s" "svReloader s' = svReloader s"
    "svConn s' = svConn s" "\<not> svStarted s'" "svStartTime s' = svStartTime s" "svCancelled s'"
    "svHealthSrv s' = map_option (hhShut_update (\<lambda>_. True)) (svHealthSrv s) \<or> svHealthSrv s' = None"
    "svDatastore s' = map_option (\<lambda>ds. close_ds ds (spNow P)) (svDatastore s)"
    "svWatcher s' = map_option (\<lambda>w. fst (fst (fw_Stop (spFwClose P) (w, svTimers s)))) (svWatcher s)"
    using eq assms(2) k w h by (auto simp: Let_def split: option.splits)
qed

lemma stop_quiet:
  "quiet_fw (fst (fst (fw_Stop c (w, tm))))"
  "fwFiles (fst (fst (fw_Stop c (w, tm)))) = fwFiles w"
  "fwDebounce (fst (fst (fw_Stop c (w, tm)))) = fwDebounce w"
  by (simp_all add: quiet_fw_def fw_Stop_def stop_cancel_def stop_locked_def Let_def split: option.split prod.split)

lemma server_ok_new: "newServer E resolve now uid c = Inr s \<Longrightarrow> server_ok c s"
  by (auto simp: newServer_def Let_def server_ok_def split: if_splits sum.splits)

lemma server_ok_start:
  assumes "server_ok c s" and "start V s = (s', sent, r)"
  shows "server_ok c s'"
proof (cases r)
  case (Inl e)
  then show ?thesis using start_fails [of V s s' sent e] assms unfolding server_ok_def by auto
next
  case (Inr u)
  then have st: "start V s = (s', sent, Ok ())" using assms(2) by simp
  show ?thesis
  proof (cases rule: start_fields [OF st])
    case (1 k)
    note f = this
    have "\<forall>w. svWatcher s' = Some w \<longrightarrow> cSchemaFiles (svConfig s') \<noteq> [] \<and> fwFiles w = cSchemaFiles (svConfig s') \<and>
        fwDebounce w = cWatchDebounce (svConfig s') \<and> (\<not> svStarted s' \<longrightarrow> quiet_fw w)"
      using f(13) assms(1) f(4,8) unfolding server_ok_def by auto
    moreover have "\<forall>h. svHealthSrv s' = Some h \<longrightarrow> cHealthCheckEnabled (svConfig s') \<and> (\<not> svStarted s' \<longrightarrow> hhShut h)"
      using f(12) assms(1) f(4,8) unfolding server_ok_def by auto
    ultimately show ?thesis using assms(1) f unfolding server_ok_def by simp
  qed
qed

lemma server_ok_stop:
  assumes "server_ok c s" and "stop P s = (s', r)"
  shows "server_ok c s'"
proof (cases "svStarted s")
  case True
  note f = stop_fields [OF assms(2) True]
  have "\<forall>w. svWatcher s' = Some w \<longrightarrow> cSchemaFiles (svConfig s') \<noteq> [] \<and> fwFiles w = cSchemaFiles (svConfig s') \<and>
      fwDebounce w = cWatchDebounce (svConfig s') \<and> (\<not> svStarted s' \<longrightarrow> quiet_fw w)"
    using f(2,11) assms(1) stop_quiet unfolding server_ok_def by auto
  moreover have "\<forall>h. svHealthSrv s' = Some h \<longrightarrow> cHealthCheckEnabled (svConfig s') \<and> (\<not> svStarted s' \<longrightarrow> hhShut h)"
    using f(2,9) assms(1) unfolding server_ok_def by auto
  ultimately show ?thesis using assms(1) f(2-8,10) unfolding server_ok_def by simp
next
  case False
  then show ?thesis using assms by (simp add: stop_def)
qed

lemma server_reaches_ok: "server_reaches E c s \<Longrightarrow> server_ok c s"
proof (induction rule: server_reaches.induct)
  case (new resolve now uid s)
  then show ?case by (rule server_ok_new)
next
  case (start s V s' sent r)
  then show ?case using server_ok_start by blast
next
  case (stop s P s' r)
  then show ?case using server_ok_stop by blast
qed (auto simp: onSchemaReloaded_def server_ok_def)

text \<open>
  C20. Whatever sequence of \<open>Start\<close>, \<open>Stop\<close> and registrations a server goes through, with any failures in
  between: its configuration stays the validated one with defaults; while it is started it has a
  connection, a reloader of exactly the configured files over that connection and a start time; and while
  it is not started the watcher it installed last is stopped for good and has nothing pending, and a health
  server it still refers to has been shut down. A server
  that is not started has no connection unless its context is cancelled, which nothing undoes.
\<close>

theorem server_lifecycle:
  assumes "server_reaches E c s"
  shows "svConfig s = withDefaults c \<and>
    (svStarted s \<longrightarrow> (\<exists>k. clientConn s = Ok k \<and> svReloader s = Some (newSchemaReloader (connWrite k) (cSchemaFiles c))) \<and>
       svStartTime s \<noteq> None) \<and>
    (\<not> svStarted s \<longrightarrow> (\<forall>w. svWatcher s = Some w \<longrightarrow> fwStopped w \<and> fwDone w \<and> fwPending w = []) \<and>
       (\<forall>h. svHealthSrv s = Some h \<longrightarrow> hhShut h) \<and> (svConn s \<noteq> None \<longrightarrow> svCancelled s)) \<and>
    (svCancelled s \<longrightarrow> svCancelled (fst (start V s)) \<and> svCancelled (fst (stop P s)))"
proof -
  have ok: "server_ok c s" using server_reaches_ok [OF assms] .
  have f: "cSchemaFiles (withDefaults c) = cSchemaFiles c" by (simp add: withDefaults_def)
  have "svCancelled (fst (start V s))" if "svCancelled s"
  proof -
    obtain s' sent r where st: "start V s = (s', sent, r)" by (metis prod.exhaust)
    show ?thesis
    proof (cases r)
      case (Inl e)
      then show ?thesis using start_fails [of V s s' sent e] st that by auto
    next
      case (Inr u)
      then have "start V s = (s', sent, Ok ())" using st by simp
      then show ?thesis using that by (cases rule: start_fields) (simp add: st)
    qed
  qed
  moreover have "svCancelled (fst (stop P s))" if "svCancelled s"
    using that stop_fields(8) [of P s] by (cases "svStarted s") (metis prod.collapse, simp add: stop_def)
  moreover have "svStarted s \<longrightarrow> (\<exists>k. clientConn s = Ok k \<and>
      svReloader s = Some (newSchemaReloader (connWrite k) (cSchemaFiles c)))"
    using ok f unfolding server_ok_def clientConn_def by auto
  ultimately show ?thesis using ok unfolding server_ok_def quiet_fw_def by auto
qed

definition sample_config :: config where
  "sample_config = defaultConfig\<lparr>cSchemaFiles := [''a.zed'']\<rparr>"

definition sample_start :: "'d start_env" where
  "sample_start = \<lparr>seComplete = (\<lambda>_. Ok ()), seDial = (\<lambda>i. Ok \<lparr>connId = i, connWrite = (\<lambda>_. Ok ())\<rparr>),
     seCtxErr = (\<lambda>_. None), seYaml = plain_yaml, seFiles = (\<lambda>_. Ok ''definition user {}''), seNewWatcher = Ok (),
     seAbs = abs_path (Ok ''/srv''), seStat = (\<lambda>_. True), seAdd = (\<lambda>_. Ok ()), seListen = (\<lambda>a. Ok a), seNow = 2000\<rparr>"

lemma sample_server: "\<exists>s. newServer ref_env (\<lambda>_. Ok ()) 1000 ''id'' sample_config = Inr s"
proof -
  have "to_lower (cDatastoreType (withDefaults sample_config)) = ''memdb''"
    "config_ok (\<lambda>_. Ok ()) (withDefaults sample_config)" by code_simp+
  moreover have "cRevisionQuantization (withDefaults sample_config) \<le> cGCWindow (withDefaults sample_config)"
    by (simp add: sample_config_def defaultConfig_def withDefaults_def)
  ultimately show ?thesis
    by (auto simp: newServer_def validate_Nil createDatastore_def newMemdbDatastore_def ref_env_def Let_def)
qed

lemma sample_start_ok: "\<not> svStarted s \<Longrightarrow> \<exists>s' sent. start sample_start s = (s', sent, Ok ())"
proof -
  have "dialWithRetry (\<lambda>i. Ok \<lparr>connId = i, connWrite = (\<lambda>_. Ok ())\<rparr>) (\<lambda>_. None) d =
      ([], Ok \<lparr>connId = 0, connWrite = (\<lambda>_. Ok ())\<rparr>)" for d
    by (simp add: dialWithRetry_def maxRetries_def numeral_eq_Suc)
  then show "\<not> svStarted s \<Longrightarrow> \<exists>s' sent. start sample_start s = (s', sent, Ok ())"
    by (simp add: start_def sample_start_def Let_def)
qed

theorem server_lifecycle_witness:
  "\<exists>s. server_reaches ref_env sample_config s \<and> svStarted s \<and>
     (\<exists>k. clientConn s = Ok k \<and> svReloader s = Some (newSchemaReloader (connWrite k) [''a.zed'']))"
proof -
  obtain s0 where n: "newServer ref_env (\<lambda>_. Ok ()) 1000 ''id'' sample_config = Inr s0" using sample_server by blast
  then have "\<not> svStarted s0" by (auto simp: newServer_def Let_def split: if_splits sum.splits)
  then obtain s sent where st: "start sample_start s0 = (s, sent, Ok ())" using sample_start_ok by blast
  have r: "server_reaches ref_env sample_config s" by (rule server_reaches.start [OF server_reaches.new [OF n] st])
  have "svStarted s" by (cases rule: start_fields [OF st])
  moreover have "cSchemaFiles sample_config = [''a.zed'']" by (simp add: sample_config_def defaultConfig_def)
  ultimately show ?thesis using server_lifecycle [OF r, of sample_start "\<lparr>spShutdown = Ok (), spFwClose = Ok (), spNow = 3000\<rparr>"] r by auto
qed

end
