(* ===== verification/Server_Health.thy ===== *)
theory Server_Health
  imports Server_Life Memdb_Watch
begin

text \<open>
  \<open>health.go\<close>: the health check of an embedded server and its HTTP handler. Reading the schema over the
  connection, the datastore's statistics, the test for the status code \<open>NotFound\<close> and the text of an error
  are arguments.
\<close>

section \<open>The health check\<close>

record health_status =
  hsStatus :: string
  hsTimestamp :: nanotime
  hsChecks :: "(string \<times> string) list"
  hsUptime :: "int option"
  hsStartTime :: "nanotime option"

record 'd health_env =
  heReadSchema :: "conn \<Rightarrow> string result"
  heStatistics :: "'d memdb_ds \<Rightarrow> memdb_stats result"
  heNotFound :: "go_error \<Rightarrow> bool"
  heText :: "go_error \<Rightarrow> string"

definition set_check :: "string \<Rightarrow> string \<Rightarrow> health_status \<Rightarrow> health_status" where
  "set_check k v h = h\<lparr>hsChecks := gm_put k v (hsChecks h)\<rparr>"

definition error_text :: "'d health_env \<Rightarrow> go_error \<Rightarrow> string" where
  "error_text H e = ''error: '' @ heText H e"

text \<open>The check of the connection; it gives the response and the error for the check of the schema.\<close>

definition check_connection ::
    "'d health_env \<Rightarrow> string list \<Rightarrow> conn option \<Rightarrow> health_status \<Rightarrow> health_status \<times> string option \<times> go_error option" where
  "check_connection H schemaFiles co h = (case co of
     None \<Rightarrow> ((set_check ''grpc_connection'' ''not_available'' h)\<lparr>hsStatus := ''degraded''\<rparr>, None, None)
   | Some c \<Rightarrow>
       (case heReadSchema H c of
          Err e \<Rightarrow>
            (if schemaFiles = [] \<and> heNotFound H e
             then set_check ''grpc_connection'' ''healthy (no schema defined)'' h
             else (set_check ''grpc_connection'' (error_text H e) h)\<lparr>hsStatus := ''degraded''\<rparr>, None, Some e)
        | Ok text \<Rightarrow> (set_check ''grpc_connection'' ''healthy'' h, Some text, None)))"

definition check_stats :: "'d health_env \<Rightarrow> 'd memdb_ds option \<Rightarrow> health_status \<Rightarrow> health_status" where
  "check_stats H dso h = (case dso of
     None \<Rightarrow> (set_check ''datastore'' ''not_available'' h)\<lparr>hsStatus := ''unhealthy''\<rparr>
   | Some ds \<Rightarrow>
       (case heStatistics H ds of
          Err e \<Rightarrow>
            (let h' = set_check ''datastore'' (error_text H e) h
             in if hsStatus h' \<noteq> ''unhealthy'' then h'\<lparr>hsStatus := ''degraded''\<rparr> else h')
        | Ok _ \<Rightarrow> set_check ''datastore'' ''healthy'' h))"

definition check_schema ::
    "'d health_env \<Rightarrow> string list \<Rightarrow> schema_reloader option \<Rightarrow> string option \<Rightarrow> go_error option \<Rightarrow>
     health_status \<Rightarrow> health_status" where
  "check_schema H schemaFiles reloader schemaResp schemaErr h =
     (if schemaFiles \<noteq> [] then
        (if reloader = None then (set_check ''schema'' ''reloader_not_available'' h)\<lparr>hsStatus := ''degraded''\<rparr>
         else case schemaErr of
           Some e \<Rightarrow> (set_check ''schema'' (error_text H e) h)\<lparr>hsStatus := ''degraded''\<rparr>
         | None \<Rightarrow>
             (if schemaResp = None \<or> schemaResp = Some []
              then (set_check ''schema'' ''not_loaded'' h)\<lparr>hsStatus := ''degraded''\<rparr>
              else set_check ''schema'' ''loaded'' h))
      else set_check ''schema'' ''not_configured'' h)"

definition healthCheck :: "'d health_env \<Rightarrow> nanotime \<Rightarrow> 'd server \<Rightarrow> health_status \<times> unit result" where
  "healthCheck H now s =
     (let h0 = \<lparr>hsStatus = [], hsTimestamp = now, hsChecks = [], hsUptime = None, hsStartTime = None\<rparr>
      in if \<not> svStarted s then
           ((set_check ''server'' ''not_started'' h0)\<lparr>hsStatus := ''unhealthy''\<rparr>,
            Err (ErrorString ''server is not started''))
         else
           (let h1 = set_check ''server'' ''started'' h0;
                h2 = (case svStartTime s of
                    None \<Rightarrow> h1 | Some t \<Rightarrow> h1\<lparr>hsUptime := Some (now - t), hsStartTime := Some t\<rparr>);
                files = cSchemaFiles (svConfig s)
            in case check_connection H files (svConn s) h2 of
                 (h3, schemaResp, schemaErr) \<Rightarrow>
                   (let h4 = check_stats H (svDatastore s) h3;
                        h5 = check_schema H files (svReloader s) schemaResp schemaErr h4
                    in (if hsStatus h5 = ''unhealthy'' \<or> hsStatus h5 = ''degraded'' then h5
                        else h5\<lparr>hsStatus := ''healthy''\<rparr>, Ok ()))))"

text \<open>The status code of the handler.\<close>

definition healthCheckHandler :: "'d health_env \<Rightarrow> nanotime \<Rightarrow> 'd server \<Rightarrow> nat \<times> health_status" where
  "healthCheckHandler H now s = (case healthCheck H now s of
     (status, err) \<Rightarrow>
       (if err \<noteq> Ok () \<and> hsStatus status = ''unhealthy'' then (503, status)
        else if hsStatus status = ''degraded'' then (200, status) else (200, status)))"

section \<open>The verdict\<close>

lemma set_check_simps [simp]:
  "hsStatus (set_check k v h) = hsStatus h" "hsChecks (set_check k v h) = gm_put k v (hsChecks h)"
  "hsStartTime (set_check k v h) = hsStartTime h" "hsUptime (set_check k v h) = hsUptime h"
  by (simp_all add: set_check_def)

text \<open>What each check finds, as predicates on the server.\<close>

definition connection_fine :: "'d health_env \<Rightarrow> 'd server \<Rightarrow> bool" where
  "connection_fine H s \<longleftrightarrow> (\<exists>c. svConn s = Some c \<and> (case heReadSchema H c of
     Ok _ \<Rightarrow> True | Err e \<Rightarrow> cSchemaFiles (svConfig s) = [] \<and> heNotFound H e))"

definition datastore_fine :: "'d health_env \<Rightarrow> 'd server \<Rightarrow> bool" where
  "datastore_fine H s \<longleftrightarrow> (\<exists>ds st. svDatastore s = Some ds \<and> heStatistics H ds = Ok st)"

definition schema_fine :: "'d health_env \<Rightarrow> 'd server \<Rightarrow> bool" where
  "schema_fine H s \<longleftrightarrow> cSchemaFiles (svConfig s) = [] \<or>
     (svReloader s \<noteq> None \<and> (\<exists>c t. svConn s = Some c \<and> heReadSchema H c = Ok t \<and> t \<noteq> []))"

text \<open>What each check does to the verdict.\<close>

lemma connection_status:
  "hsStatus (fst (check_connection H files co h)) = (if \<exists>c. co = Some c \<and> (case heReadSchema H c of
     Ok _ \<Rightarrow> True | Err e \<Rightarrow> files = [] \<and> heNotFound H e) then hsStatus h else ''degraded'')"
  by (simp add: check_connection_def split: option.split sum.split)

lemma connection_response:
  "snd (check_connection H files co h) = (case co of None \<Rightarrow> (None, None) | Some c \<Rightarrow>
     (case heReadSchema H c of Err e \<Rightarrow> (None, Some e) | Ok t \<Rightarrow> (Some t, None)))"
  by (simp add: check_connection_def split: option.split sum.split)

lemma stats_status:
  "hsStatus (check_stats H dso h) = (case dso of None \<Rightarrow> ''unhealthy'' | Some ds \<Rightarrow>
     (case heStatistics H ds of Ok _ \<Rightarrow> hsStatus h
      | Err _ \<Rightarrow> if hsStatus h = ''unhealthy'' then hsStatus h else ''degraded''))"
  by (simp add: check_stats_def Let_def split: option.split sum.split)

lemma schema_status:
  "hsStatus (check_schema H files r resp err h) =
     (if files = [] \<or> (r \<noteq> None \<and> err = None \<and> resp \<noteq> None \<and> resp \<noteq> Some []) then hsStatus h else ''degraded'')"
  by (cases err; cases resp; cases r) (simp_all add: check_schema_def)

lemma schema_fine_response:
  "schema_fine H s \<longleftrightarrow> cSchemaFiles (svConfig s) = [] \<or> (svReloader s \<noteq> None \<and>
     snd (snd (check_connection H files (svConn s) h)) = None \<and>
     fst (snd (check_connection H files (svConn s) h)) \<noteq> None \<and>
     fst (snd (check_connection H files (svConn s) h)) \<noteq> Some [])"
  by (auto simp: schema_fine_def connection_response split: option.splits sum.splits)

definition verdict :: "'d health_env \<Rightarrow> 'd server \<Rightarrow> string" where
  "verdict H s = (if connection_fine H s \<and> datastore_fine H s \<and> schema_fine H s then ''healthy''
     else if svDatastore s = None \<and> schema_fine H s then ''unhealthy'' else ''degraded'')"

lemma started_status:
  assumes "svStarted s"
  obtains h where "hsStatus h = []" and "snd (healthCheck H now s) = Ok ()"
    and "let files = cSchemaFiles (svConfig s); k = check_connection H files (svConn s) h;
        h5 = check_schema H files (svReloader s) (fst (snd k)) (snd (snd k)) (check_stats H (svDatastore s) (fst k))
      in hsStatus (fst (healthCheck H now s)) =
         (if hsStatus h5 = ''unhealthy'' \<or> hsStatus h5 = ''degraded'' then hsStatus h5 else ''healthy'')"
proof -
  let ?h1 = "set_check ''server'' ''started'' \<lparr>hsStatus = [], hsTimestamp = now, hsChecks = [], hsUptime = None, hsStartTime = None\<rparr>"
  let ?h2 = "case svStartTime s of None \<Rightarrow> ?h1 | Some t \<Rightarrow> ?h1\<lparr>hsUptime := Some (now - t), hsStartTime := Some t\<rparr>"
  have "hsStatus ?h2 = []" by (simp split: option.split)
  then show thesis
    by (rule that) (simp_all add: healthCheck_def assms Let_def split_def)
qed

lemma healthCheck_verdict:
  assumes "svStarted s"
  shows "hsStatus (fst (healthCheck H now s)) = verdict H s \<and> snd (healthCheck H now s) = Ok ()"
proof (rule started_status [OF assms, of H now])
  fix h :: health_status
  let ?files = "cSchemaFiles (svConfig s)"
  let ?k = "check_connection H ?files (svConn s) h"
  let ?h4 = "check_stats H (svDatastore s) (fst ?k)"
  let ?h5 = "check_schema H ?files (svReloader s) (fst (snd ?k)) (snd (snd ?k)) ?h4"
  assume h: "hsStatus h = []" and ok: "snd (healthCheck H now s) = Ok ()"
    and st: "let files = ?files; k = check_connection H files (svConn s) h;
        h5 = check_schema H files (svReloader s) (fst (snd k)) (snd (snd k)) (check_stats H (svDatastore s) (fst k))
      in hsStatus (fst (healthCheck H now s)) =
         (if hsStatus h5 = ''unhealthy'' \<or> hsStatus h5 = ''degraded'' then hsStatus h5 else ''healthy'')"
  have 1: "hsStatus (fst ?k) = (if connection_fine H s then [] else ''degraded'')"
    by (simp add: connection_status connection_fine_def h)
  have 2: "hsStatus ?h4 = (if svDatastore s = None then ''unhealthy'' else if datastore_fine H s then hsStatus (fst ?k)
      else ''degraded'')"
    using 1 by (simp add: stats_status datastore_fine_def split: option.split sum.split)
  have 3: "hsStatus ?h5 = (if schema_fine H s then hsStatus ?h4 else ''degraded'')"
    by (simp only: schema_status schema_fine_response [of H s ?files h])
  have d: "datastore_fine H s \<Longrightarrow> svDatastore s \<noteq> None" by (auto simp: datastore_fine_def)
  have "hsStatus (fst (healthCheck H now s)) =
      (if hsStatus ?h5 = ''unhealthy'' \<or> hsStatus ?h5 = ''degraded'' then hsStatus ?h5 else ''healthy'')"
    using st by (simp only: Let_def)
  also have "\<dots> = verdict H s" unfolding 3 2 1 verdict_def using d by auto
  finally show ?thesis using ok by simp
qed

text \<open>
  C22. The verdict of a health check. It is \<open>healthy\<close> exactly when the server is started, its connection
  answers a read of the schema (or reports, with no schema files configured, that there is none), the
  datastore gives its statistics and, with schema files configured, the schema is not empty. Only a server
  that is not started is answered with status 503; everything else is 200, a degraded server as well.
\<close>

theorem health_verdict:
  assumes "server_reaches E c s"
  shows "(hsStatus (fst (healthCheck H now s)) = ''healthy'' \<longleftrightarrow>
      svStarted s \<and> connection_fine H s \<and> datastore_fine H s \<and> schema_fine H s) \<and>
    (hsStatus (fst (healthCheck H now s)) = ''unhealthy'' \<longleftrightarrow> \<not> svStarted s) \<and>
    (fst (healthCheckHandler H now s) = 503 \<longleftrightarrow> \<not> svStarted s) \<and>
    (fst (healthCheckHandler H now s) = 503 \<or> fst (healthCheckHandler H now s) = 200)"
proof (cases "svStarted s")
  case True
  have "svDatastore s \<noteq> None" using server_reaches_ok [OF assms] by (simp add: server_ok_def)
  obtain h r where hc: "healthCheck H now s = (h, r)" by fastforce
  have "hsStatus h = verdict H s" "r = Ok ()" using healthCheck_verdict [OF True, of H now] hc by simp_all
  with \<open>svDatastore s \<noteq> None\<close> show ?thesis using True by (auto simp: hc verdict_def healthCheckHandler_def)
next
  case False
  then show ?thesis by (simp add: healthCheck_def healthCheckHandler_def Let_def)
qed

text \<open>A server of the sample configuration that is started, and its memdb health environment.\<close>

definition sample_health :: "ref_contents health_env" where
  "sample_health = \<lparr>heReadSchema = (\<lambda>_. Ok ''definition user {}''), heStatistics = (\<lambda>ds. statistics ref_env 5000 ds ds ds),
     heNotFound = (\<lambda>_. False), heText = (\<lambda>_. ''closed'')\<rparr>"

lemma sample_started: "\<exists>s. server_reaches ref_env sample_config s \<and> svStarted s"
proof -
  obtain s0 where n: "newServer ref_env (\<lambda>_. Ok ()) 1000 ''id'' sample_config = Inr s0" using sample_server by blast
  then have "\<not> svStarted s0" by (auto simp: newServer_def Let_def split: if_splits sum.splits)
  then obtain s sent where st: "start sample_start s0 = (s, sent, Ok ())" using sample_start_ok by blast
  have "server_reaches ref_env sample_config s" by (rule server_reaches.start [OF server_reaches.new [OF n] st])
  moreover have "svStarted s" by (cases rule: start_fields [OF st])
  ultimately show ?thesis by blast
qed

theorem health_verdict_witness:
  "\<exists>s. server_reaches ref_env sample_config s \<and> svStarted s \<and> fst (healthCheckHandler sample_health 5000 s) = 200"
proof -
  obtain s where r: "server_reaches ref_env sample_config s" and s: "svStarted s" using sample_started by blast
  with health_verdict [OF r, of sample_health 5000] show ?thesis by auto
qed

section \<open>Starting again\<close>

lemma statistics_closed: "dsDB ds = None \<Longrightarrow> statistics E now ds ds' ds'' = Err (Wrap ''unable to compute head revision'' ErrMemDBIsClosed)"
  by (simp add: statistics_def headRevision_def checkNotClosed_def)

text \<open>
  C21. A server that was stopped cannot be brought back: \<open>Start\<close> may return nil again and \<open>Client\<close> then hands
  out a connection, but the server runs under a context that is cancelled, on a datastore that is closed,
  and every health check says degraded.
\<close>

theorem restart_is_degraded:
  assumes "server_reaches E c s" and "svStarted s" and "stop P s = (s1, r)" and "start V s1 = (s2, sent, Ok ())"
    and "heStatistics H = (\<lambda>ds. statistics E now ds ds ds)"
  shows "(\<exists>k. clientConn s2 = Ok k) \<and> svCancelled s2 \<and>
    (\<exists>ds. svDatastore s2 = Some ds \<and> headRevision ds = Err ErrMemDBIsClosed) \<and>
    hsStatus (fst (healthCheck H t s2)) = ''degraded''"
proof -
  note f = stop_fields [OF assms(3,2)]
  show ?thesis
  proof (cases rule: start_fields [OF assms(4)])
    case (1 k)
    note g = this
    obtain ds0 where "svDatastore s = Some ds0" using server_reaches_ok [OF assms(1)] by (auto simp: server_ok_def)
    then have ds: "svDatastore s2 = Some (close_ds ds0 (spNow P))" using f(10) g(9) by simp
    have cl: "dsDB (close_ds ds0 (spNow P)) = None" by (simp add: close_ds_def)
    have "\<not> datastore_fine H s2" using ds cl assms(5) by (simp add: datastore_fine_def statistics_closed)
    then have "verdict H s2 = ''degraded''" using ds by (simp add: verdict_def)
    then show ?thesis using healthCheck_verdict [OF g(4), of H t] f(8) g(2,4,10) ds cl
      by (simp add: clientConn_def headRevision_def checkNotClosed_def)
  qed
qed

theorem restart_is_degraded_witness:
  "\<exists>s1 s2 sent. start (sample_start :: ref_contents start_env) s1 = (s2, sent, Ok ()) \<and> (\<exists>k. clientConn s2 = Ok k) \<and>
     hsStatus (fst (healthCheck sample_health 6000 s2)) = ''degraded''"
proof -
  obtain s where r: "server_reaches ref_env sample_config s" and s: "svStarted s" using sample_started by blast
  obtain s1 r1 where p: "stop \<lparr>spShutdown = Ok (), spFwClose = Ok (), spNow = 4000\<rparr> s = (s1, r1)" by fastforce
  obtain s2 sent where st: "start sample_start s1 = (s2, sent, Ok ())"
    using sample_start_ok [OF stop_fields(6) [OF p s]] by blast
  have "heStatistics sample_health = (\<lambda>ds. statistics ref_env 5000 ds ds ds)" by (simp add: sample_health_def)
  from restart_is_degraded [OF r s p st this, of 6000] st show ?thesis by blast
qed

end
