(* ===== verification/Server_Locks.thy ===== *)
theory Server_Locks
  imports Main
begin

text \<open>
  The locks of \<open>server.go\<close> and \<open>internal/watch/watcher.go\<close> when a hot reload meets a call of \<open>Stop\<close>: the
  callback of the watcher's timer holds \<open>fw.mu\<close> while \<open>ReloadSchema\<close> takes \<open>es.mu\<close> for reading, and
  \<open>Stop\<close> holds \<open>es.mu\<close> while \<open>FileWatcher.Stop\<close> takes \<open>fw.mu\<close>. The threads are the callbacks of timers
  that have fired, one call of \<open>Stop\<close>, the watch loop, and any number of other readers of \<open>es.mu\<close>. A step
  is what a thread does between two operations on a lock. Who holds a lock follows from where the threads are.
\<close>

section \<open>Threads\<close>

datatype callback_pc =
    TNone              \<comment> \<open>no callback holds \<open>fw.mu\<close>\<close>
  | TLocked            \<comment> \<open>holds \<open>fw.mu\<close>, before its tests\<close>
  | TReload            \<comment> \<open>in \<open>ReloadSchema\<close>, before the first \<open>RLock\<close>\<close>
  | TRead1
  | TReloading         \<comment> \<open>between the two critical sections\<close>
  | TWant2
  | TRead2
  | TCallbacks         \<comment> \<open>running the registered callbacks\<close>
  | TStopWants         \<comment> \<open>a registered callback calls \<open>Stop\<close>\<close>
  | TStopPending
  | TStopHolds         \<comment> \<open>before \<open>fw.mu\<close>, which it holds itself\<close>
  | TUnlock

datatype stop_pc = SIdle | SWants | SPending | SHolds | SWantsFw | SHoldsFw | SWaits | SFinish | SDone

datatype loop_pc = LSelect | LWants | LHolds | LDone

record locks =
  lkFired :: nat         \<comment> \<open>callbacks that wait for \<open>fw.mu\<close>\<close>
  lkT :: callback_pc
  lkS :: stop_pc
  lkL :: loop_pc
  lkPending :: bool      \<comment> \<open>whether \<open>fw.pending\<close> is not empty\<close>
  lkStopped :: bool      \<comment> \<open>\<open>fw.stopped\<close>\<close>
  lkDone :: bool         \<comment> \<open>whether the watcher's context is cancelled\<close>
  lkStarted :: bool      \<comment> \<open>\<open>es.started\<close>\<close>
  lkReaders :: nat       \<comment> \<open>other readers of \<open>es.mu\<close>\<close>

text \<open>A writer that waits keeps new readers out, as the one that holds the lock does.\<close>

definition es_writer :: "locks \<Rightarrow> bool" where
  "es_writer k \<longleftrightarrow> lkS k \<in> {SPending, SHolds, SWantsFw, SHoldsFw, SWaits, SFinish} \<or> lkT k \<in> {TStopPending, TStopHolds}"

definition es_read :: "locks \<Rightarrow> bool" where
  "es_read k \<longleftrightarrow> lkReaders k > 0 \<or> lkT k \<in> {TRead1, TRead2}"

definition fw_free :: "locks \<Rightarrow> bool" where
  "fw_free k \<longleftrightarrow> lkT k = TNone \<and> lkS k \<noteq> SHoldsFw \<and> lkL k \<noteq> LHolds"

text \<open>The callback of a timer.\<close>

inductive callback_step :: "locks \<Rightarrow> locks \<Rightarrow> bool" where
  fires: "callback_step k (k\<lparr>lkFired := Suc (lkFired k)\<rparr>)"
| returns: "lkFired k = Suc n \<Longrightarrow> lkDone k \<Longrightarrow> callback_step k (k\<lparr>lkFired := n\<rparr>)"
| locks: "lkFired k = Suc n \<Longrightarrow> fw_free k \<Longrightarrow> callback_step k (k\<lparr>lkFired := n, lkT := TLocked\<rparr>)"
| nothing: "lkT k = TLocked \<Longrightarrow> lkStopped k \<or> \<not> lkPending k \<Longrightarrow> callback_step k (k\<lparr>lkT := TNone\<rparr>)"
| reloads: "lkT k = TLocked \<Longrightarrow> \<not> lkStopped k \<Longrightarrow> lkPending k \<Longrightarrow>
    callback_step k (k\<lparr>lkT := TReload, lkPending := False\<rparr>)"
| unlocks: "lkT k = TUnlock \<Longrightarrow> callback_step k (k\<lparr>lkT := TNone\<rparr>)"

text \<open>\<open>ReloadSchema\<close> in a callback. A registered callback returns, or it calls \<open>Stop\<close>.\<close>

inductive reload_step :: "locks \<Rightarrow> locks \<Rightarrow> bool" where
  rlock1: "lkT k = TReload \<Longrightarrow> \<not> es_writer k \<Longrightarrow> reload_step k (k\<lparr>lkT := TRead1\<rparr>)"
| started: "lkT k = TRead1 \<Longrightarrow> lkStarted k \<Longrightarrow> reload_step k (k\<lparr>lkT := TReloading\<rparr>)"
| not_started: "lkT k = TRead1 \<Longrightarrow> \<not> lkStarted k \<Longrightarrow> reload_step k (k\<lparr>lkT := TUnlock\<rparr>)"
| reloaded: "lkT k = TReloading \<Longrightarrow> reload_step k (k\<lparr>lkT := TWant2\<rparr>)"
| rlock2: "lkT k = TWant2 \<Longrightarrow> \<not> es_writer k \<Longrightarrow> reload_step k (k\<lparr>lkT := TRead2\<rparr>)"
| runlock2: "lkT k = TRead2 \<Longrightarrow> reload_step k (k\<lparr>lkT := TCallbacks\<rparr>)"
| called: "lkT k = TCallbacks \<Longrightarrow> reload_step k (k\<lparr>lkT := TUnlock\<rparr>)"
| calls_stop: "lkT k = TCallbacks \<Longrightarrow> reload_step k (k\<lparr>lkT := TStopWants\<rparr>)"
| announces: "lkT k = TStopWants \<Longrightarrow> \<not> es_writer k \<Longrightarrow> reload_step k (k\<lparr>lkT := TStopPending\<rparr>)"
| holds: "lkT k = TStopPending \<Longrightarrow> \<not> es_read k \<Longrightarrow> reload_step k (k\<lparr>lkT := TStopHolds\<rparr>)"
| stop_returns: "lkT k = TStopHolds \<Longrightarrow> \<not> lkStarted k \<Longrightarrow> reload_step k (k\<lparr>lkT := TCallbacks\<rparr>)"

text \<open>A call of \<open>Stop\<close>, with \<open>FileWatcher.Stop\<close> inside.\<close>

inductive stop_step :: "locks \<Rightarrow> locks \<Rightarrow> bool" where
  calls: "lkS k = SIdle \<Longrightarrow> stop_step k (k\<lparr>lkS := SWants\<rparr>)"
| announces: "lkS k = SWants \<Longrightarrow> \<not> es_writer k \<Longrightarrow> stop_step k (k\<lparr>lkS := SPending\<rparr>)"
| locks: "lkS k = SPending \<Longrightarrow> \<not> es_read k \<Longrightarrow> stop_step k (k\<lparr>lkS := SHolds\<rparr>)"
| not_started: "lkS k = SHolds \<Longrightarrow> \<not> lkStarted k \<Longrightarrow> stop_step k (k\<lparr>lkS := SDone\<rparr>)"
| watcher: "lkS k = SHolds \<Longrightarrow> lkStarted k \<Longrightarrow> stop_step k (k\<lparr>lkS := SWantsFw\<rparr>)"
| locks_fw: "lkS k = SWantsFw \<Longrightarrow> fw_free k \<Longrightarrow> stop_step k (k\<lparr>lkS := SHoldsFw\<rparr>)"
| stops_fw: "lkS k = SHoldsFw \<Longrightarrow>
    stop_step k (k\<lparr>lkS := SWaits, lkStopped := True, lkPending := False, lkDone := True\<rparr>)"
| waited: "lkS k = SWaits \<Longrightarrow> lkL k = LDone \<Longrightarrow> stop_step k (k\<lparr>lkS := SFinish\<rparr>)"
| finishes: "lkS k = SFinish \<Longrightarrow> stop_step k (k\<lparr>lkS := SDone, lkStarted := False\<rparr>)"

text \<open>The watch loop and \<open>handleFileChange\<close>.\<close>

inductive loop_step :: "locks \<Rightarrow> locks \<Rightarrow> bool" where
  event: "lkL k = LSelect \<Longrightarrow> loop_step k (k\<lparr>lkL := LWants\<rparr>)"
| locks: "lkL k = LWants \<Longrightarrow> fw_free k \<Longrightarrow> loop_step k (k\<lparr>lkL := LHolds\<rparr>)"
| handled: "lkL k = LHolds \<Longrightarrow> loop_step k (k\<lparr>lkL := LSelect, lkPending := lkPending k \<or> \<not> lkStopped k\<rparr>)"
| ends: "lkL k = LSelect \<Longrightarrow> lkDone k \<Longrightarrow> loop_step k (k\<lparr>lkL := LDone\<rparr>)"

text \<open>The other readers: \<open>Client\<close>, \<open>HealthCheck\<close>, \<open>HealthCheckHTTPAddr\<close> and \<open>ReloadSchema\<close>.\<close>

inductive reader_step :: "locks \<Rightarrow> locks \<Rightarrow> bool" where
  rlock: "\<not> es_writer k \<Longrightarrow> reader_step k (k\<lparr>lkReaders := Suc (lkReaders k)\<rparr>)"
| runlock: "lkReaders k = Suc n \<Longrightarrow> reader_step k (k\<lparr>lkReaders := n\<rparr>)"

definition lk_step :: "locks \<Rightarrow> locks \<Rightarrow> bool" where
  "lk_step k k' \<longleftrightarrow> callback_step k k' \<or> reload_step k k' \<or> stop_step k k' \<or> loop_step k k' \<or> reader_step k k'"

text \<open>A started server with a watcher.\<close>

definition lk_init :: locks where
  "lk_init = \<lparr>lkFired = 0, lkT = TNone, lkS = SIdle, lkL = LSelect, lkPending = False, lkStopped = False,
     lkDone = False, lkStarted = True, lkReaders = 0\<rparr>"

section \<open>The invariant\<close>

text \<open>A callback between its tests and the second critical section, and one that calls \<open>Stop\<close>.\<close>

definition reloading :: "locks \<Rightarrow> bool" where
  "reloading k \<longleftrightarrow> lkT k = TLocked \<and> lkPending k \<and> \<not> lkStopped k \<or> lkT k \<in> {TReload, TRead1, TReloading, TWant2}"

definition self_stop :: "locks \<Rightarrow> bool" where
  "self_stop k \<longleftrightarrow> lkT k \<in> {TStopWants, TStopPending, TStopHolds}"

definition locks_ok :: "locks \<Rightarrow> bool" where
  "locks_ok k \<longleftrightarrow>
     (lkT k \<notin> {TNone, TLocked} \<longrightarrow> \<not> lkStopped k) \<and>
     (lkS k \<in> {SWaits, SFinish, SDone} \<longleftrightarrow> lkStopped k) \<and> (lkDone k \<longleftrightarrow> lkStopped k) \<and>
     (lkStarted k \<longleftrightarrow> lkS k \<noteq> SDone) \<and>
     (lkT k \<noteq> TNone \<longrightarrow> lkS k \<noteq> SHoldsFw \<and> lkL k \<noteq> LHolds) \<and> (lkL k = LHolds \<longrightarrow> lkS k \<noteq> SHoldsFw) \<and>
     (lkS k \<in> {SHolds, SWantsFw, SHoldsFw, SWaits, SFinish} \<longrightarrow> \<not> es_read k) \<and>
     (lkS k \<in> {SPending, SHolds, SWantsFw, SHoldsFw, SWaits, SFinish} \<longrightarrow> lkT k \<notin> {TStopPending, TStopHolds})"

lemmas lk_defs = es_writer_def es_read_def fw_free_def locks_ok_def

lemma callback_step_ok: "callback_step k k' \<Longrightarrow> locks_ok k \<Longrightarrow> locks_ok k'"
  by (induction rule: callback_step.induct) (auto simp: lk_defs)

lemma reload_step_ok: "reload_step k k' \<Longrightarrow> locks_ok k \<Longrightarrow> locks_ok k'"
  by (induction rule: reload_step.induct) (auto simp: lk_defs)

lemma stop_step_ok: "stop_step k k' \<Longrightarrow> locks_ok k \<Longrightarrow> locks_ok k'"
  by (induction rule: stop_step.induct) (auto simp: lk_defs)

lemma loop_step_ok: "loop_step k k' \<Longrightarrow> locks_ok k \<Longrightarrow> locks_ok k'"
  by (induction rule: loop_step.induct) (auto simp: lk_defs)

lemma reader_step_ok: "reader_step k k' \<Longrightarrow> locks_ok k \<Longrightarrow> locks_ok k'"
  by (induction rule: reader_step.induct) (auto simp: lk_defs)

lemma lk_step_ok: "lk_step k k' \<Longrightarrow> locks_ok k \<Longrightarrow> locks_ok k'"
  unfolding lk_step_def
  using callback_step_ok reload_step_ok stop_step_ok loop_step_ok reader_step_ok by blast

lemma lk_reaches_ok: "lk_step\<^sup>*\<^sup>* k k' \<Longrightarrow> locks_ok k \<Longrightarrow> locks_ok k'"
  by (induction rule: rtranclp_induct) (auto intro: lk_step_ok)

lemma lk_init_ok: "locks_ok lk_init"
  by (simp add: lk_defs lk_init_def)

section \<open>When Stop cannot return\<close>

definition doomed :: "locks \<Rightarrow> bool" where
  "doomed k \<longleftrightarrow> lkS k \<in> {SPending, SHolds, SWantsFw} \<and> reloading k \<or> self_stop k"

lemmas doomed_defs = doomed_def reloading_def self_stop_def lk_defs

lemma doomed_callback: "callback_step k k' \<Longrightarrow> locks_ok k \<Longrightarrow> doomed k \<Longrightarrow> doomed k'"
  by (induction rule: callback_step.induct) (auto simp: doomed_defs)

lemma doomed_reload: "reload_step k k' \<Longrightarrow> locks_ok k \<Longrightarrow> doomed k \<Longrightarrow> doomed k'"
  by (induction rule: reload_step.induct) (auto simp: doomed_defs)

lemma doomed_stop: "stop_step k k' \<Longrightarrow> locks_ok k \<Longrightarrow> doomed k \<Longrightarrow> doomed k'"
  by (induction rule: stop_step.induct) (auto simp: doomed_defs)

lemma doomed_loop: "loop_step k k' \<Longrightarrow> locks_ok k \<Longrightarrow> doomed k \<Longrightarrow> doomed k'"
  by (induction rule: loop_step.induct) (auto simp: doomed_defs)

lemma doomed_reader: "reader_step k k' \<Longrightarrow> locks_ok k \<Longrightarrow> doomed k \<Longrightarrow> doomed k'"
  by (induction rule: reader_step.induct) (auto simp: doomed_defs)

lemma doomed_step: "lk_step k k' \<Longrightarrow> locks_ok k \<Longrightarrow> doomed k \<Longrightarrow> doomed k'"
  unfolding lk_step_def using doomed_callback doomed_reload doomed_stop doomed_loop doomed_reader by blast

lemma doomed_not_done: "locks_ok k \<Longrightarrow> doomed k \<Longrightarrow> lkS k \<noteq> SDone"
  by (cases "lkT k") (auto simp: doomed_def reloading_def self_stop_def locks_ok_def)

lemma doomed_forever: "lk_step\<^sup>*\<^sup>* k k' \<Longrightarrow> locks_ok k \<Longrightarrow> doomed k \<Longrightarrow> doomed k'"
  by (induction rule: rtranclp_induct) (auto intro: doomed_step lk_reaches_ok)

section \<open>When it can\<close>

text \<open>How far a thread is from its last point, when no registered callback calls \<open>Stop\<close>.\<close>

fun t_dist :: "callback_pc \<Rightarrow> nat" where
  "t_dist TNone = 0" | "t_dist TUnlock = 1" | "t_dist TCallbacks = 2" | "t_dist TRead2 = 3" | "t_dist TWant2 = 4"
| "t_dist TReloading = 5" | "t_dist TRead1 = 6" | "t_dist TReload = 7" | "t_dist _ = 8"

fun s_dist :: "stop_pc \<Rightarrow> nat" where
  "s_dist SDone = 0" | "s_dist SFinish = 1" | "s_dist SWaits = 2" | "s_dist SHoldsFw = 3" | "s_dist SWantsFw = 4"
| "s_dist SHolds = 5" | "s_dist SPending = 6" | "s_dist SWants = 7" | "s_dist SIdle = 8"

fun l_dist :: "loop_pc \<Rightarrow> nat" where
  "l_dist LDone = 0" | "l_dist LSelect = 1" | "l_dist LHolds = 2" | "l_dist LWants = 3"

definition lk_dist :: "locks \<Rightarrow> nat" where
  "lk_dist k = lkReaders k + t_dist (lkT k) + s_dist (lkS k) + l_dist (lkL k)"

definition closer :: "locks \<Rightarrow> bool" where
  "closer k \<longleftrightarrow> (\<exists>k'. lk_step k k' \<and> \<not> doomed k' \<and> lk_dist k' < lk_dist k)"

lemma closerI: "lk_step k k' \<Longrightarrow> \<not> doomed k' \<Longrightarrow> lk_dist k' < lk_dist k \<Longrightarrow> closer k"
  unfolding closer_def by blast

lemma reader_leaves: "\<not> doomed k \<Longrightarrow> lkReaders k \<noteq> 0 \<Longrightarrow> closer k"
proof -
  assume d: "\<not> doomed k" and "lkReaders k \<noteq> 0"
  then obtain n where n: "lkReaders k = Suc n" by (cases "lkReaders k") auto
  show "closer k"
    by (rule closerI [of k "k\<lparr>lkReaders := n\<rparr>"])
      (use reader_step.runlock [OF n] d n in \<open>auto simp: lk_step_def lk_dist_def doomed_defs\<close>)
qed

lemma callback_goes_on:
  assumes "locks_ok k" and "\<not> doomed k" and "lkT k \<noteq> TNone"
  shows "closer k"
proof (cases "lkT k")
  case TLocked
  show ?thesis
  proof (cases "lkStopped k \<or> \<not> lkPending k")
    case True
    show ?thesis
      by (rule closerI [of k "k\<lparr>lkT := TNone\<rparr>"])
        (use callback_step.nothing [OF TLocked True] TLocked assms(2) in \<open>auto simp: lk_step_def lk_dist_def doomed_defs\<close>)
  next
    case False
    show ?thesis
      by (rule closerI [of k "k\<lparr>lkT := TReload, lkPending := False\<rparr>"])
        (use callback_step.reloads [OF TLocked] TLocked assms False in \<open>auto simp: lk_step_def lk_dist_def doomed_defs\<close>)
  qed
next
  case TReload
  then have "\<not> es_writer k" using assms by (cases "lkS k") (auto simp: doomed_defs)
  then show ?thesis
    by (intro closerI [of k "k\<lparr>lkT := TRead1\<rparr>"])
      (use reload_step.rlock1 [OF TReload] TReload assms(2) in \<open>auto simp: lk_step_def lk_dist_def doomed_def reloading_def self_stop_def\<close>)
next
  case TRead1
  then have "lkStarted k" using assms by (cases "lkS k") (auto simp: doomed_defs)
  then show ?thesis
    by (intro closerI [of k "k\<lparr>lkT := TReloading\<rparr>"])
      (use reload_step.started [OF TRead1] TRead1 assms(2) in \<open>auto simp: lk_step_def lk_dist_def doomed_defs\<close>)
next
  case TReloading
  then show ?thesis
    by (intro closerI [of k "k\<lparr>lkT := TWant2\<rparr>"])
      (use reload_step.reloaded [OF TReloading] assms(2) in \<open>auto simp: lk_step_def lk_dist_def doomed_defs\<close>)
next
  case TWant2
  then have "\<not> es_writer k" using assms by (cases "lkS k") (auto simp: doomed_defs)
  then show ?thesis
    by (intro closerI [of k "k\<lparr>lkT := TRead2\<rparr>"])
      (use reload_step.rlock2 [OF TWant2] TWant2 assms(2) in \<open>auto simp: lk_step_def lk_dist_def doomed_def reloading_def self_stop_def\<close>)
next
  case TRead2
  then show ?thesis
    by (intro closerI [of k "k\<lparr>lkT := TCallbacks\<rparr>"])
      (use reload_step.runlock2 [OF TRead2] in \<open>auto simp: lk_step_def lk_dist_def doomed_defs\<close>)
next
  case TCallbacks
  then show ?thesis
    by (intro closerI [of k "k\<lparr>lkT := TUnlock\<rparr>"])
      (use reload_step.called [OF TCallbacks] in \<open>auto simp: lk_step_def lk_dist_def doomed_defs\<close>)
next
  case TUnlock
  then show ?thesis
    by (intro closerI [of k "k\<lparr>lkT := TNone\<rparr>"])
      (use callback_step.unlocks [OF TUnlock] in \<open>auto simp: lk_step_def lk_dist_def doomed_defs\<close>)
qed (use assms in \<open>simp_all add: doomed_defs\<close>)

lemma loop_goes_on:
  assumes "lkT k = TNone" and "fw_free k \<or> lkL k = LHolds" and "lkL k \<noteq> LDone" and "lkDone k \<or> lkL k = LHolds"
  shows "closer k"
proof (cases "lkL k")
  case LSelect
  then show ?thesis
    by (intro closerI [of k "k\<lparr>lkL := LDone\<rparr>"])
      (use loop_step.ends [OF LSelect] assms in \<open>auto simp: lk_step_def lk_dist_def doomed_defs\<close>)
next
  case LWants
  then show ?thesis
    by (intro closerI [of k "k\<lparr>lkL := LHolds\<rparr>"])
      (use loop_step.locks [OF LWants] assms in \<open>auto simp: lk_step_def lk_dist_def doomed_def reloading_def self_stop_def\<close>)
next
  case LHolds
  show ?thesis
    by (intro closerI [of k "k\<lparr>lkL := LSelect, lkPending := lkPending k \<or> \<not> lkStopped k\<rparr>"])
      (use loop_step.handled [OF LHolds] LHolds assms in \<open>auto simp: lk_step_def lk_dist_def doomed_def reloading_def self_stop_def\<close>)
qed (use assms in simp)

lemma stop_goes_on:
  assumes ok: "locks_ok k" and t: "lkT k = TNone" and r: "lkReaders k = 0" and l: "lkL k \<noteq> LHolds"
    and s: "lkS k \<noteq> SDone" and w: "lkS k = SWaits \<Longrightarrow> lkL k = LDone"
  shows "closer k"
proof -
  have nd: "\<not> doomed k'" if "lkT k' = TNone" for k' using that by (simp add: doomed_def reloading_def self_stop_def)
  have f: "lkS k \<noteq> SHoldsFw \<Longrightarrow> fw_free k" using t l by (simp add: fw_free_def)
  have st: "lkStarted k" using ok s by (simp add: locks_ok_def)
  note go = closerI [of k, OF _ nd]
  show ?thesis
  proof (cases "lkS k")
    case SIdle
    show ?thesis by (rule go [of "k\<lparr>lkS := SWants\<rparr>"])
        (use stop_step.calls [OF SIdle] SIdle t in \<open>simp_all add: lk_step_def lk_dist_def\<close>)
  next
    case SWants
    then have "\<not> es_writer k" using t by (simp add: es_writer_def)
    then show ?thesis by (intro go [of "k\<lparr>lkS := SPending\<rparr>"])
        (use stop_step.announces [OF SWants] SWants t in \<open>simp_all add: lk_step_def lk_dist_def\<close>)
  next
    case SPending
    have "\<not> es_read k" using t r by (simp add: es_read_def)
    then show ?thesis by (intro go [of "k\<lparr>lkS := SHolds\<rparr>"])
        (use stop_step.locks [OF SPending] SPending t in \<open>simp_all add: lk_step_def lk_dist_def\<close>)
  next
    case SHolds
    show ?thesis by (rule go [of "k\<lparr>lkS := SWantsFw\<rparr>"])
        (use stop_step.watcher [OF SHolds st] SHolds t in \<open>simp_all add: lk_step_def lk_dist_def\<close>)
  next
    case SWantsFw
    show ?thesis by (rule go [of "k\<lparr>lkS := SHoldsFw\<rparr>"])
        (use stop_step.locks_fw [OF SWantsFw f] SWantsFw t in \<open>simp_all add: lk_step_def lk_dist_def\<close>)
  next
    case SHoldsFw
    show ?thesis by (rule go [of "k\<lparr>lkS := SWaits, lkStopped := True, lkPending := False, lkDone := True\<rparr>"])
        (use stop_step.stops_fw [OF SHoldsFw] SHoldsFw t in \<open>simp_all add: lk_step_def lk_dist_def\<close>)
  next
    case SWaits
    show ?thesis by (rule go [of "k\<lparr>lkS := SFinish\<rparr>"])
        (use stop_step.waited [OF SWaits w [OF SWaits]] SWaits t in \<open>simp_all add: lk_step_def lk_dist_def\<close>)
  next
    case SFinish
    show ?thesis by (rule go [of "k\<lparr>lkS := SDone, lkStarted := False\<rparr>"])
        (use stop_step.finishes [OF SFinish] SFinish t in \<open>simp_all add: lk_step_def lk_dist_def\<close>)
  qed (use s in simp)
qed

lemma stop_can_return:
  assumes "locks_ok k" and "\<not> doomed k"
  shows "\<exists>k'. lk_step\<^sup>*\<^sup>* k k' \<and> lkS k' = SDone"
  using assms
proof (induction "lk_dist k" arbitrary: k rule: less_induct)
  case less
  have "closer k" if "lkS k \<noteq> SDone"
  proof (cases "lkReaders k \<noteq> 0 \<or> lkT k \<noteq> TNone \<or> lkL k = LHolds")
    case True
    show ?thesis
    proof (cases "lkReaders k \<noteq> 0 \<or> lkT k \<noteq> TNone")
      case True
      then show ?thesis using reader_leaves [OF less.prems(2)] callback_goes_on [OF less.prems] by blast
    next
      case False
      then show ?thesis using True by (intro loop_goes_on) simp_all
    qed
  next
    case False
    show ?thesis
    proof (cases "lkS k = SWaits \<and> lkL k \<noteq> LDone")
      case True
      then have "fw_free k" "lkDone k" using False less.prems(1) by (auto simp: lk_defs)
      then show ?thesis using False True by (intro loop_goes_on) simp_all
    next
      case nw: False
      show ?thesis by (rule stop_goes_on [OF less.prems(1)]) (use False nw that in auto)
    qed
  qed
  show ?case
  proof (cases "lkS k = SDone")
    case False
    then obtain k' where k': "lk_step k k'" "\<not> doomed k'" "lk_dist k' < lk_dist k" using \<open>lkS k \<noteq> SDone \<Longrightarrow> closer k\<close>
      unfolding closer_def by blast
    from less.hyps [OF k'(3) lk_step_ok [OF k'(1) less.prems(1)] k'(2)]
    obtain k'' where "lk_step\<^sup>*\<^sup>* k' k''" "lkS k'' = SDone" by blast
    with k'(1) show ?thesis using converse_rtranclp_into_rtranclp by metis
  qed blast
qed


text \<open>A file changes, the timer fires, the reload begins, and \<open>Stop\<close> is called.\<close>

definition deadlocked :: locks where
  "deadlocked = \<lparr>lkFired = 0, lkT = TReload, lkS = SPending, lkL = LSelect, lkPending = False, lkStopped = False,
     lkDone = False, lkStarted = True, lkReaders = 0\<rparr>"

lemma deadlocked_reached: "lk_step\<^sup>*\<^sup>* lk_init deadlocked"
proof -
  let ?k = "\<lambda>f t s l p. \<lparr>lkFired = f, lkT = t, lkS = s, lkL = l, lkPending = p, lkStopped = False,
     lkDone = False, lkStarted = True, lkReaders = 0\<rparr>"
  have "lk_step\<^sup>*\<^sup>* lk_init (?k 0 TNone SIdle LWants False)"
    by (rule r_into_rtranclp) (use loop_step.event [of lk_init] in \<open>simp add: lk_init_def lk_step_def\<close>)
  also have "lk_step\<^sup>*\<^sup>* \<dots> (?k 0 TNone SIdle LHolds False)"
    by (rule r_into_rtranclp) (use loop_step.locks [of "?k 0 TNone SIdle LWants False"] in \<open>simp add: fw_free_def lk_step_def\<close>)
  also have "lk_step\<^sup>*\<^sup>* \<dots> (?k 0 TNone SIdle LSelect True)"
    by (rule r_into_rtranclp) (use loop_step.handled [of "?k 0 TNone SIdle LHolds False"] in \<open>simp add: lk_step_def\<close>)
  also have "lk_step\<^sup>*\<^sup>* \<dots> (?k 1 TNone SIdle LSelect True)"
    by (rule r_into_rtranclp) (use callback_step.fires [of "?k 0 TNone SIdle LSelect True"] in \<open>simp add: lk_step_def\<close>)
  also have "lk_step\<^sup>*\<^sup>* \<dots> (?k 0 TLocked SIdle LSelect True)"
    by (rule r_into_rtranclp) (use callback_step.locks [of "?k 1 TNone SIdle LSelect True" 0] in \<open>simp add: fw_free_def lk_step_def\<close>)
  also have "lk_step\<^sup>*\<^sup>* \<dots> (?k 0 TReload SIdle LSelect False)"
    by (rule r_into_rtranclp) (use callback_step.reloads [of "?k 0 TLocked SIdle LSelect True"] in \<open>simp add: lk_step_def\<close>)
  also have "lk_step\<^sup>*\<^sup>* \<dots> (?k 0 TReload SWants LSelect False)"
    by (rule r_into_rtranclp) (use stop_step.calls [of "?k 0 TReload SIdle LSelect False"] in \<open>simp add: lk_step_def\<close>)
  also have "lk_step\<^sup>*\<^sup>* \<dots> (?k 0 TReload SPending LSelect False)"
    by (rule r_into_rtranclp) (use stop_step.announces [of "?k 0 TReload SWants LSelect False"] in \<open>simp add: es_writer_def lk_step_def\<close>)
  finally show ?thesis by (simp add: deadlocked_def)
qed


end
