(* ===== verification/Gc.thy ===== *)
theory Gc
  imports Spice_Types
begin

text \<open>
  \<open>internal/datastore/common/gc.go\<close>: one run of garbage collection with the calls it makes, the worker that
  repeats it, and the registration of its metrics. The datastore's collector and the back-off library are
  arguments; a call of the collector returns a value and an error together, as in the code.
\<close>

section \<open>One run\<close>

record deletion_counts =
  dcRelationships :: int
  dcTransactions :: int
  dcNamespaces :: int

text \<open>The collectable datastore and its collector, by what their methods return.\<close>

record 'r gc_store =
  gcReadyState :: "(string \<times> bool) result"
  gcBuild :: "unit result"
  gcLock :: "bool result"
  gcUnlock :: "unit result"
  gcNow :: "nanotime result"
  gcTxIDBefore :: "nanotime \<Rightarrow> 'r result"
  gcDeleteBefore :: "'r \<Rightarrow> deletion_counts \<times> go_error option"
  gcDeleteExpired :: "int \<times> go_error option"

datatype 'r gc_call =
    CReady | CBuild | CLock | CNow | CTxIDBefore nanotime | CDeleteBefore 'r | CDeleteExpired | CMark | CUnlock | CClose

text \<open>The counters; the histogram counts its observations.\<close>

record gc_metrics =
  gmRelationships :: int
  gmExpired :: int
  gmTransactions :: int
  gmNamespaces :: int
  gmDurations :: nat
  gmFailures :: nat

definition count_run :: "deletion_counts \<Rightarrow> int \<Rightarrow> gc_metrics \<Rightarrow> gc_metrics" where
  "count_run c n m = m\<lparr>gmRelationships := gmRelationships m + dcRelationships c,
     gmTransactions := gmTransactions m + dcTransactions c, gmNamespaces := gmNamespaces m + dcNamespaces c,
     gmExpired := gmExpired m + n, gmDurations := Suc (gmDurations m)\<rparr>"

text \<open>From the lock to the deferred unlock.\<close>

definition gc_locked ::
    "'r gc_store \<Rightarrow> int \<Rightarrow> gc_metrics \<Rightarrow> 'r gc_call list \<times> gc_metrics \<times> unit result" where
  "gc_locked G window m = (case gcNow G of
     Err e \<Rightarrow> ([CNow], m, Err (Wrap ''error retrieving now'' e))
   | Ok now \<Rightarrow>
       (let before = now + i64 (-1 * window)
        in case gcTxIDBefore G before of
             Err e \<Rightarrow> ([CNow, CTxIDBefore before], m, Err (Wrap ''error retrieving watermark'' e))
           | Ok watermark \<Rightarrow>
               (case gcDeleteBefore G watermark of (collected, err) \<Rightarrow>
                case gcDeleteExpired G of (expired, eerr) \<Rightarrow>
                  (let calls = [CNow, CTxIDBefore before, CDeleteBefore watermark, CDeleteExpired];
                       m' = count_run collected expired m
                   in case err of
                        Some e \<Rightarrow> (calls, m', Err (Wrap ''error deleting in gc'' e))
                      | None \<Rightarrow>
                          (case eerr of
                             Some e \<Rightarrow> (calls, m', Err (Wrap ''error deleting expired relationships in gc'' e))
                           | None \<Rightarrow> (calls @ [CMark], m', Ok ()))))))"

definition runGarbageCollection ::
    "'r gc_store \<Rightarrow> int \<Rightarrow> gc_metrics \<Rightarrow> 'r gc_call list \<times> gc_metrics \<times> unit result" where
  "runGarbageCollection G window m = (case gcReadyState G of
     Err e \<Rightarrow> ([CReady], m, Err e)
   | Ok (_, ready) \<Rightarrow>
       (if \<not> ready then ([CReady], m, Ok ())
        else case gcBuild G of
          Err e \<Rightarrow> ([CReady, CBuild], m, Err (Wrap ''error building garbage collector'' e))
        | Ok _ \<Rightarrow>
            (case gcLock G of
               Err e \<Rightarrow> ([CReady, CBuild, CLock, CClose], m, Err (Wrap ''error locking for gc run'' e))
             | Ok ok \<Rightarrow>
                 (if \<not> ok then ([CReady, CBuild, CLock, CClose], m, Ok ())
                  else case gc_locked G window m of
                    (calls, m', r) \<Rightarrow> ([CReady, CBuild, CLock] @ calls @ [CUnlock, CClose], m', r)))))"

section \<open>The worker\<close>

text \<open>\<open>backoff.ExponentialBackOff\<close>: making one from its two intervals (after \<open>Reset\<close>), \<open>NextBackOff\<close> and \<open>Reset\<close>.\<close>

record 'b backoff_lib =
  boNew :: "int \<Rightarrow> int \<Rightarrow> 'b"
  boNext :: "'b \<Rightarrow> int \<times> 'b"
  boReset :: "'b \<Rightarrow> 'b"

definition maxGCInterval :: int where "maxGCInterval = 60 * 60 * 1000000000"

text \<open>
  The loop, for the results of the runs until the context ends; it gives the intervals it waits for (the last
  one is cut short by the context), the failures it counts and the state of the back-off.
\<close>

fun gc_loop :: "'b backoff_lib \<Rightarrow> int \<Rightarrow> int \<Rightarrow> 'b \<Rightarrow> unit result list \<Rightarrow> int list \<times> nat \<times> 'b" where
  "gc_loop B interval nx b [] = ([nx], 0, b)"
| "gc_loop B interval nx b (r # rs) = (case r of
     Err _ \<Rightarrow>
       (case boNext B b of (nx', b') \<Rightarrow>
        case gc_loop B interval nx' b' rs of (ws, n, b'') \<Rightarrow> (nx # ws, Suc n, b''))
   | Ok _ \<Rightarrow> (case gc_loop B interval interval (boReset B b) rs of (ws, n, b'') \<Rightarrow> (nx # ws, n, b'')))"

definition runOnIntervalWithBackoff :: "'b backoff_lib \<Rightarrow> int \<Rightarrow> unit result list \<Rightarrow> int list \<times> nat \<times> 'b" where
  "runOnIntervalWithBackoff B interval rs =
     gc_loop B interval interval (boNew B interval (max maxGCInterval interval)) rs"

text \<open>\<open>StartGarbageCollector\<close> on a datastore that meets the given states, one for each run.\<close>

fun gc_runs :: "int \<Rightarrow> 'r gc_store list \<Rightarrow> gc_metrics \<Rightarrow> gc_metrics \<times> unit result list" where
  "gc_runs window [] m = (m, [])"
| "gc_runs window (G # Gs) m = (case runGarbageCollection G window m of
     (_, m', r) \<Rightarrow> (case gc_runs window Gs m' of (m'', rs) \<Rightarrow> (m'', r # rs)))"

definition startGarbageCollector ::
    "'b backoff_lib \<Rightarrow> int \<Rightarrow> int \<Rightarrow> 'r gc_store list \<Rightarrow> gc_metrics \<Rightarrow> int list \<times> gc_metrics" where
  "startGarbageCollector B interval window Gs m = (case gc_runs window Gs m of
     (m', rs) \<Rightarrow> (case runOnIntervalWithBackoff B interval rs of
       (ws, n, _) \<Rightarrow> (ws, m'\<lparr>gmFailures := gmFailures m' + n\<rparr>)))"

section \<open>Metrics\<close>

datatype gc_metric =
    GcDurationHistogram | GcRelationshipsCounter | GcExpiredRelationshipsCounter | GcTransactionsCounter
  | GcNamespacesCounter | GcFailureCounter

text \<open>\<open>RegisterGCMetrics\<close> on a registry, which refuses some collectors; it gives what the registry holds after.\<close>

fun register_all :: "(gc_metric \<Rightarrow> unit result) \<Rightarrow> gc_metric list \<Rightarrow> gc_metric list \<Rightarrow> gc_metric list \<times> unit result" where
  "register_all register registry [] = (registry, Ok ())"
| "register_all register registry (c # cs) = (case register c of
     Err e \<Rightarrow> (registry, Err e)
   | Ok _ \<Rightarrow> register_all register (registry @ [c]) cs)"

definition gc_collectors :: "gc_metric list" where
  "gc_collectors = [GcDurationHistogram, GcRelationshipsCounter, GcTransactionsCounter, GcNamespacesCounter, GcFailureCounter]"

definition registerGCMetrics ::
    "(gc_metric \<Rightarrow> unit result) \<Rightarrow> gc_metric list \<Rightarrow> gc_metric list \<times> gc_metric list result" where
  "registerGCMetrics register registry = (case register_all register registry gc_collectors of
     (registry', Err e) \<Rightarrow> (registry', Err e)
   | (registry', Ok _) \<Rightarrow> (registry', Ok gc_collectors))"

text \<open>The counter of expired relationships is counted but never registered.\<close>

lemma expired_counter_unregistered: "GcExpiredRelationshipsCounter \<notin> set gc_collectors"
  by (simp add: gc_collectors_def)

lemma register_all_registry:
  "register_all register registry cs = (registry', r) \<Longrightarrow> \<exists>k. registry' = registry @ take k cs \<and> (r = Ok () \<longrightarrow> k = length cs)"
proof (induction cs arbitrary: registry)
  case (Cons c cs)
  show ?case
  proof (cases "register c")
    case (Inl e)
    then show ?thesis using Cons.prems by (intro exI [of _ 0]) auto
  next
    case (Inr u)
    then obtain k where "registry' = (registry @ [c]) @ take k cs" "r = Ok () \<longrightarrow> k = length cs"
      using Cons by fastforce
    then show ?thesis by (intro exI [of _ "Suc k"]) simp
  qed
qed simp

section \<open>Properties\<close>

text \<open>
  C29. One run of garbage collection. Nothing is deleted unless the lock was obtained, and then both
  deletions come between the lock and its release; once a collector is built it is closed, and a lock that
  is obtained is released just before; expired relationships are deleted even when deleting before the watermark
  fails; the counters grow by what the deletions report, failed ones included; and the run is marked as
  completed exactly when it returns nil with the lock held.
\<close>

theorem gc_run_protocol:
  assumes "runGarbageCollection G window m = (calls, m', r)"
  shows "(\<exists>inner. calls = [CReady, CBuild, CLock] @ inner @ [CUnlock, CClose] \<and> gcLock G = Ok True \<and>
      CUnlock \<notin> set inner \<and> (CMark \<in> set inner \<longleftrightarrow> r = Ok ()) \<and>
      ((\<exists>w. CDeleteBefore w \<in> set inner) \<longleftrightarrow> CDeleteExpired \<in> set inner) \<and>
      (\<forall>w. CDeleteBefore w \<in> set inner \<longrightarrow>
         (\<exists>now. gcNow G = Ok now \<and> gcTxIDBefore G (now + i64 (-1 * window)) = Ok w) \<and>
         m' = count_run (fst (gcDeleteBefore G w)) (fst (gcDeleteExpired G)) m \<and>
         (r = Ok () \<longleftrightarrow> snd (gcDeleteBefore G w) = None \<and> snd (gcDeleteExpired G) = None)) \<and>
      (CDeleteExpired \<notin> set inner \<longrightarrow> m' = m \<and> r \<noteq> Ok ())) \<or>
    (calls \<in> {[CReady], [CReady, CBuild], [CReady, CBuild, CLock, CClose]} \<and> m' = m \<and>
      (CClose \<in> set calls \<longleftrightarrow> (\<exists>b. gcReadyState G = Ok (b, True)) \<and> gcBuild G = Ok ()))"
proof (cases "\<exists>b. gcReadyState G = Ok (b, True) \<and> gcBuild G = Ok () \<and> gcLock G = Ok True")
  case True
  then obtain inner where calls: "calls = [CReady, CBuild, CLock] @ inner @ [CUnlock, CClose]"
    and l: "gc_locked G window m = (inner, m', r)" and lock: "gcLock G = Ok True"
    using assms by (auto simp: runGarbageCollection_def split: prod.splits)
  have "CUnlock \<notin> set inner \<and> (CMark \<in> set inner \<longleftrightarrow> r = Ok ()) \<and>
      ((\<exists>w. CDeleteBefore w \<in> set inner) \<longleftrightarrow> CDeleteExpired \<in> set inner)"
    using l by (auto simp: gc_locked_def Let_def split: sum.splits prod.splits option.splits)
  moreover have "\<forall>w. CDeleteBefore w \<in> set inner \<longrightarrow>
         (\<exists>now. gcNow G = Ok now \<and> gcTxIDBefore G (now + i64 (-1 * window)) = Ok w) \<and>
         m' = count_run (fst (gcDeleteBefore G w)) (fst (gcDeleteExpired G)) m \<and>
         (r = Ok () \<longleftrightarrow> snd (gcDeleteBefore G w) = None \<and> snd (gcDeleteExpired G) = None)"
    using l by (auto simp: gc_locked_def Let_def split: sum.splits prod.splits option.splits)
  moreover have "CDeleteExpired \<notin> set inner \<longrightarrow> m' = m \<and> r \<noteq> Ok ()"
    using l by (auto simp: gc_locked_def Let_def split: sum.splits prod.splits option.splits)
  ultimately show ?thesis using calls lock by blast
next
  case False
  then show ?thesis using assms
    by (auto simp: runGarbageCollection_def split: sum.splits prod.splits if_splits)
qed

definition sample_gc :: "nat gc_store" where
  "sample_gc = \<lparr>gcReadyState = Ok ([], True), gcBuild = Ok (), gcLock = Ok True, gcUnlock = Ok (), gcNow = Ok 1000,
     gcTxIDBefore = (\<lambda>t. if t = 900 then Ok 7 else Err ErrNotFound),
     gcDeleteBefore = (\<lambda>w. (\<lparr>dcRelationships = 3, dcTransactions = 1, dcNamespaces = 0\<rparr>, Some ErrNotFound)),
     gcDeleteExpired = (2, None)\<rparr>"

definition no_metrics :: gc_metrics where
  "no_metrics = \<lparr>gmRelationships = 0, gmExpired = 0, gmTransactions = 0, gmNamespaces = 0, gmDurations = 0, gmFailures = 0\<rparr>"

theorem gc_run_protocol_witness:
  "\<exists>m' r. runGarbageCollection sample_gc 100 no_metrics =
     ([CReady, CBuild, CLock, CNow, CTxIDBefore 900, CDeleteBefore 7, CDeleteExpired, CUnlock, CClose], m', r) \<and>
     r \<noteq> Ok () \<and> gmRelationships m' = 3 \<and> gmExpired m' = 2"
proof -
  let ?m = "count_run \<lparr>dcRelationships = 3, dcTransactions = 1, dcNamespaces = 0\<rparr> 2 no_metrics"
  have run: "runGarbageCollection sample_gc 100 no_metrics =
     ([CReady, CBuild, CLock, CNow, CTxIDBefore 900, CDeleteBefore 7, CDeleteExpired, CUnlock, CClose], ?m,
      Err (Wrap ''error deleting in gc'' ErrNotFound))"
    by (simp add: runGarbageCollection_def gc_locked_def sample_gc_def Let_def i64_def)
  have "gmRelationships ?m = 3 \<and> gmExpired ?m = 2" by (simp add: count_run_def no_metrics_def)
  then show ?thesis using gc_run_protocol [OF run] run by auto
qed

text \<open>How many failures in a row a list of results ends with.\<close>

definition trailing_failures :: "unit result list \<Rightarrow> nat" where
  "trailing_failures rs = length (takeWhile (\<lambda>r. r \<noteq> Ok ()) (rev rs))"

lemma gc_loop_append:
  "gc_loop B interval nx b (rs @ [r]) = (case gc_loop B interval nx b rs of (ws, n, b') \<Rightarrow>
     (case r of
        Err _ \<Rightarrow> (ws @ [fst (boNext B b')], Suc n, snd (boNext B b'))
      | Ok _ \<Rightarrow> (ws @ [interval], n, boReset B b')))"
proof (induction rs arbitrary: nx b)
  case Nil
  then show ?case by (cases r) (simp_all add: split_def)
next
  case (Cons a rs)
  then show ?case by (cases a; cases r) (simp_all add: split_def)
qed

text \<open>
  The worker's intervals. With a back-off that \<open>Reset\<close> returns to where it began, the wait after a run
  that succeeds is the interval, and after a failure it is what the back-off gives for the number of failures in
  a row, whatever happened before the last success; every failure is counted once.
\<close>

theorem worker_waits:
  assumes "\<forall>b. boReset B b = boNew B interval (max maxGCInterval interval)"
    and "runOnIntervalWithBackoff B interval rs = (ws, n, b)"
  shows "length ws = Suc (length rs) \<and> n = length (filter (\<lambda>r. r \<noteq> Ok ()) rs) \<and>
    b = ((\<lambda>b. snd (boNext B b)) ^^ trailing_failures rs) (boNew B interval (max maxGCInterval interval)) \<and>
    last ws = (case trailing_failures rs of 0 \<Rightarrow> interval
      | Suc k \<Rightarrow> fst (boNext B (((\<lambda>b. snd (boNext B b)) ^^ k) (boNew B interval (max maxGCInterval interval)))))"
  using assms(2)
proof (induction rs arbitrary: ws n b rule: rev_induct)
  case Nil
  then show ?case by (auto simp: runOnIntervalWithBackoff_def trailing_failures_def)
next
  case (snoc r rs)
  obtain ws0 n0 b0 where l: "runOnIntervalWithBackoff B interval rs = (ws0, n0, b0)" by (metis prod.exhaust)
  note IH = snoc.IH [OF l]
  show ?case
  proof (cases r)
    case (Inl e)
    then have "ws = ws0 @ [fst (boNext B b0)]" "n = Suc n0" "b = snd (boNext B b0)"
      using snoc.prems l by (simp_all add: runOnIntervalWithBackoff_def gc_loop_append)
    moreover have "trailing_failures (rs @ [r]) = Suc (trailing_failures rs)" using Inl by (simp add: trailing_failures_def)
    ultimately show ?thesis using IH Inl by simp
  next
    case (Inr u)
    then have "ws = ws0 @ [interval]" "n = n0" "b = boReset B b0"
      using snoc.prems l by (simp_all add: runOnIntervalWithBackoff_def gc_loop_append)
    moreover have "trailing_failures (rs @ [r]) = 0" using Inr by (simp add: trailing_failures_def)
    ultimately show ?thesis using IH Inr assms(1) by simp
  qed
qed

text \<open>A back-off that doubles up to its maximum.\<close>

definition doubling :: "(int \<times> int \<times> int) backoff_lib" where
  "doubling = \<lparr>boNew = (\<lambda>_ _. (10, 10, 60)), boNext = (\<lambda>(c, i, mx). (max c 1, min (2 * c) mx, i, mx)), boReset = (\<lambda>_. (10, 10, 60))\<rparr>"

theorem worker_waits_witness:
  "fst (runOnIntervalWithBackoff doubling 5 [Err ErrNotFound, Ok (), Err ErrNotFound, Err ErrNotFound]) = [5, 10, 5, 10, 20]"
proof -
  let ?rs = "[Err ErrNotFound, Ok (), Err ErrNotFound, Err ErrNotFound]"
  have run: "runOnIntervalWithBackoff doubling 5 ?rs = ([5, 10, 5, 10, 20], 3, (40, 10, 60))"
    by (simp add: runOnIntervalWithBackoff_def doubling_def)
  have "\<forall>b. boReset doubling b = boNew doubling 5 (max maxGCInterval 5)" by (simp add: doubling_def)
  from worker_waits [OF this run] run show ?thesis by simp
qed

end
