(* ===== verification/Ds_Helpers.thy ===== *)
theory Ds_Helpers
  imports Memdb_Commit Sql_Query
begin

text \<open>
  The helpers of \<open>internal/datastore/common\<close>: the errors with their gRPC status (\<open>errors.go\<close>), the tests on
  errors of databases (\<open>sqlerrors.go\<close>), the check of migrations (\<open>migrations.go\<close>), \<open>url.go\<close>, writing
  relationships through a transaction (\<open>helpers.go\<close>), and the run of a query plan in \<open>relationships.go\<close>.
\<close>

section \<open>Errors\<close>

text \<open>The conversion of a relationship to the API's, which belongs to the library.\<close>

record v1_relationship =
  v1ResourceType :: string
  v1ResourceID :: string
  v1Relation :: string
  v1SubjectType :: string
  v1SubjectID :: string
  v1SubjectRelation :: string

record v1_lib =
  toV1Relationship :: "tuple_relationship \<Rightarrow> v1_relationship"
  v1String :: "v1_relationship \<Rightarrow> string"

datatype ds_error =
    SerializationError go_error
  | WriteOverLimitError go_error
  | ReadOnlyTransactionError go_error
  | CreateRelationshipExistsError go_error "tuple_relationship option"
  | RevisionUnavailableError go_error

datatype grpc_code = Aborted | AlreadyExists

record ds_status =
  gsCode :: grpc_code
  gsReason :: string
  gsDetails :: "(string \<times> string) list"

definition newReadOnlyTransactionError :: "go_error \<Rightarrow> ds_error" where
  "newReadOnlyTransactionError e = ReadOnlyTransactionError
     (Wrap ''could not perform write operation, as the datastore is currently in read-only mode'' e)"

definition newCreateRelationshipExistsError :: "spice_lib \<Rightarrow> tuple_relationship option \<Rightarrow> ds_error" where
  "newCreateRelationshipExistsError L relationship =
     (let msg = (case relationship of
        None \<Rightarrow> ''could not CREATE one or more relationships, as they already existed. If this is persistent, '' @
          ''please switch to TOUCH operations or specify a precondition''
      | Some rel \<Rightarrow> ''could not CREATE relationship `'' @ string_without L rel @ ''`, as it already existed. '' @
          ''If this is persistent, please switch to TOUCH operations or specify a precondition'')
      in CreateRelationshipExistsError (ErrorString msg) relationship)"

text \<open>The status of \<open>CreateRelationshipExistsError\<close>.\<close>

definition exists_status :: "v1_lib \<Rightarrow> tuple_relationship option \<Rightarrow> ds_status" where
  "exists_status V relationship = (case relationship of
     None \<Rightarrow> \<lparr>gsCode = AlreadyExists, gsReason = ''ATTEMPT_TO_RECREATE_RELATIONSHIP'', gsDetails = []\<rparr>
   | Some rel \<Rightarrow>
       (let r = toV1Relationship V rel
        in \<lparr>gsCode = AlreadyExists, gsReason = ''ATTEMPT_TO_RECREATE_RELATIONSHIP'', gsDetails =
            [(''relationship'', v1String V r), (''resource_type'', v1ResourceType r),
             (''resource_object_id'', v1ResourceID r), (''resource_relation'', v1Relation r),
             (''subject_type'', v1SubjectType r), (''subject_object_id'', v1SubjectID r),
             (''subject_relation'', v1SubjectRelation r)]\<rparr>))"

text \<open>\<open>GRPCStatus\<close>, where the error has it, and \<open>Unwrap\<close>.\<close>

definition grpcStatus :: "v1_lib \<Rightarrow> ds_error \<Rightarrow> ds_status option" where
  "grpcStatus V err = (case err of
     SerializationError _ \<Rightarrow> Some \<lparr>gsCode = Aborted, gsReason = ''SERIALIZATION_FAILURE'', gsDetails = []\<rparr>
   | WriteOverLimitError _ \<Rightarrow> Some \<lparr>gsCode = Aborted, gsReason = ''TOO_MANY_UPDATES_IN_REQUEST'', gsDetails = []\<rparr>
   | ReadOnlyTransactionError _ \<Rightarrow> Some \<lparr>gsCode = Aborted, gsReason = ''SERVICE_READ_ONLY'', gsDetails = []\<rparr>
   | CreateRelationshipExistsError _ rel \<Rightarrow> Some (exists_status V rel)
   | RevisionUnavailableError _ \<Rightarrow> None)"

definition ds_unwrap :: "ds_error \<Rightarrow> go_error option" where
  "ds_unwrap err = (case err of SerializationError e \<Rightarrow> Some e | WriteOverLimitError e \<Rightarrow> Some e | _ \<Rightarrow> None)"

text \<open>What is logged at trace level is not modelled; what is returned does not depend on it.\<close>

definition redactAndLogSensitiveConnString :: "string \<Rightarrow> go_error option \<Rightarrow> string \<Rightarrow> go_error" where
  "redactAndLogSensitiveConnString baseErr err pgURL =
     (if err = None then ErrorString baseErr
      else ErrorString (baseErr @ ''. To view details of this error (that may contain sensitive information), '' @
        ''please run with --log-level=trace''))"

section \<open>Tests on errors\<close>

fun str_prefix :: "string \<Rightarrow> string \<Rightarrow> bool" where
  "str_prefix [] s = True"
| "str_prefix (c # cs) [] = False"
| "str_prefix (c # cs) (d # ds) = (c = d \<and> str_prefix cs ds)"

fun str_contains :: "string \<Rightarrow> string \<Rightarrow> bool" where
  "str_contains sub [] = (sub = [])"
| "str_contains sub (c # cs) = (str_prefix sub (c # cs) \<or> str_contains sub cs)"

lemma str_prefix_iff: "str_prefix p s \<longleftrightarrow> (\<exists>t. s = p @ t)"
  by (induction p s rule: str_prefix.induct) auto

lemma str_contains_iff: "str_contains sub s \<longleftrightarrow> (\<exists>a b. s = a @ sub @ b)"
proof (induction s)
  case (Cons c s)
  show ?case
  proof
    assume "str_contains sub (c # s)"
    then consider t where "c # s = sub @ t" | a b where "s = a @ sub @ b"
      using Cons by (auto simp: str_prefix_iff)
    then show "\<exists>a b. c # s = a @ sub @ b"
    proof cases
      case 1
      then show ?thesis by (metis append_Nil)
    next
      case 2
      then show ?thesis by (metis append_Cons)
    qed
  next
    assume "\<exists>a b. c # s = a @ sub @ b"
    then obtain a b where ab: "c # s = a @ sub @ b" by blast
    show "str_contains sub (c # s)"
    proof (cases a)
      case Nil
      then have "str_prefix sub (c # s)" using ab by (auto simp: str_prefix_iff)
      then show ?thesis by simp
    next
      case (Cons x a')
      then show ?thesis using ab Cons.IH by auto
    qed
  qed
qed simp

text \<open>\<open>err\<close> is given by whether it is a cancellation or a deadline, and by its text.\<close>

definition isCancellationError :: "(go_error \<Rightarrow> bool) \<Rightarrow> (go_error \<Rightarrow> string) \<Rightarrow> go_error \<Rightarrow> bool" where
  "isCancellationError isContextErr errText err \<longleftrightarrow> isContextErr err \<or> errText err = ''conn closed''"

definition isResettableError :: "(go_error \<Rightarrow> string) \<Rightarrow> go_error \<Rightarrow> bool" where
  "isResettableError errText err \<longleftrightarrow>
     str_contains ''broken pipe'' (errText err) \<or> str_contains ''unexpected EOF'' (errText err) \<or>
     str_contains ''conn closed'' (errText err) \<or> str_contains ''connection refused'' (errText err) \<or>
     str_contains ''connection reset by peer'' (errText err)"

section \<open>Metadata and logging\<close>

text \<open>
  \<open>TransactionMetadata.Scan\<close> of \<open>transaction_metadata.go\<close>: \<open>None\<close> is the nil map. Decoding fills a map that is
  given and may leave it partly filled when it fails.
\<close>

datatype scan_value = ScanNil | ScanBytes bytes | ScanOther

definition metadata_scan ::
    "(bytes \<Rightarrow> any_map option \<Rightarrow> any_map option \<times> unit result) \<Rightarrow> scan_value \<Rightarrow> any_map option \<Rightarrow>
     any_map option \<times> unit result" where
  "metadata_scan unmarshal val tm = (case val of
     ScanNil \<Rightarrow> (None, Ok ())
   | ScanOther \<Rightarrow> (tm, Err (ErrorString ''unsupported type: []uint8''))
   | ScanBytes v \<Rightarrow> unmarshal v (map_option (\<lambda>_. []) tm))"

text \<open>\<open>LogOnError\<close> runs the function for its effect; its error is only logged.\<close>

definition logOnError :: "('s \<Rightarrow> 's \<times> unit result) \<Rightarrow> 's \<Rightarrow> 's" where
  "logOnError f s = fst (f s)"

section \<open>Migrations\<close>

record migration_validator =
  additionalAllowedMigrations :: "string list"
  headMigration :: string

definition newMigrationValidator :: "string \<Rightarrow> string list \<Rightarrow> migration_validator" where
  "newMigrationValidator h ms = \<lparr>additionalAllowedMigrations = ms, headMigration = h\<rparr>"

text \<open>The message is built from the version, the required version and the others; formatting is \<open>fmt\<close>'s.\<close>

definition migrationReadyState ::
    "(string \<Rightarrow> string \<Rightarrow> string list \<Rightarrow> string) \<Rightarrow> migration_validator \<Rightarrow> string \<Rightarrow> string \<times> bool" where
  "migrationReadyState message mv version =
     (if version = headMigration mv then ([], True)
      else if version \<in> set (additionalAllowedMigrations mv) then ([], True)
      else (message version (headMigration mv) (additionalAllowedMigrations mv), False))"

section \<open>URLs\<close>

definition metricsIDFromURL :: "(string \<Rightarrow> (string \<times> string) result) \<Rightarrow> string \<Rightarrow> string result" where
  "metricsIDFromURL urlParse dsURL =
     (if dsURL = [] then Err (ErrorString ''datastore URL is empty'')
      else case urlParse dsURL of
        Err _ \<Rightarrow> Err (ErrorString ''could not parse datastore URL'')
      | Ok (host, path) \<Rightarrow> Ok (host @ path))"

section \<open>Running a query plan\<close>

record 's explain_lib =
  preExplainStatements :: "'s list"
  buildExplainQuery :: "'s \<Rightarrow> 's result"
  explainQuery :: "'s \<Rightarrow> cell list list result"
  explainCallback :: "'s \<Rightarrow> shape \<Rightarrow> string \<Rightarrow> string list \<Rightarrow> unit result"

fun explain_text :: "cell list list \<Rightarrow> string \<Rightarrow> string result" where
  "explain_text [] acc = Ok acc"
| "explain_text (row # rows) acc = (case row of
     [CText t] \<Rightarrow> explain_text rows (acc @ t @ [CHR 0x0A])
   | _ \<Rightarrow> Err (Wrap errUnableToQueryRels (Wrap ''scan err'' (LibError ''cannot scan''))))"

fun pre_explain :: "'s explain_lib \<Rightarrow> 's list \<Rightarrow> 's list \<times> unit result" where
  "pre_explain X [] = ([], Ok ())"
| "pre_explain X (s # ss) = (case explainQuery X s of
     Err e \<Rightarrow> ([s], Err (Wrap errUnableToQueryRels e))
   | Ok _ \<Rightarrow> (case pre_explain X ss of (run, r) \<Rightarrow> (s # run, r)))"

text \<open>The statements that are run, and the result.\<close>

definition runExplainIfNecessary ::
    "(sql_select \<Rightarrow> 's result) \<Rightarrow> 's explain_lib option \<Rightarrow> rel_query_builder \<Rightarrow> shape \<Rightarrow> 's list \<times> unit result" where
  "runExplainIfNecessary toSql callback b queryShape = (case callback of
     None \<Rightarrow> ([], Ok ())
   | Some X \<Rightarrow>
       (let expectedIndexes = expectedIndexesForShape (rqSchema b) queryShape
        in case pre_explain X (preExplainStatements X) of
             (run, Err e) \<Rightarrow> (run, Err e)
           | (run, Ok _) \<Rightarrow>
               (case selectSQL toSql b of
                  Err e \<Rightarrow> (run, Err (Wrap errUnableToQueryRels e))
                | Ok statement \<Rightarrow>
                    (case buildExplainQuery X statement of
                       Err e \<Rightarrow> (run, Err (Wrap errUnableToQueryRels e))
                     | Ok explainSQL \<Rightarrow>
                         (run @ [explainSQL],
                          (case (case explainQuery X explainSQL of
                               Err e \<Rightarrow> Err e
                             | Ok rows \<Rightarrow>
                                 (case explain_text rows [] of
                                    Err e \<Rightarrow> Err e
                                  | Ok t \<Rightarrow>
                                      (if t = [] then Err (ErrorString ''received empty explain'')
                                       else explainCallback X statement queryShape t expectedIndexes))) of
                             Err e \<Rightarrow> Err (Wrap errUnableToQueryRels e)
                           | Ok _ \<Rightarrow> Ok ()))))))"

lemma no_callback_no_statement: "runExplainIfNecessary toSql None b shp = ([], Ok ())"
  by (simp add: runExplainIfNecessary_def)

section \<open>Writing relationships\<close>

definition updateRelationshipsInDatastore ::
    "('d, 't) env \<Rightarrow> (nat \<Rightarrow> nanotime \<times> nanotime) \<Rightarrow> relationship_update list \<Rightarrow> 'd memdb_ds \<Rightarrow> 'd memdb_ds \<times> int result" where
  "updateRelationshipsInDatastore E clock updates ds = readWriteTx E False [] clock (\<lambda>_. write_prog updates) ds"

definition writeRelationshipsInDatastore ::
    "('d, 't) env \<Rightarrow> (nat \<Rightarrow> nanotime \<times> nanotime) \<Rightarrow> update_operation \<Rightarrow> tuple_relationship list \<Rightarrow>
     'd memdb_ds \<Rightarrow> 'd memdb_ds \<times> int result" where
  "writeRelationshipsInDatastore E clock op rels ds =
     updateRelationshipsInDatastore E clock (map (\<lambda>rel. \<lparr>operation = op, updRelationship = rel\<rparr>) rels) ds"

text \<open>A batch of creations on the store.\<close>

definition all_new :: "store \<Rightarrow> tuple_relationship list \<Rightarrow> bool" where
  "all_new m rels \<longleftrightarrow> distinct (map rel_ref rels) \<and> (\<forall>rel \<in> set rels. m (rel_ref rel) = None)"

definition add_rels :: "store \<Rightarrow> tuple_relationship list \<Rightarrow> store" where
  "add_rels m rels = m ++ map_of (map (\<lambda>rel. (rel_ref rel, rel)) rels)"

lemma all_new_Cons:
  "all_new m (rel # rels) \<longleftrightarrow> m (rel_ref rel) = None \<and> all_new (m(rel_ref rel \<mapsto> rel)) rels"
proof -
  have "(\<forall>x \<in> set rels. (m(rel_ref rel \<mapsto> rel)) (rel_ref x) = None) \<longleftrightarrow>
      rel_ref rel \<notin> rel_ref ` set rels \<and> (\<forall>x \<in> set rels. m (rel_ref x) = None)"
    by (auto simp: image_iff)
  then show ?thesis unfolding all_new_def by auto
qed

lemma spec_creates:
  "if all_new m rels then spec_updates L m (map create_update rels) = (add_rels m rels, Ok ())
   else \<exists>m' rel. spec_updates L m (map create_update rels) = (m', Err (CreateRelationshipExists rel)) \<and>
     (rel \<in> ran m \<or> rel \<in> set rels)"
proof (induction rels arbitrary: m)
  case Nil
  then show ?case by (simp add: all_new_def add_rels_def)
next
  case (Cons rel rels)
  show ?case
  proof (cases "m (rel_ref rel)")
    case None
    let ?m = "m(rel_ref rel \<mapsto> rel)"
    have step: "spec_updates L m (map create_update (rel # rels)) = spec_updates L ?m (map create_update rels)"
      using None by (simp add: spec_update_def create_update_def Let_def)
    have eq: "all_new m (rel # rels) \<longleftrightarrow> all_new ?m rels" using None by (simp add: all_new_Cons)
    have m: "add_rels ?m rels = add_rels m (rel # rels)" if "all_new ?m rels"
    proof -
      have "map_of (map (\<lambda>x. (rel_ref x, x)) rels) (rel_ref rel) = None"
        using that by (auto simp: all_new_def map_of_eq_None_iff)
      then show ?thesis by (auto simp: add_rels_def map_add_def fun_eq_iff split: option.split)
    qed
    have r: "x \<in> ran ?m \<Longrightarrow> x \<in> ran m \<or> x = rel" for x by (auto simp: ran_def split: if_splits)
    show ?thesis
    proof (cases "all_new ?m rels")
      case True
      from Cons.IH [of ?m] have "spec_updates L ?m (map create_update rels) = (add_rels ?m rels, Ok ())"
        unfolding if_P [OF True] .
      then show ?thesis unfolding step m [OF True] using eq True by simp
    next
      case False
      from Cons.IH [of ?m] obtain m' x where
        x: "spec_updates L ?m (map create_update rels) = (m', Err (CreateRelationshipExists x))"
          "x \<in> ran ?m \<or> x \<in> set rels" unfolding if_not_P [OF False] by blast
      have "x \<in> ran m \<or> x \<in> set (rel # rels)" using x(2) r [of x] by auto
      then show ?thesis unfolding step using eq False x(1) by auto
    qed
  next
    case (Some existing)
    then have "spec_updates L m (map create_update (rel # rels)) = (m, Err (CreateRelationshipExists existing))"
      by (simp add: spec_update_def create_update_def Let_def)
    moreover have "\<not> all_new m (rel # rels)" using Some by (simp add: all_new_def)
    moreover have "existing \<in> ran m" using Some by (rule ranI)
    ultimately show ?thesis by auto
  qed
qed

text \<open>
  Creating a batch of relationships through \<open>WriteRelationships\<close> on the in-memory datastore: it
  returns a revision exactly when no relationship of the batch is stored and none occurs twice, and the
  snapshot of that revision holds what was stored and the batch; otherwise it returns the error for a
  relationship that exists and nothing is changed, not even for the relationships before it.
\<close>

theorem create_batch:
  assumes "memdb_db T view base valid L E rows dvalid" and "ds_ready L rows dvalid ds"
    and "live_root ds = Some d" and "\<forall>rel \<in> set rels. rel_ok rel"
    and "writeRelationshipsInDatastore E clock UpdateOperationCreate rels ds = (ds', out)"
  shows "if all_new (abs_store L (rows d)) rels
    then \<exists>r d'. out = Ok r \<and> extends ds r d' ds' \<and> abs_store L (rows d') = add_rels (abs_store L (rows d)) rels
    else \<exists>rel. out = Err (CreateRelationshipExists rel) \<and> unchanged ds ds'"
proof -
  let ?us = "map create_update rels"
  have ok: "\<forall>u \<in> set ?us. rel_ok (updRelationship u)" using assms(4) by (simp add: create_update_def)
  have run: "rw_loop E [] clock (\<lambda>_. write_prog ?us) 0 numAttempts ds = (ds', out)"
    using assms(5) unfolding writeRelationshipsInDatastore_def updateRelationshipsInDatastore_def readWriteTx_def
    by (simp add: create_update_def [abs_def])
  obtain m res where sp: "spec_updates L (abs_store L (rows d)) ?us = (m, res)" by (metis surj_pair)
  from memdb_db.write_transaction_result [OF assms(1-3) ok _ sp, of "[]" numAttempts clock] run
  have "case res of Ok _ \<Rightarrow> \<exists>r d'. out = Ok r \<and> newRevisionID ds (fst (clock 0)) = Ok r \<and> extends ds r d' ds' \<and>
      abs_store L (rows d') = m | Err e \<Rightarrow> out = Err e \<and> unchanged ds ds'"
    by (simp add: numAttempts_def)
  moreover have "if all_new (abs_store L (rows d)) rels then m = add_rels (abs_store L (rows d)) rels \<and> res = Ok ()
      else \<exists>rel. res = Err (CreateRelationshipExists rel)"
    using spec_creates [of "abs_store L (rows d)" rels L] sp by (auto split: if_splits)
  ultimately show ?thesis by (cases "all_new (abs_store L (rows d)) rels") force+
qed

theorem create_batch_witness:
  "\<exists>ds' rel. writeRelationshipsInDatastore ref_env (\<lambda>_. (2000, 2000)) UpdateOperationCreate
       [sample_rel ''d1'' ''u1'', sample_rel ''d1'' ''u1''] sample_ds = (ds', Err (CreateRelationshipExists rel)) \<and>
     unchanged sample_ds ds'"
proof -
  let ?rels = "[sample_rel ''d1'' ''u1'', sample_rel ''d1'' ''u1'']"
  obtain ds' out where w: "writeRelationshipsInDatastore ref_env (\<lambda>_. (2000, 2000)) UpdateOperationCreate ?rels sample_ds =
      (ds', out)" by fastforce
  have "\<forall>rel \<in> set ?rels. rel_ok rel" using sample_rel_ok by simp
  from create_batch [OF ref_mdb.memdb_db_axioms sample_ds_ready sample_ds_root this w] w
  show ?thesis by (auto simp: all_new_def)
qed

end
