(* ===== verification/Telemetry.thy ===== *)
theory Telemetry
  imports Gc Ds_Helpers Memdb_Watch
begin

text \<open>
  \<open>internal/telemetry/reporter.go\<close>, \<open>internal/telemetry/metrics.go\<close> and
  \<open>internal/middleware/usagemetrics/usagemetrics.go\<close>: the reporter of telemetry, the collector of its metrics,
  and the middleware that reports how many dispatches a call took. Metric registries, HTTP, compression and
  the random numbers are arguments. Counts and sums are integers.
\<close>

section \<open>The reporter\<close>

definition defaultEndpoint :: string where "defaultEndpoint = ''https://telemetry.authzed.com''"
definition defaultInterval :: int where "defaultInterval = 3600 * 1000000000"
definition maxElapsedTimeBetweenReports :: int where "maxElapsedTimeBetweenReports = 168 * 3600 * 1000000000"
definition minimumAllowedInterval :: int where "minimumAllowedInterval = 60 * 1000000000"

record reporter =
  rpEndpoint :: string
  rpInterval :: int
  rpCertPool :: "opaque option"

text \<open>Parsing a URL and loading a certificate pool are libraries'; \<open>durText\<close> prints a duration.\<close>

definition remoteReporter ::
    "(string \<Rightarrow> unit result) \<Rightarrow> (string \<Rightarrow> opaque result) \<Rightarrow> (int \<Rightarrow> string) \<Rightarrow> string \<Rightarrow> string \<Rightarrow> int \<Rightarrow> reporter result" where
  "remoteReporter urlParse certPool durText endpoint caOverridePath interval =
     (case urlParse endpoint of
        Err e \<Rightarrow> Err (Wrap ''invalid telemetry endpoint'' e)
      | Ok _ \<Rightarrow>
          (if \<not> str_contains ''127.0.0.1'' endpoint \<and> interval < minimumAllowedInterval then
             Err (ErrorString (''invalid telemetry reporting interval: '' @ durText interval @ '' < '' @
               durText minimumAllowedInterval))
           else if endpoint = defaultEndpoint \<and> interval \<noteq> defaultInterval then
             Err (ErrorString ''cannot change the telemetry reporting interval for the default endpoint'')
           else if caOverridePath \<noteq> [] then
             (case certPool caOverridePath of
                Err e \<Rightarrow> Err (Wrap (''invalid custom cert pool path `'' @ caOverridePath @ ''`'') e)
              | Ok pool \<Rightarrow> Ok \<lparr>rpEndpoint = endpoint, rpInterval = interval, rpCertPool = Some pool\<rparr>)
           else Ok \<lparr>rpEndpoint = endpoint, rpInterval = interval, rpCertPool = None\<rparr>))"

text \<open>\<open>rand.Int63n\<close> panics for an argument that is not positive. Seconds are whole here.\<close>

definition int63n :: "(int \<Rightarrow> int) \<Rightarrow> int \<Rightarrow> int result" where
  "int63n rand n = (if n \<le> 0 then Err (Panic ''invalid argument to Int63n'') else Ok (rand n))"

definition startup_delay :: "(int \<Rightarrow> int) \<Rightarrow> int \<Rightarrow> int result" where
  "startup_delay rand interval =
     (if interval \<ge> minimumAllowedInterval then
        (case int63n rand (interval div 1000000000 div 10) of
           Err e \<Rightarrow> Err e | Ok k \<Rightarrow> Ok (k * 1000000000))
      else Ok 0)"

text \<open>
  The loop, for the results of the pushes until the context ends: the waits before them and the result.
  \<open>stop\<close> is \<open>backoff.Stop\<close>.
\<close>

fun report_loop ::
    "'b backoff_lib \<Rightarrow> int \<Rightarrow> int \<Rightarrow> 'b \<Rightarrow> int \<Rightarrow> unit result list \<Rightarrow> int list \<times> unit result" where
  "report_loop B stop interval b wait [] = ([wait], Ok ())"
| "report_loop B stop interval b wait (r # rs) =
     (let (nextPush, b') = (case r of Err _ \<Rightarrow> boNext B b | Ok _ \<Rightarrow> (interval, boReset B b))
      in if nextPush = stop then
           ([wait], Err (ErrorString ''exceeded maximum time between successful reports of 168h0m0s''))
         else (case report_loop B stop interval b' nextPush rs of (ws, res) \<Rightarrow> (wait # ws, res)))"

definition run_reporter ::
    "'b backoff_lib \<Rightarrow> int \<Rightarrow> (int \<Rightarrow> int) \<Rightarrow> reporter \<Rightarrow> unit result list \<Rightarrow> (int list \<times> unit result) result" where
  "run_reporter B stop rand rp pushes = (case startup_delay rand (rpInterval rp) of
     Err e \<Rightarrow> Err e
   | Ok d \<Rightarrow> Ok (report_loop B stop (rpInterval rp) (boNew B (rpInterval rp) maxElapsedTimeBetweenReports) d pushes))"

text \<open>The reporters that do nothing.\<close>

definition disabledReporter :: "unit result" where "disabledReporter = Ok ()"
definition silentlyDisabledReporter :: "unit result" where "silentlyDisabledReporter = Ok ()"

section \<open>A push\<close>

record time_series =
  tsLabels :: "(string \<times> string) list"
  tsValue :: int
  tsTimestamp :: int

type_synonym sample = "(string \<times> string) list \<times> int \<times> int"

definition convertLabels :: "(string \<times> string) list \<Rightarrow> (string \<times> string) list" where
  "convertLabels labels = map (\<lambda>(name, val). (name, val)) labels"

definition discoverTimeseries ::
    "'f result \<Rightarrow> ('f \<Rightarrow> sample list result) \<Rightarrow> time_series list result" where
  "discoverTimeseries gathered extract = (case gathered of
     Err e \<Rightarrow> Err (Wrap ''failed to gather telemetry metrics'' e)
   | Ok fams \<Rightarrow>
       (case extract fams of
          Err e \<Rightarrow> Err (Wrap ''unable to extract sample from metrics families'' e)
        | Ok samples \<Rightarrow> Ok (map (\<lambda>(m, v, t). \<lparr>tsLabels = convertLabels m, tsValue = v, tsTimestamp = t\<rparr>) samples)))"

record http_lib =
  marshalTS :: "time_series list \<Rightarrow> bytes result"
  snappyEncode :: "bytes \<Rightarrow> bytes"
  newRequest :: "string \<Rightarrow> bytes \<Rightarrow> unit result"
  clientDo :: "string \<Rightarrow> (string \<times> string) list \<Rightarrow> bytes \<Rightarrow> (nat \<times> bytes) result"   \<comment> \<open>status and body\<close>

definition push_headers :: "(string \<times> string) list" where
  "push_headers = [(''X-Prometheus-Remote-Write-Version'', ''0.1.0''), (''Content-Encoding'', ''snappy''),
     (''Content-Type'', ''application/x-protobuf'')]"

definition writeTimeSeries :: "http_lib \<Rightarrow> string \<Rightarrow> time_series list \<Rightarrow> unit result" where
  "writeTimeSeries H endpoint ts = (case marshalTS H ts of
     Err e \<Rightarrow> Err (Wrap ''failed to marshal Prometheus remote write protobuf'' e)
   | Ok pbBytes \<Rightarrow>
       (let compressedPB = snappyEncode H pbBytes
        in case newRequest H endpoint compressedPB of
             Err e \<Rightarrow> Err (Wrap ''failed to create Prometheus remote write http request'' e)
           | Ok _ \<Rightarrow>
               (case clientDo H endpoint push_headers compressedPB of
                  Err e \<Rightarrow> Err (Wrap ''failed to send Prometheus remote write'' e)
                | Ok (code, body) \<Rightarrow>
                    (if code div 100 \<noteq> 2 then
                       Err (ErrorString (''unexpected Prometheus remote write response: '' @ format_nat code @ '': '' @ body))
                     else Ok ()))))"

definition discoverAndWriteMetrics ::
    "'f result \<Rightarrow> ('f \<Rightarrow> sample list result) \<Rightarrow> http_lib \<Rightarrow> string \<Rightarrow> unit result" where
  "discoverAndWriteMetrics gathered extract H endpoint = (case discoverTimeseries gathered extract of
     Err e \<Rightarrow> Err e | Ok ts \<Rightarrow> writeTimeSeries H endpoint ts)"

section \<open>The collector\<close>

datatype telemetry_metric =
    ObjectDefs int | RelationshipsEstimate int | LogicalChecks int
  | Dispatches int int "(int \<times> int) list" "string list"

record dispatch_metric =
  dmLabels :: "(string \<times> string) list"
  dmBuckets :: "(int \<times> int) list"
  dmCount :: int
  dmSum :: int

definition dispatchedCountLabels :: "string list" where "dispatchedCountLabels = [''method'', ''cached'']"

text \<open>\<open>Describe\<close>: the descriptors, by the names of their metrics.\<close>

definition telemetry_describe :: "string list" where
  "telemetry_describe = [''spicedb_telemetry_object_definitions_total'', ''spicedb_telemetry_relationships_estimate_total'',
     ''spicedb_telemetry_dispatches'', ''spicedb_telemetry_logical_checks_total'']"

text \<open>The last label of a name wins; a name that is missing gives the empty string.\<close>

definition label_value :: "(string \<times> string) list \<Rightarrow> string \<Rightarrow> string" where
  "label_value labels name = foldl (\<lambda>acc (n, v). if n = name then v else acc) [] labels"

text \<open>
  The goroutine that forwards the histograms: a metric that cannot be written ends it, and the sender then
  waits for ever for a receiver unless that was the last one.
\<close>

fun forward_dispatches :: "dispatch_metric result list \<Rightarrow> telemetry_metric list \<times> unit result" where
  "forward_dispatches [] = ([], Ok ())"
| "forward_dispatches (m # ms) = (case m of
     Err e \<Rightarrow> ([], if ms = [] then Ok () else Err (Blocks ''send on dispatchedCountMetrics''))
   | Ok d \<Rightarrow> (case forward_dispatches ms of (out, r) \<Rightarrow>
       (Dispatches (dmCount d) (dmSum d) (foldl (\<lambda>acc (b, n). gm_put b n acc) [] (dmBuckets d))
          (map (label_value (dmLabels d)) dispatchedCountLabels) # out, r)))"

definition telemetry_collect ::
    "memdb_stats result \<Rightarrow> int \<Rightarrow> dispatch_metric result list \<Rightarrow> telemetry_metric list \<times> unit result" where
  "telemetry_collect stats logicalChecks dispatches =
     (let (objs, rels) = (case stats of
          Err _ \<Rightarrow> (0, 0)
        | Ok st \<Rightarrow> (int (length (stObjectTypes st)), int (stEstimatedRelationshipCount st)))
      in case forward_dispatches dispatches of
           (out, r) \<Rightarrow> ([ObjectDefs objs, RelationshipsEstimate rels, LogicalChecks logicalChecks] @ out, r))"

section \<open>Registration\<close>

text \<open>What the process and the registry answer, by the number of the call.\<close>

record telemetry_env =
  teHostname :: "nat \<Rightarrow> string result"
  teStatistics :: "nat \<Rightarrow> memdb_stats result"
  teBuildInfo :: "string option"              \<comment> \<open>the version\<close>
  teProcess :: "(string \<times> string) list"        \<comment> \<open>the labels \<open>os\<close>, \<open>arch\<close>, \<open>go\<close> and \<open>vcpu\<close>\<close>
  teRegister :: "nat \<Rightarrow> unit result"

record info_collector =
  icClusterID :: string
  icNodeID :: string
  icVersion :: string
  icEngine :: string
  icProcess :: "(string \<times> string) list"

definition spiceDBClusterInfoCollector :: "telemetry_env \<Rightarrow> string \<Rightarrow> info_collector result" where
  "spiceDBClusterInfoCollector V dsEngine = (case teHostname V 0 of
     Err e \<Rightarrow> Err (Wrap ''unable to get hostname'' e)
   | Ok nodeID \<Rightarrow>
       (case teStatistics V 0 of
          Err e \<Rightarrow> Err (Wrap ''unable to query DB stats'' e)
        | Ok dbStats \<Rightarrow>
            (case teBuildInfo V of
               None \<Rightarrow> Err (ErrorString ''failed to read BuildInfo'')
             | Some v \<Rightarrow> Ok \<lparr>icClusterID = stUniqueID dbStats, icNodeID = nodeID, icVersion = v, icEngine = dsEngine,
               icProcess = teProcess V\<rparr>)))"

datatype telemetry_collector = InfoCollector info_collector | MetricsCollector string string

text \<open>The collectors that end up in the new registry, and the result.\<close>

definition registerTelemetryCollector ::
    "telemetry_env \<Rightarrow> string \<Rightarrow> telemetry_collector list \<times> telemetry_collector result" where
  "registerTelemetryCollector V dsEngine = (case spiceDBClusterInfoCollector V dsEngine of
     Err e \<Rightarrow> ([], Err (Wrap ''unable create info collector'' e))
   | Ok info \<Rightarrow>
       (case teRegister V 0 of
          Err e \<Rightarrow> ([], Err (Wrap ''unable to register telemetry collector'' e))
        | Ok _ \<Rightarrow>
            (case teHostname V 1 of
               Err e \<Rightarrow> ([InfoCollector info], Err (Wrap ''unable to get hostname'' e))
             | Ok nodeID \<Rightarrow>
                 (case teStatistics V 1 of
                    Err e \<Rightarrow> ([InfoCollector info], Err (Wrap ''unable to query DB stats'' e))
                  | Ok dbStats \<Rightarrow>
                      (let c = MetricsCollector (stUniqueID dbStats) nodeID
                       in case teRegister V 1 of
                            Err e \<Rightarrow> ([InfoCollector info], Err (Wrap ''unable to register telemetry collector'' e))
                          | Ok _ \<Rightarrow> ([InfoCollector info, c], Ok c))))))"

section \<open>Properties\<close>

lemma accepted_reporter:
  assumes "remoteReporter urlParse certPool durText endpoint ca interval = Ok rp"
  shows "rpInterval rp = interval \<and> rpEndpoint rp = endpoint \<and> urlParse endpoint = Ok () \<and>
    (str_contains ''127.0.0.1'' endpoint \<or> minimumAllowedInterval \<le> interval) \<and>
    (endpoint = defaultEndpoint \<longrightarrow> interval = defaultInterval)"
  using assms by (auto simp: remoteReporter_def split: sum.splits if_splits)

lemma report_loop_waits:
  assumes "report_loop B stop interval b d rs = (ws, res)" and "\<forall>b. stop \<noteq> fst (boNext B b)" and "interval \<noteq> stop"
  shows "res = Ok () \<and> length ws = Suc (length rs) \<and> hd ws = d \<and> (\<forall>i < length rs. rs ! i = Ok () \<longrightarrow> ws ! Suc i = interval)"
  using assms(1)
proof (induction rs arbitrary: b d ws)
  case Nil
  then show ?case by auto
next
  case (Cons r rs)
  define p where "p = (case r of Err _ \<Rightarrow> boNext B b | Ok _ \<Rightarrow> (interval, boReset B b))"
  have "fst p \<noteq> stop" using assms(2,3) by (simp add: p_def split: sum.split) metis
  moreover obtain ws' r' where l: "report_loop B stop interval (snd p) (fst p) rs = (ws', r')" by fastforce
  ultimately have ws': "report_loop B stop interval (snd p) (fst p) rs = (ws', res)" "ws = d # ws'"
    using Cons.prems by (simp_all add: p_def [symmetric] split_def Let_def)
  from Cons.IH [OF ws'(1)] have IH: "res = Ok ()" "length ws' = Suc (length rs)" "hd ws' = fst p"
    "\<forall>i < length rs. rs ! i = Ok () \<longrightarrow> ws' ! Suc i = interval" by simp_all
  have "ws ! Suc i = interval" if "i < length (r # rs)" "(r # rs) ! i = Ok ()" for i
  proof (cases i)
    case 0
    then have "fst p = interval" using that by (simp add: p_def)
    then show ?thesis using 0 ws'(2) IH(2,3) by (cases ws') simp_all
  next
    case (Suc j)
    then show ?thesis using that IH(4) ws'(2) by simp
  qed
  then show ?case using IH ws'(2) by auto
qed

text \<open>
  A reporter that is accepted starts without a panic, after less than a tenth of its interval, or at once
  when the interval is below the minimum, which only a local endpoint may have; on the default endpoint the
  interval is one hour. As long as the back-off does not give up, the reporter ends only with its context, and
  after every successful push it waits for the interval.
\<close>

theorem reporter_schedule:
  assumes "remoteReporter urlParse certPool durText endpoint ca interval = Ok rp"
    and "\<forall>n > 0. 0 \<le> rand n \<and> rand n < n" and "\<forall>b. stop \<noteq> fst (boNext B b)" and "interval \<noteq> stop"
  shows "\<exists>ws. run_reporter B stop rand rp pushes = Ok (ws, Ok ()) \<and> length ws = Suc (length pushes) \<and>
    0 \<le> hd ws \<and> (hd ws = 0 \<or> hd ws * 10 < interval) \<and>
    (\<not> str_contains ''127.0.0.1'' endpoint \<longrightarrow> minimumAllowedInterval \<le> interval) \<and>
    (endpoint = defaultEndpoint \<longrightarrow> interval = defaultInterval) \<and>
    (\<forall>i < length pushes. pushes ! i = Ok () \<longrightarrow> ws ! Suc i = interval)"
proof -
  note acc = accepted_reporter [OF assms(1)]
  have "\<exists>d. startup_delay rand interval = Ok d \<and> 0 \<le> d \<and> (d = 0 \<or> d * 10 < interval)"
  proof (cases "minimumAllowedInterval \<le> interval")
    case True
    let ?n = "interval div 1000000000 div 10"
    have n: "0 < ?n" "?n * 10 * 1000000000 \<le> interval" using True by (simp_all add: minimumAllowedInterval_def)
    then have "0 \<le> rand ?n" "rand ?n * 10 * 1000000000 < interval" using assms(2) by auto
    then show ?thesis using True n(1) by (simp add: startup_delay_def int63n_def)
  qed (simp add: startup_delay_def)
  then obtain d where d: "startup_delay rand interval = Ok d" "0 \<le> d" "d = 0 \<or> d * 10 < interval" by blast
  obtain ws res where l: "report_loop B stop interval (boNew B interval maxElapsedTimeBetweenReports) d pushes = (ws, res)"
    by fastforce
  from report_loop_waits [OF l assms(3,4)] have w: "res = Ok ()" "length ws = Suc (length pushes)" "hd ws = d"
    "\<forall>i < length pushes. pushes ! i = Ok () \<longrightarrow> ws ! Suc i = interval" by simp_all
  then have "run_reporter B stop rand rp pushes = Ok (ws, Ok ())" using acc d l by (simp add: run_reporter_def)
  with d(2,3) w(2-4) have run: "run_reporter B stop rand rp pushes = Ok (ws, Ok ()) \<and> length ws = Suc (length pushes) \<and>
    0 \<le> hd ws \<and> (hd ws = 0 \<or> hd ws * 10 < interval) \<and>
    (\<forall>i < length pushes. pushes ! i = Ok () \<longrightarrow> ws ! Suc i = interval)" by simp
  have "(\<not> str_contains ''127.0.0.1'' endpoint \<longrightarrow> minimumAllowedInterval \<le> interval) \<and>
    (endpoint = defaultEndpoint \<longrightarrow> interval = defaultInterval)" using acc by blast
  with run show ?thesis by (intro exI [of _ ws]) (elim conjE, intro conjI; assumption)
qed

theorem reporter_schedule_witness:
  "\<exists>ws. run_reporter doubling (-1) (\<lambda>n. n - 1) \<lparr>rpEndpoint = defaultEndpoint, rpInterval = defaultInterval, rpCertPool = None\<rparr>
     [Err ErrNotFound, Ok ()] = Ok (ws, Ok ()) \<and> length ws = 3 \<and> ws ! 2 = defaultInterval"
proof -
  let ?rp = "\<lparr>rpEndpoint = defaultEndpoint, rpInterval = defaultInterval, rpCertPool = None\<rparr>"
  have no: "\<not> str_contains ''127.0.0.1'' defaultEndpoint" by code_simp
  have r: "remoteReporter (\<lambda>_. Ok ()) (\<lambda>_. Err ErrNotFound) (\<lambda>_. []) defaultEndpoint [] defaultInterval = Ok ?rp"
    using no by (simp add: remoteReporter_def minimumAllowedInterval_def defaultInterval_def)
  have n: "\<forall>n > 0. 0 \<le> n - 1 \<and> n - 1 < (n :: int)" by simp
  have s: "\<forall>b. (-1 :: int) \<noteq> fst (boNext doubling b)" by (auto simp: doubling_def split_def max_def)
  have i: "defaultInterval \<noteq> -1" by (simp add: defaultInterval_def)
  from reporter_schedule [OF r n s i, of "[Err ErrNotFound, Ok ()]"] obtain ws where
    "run_reporter doubling (-1) (\<lambda>n. n - 1) ?rp [Err ErrNotFound, Ok ()] = Ok (ws, Ok ())" "length ws = 3"
    "\<forall>i < 2. [Err ErrNotFound, Ok ()] ! i = Ok () \<longrightarrow> ws ! Suc i = defaultInterval" by auto
  moreover from this(3) have "ws ! 2 = defaultInterval" by (auto dest: spec [of _ 1] simp: numeral_2_eq_2)
  ultimately show ?thesis by blast
qed

text \<open>Without statistics the collector reports zeros; a histogram that cannot be written blocks it.\<close>

lemma collect_without_statistics:
  "telemetry_collect (Err e) n [] = ([ObjectDefs 0, RelationshipsEstimate 0, LogicalChecks n], Ok ())"
  by (simp add: telemetry_collect_def)

lemma collect_blocks:
  "snd (telemetry_collect st n [Err e, Ok d]) = Err (Blocks ''send on dispatchedCountMetrics'')"
  by (simp add: telemetry_collect_def split: sum.split)

end
