(* ===== verification/Usage_Metrics.thy ===== *)
theory Usage_Metrics
  imports Go_Strconv
begin

text \<open>
  \<open>internal/middleware/usagemetrics/usagemetrics.go\<close>: the middleware puts a handle into a call's context,
  the handler of the call stores response metadata through it, and after the call the counts are observed
  and sent in the trailer. Handles live in a heap, because a call inside a call shares the outer context.
\<close>

section \<open>Contexts and handles\<close>

record response_meta =
  dispatchCount :: nat
  cachedDispatchCount :: nat

text \<open>A context, by the handle it holds under the key; a handle's cell is the pointer it stores.\<close>

type_synonym ctx = "nat option"
type_synonym meta_handles = "response_meta option list"

definition contextWithHandle :: "ctx \<Rightarrow> meta_handles \<Rightarrow> ctx \<times> meta_handles" where
  "contextWithHandle c h = (Some (length h), h @ [None])"

definition setInContext :: "ctx \<Rightarrow> response_meta option \<Rightarrow> meta_handles \<Rightarrow> meta_handles" where
  "setInContext c metadata h = (case c of None \<Rightarrow> h | Some p \<Rightarrow> h[p := metadata])"

definition fromContext :: "ctx \<Rightarrow> meta_handles \<Rightarrow> response_meta option" where
  "fromContext c h = (case c of None \<Rightarrow> None | Some p \<Rightarrow> h ! p)"

datatype trailer_key = DispatchedOperationsCount | CachedOperationsCount

text \<open>What \<open>PostCall\<close> observes in the histogram, by method and \<open>cached\<close>, and the trailer it sends.\<close>

record usage_report =
  urObserved :: "(string \<times> bool \<times> nat) list"
  urTrailer :: "(trailer_key \<times> string) list"

definition postCall :: "string \<Rightarrow> ctx \<Rightarrow> meta_handles \<Rightarrow> usage_report" where
  "postCall methodName c h =
     (let m = (case fromContext c h of None \<Rightarrow> \<lparr>dispatchCount = 0, cachedDispatchCount = 0\<rparr> | Some m \<Rightarrow> m)
      in \<lparr>urObserved = [(methodName, False, dispatchCount m), (methodName, True, cachedDispatchCount m)],
          urTrailer = [(DispatchedOperationsCount, format_int (int (dispatchCount m))),
            (CachedOperationsCount, format_int (int (cachedDispatchCount m)))]\<rparr>)"

section \<open>Calls\<close>

text \<open>
  What a handler does to its context: store metadata, or make a call that goes through the middleware too,
  with a context made from its own.
\<close>

datatype act = SetMeta "response_meta option" | Call string "act list"

fun serve :: "ctx \<Rightarrow> act \<Rightarrow> meta_handles \<times> usage_report list \<Rightarrow> meta_handles \<times> usage_report list"
and serve_all :: "ctx \<Rightarrow> act list \<Rightarrow> meta_handles \<times> usage_report list \<Rightarrow> meta_handles \<times> usage_report list" where
  "serve c (SetMeta m) (h, out) = (setInContext c m h, out)"
| "serve c (Call methodName acts) (h, out) =
     (let (c', h1) = contextWithHandle c h;
          (h2, out2) = serve_all c' acts (h1, out)
      in (h2, out2 @ [postCall methodName c' h2]))"
| "serve_all c [] st = st"
| "serve_all c (a # acts) st = serve_all c acts (serve c a st)"

text \<open>The metadata a handler stored last itself.\<close>

fun last_meta :: "act list \<Rightarrow> response_meta option \<Rightarrow> response_meta option" where
  "last_meta [] m = m"
| "last_meta (SetMeta m' # acts) m = last_meta acts m'"
| "last_meta (Call _ _ # acts) m = last_meta acts m"

definition keeps_handles :: "ctx \<Rightarrow> meta_handles \<Rightarrow> meta_handles \<Rightarrow> bool" where
  "keeps_handles c h h' \<longleftrightarrow> length h \<le> length h' \<and> (\<forall>q < length h. c \<noteq> Some q \<longrightarrow> h' ! q = h ! q)"

lemma serve_keeps:
  "c = None \<or> (\<exists>p. c = Some p \<and> p < length h) \<Longrightarrow> serve c a (h, out) = (h', out') \<Longrightarrow> keeps_handles c h h' \<and>
     (\<forall>p. c = Some p \<longrightarrow> h' ! p = last_meta [a] (h ! p))"
  "c = None \<or> (\<exists>p. c = Some p \<and> p < length h) \<Longrightarrow> serve_all c acts (h, out) = (h', out') \<Longrightarrow> keeps_handles c h h' \<and>
     (\<forall>p. c = Some p \<longrightarrow> h' ! p = last_meta acts (h ! p))"
proof (induction c a "(h, out)" and c acts "(h, out)" arbitrary: h out h' out' and h out h' out' rule: serve_serve_all.induct)
  case (1 c m h out)
  then show ?case by (auto simp: setInContext_def keeps_handles_def nth_list_update split: if_splits)
next
  case (2 c methodName acts h out)
  let ?c = "Some (length h)"
  obtain h2 out2 where r: "serve_all ?c acts (h @ [None], out) = (h2, out2)" by fastforce
  from "2.hyps" [of "(?c, h @ [None])" ?c "h @ [None]" h2 out2] r
  have "keeps_handles ?c (h @ [None]) h2" by (simp add: contextWithHandle_def)
  moreover have "h' = h2" using "2.prems"(2) r by (simp add: contextWithHandle_def)
  ultimately have k: "length h \<le> length h'" "q < length h \<Longrightarrow> h' ! q = h ! q" for q
    by (auto simp: keeps_handles_def nth_append)
  then show ?case using "2.prems"(1) by (auto simp: keeps_handles_def)
next
  case (3 c h out)
  then show ?case by (simp add: keeps_handles_def)
next
  case (4 c a acts h out)
  obtain h1 out1 where s: "serve c a (h, out) = (h1, out1)" by fastforce
  have 1: "keeps_handles c h h1" "\<forall>p. c = Some p \<longrightarrow> h1 ! p = last_meta [a] (h ! p)"
    using "4.hyps"(1) [OF "4.prems"(1) s] by simp_all
  then have "c = None \<or> (\<exists>p. c = Some p \<and> p < length h1)" using "4.prems"(1) by (auto simp: keeps_handles_def)
  from "4.hyps"(2) [OF s this] "4.prems"(2) s
  have 2: "keeps_handles c h1 h'" "\<forall>p. c = Some p \<longrightarrow> h' ! p = last_meta acts (h1 ! p)" by simp_all
  have "last_meta acts (last_meta [a] m) = last_meta (a # acts) m" for m by (cases a) simp_all
  then show ?case using 1 2 by (auto simp: keeps_handles_def)
qed

text \<open>
  C32. After a call the middleware observes and sends the counts that its own handler stored last, or zeros
  if it stored none: metadata stored by calls inside it, which run with contexts made from its own, is reported
  by those calls only, and a call leaves the handle of its caller as it was.
\<close>

theorem post_call_reports:
  assumes "serve c (Call methodName acts) (h, out) = (h', out')"
  shows "last out' = (let m = (case last_meta acts None of
        None \<Rightarrow> \<lparr>dispatchCount = 0, cachedDispatchCount = 0\<rparr> | Some m \<Rightarrow> m)
      in \<lparr>urObserved = [(methodName, False, dispatchCount m), (methodName, True, cachedDispatchCount m)],
          urTrailer = [(DispatchedOperationsCount, format_int (int (dispatchCount m))),
            (CachedOperationsCount, format_int (int (cachedDispatchCount m)))]\<rparr>) \<and>
    take (length h) h' = h"
proof -
  let ?c = "Some (length h)"
  obtain h2 out2 where r: "serve_all ?c acts (h @ [None], out) = (h2, out2)" by fastforce
  have h: "h' = h2" "out' = out2 @ [postCall methodName ?c h2]" using assms r by (auto simp: contextWithHandle_def)
  have "keeps_handles ?c (h @ [None]) h2 \<and> (\<forall>p. ?c = Some p \<longrightarrow> h2 ! p = last_meta acts ((h @ [None]) ! p))"
    by (rule serve_keeps(2) [OF _ r]) simp
  then have k: "keeps_handles ?c (h @ [None]) h2" "h2 ! length h = last_meta acts None" by simp_all
  have "take (length h) h2 = h"
    by (rule nth_equalityI) (use k(1) in \<open>auto simp: keeps_handles_def nth_append\<close>)
  then show ?thesis using h k(2) by (simp add: postCall_def fromContext_def)
qed

theorem post_call_reports_witness:
  "last (snd (serve None (Call ''Check'' [SetMeta (Some \<lparr>dispatchCount = 12, cachedDispatchCount = 3\<rparr>),
       Call ''Read'' [SetMeta (Some \<lparr>dispatchCount = 1, cachedDispatchCount = 0\<rparr>)]]) ([], []))) =
     \<lparr>urObserved = [(''Check'', False, 12), (''Check'', True, 3)],
      urTrailer = [(DispatchedOperationsCount, format_int 12), (CachedOperationsCount, format_int 3)]\<rparr>"
proof -
  let ?acts = "[SetMeta (Some \<lparr>dispatchCount = 12, cachedDispatchCount = 3\<rparr>),
       Call ''Read'' [SetMeta (Some \<lparr>dispatchCount = 1, cachedDispatchCount = 0\<rparr>)]]"
  obtain h' out' where s: "serve None (Call ''Check'' ?acts) ([], []) = (h', out')" by fastforce
  from post_call_reports [OF s] show ?thesis unfolding s by simp
qed

end
