(* ===== verification/Hot_Reload.thy ===== *)
theory Hot_Reload
  imports Schema_Reload File_Watcher
begin

text \<open>
  The hot reload as a whole: the watcher of \<open>internal/watch/watcher.go\<close> and the reloader of
  \<open>internal/schema/reloader.go\<close>, as \<open>Start\<close> of \<open>server.go\<close> puts them together, on files that change at any
  time, also between the reads of one reload. Files are named by their absolute paths; \<open>absf\<close> is the
  absolute path of a configured one, and the notifier reports every change of a watched file.
\<close>

section \<open>The system\<close>

text \<open>A reload reads the files one after the other, while its callback holds the lock of the watcher.\<close>

datatype phase = Idle | Reading "string list" "string list"   \<comment> \<open>files left, parts read\<close>

record hot =
  hFs :: file_system
  hQueue :: "string list"            \<comment> \<open>events the watch loop has not received\<close>
  hW :: watcher
  hPhase :: phase
  hDone :: "string list result"      \<comment> \<open>what the last finished reload has read\<close>

text \<open>What a reload does with what it has read.\<close>

definition send_parts :: "schema_reloader \<Rightarrow> string list result \<Rightarrow> string list \<times> unit result" where
  "send_parts r parts = (case parts of
     Err e \<Rightarrow> ([], Err e)
   | Ok schemaParts \<Rightarrow>
       (let combinedSchema = join_with [CHR 0x0A, CHR 0x0A] schemaParts
        in if combinedSchema = [] then ([], Err (ErrorString ''no schema content found in files''))
           else ([combinedSchema],
             (case schemaClient r combinedSchema of
                Err e \<Rightarrow> Err (Wrap ''failed to write schema'' e) | Ok _ \<Rightarrow> Ok ()))))"

lemma reload_send_parts:
  "reloadFiles r \<noteq> [] \<Longrightarrow> reload Y fs r = send_parts r (read_parts Y fs (reloadFiles r) [])"
  by (simp add: reload_def send_parts_def split: sum.split)

text \<open>The last reload's requests and result, and the files as the reloader sees them.\<close>

definition hOut :: "schema_reloader \<Rightarrow> hot \<Rightarrow> string list \<times> unit result" where
  "hOut r h = send_parts r (hDone h)"

definition current :: "(string \<Rightarrow> string) \<Rightarrow> hot \<Rightarrow> file_system" where
  "current absf h p = hFs h (absf p)"

definition receive :: "string \<Rightarrow> watcher \<Rightarrow> watcher" where
  "receive p w = (let (fw', tm') = loop_event (wClock w) (write_event p) (wFw w, wTimers w)
     in w\<lparr>wFw := fw', wTimers := tm', wAccepted := wAccepted w @
       (if handles (wFw w) (write_event p) \<and> \<not> fwStopped (wFw w) then [p] else [])\<rparr>)"

inductive hot_step :: "yaml_lib \<Rightarrow> (string \<Rightarrow> string) \<Rightarrow> schema_reloader \<Rightarrow> hot \<Rightarrow> hot \<Rightarrow> bool" for Y absf r where
  file_changes: "hot_step Y absf r h (h\<lparr>hFs := (hFs h)(p := c),
    hQueue := hQueue h @ (if p \<in> set (fwAbsFiles (wFw (hW h))) then [p] else [])\<rparr>)"
| event: "hPhase h = Idle \<Longrightarrow> hQueue h = p # q \<Longrightarrow> fwLoop (wFw (hW h)) \<Longrightarrow>
    hot_step Y absf r h (h\<lparr>hQueue := q, hW := receive p (hW h)\<rparr>)"
| quiet: "quiet_step (hW h) w' \<Longrightarrow> hot_step Y absf r h (h\<lparr>hW := w'\<rparr>)"
| begins: "hPhase h = Idle \<Longrightarrow> watcher_step (hW h) w' \<Longrightarrow> wBatches w' = wBatches (hW h) @ [b] \<Longrightarrow>
    hot_step Y absf r h (h\<lparr>hW := w', hPhase := Reading (reloadFiles r) []\<rparr>)"
| reads: "hPhase h = Reading (f # fs) parts \<Longrightarrow> readSchemaFile Y (current absf h) f = Ok c \<Longrightarrow>
    hot_step Y absf r h (h\<lparr>hPhase := Reading fs (parts @ [c])\<rparr>)"
| fails: "hPhase h = Reading (f # fs) parts \<Longrightarrow> readSchemaFile Y (current absf h) f = Err e \<Longrightarrow>
    hot_step Y absf r h (h\<lparr>hPhase := Idle, hDone := Err (Wrap (''failed to read schema file '' @ f) e)\<rparr>)"
| sends: "hPhase h = Reading [] parts \<Longrightarrow> hot_step Y absf r h (h\<lparr>hPhase := Idle, hDone := Ok parts\<rparr>)"
| stops: "hPhase h = Idle \<Longrightarrow> watcher_step (hW h) w' \<Longrightarrow> fwStopped (wFw w') \<Longrightarrow> hot_step Y absf r h (h\<lparr>hW := w'\<rparr>)"

text \<open>As \<open>Start\<close> leaves it, when no file changes between the first load and the start of the watcher.\<close>

definition hot_init :: "yaml_lib \<Rightarrow> (string \<Rightarrow> string) \<Rightarrow> schema_reloader \<Rightarrow> file_system \<Rightarrow> fw \<Rightarrow> nanotime \<Rightarrow> hot" where
  "hot_init Y absf r fs fw now = \<lparr>hFs = fs, hQueue = [], hW = watcher_init fw now, hPhase = Idle,
     hDone = read_parts Y (\<lambda>p. fs (absf p)) (reloadFiles r) []\<rparr>"

inductive hot_reaches ::
    "yaml_lib \<Rightarrow> (string \<Rightarrow> string) \<Rightarrow> schema_reloader \<Rightarrow> fw \<Rightarrow> hot \<Rightarrow> bool" for Y absf r fw where
  init: "hot_reaches Y absf r fw (hot_init Y absf r fs fw now)"
| step: "hot_reaches Y absf r fw h \<Longrightarrow> hot_step Y absf r h h' \<Longrightarrow> hot_reaches Y absf r fw h'"

section \<open>The watcher inside\<close>

lemma receive_step: "fwLoop (wFw w) \<Longrightarrow> watcher_step w (receive p w)"
proof -
  assume l: "fwLoop (wFw w)"
  obtain fw' tm' where e: "loop_event (wClock w) (write_event p) (wFw w, wTimers w) = (fw', tm')" by fastforce
  have n: "evName (write_event p) = p" by (simp add: write_event_def)
  from watcher_step.event [OF l e] show ?thesis unfolding receive_def e Let_def prod.case n .
qed

lemma hot_step_watcher: "hot_step Y absf r h h' \<Longrightarrow> hW h' = hW h \<or> watcher_step (hW h) (hW h')"
  by (induction rule: hot_step.induct) (simp_all add: quiet_step_def receive_step)

lemma hot_watcher_reaches: "hot_reaches Y absf r fw h \<Longrightarrow> watcher_reaches fw (hW h)"
proof (induction rule: hot_reaches.induct)
  case (init fs now)
  then show ?case by (simp add: hot_init_def watcher_reaches.init)
next
  case (step h h')
  then show ?case using hot_step_watcher [OF step.hyps(2)] watcher_reaches.step by metis
qed

text \<open>The watched files do not change, and the loop runs until the watcher is stopped.\<close>

lemma watcher_step_files: "watcher_step w w' \<Longrightarrow> fwAbsFiles (wFw w') = fwAbsFiles (wFw w)"
  by (induction rule: watcher_step.induct)
    (auto simp: loop_event_def handleFileChange_def timer_callback_def stop_locked_def stop_cancel_def Let_def
      split: if_splits option.splits prod.splits)

lemma watcher_step_loop:
  "watcher_step w w' \<Longrightarrow> watcher_ok w \<Longrightarrow> fwStopped (wFw w) \<or> fwLoop (wFw w) \<Longrightarrow> fwStopped (wFw w') \<or> fwLoop (wFw w')"
  by (induction rule: watcher_step.induct)
    (auto simp: loop_event_def handleFileChange_def timer_callback_def stop_locked_def stop_cancel_def Let_def
      watcher_ok_def stop_ok_def split: if_splits option.splits prod.splits)

lemma watcher_reaches_loop:
  assumes "watcher_reaches fw w" and "started_fw fw"
  shows "fwAbsFiles (wFw w) = fwAbsFiles fw \<and> (fwStopped (wFw w) \<or> fwLoop (wFw w))"
  using assms(1)
proof (induction rule: watcher_reaches.induct)
  case (init now)
  then show ?case using assms(2) by (simp add: watcher_init_def started_fw_def)
next
  case (step w w')
  then show ?case
    using watcher_step_files [OF step.hyps(2)] watcher_step_loop [OF step.hyps(2)] watcher_reaches_ok [OF step.hyps(1) assms(2)]
    by simp
qed

lemma receive_pending:
  assumes "p \<in> set (fwAbsFiles (wFw w))" and "\<not> fwStopped (wFw w)"
  shows "set (getPendingFiles (wFw (receive p w))) = insert p (set (getPendingFiles (wFw w)))"
proof -
  obtain i tm where "handleFileChange (wClock w) p (wFw w, wTimers w) =
      ((wFw w)\<lparr>fwPending := gm_put p (wClock w) (fwPending (wFw w)), fwTimer := Some i\<rparr>, tm)"
    using assms(2) by (simp add: handleFileChange_def Let_def split_def)
  then have "wFw (receive p w) = (wFw w)\<lparr>fwPending := gm_put p (wClock w) (fwPending (wFw w)), fwTimer := Some i\<rparr>"
    using assms(1) by (simp add: receive_def loop_event_def handles_def isWatchedFile_def write_event_def)
  then show ?thesis by (simp add: getPendingFiles_def put_keys del: set_map) (simp add: put_keys)
qed

section \<open>What a reload has read\<close>

lemma read_parts_acc:
  "read_parts Y fs xs acc = (case read_parts Y fs xs [] of Err e \<Rightarrow> Err e | Ok ps \<Rightarrow> Ok (acc @ ps))"
  by (simp add: read_parts_eq split: sum.split)

lemma read_parts_append:
  "list_all2 (\<lambda>f c. readSchemaFile Y fs f = Ok c) xs ps \<Longrightarrow> read_parts Y fs (xs @ ys) acc = read_parts Y fs ys (acc @ ps)"
  by (induction xs ps arbitrary: acc rule: list_all2_induct) simp_all

text \<open>The first file that fails.\<close>

lemma read_parts_Err:
  "read_parts Y fs xs acc = Err e \<Longrightarrow> \<exists>xs1 f xs2 ps e0. xs = xs1 @ f # xs2 \<and>
     list_all2 (\<lambda>f c. readSchemaFile Y fs f = Ok c) xs1 ps \<and> readSchemaFile Y fs f = Err e0 \<and>
     e = Wrap (''failed to read schema file '' @ f) e0"
proof (induction xs arbitrary: acc)
  case (Cons x xs)
  show ?case
  proof (cases "readSchemaFile Y fs x")
    case (Inl e0)
    then have "e = Wrap (''failed to read schema file '' @ x) e0" using Cons.prems by simp
    then show ?thesis using Inl by (intro exI [of _ "[]"] exI [of _ x] exI [of _ xs]) auto
  next
    case (Inr c)
    then obtain xs1 f xs2 ps e0 where "xs = xs1 @ f # xs2" "list_all2 (\<lambda>f c. readSchemaFile Y fs f = Ok c) xs1 ps"
      "readSchemaFile Y fs f = Err e0" "e = Wrap (''failed to read schema file '' @ f) e0"
      using Cons by fastforce
    then show ?thesis using Inr by (intro exI [of _ "x # xs1"] exI [of _ f] exI [of _ xs2] exI [of _ "c # ps"]) auto
  qed
qed simp

section \<open>What is known of the files\<close>

text \<open>A watched file may differ from what was read of it only while an event or a pending change says so.\<close>

definition dirty :: "hot \<Rightarrow> string \<Rightarrow> bool" where
  "dirty h p \<longleftrightarrow> p \<in> set (hQueue h) \<or> p \<in> set (getPendingFiles (wFw (hW h)))"

definition known :: "(string \<Rightarrow> string) \<Rightarrow> hot \<Rightarrow> string \<Rightarrow> bytes result \<Rightarrow> bool" where
  "known absf h f c \<longleftrightarrow> dirty h (absf f) \<or> hFs h (absf f) = c"

definition known_done :: "(string \<Rightarrow> string) \<Rightarrow> hot \<Rightarrow> string list \<Rightarrow> string list result \<Rightarrow> bool" where
  "known_done absf h files d \<longleftrightarrow> (case d of
     Ok ps \<Rightarrow> list_all2 (\<lambda>f c. known absf h f (Ok c)) files ps
   | Err e \<Rightarrow> \<exists>fs1 f fs2 ps e0. files = fs1 @ f # fs2 \<and> list_all2 (\<lambda>f c. known absf h f (Ok c)) fs1 ps \<and>
       known absf h f (Err e0) \<and> e = Wrap (''failed to read schema file '' @ f) e0)"

definition known_phase :: "(string \<Rightarrow> string) \<Rightarrow> hot \<Rightarrow> string list \<Rightarrow> bool" where
  "known_phase absf h files \<longleftrightarrow> (case hPhase h of
     Idle \<Rightarrow> known_done absf h files (hDone h)
   | Reading fs ps \<Rightarrow> \<exists>fs1. files = fs1 @ fs \<and> list_all2 (\<lambda>f c. known absf h f (Ok c)) fs1 ps)"

lemma known_phase_mono:
  assumes "known_phase absf h files" and "hPhase h' = hPhase h" and "hDone h' = hDone h"
    and "\<And>p. dirty h p \<Longrightarrow> dirty h' p" and "\<And>f. f \<in> set files \<Longrightarrow> dirty h' (absf f) \<or> hFs h' (absf f) = hFs h (absf f)"
  shows "known_phase absf h' files"
proof -
  have k: "known absf h f c \<Longrightarrow> f \<in> set files \<Longrightarrow> known absf h' f c" for f c
    using assms(4) assms(5) [of f] unfolding known_def by metis
  have l: "list_all2 (\<lambda>f c. known absf h f (Ok c)) xs ps \<Longrightarrow> set xs \<subseteq> set files \<Longrightarrow>
      list_all2 (\<lambda>f c. known absf h' f (Ok c)) xs ps" for xs ps
    by (erule list.rel_mono_strong) (use k in auto)
  show ?thesis
  proof (cases "hPhase h")
    case Idle
    show ?thesis
    proof (cases "hDone h")
      case (Inl e)
      then obtain fs1 f fs2 ps e0 where "files = fs1 @ f # fs2" "list_all2 (\<lambda>f c. known absf h f (Ok c)) fs1 ps"
        "known absf h f (Err e0)" "e = Wrap (''failed to read schema file '' @ f) e0"
        using assms(1) Idle by (auto simp: known_phase_def known_done_def)
      moreover from this have "list_all2 (\<lambda>f c. known absf h' f (Ok c)) fs1 ps" "known absf h' f (Err e0)"
        by (auto intro!: l k)
      ultimately show ?thesis using Idle Inl assms(2,3) by (auto simp: known_phase_def known_done_def)
    next
      case (Inr ps)
      then show ?thesis using Idle assms(1-3) l [of files ps] by (simp add: known_phase_def known_done_def)
    qed
  next
    case (Reading fs ps)
    then obtain fs1 where "files = fs1 @ fs" "list_all2 (\<lambda>f c. known absf h f (Ok c)) fs1 ps"
      using assms(1) by (auto simp: known_phase_def)
    moreover from this have "list_all2 (\<lambda>f c. known absf h' f (Ok c)) fs1 ps" by (intro l) auto
    ultimately show ?thesis using Reading assms(2) by (auto simp: known_phase_def)
  qed
qed

text \<open>A file whose content is its schema.\<close>

definition plain :: "string \<Rightarrow> bool" where
  "plain f \<longleftrightarrow> to_lower (ext_path f) \<notin> {''.yaml'', ''.yml''}"

lemma read_plain: "plain f \<Longrightarrow> readSchemaFile Y fs f = fs f"
  by (simp add: readSchemaFile_def plain_def)

definition hot_ok :: "(string \<Rightarrow> string) \<Rightarrow> schema_reloader \<Rightarrow> hot \<Rightarrow> bool" where
  "hot_ok absf r h \<longleftrightarrow> set (hQueue h) \<subseteq> set (fwAbsFiles (wFw (hW h))) \<and>
     (\<not> fwStopped (wFw (hW h)) \<longrightarrow> known_phase absf h (reloadFiles r))"

lemma stopped_stays: "watcher_step w w' \<Longrightarrow> fwStopped (wFw w) \<Longrightarrow> fwStopped (wFw w')"
  by (induction rule: watcher_step.induct)
    (auto simp: loop_event_def handleFileChange_def timer_callback_def stop_locked_def stop_cancel_def Let_def
      split: if_splits option.splits prod.splits)

lemma hot_step_ok:
  assumes "hot_step Y absf r h h'" and "hot_ok absf r h" and "absf ` set (reloadFiles r) = set (fwAbsFiles (wFw (hW h)))"
    and "\<forall>f \<in> set (reloadFiles r). plain f"
  shows "hot_ok absf r h'"
  using assms
proof (induction rule: hot_step.induct)
  case (file_changes h p c)
  let ?h = "h\<lparr>hFs := (hFs h)(p := c), hQueue := hQueue h @ (if p \<in> set (fwAbsFiles (wFw (hW h))) then [p] else [])\<rparr>"
  have "known_phase absf ?h (reloadFiles r)" if "known_phase absf h (reloadFiles r)"
    by (rule known_phase_mono [OF that]) (use file_changes.prems(2) in \<open>auto simp: dirty_def\<close>)
  then show ?case using file_changes.prems(1) by (auto simp: hot_ok_def)
next
  case (event h p q)
  let ?h = "h\<lparr>hQueue := q, hW := receive p (hW h)\<rparr>"
  have st: "watcher_step (hW h) (receive p (hW h))" by (rule receive_step [OF event.hyps(3)])
  have p: "p \<in> set (fwAbsFiles (wFw (hW h)))" using event.hyps(2) event.prems(1) by (simp add: hot_ok_def)
  have "known_phase absf ?h (reloadFiles r)" if k: "known_phase absf h (reloadFiles r)" and ns: "\<not> fwStopped (wFw (hW h))"
    by (rule known_phase_mono [OF k]) (use receive_pending [OF p ns] event.hyps(2) in \<open>auto simp: dirty_def\<close>)
  then show ?case
    using event.prems(1) event.hyps(2) watcher_step_files [OF st] stopped_stays [OF st] by (auto simp: hot_ok_def)
next
  case (quiet h w')
  have w: "wFw w' = wFw (hW h)" using quiet.hyps by (simp add: quiet_step_def)
  have "known_phase absf (h\<lparr>hW := w'\<rparr>) (reloadFiles r)" if k: "known_phase absf h (reloadFiles r)"
    by (rule known_phase_mono [OF k]) (use w in \<open>auto simp: dirty_def\<close>)
  then show ?case using quiet.prems(1) w by (simp add: hot_ok_def)
next
  case (begins h w' b)
  then show ?case using watcher_step_files [OF begins.hyps(2)] by (simp add: hot_ok_def known_phase_def)
next
  case (reads h f fs parts c)
  let ?h = "h\<lparr>hPhase := Reading fs (parts @ [c])\<rparr>"
  have eq: "known absf ?h = known absf h" by (simp add: fun_eq_iff known_def dirty_def)
  have "known_phase absf ?h (reloadFiles r)" if k: "known_phase absf h (reloadFiles r)"
  proof -
    obtain fs1 where fs1: "reloadFiles r = fs1 @ f # fs" "list_all2 (\<lambda>f c. known absf h f (Ok c)) fs1 parts"
      using k reads.hyps(1) by (auto simp: known_phase_def)
    then have "known absf h f (Ok c)"
      using reads.hyps(2) reads.prems(3) by (simp add: known_def read_plain current_def)
    then have "list_all2 (\<lambda>f c. known absf h f (Ok c)) (fs1 @ [f]) (parts @ [c])"
      using fs1(2) by (simp add: list_all2_appendI)
    then show ?thesis using fs1(1) eq by (intro known_phase_def [THEN iffD2]) (auto intro!: exI [of _ "fs1 @ [f]"])
  qed
  then show ?case using reads.prems(1) by (simp add: hot_ok_def)
next
  case (fails h f fs parts e)
  let ?h = "h\<lparr>hPhase := Idle, hDone := Err (Wrap (''failed to read schema file '' @ f) e)\<rparr>"
  have eq: "known absf ?h = known absf h" by (simp add: fun_eq_iff known_def dirty_def)
  have "known_phase absf ?h (reloadFiles r)" if k: "known_phase absf h (reloadFiles r)"
  proof -
    obtain fs1 where fs1: "reloadFiles r = fs1 @ f # fs" "list_all2 (\<lambda>f c. known absf h f (Ok c)) fs1 parts"
      using k fails.hyps(1) by (auto simp: known_phase_def)
    then have "known absf h f (Err e)"
      using fails.hyps(2) fails.prems(3) by (simp add: known_def read_plain current_def)
    then show ?thesis using fs1 eq by (auto simp: known_phase_def known_done_def)
  qed
  then show ?case using fails.prems(1) by (simp add: hot_ok_def)
next
  case (sends h parts)
  have "known absf (h\<lparr>hPhase := Idle, hDone := Ok parts\<rparr>) = known absf h" by (simp add: fun_eq_iff known_def dirty_def)
  then show ?case using sends by (auto simp: hot_ok_def known_phase_def known_done_def)
next
  case (stops h w')
  then show ?case using watcher_step_files [OF stops.hyps(2)] by (simp add: hot_ok_def)
qed

section \<open>Reachable states\<close>

text \<open>A watcher for the configured files, created and started without an error.\<close>

definition watches :: "(string \<Rightarrow> string) \<Rightarrow> schema_reloader \<Rightarrow> fw \<Rightarrow> bool" where
  "watches absf r fw \<longleftrightarrow> (\<exists>nw d fw0 stat add. newFileWatcher nw (\<lambda>f. Ok (absf f)) (reloadFiles r) d = Ok fw0 \<and>
     fw_Start stat add fw0 = (fw, Ok ()))"

lemma abs_files_set: "abs_files (\<lambda>f. Ok (absf f)) fs acc = Ok ps \<Longrightarrow> set ps = set acc \<union> absf ` set fs"
  by (induction fs arbitrary: acc) fastforce+

lemma watches_files:
  assumes "watches absf r fw"
  shows "started_fw fw" and "absf ` set (reloadFiles r) = set (fwAbsFiles fw)"
proof -
  obtain nw d fw0 stat add where n: "newFileWatcher nw (\<lambda>f. Ok (absf f)) (reloadFiles r) d = Ok fw0"
    and s: "fw_Start stat add fw0 = (fw, Ok ())" using assms by (auto simp: watches_def)
  show "started_fw fw" by (rule start_started [OF n s])
  have "set (fwAbsFiles fw0) = absf ` set (reloadFiles r)"
    using n abs_files_set [of absf "reloadFiles r" "[]"] by (auto simp: newFileWatcher_def split: sum.splits)
  moreover obtain fw1 where "watch_paths stat add (fwAbsFiles fw0) fw0 = (fw1, Ok ())" "fw = fw1\<lparr>fwLoop := True\<rparr>"
    using s by (auto simp: fw_Start_def split: prod.splits sum.splits)
  ultimately show "absf ` set (reloadFiles r) = set (fwAbsFiles fw)" using watch_paths_keeps by fastforce
qed

lemma init_known: "known_phase absf (hot_init Y absf r fs fw now) (reloadFiles r)"
  if pl: "\<forall>f \<in> set (reloadFiles r). plain f"
proof -
  let ?h = "hot_init Y absf r fs fw now"
  have k: "f \<in> set (reloadFiles r) \<Longrightarrow> readSchemaFile Y (\<lambda>p. fs (absf p)) f = c \<Longrightarrow> known absf ?h f c" for f c
    using pl by (simp add: read_plain known_def hot_init_def)
  show ?thesis
  proof (cases "read_parts Y (\<lambda>p. fs (absf p)) (reloadFiles r) []")
    case (Inl e)
    then obtain xs1 f xs2 ps e0 where x: "reloadFiles r = xs1 @ f # xs2"
      "list_all2 (\<lambda>f c. readSchemaFile Y (\<lambda>p. fs (absf p)) f = Ok c) xs1 ps"
      "readSchemaFile Y (\<lambda>p. fs (absf p)) f = Err e0" "e = Wrap (''failed to read schema file '' @ f) e0"
      using read_parts_Err by meson
    moreover have "list_all2 (\<lambda>f c. known absf ?h f (Ok c)) xs1 ps"
      using x(2) by (rule list.rel_mono_strong) (rule k, use x(1) in auto)
    moreover have "known absf ?h f (Err e0)" using x(1,3) by (intro k) auto
    moreover have "hDone ?h = Err e" "hPhase ?h = Idle" using Inl by (simp_all add: hot_init_def)
    ultimately show ?thesis by (auto simp: known_phase_def known_done_def)
  next
    case (Inr ps)
    then have "list_all2 (\<lambda>f c. readSchemaFile Y (\<lambda>p. fs (absf p)) f = Ok c) (reloadFiles r) ps" by (simp add: read_parts_Ok)
    then have "list_all2 (\<lambda>f c. known absf ?h f (Ok c)) (reloadFiles r) ps"
      by (rule list.rel_mono_strong) (rule k, auto)
    moreover have "hDone ?h = Ok ps" "hPhase ?h = Idle" using Inr by (simp_all add: hot_init_def)
    ultimately show ?thesis by (simp add: known_phase_def known_done_def)
  qed
qed

lemma hot_reaches_files:
  assumes "hot_reaches Y absf r fw h" and "watches absf r fw"
  shows "absf ` set (reloadFiles r) = set (fwAbsFiles (wFw (hW h)))" and "fwStopped (wFw (hW h)) \<or> fwLoop (wFw (hW h))"
    and "watcher_ok (hW h)"
  using watcher_reaches_loop [OF hot_watcher_reaches [OF assms(1)] watches_files(1) [OF assms(2)]]
    watches_files(2) [OF assms(2)] watcher_reaches_ok [OF hot_watcher_reaches [OF assms(1)] watches_files(1) [OF assms(2)]]
  by simp_all

lemma hot_reaches_ok:
  assumes "hot_reaches Y absf r fw h" and "watches absf r fw" and "\<forall>f \<in> set (reloadFiles r). plain f"
  shows "hot_ok absf r h"
  using assms(1)
proof (induction rule: hot_reaches.induct)
  case (init fs now)
  then show ?case using init_known [OF assms(3)] by (simp add: hot_ok_def) (simp add: hot_init_def)
next
  case (step h h')
  show ?case
    by (rule hot_step_ok [OF step.hyps(2) step.IH hot_reaches_files(1) [OF step.hyps(1) assms(2)] assms(3)])
qed

lemma known_clean:
  assumes "known_phase absf h files" and "hPhase h = Idle" and "\<And>p. \<not> dirty h p" and "\<forall>f \<in> set files. plain f"
  shows "hDone h = read_parts Y (current absf h) files []"
proof -
  have k: "known absf h f c \<Longrightarrow> f \<in> set files \<Longrightarrow> readSchemaFile Y (current absf h) f = c" for f c
    using assms(3,4) by (simp add: known_def read_plain current_def)
  show ?thesis
  proof (cases "hDone h")
    case (Inl e)
    then obtain fs1 f fs2 ps e0 where f: "files = fs1 @ f # fs2" "list_all2 (\<lambda>f c. known absf h f (Ok c)) fs1 ps"
      "known absf h f (Err e0)" "e = Wrap (''failed to read schema file '' @ f) e0"
      using assms(1,2) by (auto simp: known_phase_def known_done_def)
    have "list_all2 (\<lambda>f c. readSchemaFile Y (current absf h) f = Ok c) fs1 ps"
      using f(2) by (rule list.rel_mono_strong) (rule k, use f(1) in auto)
    moreover have "readSchemaFile Y (current absf h) f = Err e0" using f(1,3) by (intro k) auto
    ultimately show ?thesis using f(1,4) Inl by (simp add: read_parts_append)
  next
    case (Inr ps)
    then have "list_all2 (\<lambda>f c. known absf h f (Ok c)) files ps" using assms(1,2) by (simp add: known_phase_def known_done_def)
    then have "list_all2 (\<lambda>f c. readSchemaFile Y (current absf h) f = Ok c) files ps"
      by (rule list.rel_mono_strong) (rule k)
    then show ?thesis using Inr by (simp add: read_parts_Ok [symmetric])
  qed
qed

lemma hot_clean:
  assumes "hot_reaches Y absf r fw h" and "watches absf r fw" and "\<forall>f \<in> set (reloadFiles r). plain f"
    and "reloadFiles r \<noteq> []" and "\<not> fwStopped (wFw (hW h))" and "hPhase h = Idle" and "hQueue h = []"
    and "getPendingFiles (wFw (hW h)) = []"
  shows "hOut r h = reload Y (current absf h) r"
proof -
  have "known_phase absf h (reloadFiles r)" using hot_reaches_ok [OF assms(1-3)] assms(5) by (simp add: hot_ok_def)
  then have "hDone h = read_parts Y (current absf h) (reloadFiles r) []"
    by (rule known_clean) (use assms(3,6-8) in \<open>simp_all add: dirty_def\<close>)
  then show ?thesis using assms(4) by (simp add: hOut_def reload_send_parts)
qed

section \<open>Properties\<close>


text \<open>One plain file; its absolute path is its name.\<close>

definition one_file :: schema_reloader where
  "one_file = newSchemaReloader (\<lambda>_. Ok ()) [''/s/a.zed'']"

definition one_fs :: "string \<Rightarrow> file_system" where
  "one_fs text p = (if p = ''/s/a.zed'' then Ok text else Err ErrNotFound)"

lemma one_file_watched: "watches (\<lambda>p. p) one_file sample_fw"
proof -
  have "newFileWatcher (Ok ()) (\<lambda>f. Ok f) (reloadFiles one_file) 500 = Ok (sample_fw\<lparr>fwLoop := False, fwWatched := []\<rparr>)"
    by (simp add: newFileWatcher_def one_file_def newSchemaReloader_def sample_fw_def)
  moreover have "fw_Start (\<lambda>_. True) (\<lambda>_. Ok ()) (sample_fw\<lparr>fwLoop := False, fwWatched := []\<rparr>) = (sample_fw, Ok ())"
    by (simp add: fw_Start_def sample_fw_def)
  ultimately show ?thesis unfolding watches_def by blast
qed

lemma one_file_plain: "\<forall>f \<in> set (reloadFiles one_file). plain f"
proof -
  have "to_lower (ext_path ''/s/a.zed'') = ''.zed''" by code_simp
  then show ?thesis by (simp add: one_file_def newSchemaReloader_def plain_def)
qed

lemma one_file_reload: "text \<noteq> [] \<Longrightarrow> reload Y (one_fs text) one_file = ([text], Ok ())"
  using one_file_plain by (simp add: reload_def one_file_def newSchemaReloader_def read_plain one_fs_def)


section \<open>Catching up\<close>

lemma hot_reaches_steps: "(hot_step Y absf r)\<^sup>*\<^sup>* h h' \<Longrightarrow> hot_reaches Y absf r fw h \<Longrightarrow> hot_reaches Y absf r fw h'"
  by (induction rule: rtranclp_induct) (auto intro: hot_reaches.step)

lemma finish_reading:
  "hPhase h = Reading fs parts \<Longrightarrow> \<exists>h'. (hot_step Y absf r)\<^sup>*\<^sup>* h h' \<and> hPhase h' = Idle \<and> hFs h' = hFs h \<and>
     hQueue h' = hQueue h \<and> hW h' = hW h"
proof (induction fs arbitrary: h parts)
  case Nil
  have st: "hot_step Y absf r h (h\<lparr>hPhase := Idle, hDone := Ok parts\<rparr>)" by (rule hot_step.sends [OF Nil])
  show ?case by (rule exI, rule conjI [OF r_into_rtranclp [of "hot_step Y absf r", OF st]]) simp
next
  case (Cons f fs)
  show ?case
  proof (cases "readSchemaFile Y (current absf h) f")
    case (Inl e)
    have st: "hot_step Y absf r h (h\<lparr>hPhase := Idle, hDone := Err (Wrap (''failed to read schema file '' @ f) e)\<rparr>)"
      by (rule hot_step.fails [OF Cons.prems Inl])
    show ?thesis by (rule exI, rule conjI [OF r_into_rtranclp [of "hot_step Y absf r", OF st]]) simp
  next
    case (Inr c)
    let ?h = "h\<lparr>hPhase := Reading fs (parts @ [c])\<rparr>"
    have st: "hot_step Y absf r h ?h" by (rule hot_step.reads [OF Cons.prems Inr])
    obtain h' where h': "(hot_step Y absf r)\<^sup>*\<^sup>* ?h h'" "hPhase h' = Idle" "hFs h' = hFs h" "hQueue h' = hQueue h" "hW h' = hW h"
      using Cons.IH [of ?h "parts @ [c]"] by auto
    from converse_rtranclp_into_rtranclp [of "hot_step Y absf r", OF st h'(1)] h'(2-5) show ?thesis by blast
  qed
qed

lemma drain_queue:
  "hPhase h = Idle \<Longrightarrow> fwLoop (wFw (hW h)) \<Longrightarrow> \<exists>h'. (hot_step Y absf r)\<^sup>*\<^sup>* h h' \<and> hPhase h' = Idle \<and> hQueue h' = [] \<and>
     hFs h' = hFs h \<and> fwStopped (wFw (hW h')) = fwStopped (wFw (hW h))"
proof (induction "hQueue h" arbitrary: h)
  case Nil
  then show ?case by (intro exI [of _ h]) simp
next
  case (Cons p q)
  let ?h = "h\<lparr>hQueue := q, hW := receive p (hW h)\<rparr>"
  have st: "hot_step Y absf r h ?h" by (rule hot_step.event [OF Cons.prems(1) Cons.hyps(2) [symmetric] Cons.prems(2)])
  have same: "fwLoop (wFw (receive p w)) = fwLoop (wFw w)" "fwStopped (wFw (receive p w)) = fwStopped (wFw w)" for w
    by (simp_all add: receive_def loop_event_def handleFileChange_def Let_def split_def)
  obtain h' where h': "(hot_step Y absf r)\<^sup>*\<^sup>* ?h h'" "hPhase h' = Idle" "hQueue h' = []" "hFs h' = hFs h"
    "fwStopped (wFw (hW h')) = fwStopped (wFw (hW h))"
    using Cons.hyps(1) [of ?h] Cons.prems same by auto
  from converse_rtranclp_into_rtranclp [of "hot_step Y absf r", OF st h'(1)] h'(2-5) show ?case by blast
qed

lemma quiet_steps:
  "quiet_step\<^sup>*\<^sup>* w w' \<Longrightarrow> hW h = w \<Longrightarrow> (hot_step Y absf r)\<^sup>*\<^sup>* h (h\<lparr>hW := w'\<rparr>)"
proof (induction rule: rtranclp_induct)
  case base
  then have "h\<lparr>hW := w\<rparr> = h" by simp
  then show ?case by simp
next
  case (step y z)
  have "hot_step Y absf r (h\<lparr>hW := y\<rparr>) ((h\<lparr>hW := y\<rparr>)\<lparr>hW := z\<rparr>)" by (rule hot_step.quiet) (use step.hyps(2) in simp)
  then show ?case using step.IH [OF step.prems] by simp
qed

lemma pending_reload:
  assumes "hPhase h = Idle" and "watcher_ok (hW h)" and "fwPending (wFw (hW h)) \<noteq> []"
  shows "\<exists>h'. (hot_step Y absf r)\<^sup>*\<^sup>* h h' \<and> hPhase h' = Idle \<and> hFs h' = hFs h \<and> hQueue h' = hQueue h \<and>
    fwPending (wFw (hW h')) = [] \<and> fwStopped (wFw (hW h')) = fwStopped (wFw (hW h))"
proof -
  obtain u i where u: "quiet_step\<^sup>*\<^sup>* (hW h) u" "i \<in> set (wWaiting u)" "wFw u = wFw (hW h)" "wBatches u = wBatches (hW h)"
    using callback_ready [OF assms(2,3)] by blast
  obtain u' where u': "watcher_step u u'" "wBatches u' = wBatches (hW h) @ [getPendingFiles (wFw (hW h))]"
    "wFw u' = (wFw (hW h))\<lparr>fwPending := []\<rparr>" using callback_runs [OF assms(2,3) u(2-4)] by blast
  let ?h1 = "h\<lparr>hW := u\<rparr>" and ?h2 = "h\<lparr>hW := u', hPhase := Reading (reloadFiles r) []\<rparr>"
  have 1: "(hot_step Y absf r)\<^sup>*\<^sup>* h ?h1" by (rule quiet_steps [OF u(1) refl])
  have 2: "hot_step Y absf r ?h1 (?h1\<lparr>hW := u', hPhase := Reading (reloadFiles r) []\<rparr>)"
    by (rule hot_step.begins) (use assms(1) u'(1,2) u(4) in simp_all)
  obtain h' where 3: "(hot_step Y absf r)\<^sup>*\<^sup>* ?h2 h'" "hPhase h' = Idle" "hFs h' = hFs h" "hQueue h' = hQueue h" "hW h' = u'"
    using finish_reading [of ?h2 "reloadFiles r" "[]" Y absf r] by auto
  have "(hot_step Y absf r)\<^sup>*\<^sup>* h ?h2" using rtranclp.rtrancl_into_rtrancl [of "hot_step Y absf r", OF 1 2] by simp
  then have "(hot_step Y absf r)\<^sup>*\<^sup>* h h'" using 3(1) by (rule rtranclp_trans)
  then show ?thesis using 3(2-5) u'(3) by (intro exI [of _ h'] conjI) simp_all
qed



section \<open>A file that is only referenced\<close>

definition yaml_file :: schema_reloader where
  "yaml_file = newSchemaReloader (\<lambda>_. Ok ()) [''/s/y.yaml'']"

definition yaml_fw :: fw where
  "yaml_fw = sample_fw\<lparr>fwFiles := [''/s/y.yaml''], fwAbsFiles := [''/s/y.yaml''], fwWatched := [''/s/y.yaml'']\<rparr>"

definition yaml_fs :: "string \<Rightarrow> file_system" where
  "yaml_fs text p = (if p = ''/s/y.yaml'' then Ok ''b.zed'' else if p = ''/s/b.zed'' then Ok text else Err ErrNotFound)"

lemma yaml_file_watched: "watches (\<lambda>p. p) yaml_file yaml_fw"
proof -
  have "newFileWatcher (Ok ()) (\<lambda>f. Ok f) (reloadFiles yaml_file) 500 = Ok (yaml_fw\<lparr>fwLoop := False, fwWatched := []\<rparr>)"
    by (simp add: newFileWatcher_def yaml_file_def newSchemaReloader_def yaml_fw_def sample_fw_def)
  moreover have "fw_Start (\<lambda>_. True) (\<lambda>_. Ok ()) (yaml_fw\<lparr>fwLoop := False, fwWatched := []\<rparr>) = (yaml_fw, Ok ())"
    by (simp add: fw_Start_def yaml_fw_def sample_fw_def)
  ultimately show ?thesis unfolding watches_def by blast
qed

lemma yaml_reads:
  "read_parts plain_yaml (yaml_fs ''definition a {}'') (reloadFiles yaml_file) [] = Ok [''definition a {}'']"
  "read_parts plain_yaml (yaml_fs ''definition b {}'') (reloadFiles yaml_file) [] = Ok [''definition b {}'']"
  by code_simp+


end
