(* ===== verification/Sql_Options.thy ===== *)
theory Sql_Options
  imports Sql_Schema
begin

text \<open>
  \<open>common/zz_generated.schema_options.go\<close>: the functional options a SQL datastore builds its schema
  information with. An option is a function on the record; the defaults of the tags and the rendering of
  a value for debugging belong to libraries.
\<close>

section \<open>Options\<close>

type_synonym schema_option = "schema_information \<Rightarrow> schema_information"

text \<open>A new record holds Go's zero values.\<close>

definition zero_schema :: schema_information where
  "zero_schema = \<lparr>relationshipTableName = [], colNamespace = [], colObjectID = [], colRelation = [],
     colUsersetNamespace = [], colUsersetObjectID = [], colUsersetRelation = [], colCaveatName = [],
     colCaveatContext = [], colExpiration = [], colIntegrityKeyID = [], colIntegrityHash = [],
     colIntegrityTimestamp = [], indexes = [], paginationFilterType = PaginationFilterTypeUnknown,
     schPlaceholderFormat = None, nowFunction = [], columnOptimization = ColumnOptimizationOptionUnknown,
     schIntegrityEnabled = False, expirationDisabled = False, sortByResourceColumnOrder = [],
     sortBySubjectColumnOrder = []\<rparr>"

definition schemaInformationWithOptions :: "schema_information \<Rightarrow> schema_option list \<Rightarrow> schema_information" where
  "schemaInformationWithOptions s opts = foldl (\<lambda>s opt. opt s) s opts"

definition schemaWithOptions :: "schema_information \<Rightarrow> schema_option list \<Rightarrow> schema_information" where
  "schemaWithOptions s opts = foldl (\<lambda>s opt. opt s) s opts"

definition newSchemaInformationWithOptions :: "schema_option list \<Rightarrow> schema_information" where
  "newSchemaInformationWithOptions opts = foldl (\<lambda>s opt. opt s) zero_schema opts"

definition newSchemaInformationWithOptionsAndDefaults ::
    "(schema_information \<Rightarrow> schema_information) \<Rightarrow> schema_option list \<Rightarrow> schema_information" where
  "newSchemaInformationWithOptionsAndDefaults setDefaults opts = foldl (\<lambda>s opt. opt s) (setDefaults zero_schema) opts"

definition toOption :: "schema_information \<Rightarrow> schema_option" where
  "toOption s to = to\<lparr>relationshipTableName := relationshipTableName s, colNamespace := colNamespace s,
     colObjectID := colObjectID s, colRelation := colRelation s,
     colUsersetNamespace := colUsersetNamespace s, colUsersetObjectID := colUsersetObjectID s,
     colUsersetRelation := colUsersetRelation s, colCaveatName := colCaveatName s,
     colCaveatContext := colCaveatContext s, colExpiration := colExpiration s,
     colIntegrityKeyID := colIntegrityKeyID s, colIntegrityHash := colIntegrityHash s,
     colIntegrityTimestamp := colIntegrityTimestamp s, indexes := indexes s,
     paginationFilterType := paginationFilterType s, schPlaceholderFormat := schPlaceholderFormat s,
     nowFunction := nowFunction s, columnOptimization := columnOptimization s,
     schIntegrityEnabled := schIntegrityEnabled s, expirationDisabled := expirationDisabled s,
     sortByResourceColumnOrder := sortByResourceColumnOrder s,
     sortBySubjectColumnOrder := sortBySubjectColumnOrder s\<rparr>"

definition withRelationshipTableName :: "string \<Rightarrow> schema_option" where
  "withRelationshipTableName v s = s\<lparr>relationshipTableName := v\<rparr>"

definition withColNamespace :: "string \<Rightarrow> schema_option" where
  "withColNamespace v s = s\<lparr>colNamespace := v\<rparr>"

definition withColObjectID :: "string \<Rightarrow> schema_option" where
  "withColObjectID v s = s\<lparr>colObjectID := v\<rparr>"

definition withColRelation :: "string \<Rightarrow> schema_option" where
  "withColRelation v s = s\<lparr>colRelation := v\<rparr>"

definition withColUsersetNamespace :: "string \<Rightarrow> schema_option" where
  "withColUsersetNamespace v s = s\<lparr>colUsersetNamespace := v\<rparr>"

definition withColUsersetObjectID :: "string \<Rightarrow> schema_option" where
  "withColUsersetObjectID v s = s\<lparr>colUsersetObjectID := v\<rparr>"

definition withColUsersetRelation :: "string \<Rightarrow> schema_option" where
  "withColUsersetRelation v s = s\<lparr>colUsersetRelation := v\<rparr>"

definition withColCaveatName :: "string \<Rightarrow> schema_option" where
  "withColCaveatName v s = s\<lparr>colCaveatName := v\<rparr>"

definition withColCaveatContext :: "string \<Rightarrow> schema_option" where
  "withColCaveatContext v s = s\<lparr>colCaveatContext := v\<rparr>"

definition withColExpiration :: "string \<Rightarrow> schema_option" where
  "withColExpiration v s = s\<lparr>colExpiration := v\<rparr>"

definition withColIntegrityKeyID :: "string \<Rightarrow> schema_option" where
  "withColIntegrityKeyID v s = s\<lparr>colIntegrityKeyID := v\<rparr>"

definition withColIntegrityHash :: "string \<Rightarrow> schema_option" where
  "withColIntegrityHash v s = s\<lparr>colIntegrityHash := v\<rparr>"

definition withColIntegrityTimestamp :: "string \<Rightarrow> schema_option" where
  "withColIntegrityTimestamp v s = s\<lparr>colIntegrityTimestamp := v\<rparr>"

definition withIndexes :: "index_definition \<Rightarrow> schema_option" where
  "withIndexes v s = s\<lparr>indexes := indexes s @ [v]\<rparr>"

definition setIndexes :: "index_definition list \<Rightarrow> schema_option" where
  "setIndexes v s = s\<lparr>indexes := v\<rparr>"

definition withPaginationFilterType :: "pagination_filter_type \<Rightarrow> schema_option" where
  "withPaginationFilterType v s = s\<lparr>paginationFilterType := v\<rparr>"

definition withPlaceholderFormat :: "opaque option \<Rightarrow> schema_option" where
  "withPlaceholderFormat v s = s\<lparr>schPlaceholderFormat := v\<rparr>"

definition withNowFunction :: "string \<Rightarrow> schema_option" where
  "withNowFunction v s = s\<lparr>nowFunction := v\<rparr>"

definition withColumnOptimization :: "column_optimization \<Rightarrow> schema_option" where
  "withColumnOptimization v s = s\<lparr>columnOptimization := v\<rparr>"

definition withIntegrityEnabled :: "bool \<Rightarrow> schema_option" where
  "withIntegrityEnabled v s = s\<lparr>schIntegrityEnabled := v\<rparr>"

definition withExpirationDisabled :: "bool \<Rightarrow> schema_option" where
  "withExpirationDisabled v s = s\<lparr>expirationDisabled := v\<rparr>"

definition withSortByResourceColumnOrder :: "string \<Rightarrow> schema_option" where
  "withSortByResourceColumnOrder v s = s\<lparr>sortByResourceColumnOrder := sortByResourceColumnOrder s @ [v]\<rparr>"

definition setSortByResourceColumnOrder :: "string list \<Rightarrow> schema_option" where
  "setSortByResourceColumnOrder v s = s\<lparr>sortByResourceColumnOrder := v\<rparr>"

definition withSortBySubjectColumnOrder :: "string \<Rightarrow> schema_option" where
  "withSortBySubjectColumnOrder v s = s\<lparr>sortBySubjectColumnOrder := sortBySubjectColumnOrder s @ [v]\<rparr>"

definition setSortBySubjectColumnOrder :: "string list \<Rightarrow> schema_option" where
  "setSortBySubjectColumnOrder v s = s\<lparr>sortBySubjectColumnOrder := v\<rparr>"

section \<open>The map for debugging\<close>

datatype debug_input =
    DebugString string | DebugStrings "string list" | DebugIndexes "index_definition list" | DebugBool bool
  | DebugFilterType pagination_filter_type | DebugPlaceholder "opaque option" | DebugOptimization column_optimization

definition debugMap :: "(debug_input \<Rightarrow> bool \<Rightarrow> 'v) \<Rightarrow> schema_information \<Rightarrow> (string \<times> 'v) list" where
  "debugMap debugValue s = [
     (''RelationshipTableName'', debugValue (DebugString (relationshipTableName s)) False),
     (''ColNamespace'', debugValue (DebugString (colNamespace s)) False),
     (''ColObjectID'', debugValue (DebugString (colObjectID s)) False),
     (''ColRelation'', debugValue (DebugString (colRelation s)) False),
     (''ColUsersetNamespace'', debugValue (DebugString (colUsersetNamespace s)) False),
     (''ColUsersetObjectID'', debugValue (DebugString (colUsersetObjectID s)) False),
     (''ColUsersetRelation'', debugValue (DebugString (colUsersetRelation s)) False),
     (''ColCaveatName'', debugValue (DebugString (colCaveatName s)) False),
     (''ColCaveatContext'', debugValue (DebugString (colCaveatContext s)) False),
     (''ColExpiration'', debugValue (DebugString (colExpiration s)) False),
     (''ColIntegrityKeyID'', debugValue (DebugString (colIntegrityKeyID s)) False),
     (''ColIntegrityHash'', debugValue (DebugString (colIntegrityHash s)) False),
     (''ColIntegrityTimestamp'', debugValue (DebugString (colIntegrityTimestamp s)) False),
     (''Indexes'', debugValue (DebugIndexes (indexes s)) False),
     (''PaginationFilterType'', debugValue (DebugFilterType (paginationFilterType s)) False),
     (''PlaceholderFormat'', debugValue (DebugPlaceholder (schPlaceholderFormat s)) False),
     (''NowFunction'', debugValue (DebugString (nowFunction s)) False),
     (''ColumnOptimization'', debugValue (DebugOptimization (columnOptimization s)) False),
     (''IntegrityEnabled'', debugValue (DebugBool (schIntegrityEnabled s)) False),
     (''ExpirationDisabled'', debugValue (DebugBool (expirationDisabled s)) False),
     (''SortByResourceColumnOrder'', debugValue (DebugStrings (sortByResourceColumnOrder s)) False),
     (''SortBySubjectColumnOrder'', debugValue (DebugStrings (sortBySubjectColumnOrder s)) False)]"

lemma debugMap_keys: "distinct (map fst (debugMap f s))"
  by (simp add: debugMap_def)

section \<open>What options do\<close>

lemmas schema_option_defs =
  withRelationshipTableName_def withColNamespace_def withColObjectID_def withColRelation_def
  withColUsersetNamespace_def withColUsersetObjectID_def withColUsersetRelation_def
  withColCaveatName_def withColCaveatContext_def withColExpiration_def withColIntegrityKeyID_def
  withColIntegrityHash_def withColIntegrityTimestamp_def withPaginationFilterType_def
  withPlaceholderFormat_def withNowFunction_def withColumnOptimization_def withIntegrityEnabled_def
  withExpirationDisabled_def

text \<open>\<open>ToOption\<close> misses no field: it makes any record equal to the one it was taken from.\<close>

lemma toOption_restores: "toOption s t = s"
  by (cases s; cases t) (simp add: toOption_def)

lemma options_append:
  "schemaInformationWithOptions s (opts @ opts') = schemaInformationWithOptions (schemaInformationWithOptions s opts) opts'"
  by (simp add: schemaInformationWithOptions_def)

lemma toOption_last: "newSchemaInformationWithOptions (opts @ [toOption s]) = s"
  by (simp add: newSchemaInformationWithOptions_def toOption_restores)

text \<open>One option for every field, in the order of the fields.\<close>

definition all_options :: "schema_information \<Rightarrow> schema_option list" where
  "all_options s = [withRelationshipTableName (relationshipTableName s), withColNamespace (colNamespace s),
     withColObjectID (colObjectID s), withColRelation (colRelation s),
     withColUsersetNamespace (colUsersetNamespace s), withColUsersetObjectID (colUsersetObjectID s),
     withColUsersetRelation (colUsersetRelation s), withColCaveatName (colCaveatName s),
     withColCaveatContext (colCaveatContext s), withColExpiration (colExpiration s),
     withColIntegrityKeyID (colIntegrityKeyID s), withColIntegrityHash (colIntegrityHash s),
     withColIntegrityTimestamp (colIntegrityTimestamp s),
     withPaginationFilterType (paginationFilterType s), withPlaceholderFormat (schPlaceholderFormat s),
     withNowFunction (nowFunction s), withColumnOptimization (columnOptimization s),
     withIntegrityEnabled (schIntegrityEnabled s), withExpirationDisabled (expirationDisabled s)] @
     map withIndexes (indexes s) @ map withSortByResourceColumnOrder (sortByResourceColumnOrder s) @
     map withSortBySubjectColumnOrder (sortBySubjectColumnOrder s)"

lemma append_options:
  "foldl (\<lambda>s opt. opt s) s (map withIndexes is) = s\<lparr>indexes := indexes s @ is\<rparr>"
  "foldl (\<lambda>s opt. opt s) s (map withSortByResourceColumnOrder cs) = s\<lparr>sortByResourceColumnOrder := sortByResourceColumnOrder s @ cs\<rparr>"
  "foldl (\<lambda>s opt. opt s) s (map withSortBySubjectColumnOrder cs) = s\<lparr>sortBySubjectColumnOrder := sortBySubjectColumnOrder s @ cs\<rparr>"
proof -
  show "foldl (\<lambda>s opt. opt s) s (map withIndexes is) = s\<lparr>indexes := indexes s @ is\<rparr>"
    by (induction "is" arbitrary: s) (simp_all add: withIndexes_def)
  show "foldl (\<lambda>s opt. opt s) s (map withSortByResourceColumnOrder cs) =
      s\<lparr>sortByResourceColumnOrder := sortByResourceColumnOrder s @ cs\<rparr>"
    by (induction cs arbitrary: s) (simp_all add: withSortByResourceColumnOrder_def)
  show "foldl (\<lambda>s opt. opt s) s (map withSortBySubjectColumnOrder cs) =
      s\<lparr>sortBySubjectColumnOrder := sortBySubjectColumnOrder s @ cs\<rparr>"
    by (induction cs arbitrary: s) (simp_all add: withSortBySubjectColumnOrder_def)
qed

text \<open>
  Every record can be built from options: one option for each field, appending the elements of the
  lists one by one, makes it out of an empty one, and the option taken from a record restores it whatever was
  set before. No option and no field is missing in the generated code.
\<close>

theorem options_rebuild:
  "newSchemaInformationWithOptions (all_options s) = s \<and> newSchemaInformationWithOptions (opts @ [toOption s]) = s"
proof -
  have "newSchemaInformationWithOptions (all_options s) = s"
    by (cases s) (simp add: newSchemaInformationWithOptions_def all_options_def schema_option_defs append_options
        zero_schema_def)
  then show ?thesis by (simp add: toOption_last)
qed

end
