(* ===== verification/Revision_Order.thy ===== *)
theory Revision_Order
  imports Revisions
begin

text \<open>
  \<open>ByteSortable\<close> of the three kinds of revision (\<open>revisions/*revision.go\<close>): it promises that sorting the strings
  of revisions byte by byte sorts the revisions, which \<open>TestRevisionByteSortable\<close> checks on numbers of one
  digit. The promise is kept exactly among numbers that are printed with the same number of digits.
\<close>

section \<open>Definitions\<close>

definition ts_ByteSortable :: "int \<Rightarrow> bool" where
  "ts_ByteSortable ir \<longleftrightarrow> True"

definition tx_ByteSortable :: "64 word \<Rightarrow> bool" where
  "tx_ByteSortable ir \<longleftrightarrow> True"

definition hlc_ByteSortable :: "hlc_revision \<Rightarrow> bool" where
  "hlc_ByteSortable hlc \<longleftrightarrow> True"

text \<open>\<open>bytes.Compare\<close> gives a negative result.\<close>

fun bytes_less :: "string \<Rightarrow> string \<Rightarrow> bool" where
  "bytes_less xs [] \<longleftrightarrow> False"
| "bytes_less [] (y # ys) \<longleftrightarrow> True"
| "bytes_less (x # xs) (y # ys) \<longleftrightarrow> (of_char x :: nat) < of_char y \<or> x = y \<and> bytes_less xs ys"

section \<open>Comparing strings of one length\<close>

lemma bytes_less_irrefl [simp]: "\<not> bytes_less xs xs"
  by (induction xs) simp_all

lemma bytes_less_append:
  "length xs = length ys \<Longrightarrow> bytes_less (xs @ zs) (ys @ ws) \<longleftrightarrow> bytes_less xs ys \<or> xs = ys \<and> bytes_less zs ws"
  by (induction xs ys rule: list_induct2) auto

lemma bytes_less_same [simp]: "bytes_less (xs @ ys) (xs @ zs) \<longleftrightarrow> bytes_less ys zs"
  by (induction xs) simp_all

text \<open>The last \<open>k\<close> digits of a number.\<close>

fun low_digits :: "nat \<Rightarrow> nat \<Rightarrow> string" where
  "low_digits 0 n = []"
| "low_digits (Suc k) n = low_digits k (n div 10) @ [digit_char (n mod 10)]"

lemma length_low_digits [simp]: "length (low_digits k n) = k"
  by (induction k arbitrary: n) simp_all

lemma digit_char_eq: "a < 10 \<Longrightarrow> b < 10 \<Longrightarrow> digit_char a = digit_char b \<longleftrightarrow> a = b"
  using digit_val_digit_char by (metis option.inject)

lemma low_digits_zero: "low_digits k 0 = replicate k (CHR ''0'')"
  by (induction k) (simp_all add: digit_char_0 replicate_append_same)

lemma low_digits_order:
  "m < 10 ^ k \<Longrightarrow> n < 10 ^ k \<Longrightarrow>
     (bytes_less (low_digits k m) (low_digits k n) \<longleftrightarrow> m < n) \<and> (low_digits k m = low_digits k n \<longleftrightarrow> m = n)"
proof (induction k arbitrary: m n)
  case 0
  then show ?case by simp
next
  case (Suc k)
  have small: "m div 10 < 10 ^ k" "n div 10 < 10 ^ k"
    using Suc.prems by (simp_all add: less_mult_imp_div_less mult.commute)
  note IH = Suc.IH [OF small]
  have d: "of_char (digit_char (i mod 10)) = 48 + (i mod 10 :: nat)" for i
    by (rule of_char_digit_char) simp
  have m: "m = 10 * (m div 10) + m mod 10" and n: "n = 10 * (n div 10) + n mod 10" by simp_all
  have b: "m mod 10 < 10" "n mod 10 < 10" by simp_all
  have lt: "m div 10 < n div 10 \<or> m div 10 = n div 10 \<and> m mod 10 < n mod 10 \<longleftrightarrow> m < n" using m n b by linarith
  have eq: "m div 10 = n div 10 \<and> m mod 10 = n mod 10 \<longleftrightarrow> m = n" using m n by metis
  have "bytes_less (low_digits (Suc k) m) (low_digits (Suc k) n) \<longleftrightarrow>
      m div 10 < n div 10 \<or> m div 10 = n div 10 \<and> m mod 10 < n mod 10"
    using IH by (simp add: bytes_less_append d)
  moreover have "low_digits (Suc k) m = low_digits (Suc k) n \<longleftrightarrow> m div 10 = n div 10 \<and> m mod 10 = n mod 10"
    using IH by (simp add: digit_char_eq)
  ultimately show ?case unfolding lt eq by blast
qed

lemma format_nat_low: "n < 10 ^ k \<Longrightarrow> 0 < k \<Longrightarrow> replicate (k - length (format_nat n)) (CHR ''0'') @ format_nat n = low_digits k n"
proof (induction k arbitrary: n)
  case (Suc k)
  show ?case
  proof (cases "n < 10")
    case True
    then show ?thesis by (simp add: format_nat.simps [of n] low_digits_zero)
  next
    case False
    with Suc.prems have "n div 10 < 10 ^ k" and "0 < k"
      by (auto intro: Nat.gr0I simp: less_mult_imp_div_less mult.commute)
    from Suc.IH [OF this] False show ?thesis by (simp add: format_nat.simps [of n] flip: append_assoc)
  qed
qed simp

lemma format_nat_small: "n < 10 ^ length (format_nat n)"
proof (induction n rule: format_nat.induct)
  case (1 n)
  show ?case
  proof (cases "n < 10")
    case True
    then show ?thesis by (simp add: format_nat.simps [of n])
  next
    case False
    then show ?thesis using "1.IH" by (simp add: format_nat.simps [of n])
  qed
qed

lemma format_nat_order:
  assumes "length (format_nat m) = length (format_nat n)"
  shows "bytes_less (format_nat m) (format_nat n) \<longleftrightarrow> m < n" and "format_nat m = format_nat n \<longleftrightarrow> m = n"
proof -
  let ?k = "length (format_nat m)"
  have k: "m < 10 ^ ?k" "n < 10 ^ ?k" "0 < ?k" using format_nat_small [of m] format_nat_small [of n] assms by simp_all
  have "format_nat m = low_digits ?k m" "format_nat n = low_digits ?k n"
    using format_nat_low [OF k(1,3)] format_nat_low [OF k(2,3)] assms by simp_all
  then show "bytes_less (format_nat m) (format_nat n) \<longleftrightarrow> m < n" "format_nat m = format_nat n \<longleftrightarrow> m = n"
    using low_digits_order [OF k(1,2)] by simp_all
qed

lemma format_int_order:
  assumes "0 \<le> s" and "0 \<le> t" and "length (format_int s) = length (format_int t)"
  shows "bytes_less (format_int s) (format_int t) \<longleftrightarrow> s < t" and "format_int s = format_int t \<longleftrightarrow> s = t"
  using format_nat_order [of "nat s" "nat t"] assms by (auto simp: format_int_def)

section \<open>The order of the strings of revisions\<close>

lemma hlc_strings:
  assumes "off \<le> logicalclock h"
  shows "hlc_String off h = Ok (format_int (hlcTime h) @ ''.'' @
    low_digits logicalClockLength (unat (logicalclock h) - unat off))"
proof -
  have "unat (logicalclock h) - unat off < 10 ^ logicalClockLength"
    using unsigned_less [where 'a = nat, of "logicalclock h"] by (simp add: logicalClockLength_def)
  from format_nat_low [OF this] show ?thesis
    by (simp add: hlc_String_no_wrap [OF assms] hlc_canonical_def logicalClockLength_def)
qed

theorem revision_strings_sort:
  assumes "0 \<le> t" and "0 \<le> t'" and "length (ts_String t) = length (ts_String t')"
    and "length (tx_String x) = length (tx_String x')"
    and "0 \<le> hlcTime h" and "0 \<le> hlcTime h'" and "length (ts_String (hlcTime h)) = length (ts_String (hlcTime h'))"
    and "off \<le> logicalclock h" and "off \<le> logicalclock h'"
  shows "ts_LessThan t (TimestampRev t') = Ok (bytes_less (ts_String t) (ts_String t')) \<and>
    tx_LessThan x (TransactionIDRev x') = Ok (bytes_less (tx_String x) (tx_String x')) \<and>
    (\<exists>s s'. hlc_String off h = Ok s \<and> hlc_String off h' = Ok s' \<and> hlc_LessThan h (hlc_rev h') = Ok (bytes_less s s'))"
proof (intro conjI)
  show "ts_LessThan t (TimestampRev t') = Ok (bytes_less (ts_String t) (ts_String t'))"
    using format_int_order [of t t'] assms(1-3) by (simp add: ts_compare_defs ts_String_def)
  show "tx_LessThan x (TransactionIDRev x') = Ok (bytes_less (tx_String x) (tx_String x'))"
    using format_nat_order [of "unat x" "unat x'"] assms(4) by (simp add: tx_compare_defs tx_String_def word_less_nat_alt)
  let ?L = "unat (logicalclock h) - unat off" and ?L' = "unat (logicalclock h') - unat off"
  have small: "?L < 10 ^ logicalClockLength" "?L' < 10 ^ logicalClockLength"
    using unsigned_less [where 'a = nat, of "logicalclock h"] unsigned_less [where 'a = nat, of "logicalclock h'"]
    by (simp_all add: logicalClockLength_def)
  have len: "length (format_int (hlcTime h)) = length (format_int (hlcTime h'))" using assms(7) by (simp add: ts_String_def)
  have counters: "?L < ?L' \<longleftrightarrow> logicalclock h < logicalclock h'"
    using assms(8,9) by (auto simp: word_less_nat_alt word_le_nat_alt)
  have "bytes_less (format_int (hlcTime h) @ ''.'' @ low_digits logicalClockLength ?L)
      (format_int (hlcTime h') @ ''.'' @ low_digits logicalClockLength ?L') \<longleftrightarrow>
    hlcTime h < hlcTime h' \<or> hlcTime h = hlcTime h' \<and> logicalclock h < logicalclock h'"
    using low_digits_order [OF small] format_int_order [OF assms(5,6) len] counters
    by (simp add: bytes_less_append [OF len])
  then show "\<exists>s s'. hlc_String off h = Ok s \<and> hlc_String off h' = Ok s' \<and> hlc_LessThan h (hlc_rev h') = Ok (bytes_less s s')"
    by (simp add: hlc_strings [OF assms(8)] hlc_strings [OF assms(9)] hlc_compare_defs)
qed

theorem revision_strings_sort_witness:
  "tx_LessThan 41 (TransactionIDRev 42) = Ok (bytes_less ''41'' ''42'') \<and> bytes_less ''41'' ''42'' \<and>
   (\<exists>s s'. hlc_String 1215752192 \<lparr>hlcTime = 5, logicalclock = 1215752195\<rparr> = Ok s \<and>
      hlc_String 1215752192 \<lparr>hlcTime = 5, logicalclock = 1215752295\<rparr> = Ok s' \<and> bytes_less s s')"
proof -
  let ?h = "\<lparr>hlcTime = 5, logicalclock = 1215752195\<rparr>" and ?h' = "\<lparr>hlcTime = 5, logicalclock = 1215752295\<rparr>"
  have o: "(1215752192 :: 32 word) \<le> logicalclock ?h" "(1215752192 :: 32 word) \<le> logicalclock ?h'"
    "0 \<le> hlcTime ?h" "0 \<le> hlcTime ?h'" "length (ts_String (hlcTime ?h)) = length (ts_String (hlcTime ?h'))" by simp_all
  have s: "tx_String 41 = ''41''" "tx_String 42 = ''42''" by code_simp+
  then have l: "length (tx_String 41) = length (tx_String 42)" by simp
  note R = revision_strings_sort [of 7 7, OF _ _ _ l o(3-5) o(1,2)]
  have "tx_LessThan 41 (TransactionIDRev 42) = Ok (bytes_less ''41'' ''42'')" using R s by simp
  moreover have "bytes_less ''41'' ''42''" by code_simp
  moreover have "hlc_LessThan ?h (hlc_rev ?h') = Ok True" by (simp add: hlc_compare_defs)
  ultimately show ?thesis using R by auto
qed

text \<open>Of numbers with another number of digits the shorter one can come second.\<close>

theorem byte_order_fails:
  "(ts_ByteSortable 9 \<and> ts_ByteSortable 10 \<and> ts_LessThan 9 (TimestampRev 10) = Ok True \<and>
     bytes_less (ts_String 10) (ts_String 9)) \<and>
   (tx_ByteSortable 9 \<and> tx_ByteSortable 10 \<and> tx_LessThan 9 (TransactionIDRev 10) = Ok True \<and>
     bytes_less (tx_String 10) (tx_String 9)) \<and>
   (let h = \<lparr>hlcTime = 9, logicalclock = 1215752192\<rparr>; h' = \<lparr>hlcTime = 10, logicalclock = 1215752192\<rparr>
    in hlc_ByteSortable h \<and> hlc_ByteSortable h' \<and> hlc_LessThan h (hlc_rev h') = Ok True \<and>
       hlc_String 1215752192 h = Ok ''9.0000000000'' \<and> hlc_String 1215752192 h' = Ok ''10.0000000000'' \<and>
       bytes_less ''10.0000000000'' ''9.0000000000'')"
proof (intro conjI)
  show "bytes_less (ts_String 10) (ts_String 9)" by code_simp
  show "bytes_less (tx_String 10) (tx_String 9)" by code_simp
  have "hlc_String 1215752192 \<lparr>hlcTime = 9, logicalclock = 1215752192\<rparr> = Ok ''9.0000000000''"
    "hlc_String 1215752192 \<lparr>hlcTime = 10, logicalclock = 1215752192\<rparr> = Ok ''10.0000000000''" by code_simp+
  then show "let h = \<lparr>hlcTime = 9, logicalclock = 1215752192\<rparr>; h' = \<lparr>hlcTime = 10, logicalclock = 1215752192\<rparr>
    in hlc_ByteSortable h \<and> hlc_ByteSortable h' \<and> hlc_LessThan h (hlc_rev h') = Ok True \<and>
       hlc_String 1215752192 h = Ok ''9.0000000000'' \<and> hlc_String 1215752192 h' = Ok ''10.0000000000'' \<and>
       bytes_less ''10.0000000000'' ''9.0000000000''"
    by (simp add: Let_def hlc_ByteSortable_def hlc_compare_defs)
qed (simp_all add: ts_ByteSortable_def tx_ByteSortable_def ts_compare_defs tx_compare_defs)

end
