(* ===== verification/Spec2Isabelle.thy ===== *)
theory Spec2Isabelle
  imports Revision_Clock Memdb_Revisions Memdb_Watch Chunk_Bytes Sql_Engine Server_Health Server_Locks Telemetry
    Usage_Metrics Hot_Reload Sql_Options Revision_Order
begin

text \<open>
  A verification library for \<open>embedspicedb\<close>, which runs a SpiceDB server inside a Go process. The
  program's own logic is its storage: the in-memory datastore (\<open>internal/datastore/memdb\<close>), the code
  it shares with the SQL datastores (\<open>internal/datastore/common\<close>) and the revisions that name the
  states of a datastore (\<open>internal/datastore/revisions\<close>); and the life of the server around it: its
  configuration, start and stop, the hot reload of schema files, health checks and telemetry.

  The parts and their theories, in the order in which they are built:

  \<^item> \<open>Go_Prelude\<close> and \<open>Go_Strconv\<close>: what the code uses of Go. An operation that returns a value and
    an error is a value of a sum type (\<open>Ok\<close>, \<open>Err\<close>), a panic is the error \<open>Panic\<close>, an operation that
    waits for ever the error \<open>Blocks\<close>; machine integers are \<open>int\<close> with the wrap-around written out
    (\<open>i64\<close>) or words; a Go map is an association list with distinct keys (\<open>gm_put\<close>, \<open>gm_del\<close>);
    \<open>sort.Search\<close>, sorting, and the parsing and printing of numbers are given with their loops.
  \<^item> \<open>Spice_Types\<close>: the data that crosses the boundary to SpiceDB's library: relationships, filters,
    query options, definitions, changes, errors. What the library computes (marshalling, caveat
    contexts, sizes of messages) is the record \<open>spice_lib\<close>, an argument of the definitions.
  \<^item> \<open>Revisions\<close> (\<open>revisions/*revision.go\<close>): the three kinds of revision with their order, their string
    forms and the decoder; \<open>Revision_Order\<close>: when sorting the strings sorts the revisions;
    \<open>Revision_Clock\<close> (\<open>optimized.go\<close>, \<open>remoteclock.go\<close>): the cache of optimized
    revisions and the quantized revision of the SQL datastores.
  \<^item> \<open>Changes\<close> (\<open>common/changes.go\<close>, \<open>common/transaction_metadata.go\<close>): the tracker that collects the
    changes of a revision, its invariant, and that what it emits is exactly the net effect of what was
    recorded.
  \<^item> \<open>Memdb_Iface\<close> (\<open>memdb/schema.go\<close>): the rows, their conversions, and the locale \<open>memdb_store\<close>: what
    the documentation of go-memdb promises of a transaction on those tables. It is interpreted on an
    executable store (\<open>ref_store\<close>).
  \<^item> \<open>Memdb_Read\<close> (\<open>readonly.go\<close>, \<open>caveat.go\<close>) and \<open>Memdb_Write\<close> (\<open>readwrite.go\<close>, \<open>caveat.go\<close>): one
    definition per operation. \<open>Memdb_Store\<close> proves that the relationship table is a map from
    identities to relationships: writes are map updates, reads are selections sorted and cut as the
    options say, pages concatenate. \<open>Memdb_Defs\<close> does the same for namespaces, caveats, counters and
    the bulk loader.
  \<^item> \<open>Memdb_Datastore\<close> (\<open>memdb.go\<close>, \<open>revisions.go\<close>): the state of the datastore (its revisions, a heap of
    databases that snapshots share, the open write transaction), and one attempt of a read-write
    transaction; \<open>Memdb_Txn\<close>: user functions as programs of calls, the retry loop, \<open>Close\<close>.
  \<^item> \<open>Memdb_Atomic\<close>, \<open>Memdb_Changelog\<close>, \<open>Memdb_Commit\<close>: every call keeps the database well formed (the
    locale \<open>memdb_db\<close> adds begin and commit to the contract of go-memdb), a transaction is all or
    nothing, the changelog entry it leaves replays to the state it committed.
  \<^item> \<open>Memdb_Revisions\<close>: the order of new revisions, the window of valid ones, which snapshot a reader
    gets, what is left after \<open>Close\<close>. \<open>Memdb_Concurrent\<close>: several callers at once, as a step relation
    over the critical sections; its invariant, and how it is lost.
  \<^item> \<open>Memdb_Watch\<close> (\<open>watch.go\<close>, \<open>stats.go\<close>, \<open>errors.go\<close>): the change feed as a state machine over its two
    channels: what a load returns, that a watcher delivers every change once and in order while
    revisions grow, and which changes it loses when they do not.
  \<^item> \<open>Chunk_Bytes\<close> (\<open>common/chunkbytes.go\<close>): byte strings cut into the rows of a SQL table. The statements
    are data, the executor that runs them is a parameter under the locale \<open>chunk_table\<close>, interpreted on
    an executable table; what is written reads back, what is deleted does not.
  \<^item> \<open>Sql_Schema\<close> (\<open>common/schema.go\<close>, \<open>index.go\<close>), \<open>Sql_Filter\<close> and \<open>Sql_Query\<close> (\<open>common/sql.go\<close>,
    \<open>relationships.go\<close>): the query builder of the SQL datastores, from filters and a cursor to the clauses
    and columns of a statement, and from its rows back to relationships. \<open>Sql_Semantics\<close> states what a clause
    means (\<open>sql_semantics\<close>, interpreted on an evaluator); \<open>Sql_Sound\<close> that every filter selects the rows it
    should and that a recorded column value is the value of all of them; \<open>Sql_Result\<close> that filters and cursors
    mean on rows what they mean on relationships; \<open>Sql_Read\<close> that rows read back; \<open>Sql_Engine\<close> that the whole
    path returns what the in-memory datastore returns. \<open>Sql_Options\<close> (\<open>zz_generated.schema_options.go\<close>): the
    generated options, from which every description of a table can be built.
  \<^item> \<open>Go_Paths\<close>: the functions of \<open>strings\<close> and \<open>path/filepath\<close> in use. \<open>Schema_Reload\<close>
    (\<open>internal/schema/reloader.go\<close>): which files a reload reads and what it sends; a YAML file cannot reach
    outside its directory. \<open>File_Watcher\<close> (\<open>internal/watch/watcher.go\<close>): the critical sections of the
    debounced watcher and the goroutines that run them; no accepted change is lost. \<open>Hot_Reload\<close>: both
    together, as \<open>Start\<close> puts them, on files that change at any time, also between the reads of one reload:
    with no work left the last reload is one of the files as they are, and the system always gets there; but
    a file that is only referenced by another is not watched.
  \<^item> \<open>Server_Config\<close> (\<open>config.go\<close>), \<open>Server_Life\<close> (\<open>server.go\<close>, \<open>internal/healthhttp\<close>) and
    \<open>Server_Health\<close> (\<open>health.go\<close>): the methods of the server on the record of its fields, with the datastore
    of the theories above as one of them: when \<open>New\<close> succeeds, what holds after any sequence of calls, the
    verdict of a health check, what is left to a server that is started again. \<open>Server_Locks\<close>: a hot reload
    against \<open>Stop\<close>, exactly when \<open>Stop\<close> can still return.
  \<^item> \<open>Gc\<close> (\<open>common/gc.go\<close>): one run of garbage collection by its calls, and the worker. \<open>Ds_Helpers\<close>: the
    errors and small helpers of \<open>common\<close>, with the atomic creation of a batch. \<open>Telemetry\<close>
    (\<open>internal/telemetry\<close>) and \<open>Usage_Metrics\<close> (\<open>internal/middleware/usagemetrics\<close>).

  Bounds and fuel: loops are structural recursions, except the retry loop, whose fuel is the code's
  own bound (\<open>numAttempts\<close>, ten rounds), so nothing is lost, and the dialling loop, which makes ten attempts
  (\<open>maxRetries\<close>). A worker that runs until its context ends is given the list of the outcomes it meets before
  that, of any length. Clock readings and random draws are
  arguments.

  Not modelled: contexts and their cancellation inside the datastore, the pause between retries, log
  and trace output (\<open>internal/logging\<close>, \<open>internal/telemetry/otelconv\<close>, which only names trace attributes), the
  values of Prometheus histograms; revisions as decimals of a library (\<open>AsDecimal\<close>, inexact floats); the
  callbacks that only tests set; the demo, which calls the server; text outside
  ASCII in paths and configuration; whatever SpiceDB, go-memdb and the SQL drivers do beyond
  the laws above.
\<close>

end
